(* ===== verification/Prelude.thy ===== *)
theory Prelude
  imports Main "HOL-Library.Word"
begin

text \<open>
  The shared base of the development: the machine integers of the ESP8266 (a 32-bit
  \<open>int\<close> and \<open>unsigned\<close>), the ways in which C code can go wrong as values of one error type,
  the error monad every fallible operation returns into, checked array access, loops that may
  fail, and two interfaces (as locales) that the components' state machines are instances of.
  The collections \<open>cmonad\<close> and \<open>carray\<close> carry the facts that most component proofs rewrite with.
\<close>

unbundle bit_operations_syntax

named_theorems cmonad \<open>evaluation of the error monad\<close>
named_theorems carray \<open>checked array access\<close>

type_synonym u8 = "8 word"
type_synonym u16 = "16 word"
type_synonym u32 = "32 word"
type_synonym bytes = "u8 list"

section \<open>Errors and the error monad\<close>

text \<open>
  What the C abstract machine leaves undefined (an access outside an object, a division by
  zero, a null pointer, an out-of-range conversion of a floating point value, a signed
  overflow or an oversized shift, a pointer converted to a type whose alignment its address has not,
  a read of a freed object) and what the code
  itself raises (\<open>luaL_error\<close> and the argument checks of the Lua API).
\<close>

datatype cerror =
    OutOfBounds nat
  | DivByZero
  | NullPointer
  | BadCast
  | Overflow
  | Misaligned
  | UseAfterFree
  | LuaError string

type_synonym 'a result = "cerror + 'a"

definition rbind :: "'a result \<Rightarrow> ('a \<Rightarrow> 'b result) \<Rightarrow> 'b result" where
  "rbind m f = (case m of Inl e \<Rightarrow> Inl e | Inr x \<Rightarrow> f x)"

definition guard_or :: "cerror \<Rightarrow> bool \<Rightarrow> unit result" where
  "guard_or e b = (if b then Inr () else Inl e)"

definition is_ok :: "'a result \<Rightarrow> bool" where
  "is_ok m = (case m of Inl _ \<Rightarrow> False | Inr _ \<Rightarrow> True)"

lemma rbind_Inl [simp, cmonad]: "rbind (Inl e) f = Inl e"
  by (simp add: rbind_def)

lemma rbind_Inr [simp, cmonad]: "rbind (Inr x) f = f x"
  by (simp add: rbind_def)

lemma rbind_eq_Inr: "rbind m f = Inr y \<longleftrightarrow> (\<exists>x. m = Inr x \<and> f x = Inr y)"
  by (cases m) auto

lemma rbind_eq_Inl: "rbind m f = Inl e \<longleftrightarrow> m = Inl e \<or> (\<exists>x. m = Inr x \<and> f x = Inl e)"
  by (cases m) auto

lemma rbind_assoc: "rbind (rbind m f) g = rbind m (\<lambda>x. rbind (f x) g)"
  by (cases m) auto

lemma rbind_Inr_right [simp]: "rbind m Inr = m"
  by (cases m) auto

lemma rbind_cong [fundef_cong]:
  "m = m' \<Longrightarrow> (\<And>x. m' = Inr x \<Longrightarrow> f x = f' x) \<Longrightarrow> rbind m f = rbind m' f'"
  by (cases m') auto

lemma guard_or_True [simp, cmonad]: "guard_or e True = Inr ()"
  by (simp add: guard_or_def)

lemma guard_or_False [simp, cmonad]: "guard_or e False = Inl e"
  by (simp add: guard_or_def)

lemma guard_or_eq_Inr [simp]: "guard_or e b = Inr x \<longleftrightarrow> b"
  by (simp add: guard_or_def)

lemma is_ok_simps [simp]: "is_ok (Inr x)" "\<not> is_ok (Inl e)"
  by (simp_all add: is_ok_def)

lemma is_ok_iff: "is_ok m \<longleftrightarrow> (\<exists>x. m = Inr x)"
  by (cases m) auto

text \<open>Following a pointer that may be \<open>NULL\<close>.\<close>

definition deref :: "'a option \<Rightarrow> 'a result" where
  "deref p = (case p of None \<Rightarrow> Inl NullPointer | Some x \<Rightarrow> Inr x)"

lemma deref_simps [simp, cmonad]: "deref None = Inl NullPointer" "deref (Some x) = Inr x"
  by (simp_all add: deref_def)

lemma deref_eq_Inr: "deref p = Inr x \<longleftrightarrow> p = Some x"
  by (cases p) auto

text \<open>Following a pointer to a block that may have been freed.\<close>

definition deref_block :: "'a option \<Rightarrow> 'a result" where
  "deref_block p = (case p of None \<Rightarrow> Inl UseAfterFree | Some x \<Rightarrow> Inr x)"

lemma deref_block_simps [simp, cmonad]: "deref_block None = Inl UseAfterFree" "deref_block (Some x) = Inr x"
  by (simp_all add: deref_block_def)

section \<open>Checked arrays\<close>

text \<open>
  An array object is a list; a read or a write at an index that is not below its length is
  the error \<open>OutOfBounds\<close>, never a silent value.
\<close>

definition arr_get :: "'a list \<Rightarrow> nat \<Rightarrow> 'a result" where
  "arr_get xs i = (if i < length xs then Inr (xs ! i) else Inl (OutOfBounds i))"

definition arr_set :: "'a list \<Rightarrow> nat \<Rightarrow> 'a \<Rightarrow> 'a list result" where
  "arr_set xs i v = (if i < length xs then Inr (xs[i := v]) else Inl (OutOfBounds i))"

lemma arr_get_in [simp, carray]: "i < length xs \<Longrightarrow> arr_get xs i = Inr (xs ! i)"
  by (simp add: arr_get_def)

lemma arr_get_out [simp, carray]: "length xs \<le> i \<Longrightarrow> arr_get xs i = Inl (OutOfBounds i)"
  by (simp add: arr_get_def)

lemma arr_set_in [simp, carray]: "i < length xs \<Longrightarrow> arr_set xs i v = Inr (xs[i := v])"
  by (simp add: arr_set_def)

lemma arr_set_out [simp, carray]: "length xs \<le> i \<Longrightarrow> arr_set xs i v = Inl (OutOfBounds i)"
  by (simp add: arr_set_def)

lemma arr_get_eq_Inr: "arr_get xs i = Inr x \<longleftrightarrow> i < length xs \<and> x = xs ! i"
  by (auto simp: arr_get_def)

lemma arr_set_eq_Inr: "arr_set xs i v = Inr ys \<longleftrightarrow> i < length xs \<and> ys = xs[i := v]"
  by (auto simp: arr_set_def)

text \<open>\<open>memcpy\<close> into an array at an offset: every destination index is checked.\<close>

definition arr_copy :: "'a list \<Rightarrow> nat \<Rightarrow> 'a list \<Rightarrow> 'a list result" where
  "arr_copy dst off src =
     (if off + length src \<le> length dst
      then Inr (take off dst @ src @ drop (off + length src) dst)
      else Inl (OutOfBounds (length dst)))"

lemma arr_copy_in [simp, carray]:
  "off + length src \<le> length dst \<Longrightarrow>
   arr_copy dst off src = Inr (take off dst @ src @ drop (off + length src) dst)"
  by (simp add: arr_copy_def)

lemma arr_copy_length: "arr_copy dst off src = Inr dst' \<Longrightarrow> length dst' = length dst"
  by (auto simp: arr_copy_def split: if_splits)

lemma list_update_as_append:
  "i < length xs \<Longrightarrow> xs[i := v] = take i xs @ [v] @ drop (Suc i) xs"
  by (simp add: upd_conv_take_nth_drop)

section \<open>Loops that may fail\<close>

text \<open>
  \<open>for\<close> loops over a known index range are folds; the first error stops the loop.
\<close>

fun rfold :: "('e \<Rightarrow> 's \<Rightarrow> 's result) \<Rightarrow> 'e list \<Rightarrow> 's \<Rightarrow> 's result" where
  "rfold f [] s = Inr s"
| "rfold f (x # xs) s = rbind (f x s) (rfold f xs)"

lemma rfold_append: "rfold f (xs @ ys) s = rbind (rfold f xs s) (rfold f ys)"
  by (induction xs arbitrary: s) (auto simp: rbind_assoc rbind_def split: sum.split)

lemma rfold_snoc: "rfold f (xs @ [x]) s = rbind (rfold f xs s) (f x)"
  by (simp add: rfold_append rbind_Inr_right [folded rfold.simps(1)] cong: rbind_cong)

lemma rfold_upt_Suc: "rfold f [0..<Suc n] s = rbind (rfold f [0..<n] s) (f n)"
  by (simp add: rfold_snoc)

lemma rfold_cong [fundef_cong]:
  "xs = ys \<Longrightarrow> s = t \<Longrightarrow> (\<And>x s. x \<in> set ys \<Longrightarrow> f x s = g x s) \<Longrightarrow> rfold f xs s = rfold g ys t"
proof -
  have "(\<And>x s. x \<in> set ys \<Longrightarrow> f x s = g x s) \<Longrightarrow> rfold f ys t = rfold g ys t"
    by (induction ys arbitrary: t) (auto intro!: rbind_cong)
  then show "xs = ys \<Longrightarrow> s = t \<Longrightarrow> (\<And>x s. x \<in> set ys \<Longrightarrow> f x s = g x s) \<Longrightarrow> rfold f xs s = rfold g ys t"
    by simp
qed

lemma rfold_safe:
  assumes "P s" and "\<And>x s. x \<in> set xs \<Longrightarrow> P s \<Longrightarrow> \<exists>s'. f x s = Inr s' \<and> P s'"
  shows "\<exists>s'. rfold f xs s = Inr s' \<and> P s'"
  using assms
proof (induction xs arbitrary: s)
  case Nil
  then show ?case by simp
next
  case (Cons x xs)
  obtain s1 where s1: "f x s = Inr s1" "P s1"
    using Cons.prems(1) Cons.prems(2) [of x s] by auto
  have "\<exists>s'. rfold f xs s1 = Inr s' \<and> P s'"
    using Cons.IH [OF s1(2)] Cons.prems(2) by simp
  with s1(1) show ?case by simp
qed

lemma rfold_collect:
  "n \<le> length xs \<Longrightarrow>
   rfold (\<lambda>i acc. rbind (arr_get xs i) (\<lambda>x. Inr (acc @ f x))) [0..<n] acc =
   Inr (acc @ concat (map f (take n xs)))"
  by (induction n) (simp_all add: rfold_upt_Suc take_Suc_conv_app_nth del: upt_Suc)

text \<open>A loop body that never fails is an ordinary fold.\<close>

lemma rfold_total:
  assumes "\<And>x s. x \<in> set xs \<Longrightarrow> P s \<Longrightarrow> f x s = Inr (g x s) \<and> P (g x s)" and "P s"
  shows "rfold f xs s = Inr (fold g xs s) \<and> P (fold g xs s)"
  using assms by (induction xs arbitrary: s) auto

section \<open>Handlers: state, results and errors\<close>

text \<open>
  A handler (a C function called from Lua, or a callback) works on the state of the module and
  either returns or stops with an error; the changes made before the error stay, as they do when
  \<open>luaL_error\<close> unwinds out of a C function.
\<close>

type_synonym ('w, 'a) handler = "'w \<Rightarrow> 'a result \<times> 'w"

definition mret :: "'a \<Rightarrow> ('w, 'a) handler" where
  "mret x w = (Inr x, w)"

definition mfail :: "cerror \<Rightarrow> ('w, 'a) handler" where
  "mfail e w = (Inl e, w)"

definition mlift :: "'a result \<Rightarrow> ('w, 'a) handler" where
  "mlift r w = (r, w)"

definition mget :: "('w \<Rightarrow> 'a) \<Rightarrow> ('w, 'a) handler" where
  "mget f w = (Inr (f w), w)"

definition mupd :: "('w \<Rightarrow> 'w) \<Rightarrow> ('w, unit) handler" where
  "mupd f w = (Inr (), f w)"

definition mbind :: "('w, 'a) handler \<Rightarrow> ('a \<Rightarrow> ('w, 'b) handler) \<Rightarrow> ('w, 'b) handler" where
  "mbind m f w = (case m w of (Inl e, w') \<Rightarrow> (Inl e, w') | (Inr x, w') \<Rightarrow> f x w')"

fun mfor :: "'i list \<Rightarrow> ('i \<Rightarrow> ('w, unit) handler) \<Rightarrow> ('w, unit) handler" where
  "mfor [] f = mret ()"
| "mfor (i # is) f = mbind (f i) (\<lambda>_. mfor is f)"

lemma mret_apply [simp, cmonad]: "mret x w = (Inr x, w)" by (simp add: mret_def)
lemma mfail_apply [simp, cmonad]: "mfail e w = (Inl e, w)" by (simp add: mfail_def)
lemma mlift_apply [simp, cmonad]: "mlift r w = (r, w)" by (simp add: mlift_def)
lemma mget_apply [simp, cmonad]: "mget f w = (Inr (f w), w)" by (simp add: mget_def)
lemma mupd_apply [simp, cmonad]: "mupd f w = (Inr (), f w)" by (simp add: mupd_def)

lemma mbind_Inr [simp, cmonad]: "m w = (Inr x, w') \<Longrightarrow> mbind m f w = f x w'"
  by (simp add: mbind_def)

lemma mbind_Inl [simp, cmonad]: "m w = (Inl e, w') \<Longrightarrow> mbind m f w = (Inl e, w')"
  by (simp add: mbind_def)

lemma mbind_mlift [simp, cmonad]:
  "mbind (mlift r) f w = (case r of Inl e \<Rightarrow> (Inl e, w) | Inr x \<Rightarrow> f x w)"
  by (cases r) simp_all

lemma mbind_mget [simp, cmonad]: "mbind (mget f) g w = g (f w) w"
  by (simp add: mbind_def)

lemma mbind_mupd [simp, cmonad]: "mbind (mupd f) g w = g () (f w)"
  by (simp add: mbind_def)

lemma mbind_mfail [simp, cmonad]: "mbind (mfail e) g w = (Inl e, w)"
  by (simp add: mbind_def)

lemma mbind_mret [simp, cmonad]: "mbind (mret x) g w = g x w"
  by (simp add: mbind_def)

lemma mbind_assoc: "mbind (mbind m f) g = mbind m (\<lambda>x. mbind (f x) g)"
  by (rule ext) (simp add: mbind_def split: prod.split sum.split)

lemma mbind_split:
  "mbind m f w = (case m w of (Inl e, w') \<Rightarrow> (Inl e, w') | (Inr x, w') \<Rightarrow> f x w')"
  by (fact mbind_def)

text \<open>
  An outcome is clean when the code did nothing undefined: it returned, or it raised an error
  of its own. The predicates below say that a handler keeps an invariant and ends cleanly; they
  compose along \<open>mbind\<close> and \<open>mfor\<close>, so the proof for a handler follows its text.
\<close>

definition clean :: "'a result \<Rightarrow> bool" where
  "clean r = (case r of Inl (LuaError _) \<Rightarrow> True | Inl _ \<Rightarrow> False | Inr _ \<Rightarrow> True)"

lemma clean_simps [simp]:
  "clean (Inr x)" "clean (Inl (LuaError s))" "\<not> clean (Inl (OutOfBounds i))"
  "\<not> clean (Inl DivByZero)" "\<not> clean (Inl NullPointer)" "\<not> clean (Inl BadCast)"
  "\<not> clean (Inl Overflow)" "\<not> clean (Inl Misaligned)" "\<not> clean (Inl UseAfterFree)"
  by (simp_all add: clean_def)

definition clean_and :: "('a \<Rightarrow> bool) \<Rightarrow> 'a result \<Rightarrow> bool" where
  "clean_and P r = (case r of Inl e \<Rightarrow> clean r | Inr x \<Rightarrow> P x)"

lemma clean_andD: "clean_and P r \<Longrightarrow> clean r" "clean_and P r \<Longrightarrow> r = Inr x \<Longrightarrow> P x"
  by (auto simp: clean_and_def split: sum.splits)

lemma clean_Inl_iff: "clean (Inl e :: 'a result) \<longleftrightarrow> (\<exists>s. e = LuaError s)"
  by (cases e) (simp_all add: clean_def)

lemma clean_rbind: "clean m \<Longrightarrow> (\<And>x. m = Inr x \<Longrightarrow> clean (f x)) \<Longrightarrow> clean (rbind m f)"
  by (cases m) (auto simp: clean_Inl_iff)

definition keeps :: "('w \<Rightarrow> bool) \<Rightarrow> ('w, 'a) handler \<Rightarrow> bool" where
  "keeps P m \<longleftrightarrow> (\<forall>w. P w \<longrightarrow> clean (fst (m w)) \<and> P (snd (m w)))"

named_theorems keeps_intro \<open>composition of invariant-keeping handlers\<close>

lemma keepsI: "(\<And>w. P w \<Longrightarrow> clean (fst (m w)) \<and> P (snd (m w))) \<Longrightarrow> keeps P m"
  by (simp add: keeps_def)

lemma keepsD: "keeps P m \<Longrightarrow> P w \<Longrightarrow> clean (fst (m w)) \<and> P (snd (m w))"
  by (simp add: keeps_def)

lemma keeps_mret [keeps_intro]: "keeps P (mret x)"
  by (simp add: keeps_def)

lemma keeps_mfail [keeps_intro]: "clean (Inl e :: 'a result) \<Longrightarrow> keeps P (mfail e :: ('w, 'a) handler)"
  by (simp add: keeps_def clean_Inl_iff)

lemma keeps_mlift [keeps_intro]: "clean r \<Longrightarrow> keeps P (mlift r)"
  by (simp add: keeps_def)

lemma keeps_mget [keeps_intro]: "keeps P (mget f)"
  by (simp add: keeps_def)

lemma keeps_mupd [keeps_intro]: "(\<And>w. P w \<Longrightarrow> P (f w)) \<Longrightarrow> keeps P (mupd f)"
  by (simp add: keeps_def)

lemma keeps_mbind [keeps_intro]:
  assumes "keeps P m" and "\<And>x. keeps P (f x)"
  shows "keeps P (mbind m f)"
proof (rule keepsI)
  fix w
  assume "P w"
  obtain r w' where m: "m w = (r, w')" by fastforce
  with keepsD [OF assms(1) \<open>P w\<close>] have r: "clean r" "P w'" by simp_all
  show "clean (fst (mbind m f w)) \<and> P (snd (mbind m f w))"
  proof (cases r)
    case (Inl e)
    with m r show ?thesis by (simp add: clean_Inl_iff)
  next
    case (Inr x)
    with m keepsD [OF assms(2) r(2)] show ?thesis by simp
  qed
qed

text \<open>The value of a pure step is known to what follows it.\<close>

lemma keeps_mlift_mbind:
  assumes "clean r" and "\<And>x. r = Inr x \<Longrightarrow> keeps P (f x)"
  shows "keeps P (mbind (mlift r) f)"
  using assms by (cases r) (auto simp: keeps_def clean_Inl_iff)

lemma keeps_mfor [keeps_intro]: "(\<And>i. i \<in> set is \<Longrightarrow> keeps P (f i)) \<Longrightarrow> keeps P (mfor is f)"
  by (induction "is") (auto intro!: keeps_mret keeps_mbind)

lemma keeps_if [keeps_intro]: "(b \<Longrightarrow> keeps P m) \<Longrightarrow> (\<not> b \<Longrightarrow> keeps P n) \<Longrightarrow> keeps P (if b then m else n)"
  by simp

text \<open>
  A handler may also lead from a stronger condition back to the invariant, as after a check that
  holds only until the next change.
\<close>

definition leads :: "('w \<Rightarrow> bool) \<Rightarrow> ('w \<Rightarrow> bool) \<Rightarrow> ('w, 'a) handler \<Rightarrow> bool" where
  "leads P Q m \<longleftrightarrow> (\<forall>w. P w \<longrightarrow> clean (fst (m w)) \<and> Q (snd (m w)))"

lemma leadsI: "(\<And>w. P w \<Longrightarrow> clean (fst (m w)) \<and> Q (snd (m w))) \<Longrightarrow> leads P Q m"
  by (simp add: leads_def)

lemma leadsD: "leads P Q m \<Longrightarrow> P w \<Longrightarrow> clean (fst (m w)) \<and> Q (snd (m w))"
  by (simp add: leads_def)

lemma leads_mbind:
  assumes "keeps P m" "\<And>w. P w \<Longrightarrow> Q w" "\<And>x. leads P Q (f x)"
  shows "leads P Q (mbind m f)"
proof (rule leadsI)
  fix w
  assume "P w"
  obtain r w' where m: "m w = (r, w')" by fastforce
  with keepsD [OF assms(1) \<open>P w\<close>] have r: "clean r" "P w'" by simp_all
  show "clean (fst (mbind m f w)) \<and> Q (snd (mbind m f w))"
  proof (cases r)
    case (Inl e)
    with m r assms(2) show ?thesis by (simp add: clean_Inl_iff)
  next
    case (Inr x)
    with m leadsD [OF assms(3) r(2)] show ?thesis by simp
  qed
qed

lemma leads_mlift_mbind:
  assumes "clean r" "\<And>w. P w \<Longrightarrow> Q w" "\<And>x. r = Inr x \<Longrightarrow> leads P Q (f x)"
  shows "leads P Q (mbind (mlift r) f)"
  using assms by (cases r) (auto simp: leads_def clean_Inl_iff)

text \<open>A handler may leave a part of the state alone.\<close>

definition leaves :: "('w \<Rightarrow> 'b) \<Rightarrow> ('w, 'a) handler \<Rightarrow> bool" where
  "leaves g m \<longleftrightarrow> (\<forall>w. g (snd (m w)) = g w)"

named_theorems leaves_intro \<open>composition of handlers that leave a part of the state alone\<close>

lemma leavesD: "leaves g m \<Longrightarrow> g (snd (m w)) = g w"
  by (simp add: leaves_def)

lemma leaves_basic [leaves_intro]:
  "leaves g (mret x)" "leaves g (mfail e)" "leaves g (mlift r)" "leaves g (mget h)"
  by (simp_all add: leaves_def)

lemma leaves_mupd [leaves_intro]: "(\<And>w. g (h w) = g w) \<Longrightarrow> leaves g (mupd h)"
  by (simp add: leaves_def)

lemma leaves_mbind [leaves_intro]:
  "leaves g m \<Longrightarrow> (\<And>x. leaves g (f x)) \<Longrightarrow> leaves g (mbind m f)"
  by (simp add: leaves_def mbind_def split: prod.split sum.split) (metis snd_conv)

lemma leaves_if [leaves_intro]: "(b \<Longrightarrow> leaves g m) \<Longrightarrow> (\<not> b \<Longrightarrow> leaves g n) \<Longrightarrow> leaves g (if b then m else n)"
  by simp

lemma leaves_option [leaves_intro]:
  "(p = None \<Longrightarrow> leaves g m) \<Longrightarrow> (\<And>x. p = Some x \<Longrightarrow> leaves g (f x)) \<Longrightarrow> leaves g (case p of None \<Rightarrow> m | Some x \<Rightarrow> f x)"
  by (cases p) simp_all

lemma leaves_prod [leaves_intro]: "(\<And>x y. p = (x, y) \<Longrightarrow> leaves g (f x y)) \<Longrightarrow> leaves g (case p of (x, y) \<Rightarrow> f x y)"
  by (cases p) simp_all

lemma leaves_mfor [leaves_intro]: "(\<And>i. i \<in> set is \<Longrightarrow> leaves g (f i)) \<Longrightarrow> leaves g (mfor is f)"
proof (induction "is")
  case (Cons i "is")
  then show ?case unfolding mfor.simps by (intro leaves_mbind) simp_all
qed (simp only: mfor.simps leaves_basic)

text \<open>The result of a sequence, by its first step.\<close>

lemma mbind_result:
  assumes "\<And>x w'. m w = (Inr x, w') \<Longrightarrow> fst (f x w') \<noteq> Inr y"
  shows "fst (mbind m f w) \<noteq> Inr y"
  using assms by (simp add: mbind_def split: prod.split sum.split)

section \<open>Interface: a module driven by its handlers\<close>

text \<open>
  A module is a set of handlers (one constructor of the event type each) over one state. The
  interface promises that an admissible call ends as it may (cleanly, in most modules) and keeps the invariant; the client
  facts are about arbitrary sequences of calls, in which an error of one call does not stop
  later ones (the interpreter and the timers go on). What is admissible may depend on the state
  a call meets: the objects that exist, the timers that are armed.
\<close>

definition after :: "('e \<Rightarrow> ('w, 'a) handler) \<Rightarrow> 'e list \<Rightarrow> 'w \<Rightarrow> 'w" where
  "after handle es w = fold (\<lambda>e w. snd (handle e w)) es w"

fun admissible :: "('e \<Rightarrow> ('w, 'a) handler) \<Rightarrow> ('w \<Rightarrow> 'e \<Rightarrow> bool) \<Rightarrow> 'w \<Rightarrow> 'e list \<Rightarrow> bool" where
  "admissible handle ok w [] = True"
| "admissible handle ok w (e # es) = (ok w e \<and> admissible handle ok (snd (handle e w)) es)"

locale handled_up_to =
  fixes handle :: "'e \<Rightarrow> ('w, 'a) handler"
    and inv :: "'w \<Rightarrow> bool"
    and ok :: "'w \<Rightarrow> 'e \<Rightarrow> bool"
    and fine :: "'a result \<Rightarrow> bool"
  assumes handle_fine: "inv w \<Longrightarrow> ok w e \<Longrightarrow> fine (fst (handle e w)) \<and> inv (snd (handle e w))"
begin

lemma runs_keep: "inv w \<Longrightarrow> admissible handle ok w es \<Longrightarrow> inv (after handle es w)"
  by (induction es arbitrary: w) (simp_all add: after_def handle_fine)

lemma runs_fine:
  assumes "inv w" and "admissible handle ok w (es @ e # fs)"
  shows "fine (fst (handle e (after handle es w)))"
  using assms
proof (induction es arbitrary: w)
  case Nil
  then show ?case by (simp add: after_def handle_fine)
next
  case (Cons d ds)
  then show ?case by (simp add: after_def handle_fine)
qed

end

text \<open>The usual contract: every call ends cleanly.\<close>

locale handled =
  fixes handle :: "'e \<Rightarrow> ('w, 'a) handler"
    and inv :: "'w \<Rightarrow> bool"
    and ok :: "'w \<Rightarrow> 'e \<Rightarrow> bool"
  assumes handle_ok: "inv w \<Longrightarrow> ok w e \<Longrightarrow> clean (fst (handle e w)) \<and> inv (snd (handle e w))"

sublocale handled \<subseteq> handled_up_to handle inv ok clean
  by unfold_locales (rule handle_ok)

context handled
begin

lemmas runs_clean = runs_fine

end

section \<open>Words and lists\<close>

lemma unat_less_word: "unat (x :: 'a::len word) < 2 ^ LENGTH('a)"
  by (rule unsigned_less)

lemma u8_bound: "unat (x :: u8) < 256"
  using unsigned_less [of x] by simp

lemma u16_bound: "unat (x :: u16) < 65536"
  using unsigned_less [of x] by simp

lemma u32_bound: "unat (x :: u32) < 4294967296"
  using unsigned_less [of x] by simp

lemma unat_add_no_wrap:
  "unat (a :: 'a::len word) + unat b < 2 ^ LENGTH('a) \<Longrightarrow> unat (a + b) = unat a + unat b"
  by (simp add: unat_word_ariths)

lemma unat_mult_no_wrap:
  "unat (a :: 'a::len word) * unat b < 2 ^ LENGTH('a) \<Longrightarrow> unat (a * b) = unat a * unat b"
  by (simp add: unat_word_ariths)

lemma unat_sub_no_wrap: "(b :: 'a::len word) \<le> a \<Longrightarrow> unat (a - b) = unat a - unat b"
  by (rule unat_sub)

lemma unat_of_nat_small: "n < 2 ^ LENGTH('a) \<Longrightarrow> unat (of_nat n :: 'a::len word) = n"
  by (simp add: unat_of_nat take_bit_nat_eq_self)

lemma unat_ucast_mod: "unat (ucast (x :: 'a::len word) :: 'b::len word) = unat x mod 2 ^ LENGTH('b)"
  by (simp add: unsigned_ucast_eq take_bit_eq_mod)

lemma unat_ucast_u8 [simp]: "unat (ucast (x :: u8) :: u32) = unat x"
  using u8_bound [of x] by (simp add: unat_ucast_mod)

lemma unat_eq_of_nat: "unat x = n \<Longrightarrow> x = of_nat n"
  by (drule sym) simp

lemma nth_take_drop: "i < n \<Longrightarrow> k + n \<le> length xs \<Longrightarrow> take n (drop k xs) ! i = xs ! (k + i)"
  by simp

end
