(* ===== verification/C_Float.thy ===== *)
theory C_Float
  imports Prelude "HOL-Library.Log_Nat"
begin

text \<open>
  The part of C's floating point that the firmware uses. A finite value is a pair of integers
  \<open>Fin m e\<close> standing for \<open>m * 2 ^ e\<close>; results are rounded to nearest, ties to even, with 53
  significant bits for \<open>double\<close> and 24 for \<open>float\<close>. The only products and quotients in the modelled
  code have operands far away from the exponent limits, so those limits are not modelled.
\<close>

datatype cfloat = Fin int int | Inf bool | NaN

definition round_half_even :: "int \<Rightarrow> int \<Rightarrow> int" where
  "round_half_even n d =
     (let q = n div d; r = n mod d in
      if 2 * r < d then q
      else if d < 2 * r then q + 1
      else if even q then q else q + 1)"

text \<open>A product of a non-negative integer magnitude, rounded to \<open>p\<close> significant bits.\<close>

definition fl_round :: "nat \<Rightarrow> int \<Rightarrow> int \<Rightarrow> cfloat" where
  "fl_round p m e =
     (if m < 2 ^ p then Fin m e
      else let s = nat (bitlen m - int p) in Fin (round_half_even m (2 ^ s)) (e + int s))"

definition double_mult :: "cfloat \<Rightarrow> cfloat \<Rightarrow> cfloat" where
  "double_mult x y =
     (case (x, y) of
        (Fin m e, Fin n f) \<Rightarrow>
          (let p = m * n in
           (case fl_round 53 \<bar>p\<bar> (e + f) of
              Fin q g \<Rightarrow> Fin (sgn p * q) g | z \<Rightarrow> z))
      | (NaN, _) \<Rightarrow> NaN
      | (_, NaN) \<Rightarrow> NaN
      | (Inf s, Inf t) \<Rightarrow> Inf (s \<noteq> t)
      | (Inf s, Fin n f) \<Rightarrow> (if n = 0 then NaN else Inf (s \<noteq> (n < 0)))
      | (Fin m e, Inf t) \<Rightarrow> (if m = 0 then NaN else Inf (t \<noteq> (m < 0))))"

text \<open>
  A quotient of two positive integers rounded to \<open>p\<close> significant bits: the scale is chosen so
  that the scaled quotient lies between \<open>2 ^ (p - 1)\<close> and \<open>2 ^ p\<close>.
\<close>

definition fl_quot :: "nat \<Rightarrow> int \<Rightarrow> int \<Rightarrow> cfloat" where
  "fl_quot p n d =
     (if n = 0 then Fin 0 0
      else
        let s0 = int p - (bitlen n - bitlen d);
            num = (\<lambda>s. if 0 \<le> s then n * 2 ^ nat s else n);
            den = (\<lambda>s. if 0 \<le> s then d else d * 2 ^ nat (- s));
            s = (if num s0 < den s0 * 2 ^ p then s0 else s0 - 1)
        in Fin (round_half_even (num s) (den s)) (- s))"

definition cf_neg :: "cfloat \<Rightarrow> cfloat" where
  "cf_neg x = (case x of Fin m e \<Rightarrow> Fin (- m) e | Inf s \<Rightarrow> Inf (\<not> s) | NaN \<Rightarrow> NaN)"

text \<open>Conversions to integers truncate; out of range (or not a number) they are undefined.\<close>

definition cf_trunc :: "int \<Rightarrow> int \<Rightarrow> int" where
  "cf_trunc m e = (if 0 \<le> e then m * 2 ^ nat e else sgn m * (\<bar>m\<bar> div 2 ^ nat (- e)))"

definition cfloat_to_int :: "cfloat \<Rightarrow> u32 result" where
  "cfloat_to_int x =
     (case x of
        Fin m e \<Rightarrow>
          (let v = cf_trunc m e in
           if - (2 ^ 31) \<le> v \<and> v < 2 ^ 31 then Inr (word_of_int v) else Inl BadCast)
      | _ \<Rightarrow> Inl BadCast)"

definition cfloat_to_unsigned :: "cfloat \<Rightarrow> u32 result" where
  "cfloat_to_unsigned x =
     (case x of
        Fin m e \<Rightarrow>
          (let v = cf_trunc m e in
           if 0 \<le> v \<and> v < 2 ^ 32 then Inr (word_of_int v) else Inl BadCast)
      | _ \<Rightarrow> Inl BadCast)"

section \<open>Rounding\<close>

lemma round_half_even_mono_multiple:
  assumes "0 < d" and "n \<le> k * d"
  shows "round_half_even n d \<le> k"
proof (cases "n = k * d")
  case True
  with assms show ?thesis by (simp add: round_half_even_def)
next
  case False
  with assms have "n < k * d" by simp
  have "n div d < k"
  proof (rule ccontr)
    assume "\<not> n div d < k"
    then have "k * d \<le> n div d * d"
      using assms(1) by (intro mult_right_mono) auto
    with \<open>n < k * d\<close> show False
      using assms(1) div_mult_mod_eq [of n d] pos_mod_sign [of d n] by linarith
  qed
  then show ?thesis by (auto simp: round_half_even_def Let_def)
qed

lemma round_half_even_nonneg: "0 < d \<Longrightarrow> 0 \<le> n \<Longrightarrow> 0 \<le> round_half_even n d"
  by (auto simp: round_half_even_def Let_def pos_imp_zdiv_nonneg_iff)

lemma round_half_even_close:
  assumes "0 < d"
  shows "2 * \<bar>round_half_even n d * d - n\<bar> \<le> d"
proof -
  define q r where "q = n div d" and "r = n mod d"
  have n: "n = q * d + r" and r: "0 \<le> r" "r < d"
    using assms by (simp_all add: q_def r_def)
  show ?thesis
    unfolding round_half_even_def Let_def q_def [symmetric] r_def [symmetric]
    using r n by (auto simp: algebra_simps)
qed

text \<open>
  A brightness in \<open>[0, 1]\<close> scales a colour component into its own range: the product with
  a small non-negative integer, rounded to 53 bits and truncated, never exceeds the integer.
\<close>

definition unit_range :: "cfloat \<Rightarrow> bool" where
  "unit_range x =
     (case x of Fin m e \<Rightarrow> 0 \<le> m \<and> m < 2 ^ 53 \<and> (m = 0 \<or> e \<le> 0 \<and> m \<le> 2 ^ nat (- e)) | _ \<Rightarrow> False)"

lemma cf_trunc_scaled:
  assumes "0 \<le> q" and "q \<le> v * 2 ^ k" and "0 \<le> v"
  shows "0 \<le> cf_trunc q (- int k) \<and> cf_trunc q (- int k) \<le> v"
proof -
  have "q div 2 ^ k \<le> v * 2 ^ k div 2 ^ k"
    by (rule zdiv_mono1) (use assms in simp_all)
  then have le: "q div 2 ^ k \<le> v" by simp
  have "cf_trunc q (- int k) = q div 2 ^ k"
    using assms(1) by (cases "k = 0") (auto simp: cf_trunc_def sgn_if)
  with le assms(1) show ?thesis
    by (simp add: pos_imp_zdiv_nonneg_iff)
qed

lemma fl_round_scaled:
  assumes p: "0 \<le> p" "p \<le> r * 2 ^ k" and r: "0 \<le> r" "r < 256" and k: "p < 2 ^ 53 \<or> 8 \<le> k"
    and ub: "p < 2 ^ 61"
  shows "\<exists>q j. fl_round 53 p (- int k) = Fin q (- int j) \<and> 0 \<le> q \<and> q \<le> r * 2 ^ j"
proof (cases "p < 2 ^ 53")
  case True
  with p show ?thesis by (auto simp: fl_round_def)
next
  case False
  define s where "s = nat (bitlen p - 53)"
  have "bitlen p \<le> 61"
    using bitlen_le_iff_power [of p 61] ub by simp
  with False k have s: "s \<le> k" by (simp add: s_def)
  have "p \<le> r * 2 ^ (k - s) * 2 ^ s"
    using p s by (simp add: power_add [symmetric] mult.assoc)
  then have "round_half_even p (2 ^ s) \<le> r * 2 ^ (k - s)"
    by (intro round_half_even_mono_multiple) simp_all
  moreover have "0 \<le> round_half_even p (2 ^ s)"
    using p by (simp add: round_half_even_nonneg)
  moreover have "fl_round 53 p (- int k) = Fin (round_half_even p (2 ^ s)) (- int (k - s))"
    using False s by (simp add: fl_round_def s_def [symmetric] Let_def)
  ultimately show ?thesis by blast
qed

lemma double_mult_unit:
  assumes "unit_range b" and "0 \<le> r" "r < 256"
  shows "\<exists>q g. double_mult (Fin r 0) b = Fin q g \<and> 0 \<le> cf_trunc q g \<and> cf_trunc q g \<le> r"
proof -
  obtain m e where b: "b = Fin m e" "0 \<le> m" "m < 2 ^ 53"
    and me: "m = 0 \<or> e \<le> 0 \<and> m \<le> 2 ^ nat (- e)"
    using assms(1) by (auto simp: unit_range_def split: cfloat.splits)
  show ?thesis
  proof (cases "m = 0")
    case True
    with b assms show ?thesis
      by (auto simp: double_mult_def fl_round_def cf_trunc_def)
  next
    case False
    define k where "k = nat (- e)"
    have e: "e = - int k" "m \<le> 2 ^ k"
      using me False by (auto simp: k_def)
    have le: "r * m \<le> r * 2 ^ k"
      using e assms by (intro mult_left_mono)
    have nn: "0 \<le> r * m" using b assms by simp
    have "r * m \<le> 255 * (2 ^ 53 - 1)"
      by (rule mult_mono) (use b assms in auto)
    then have ub: "r * m < 2 ^ 61" by simp
    have "r * m < 2 ^ 53 \<or> 8 \<le> k"
    proof (rule disjCI)
      assume "\<not> 8 \<le> k"
      then have "(2::int) ^ k \<le> 2 ^ 8" by (intro power_increasing) auto
      with e have "m \<le> 2 ^ 8" by simp
      then have "r * m \<le> 255 * 2 ^ 8"
        using assms b by (intro mult_mono) auto
      then show "r * m < 2 ^ 53" by simp
    qed
    from fl_round_scaled [OF nn le assms(2,3) this ub] obtain q j where
      q: "fl_round 53 (r * m) (- int k) = Fin q (- int j)" "0 \<le> q" "q \<le> r * 2 ^ j"
      by blast
    have "double_mult (Fin r 0) b = Fin (sgn (r * m) * q) (- int j)"
      using b e q(1) nn by (simp add: double_mult_def Let_def)
    moreover have "0 \<le> sgn (r * m) * q \<and> sgn (r * m) * q \<le> r * 2 ^ j"
      using q nn assms by (auto simp: sgn_if)
    ultimately show ?thesis
      using cf_trunc_scaled [of "sgn (r * m) * q" r j] assms by auto
  qed
qed

end
