(* ===== verification/Lua_Api.thy ===== *)
theory Lua_Api
  imports C_Float
begin

text \<open>
  The slice of the Lua C API that the modules call (\<open>src/nodemcu-firmware/app/lua/lapi.c\<close> and
  \<open>lauxlib.c\<close>). A C function called from Lua sees a stack of argument values. The conversions
  between numbers and strings (\<open>luaO_str2d\<close>, \<open>lua_number2str\<close>) are fields of \<open>lua_conv\<close>, an argument
  of every accessor that can reach them. A table argument is either its array part or, with \<open>LMap\<close>, a
  table with string keys only, its pairs in the order in which \<open>lua_next\<close> visits them; the modules
  read no others.
\<close>

datatype lua_value =
    LNil
  | LBoolean bool
  | LNumber cfloat
  | LString bytes
  | LTable "lua_value list"
  | LMap "(bytes \<times> lua_value) list"
  | LFunction nat
  | LUserdata string nat

record lua_conv =
  str2d :: "bytes \<Rightarrow> cfloat option"
  num2str :: "cfloat \<Rightarrow> bytes"

text \<open>The value at a positive stack index; an index above the top reads as none, here nil.\<close>

definition index2adr :: "lua_value list \<Rightarrow> nat \<Rightarrow> lua_value" where
  "index2adr args i = (if 0 < i \<and> i \<le> length args then args ! (i - 1) else LNil)"

definition tonumber :: "lua_conv \<Rightarrow> lua_value \<Rightarrow> cfloat option" where
  "tonumber cv v = (case v of LNumber x \<Rightarrow> Some x | LString s \<Rightarrow> str2d cv s | _ \<Rightarrow> None)"

definition lua_isnumber :: "lua_conv \<Rightarrow> lua_value \<Rightarrow> bool" where
  "lua_isnumber cv v = (tonumber cv v \<noteq> None)"

text \<open>A number is convertible to a string, so it counts as one here.\<close>

definition lua_isstring :: "lua_value \<Rightarrow> bool" where
  "lua_isstring v = (case v of LString _ \<Rightarrow> True | LNumber _ \<Rightarrow> True | _ \<Rightarrow> False)"

definition lua_istable :: "lua_value \<Rightarrow> bool" where
  "lua_istable v = (case v of LTable _ \<Rightarrow> True | LMap _ \<Rightarrow> True | _ \<Rightarrow> False)"

definition lua_tonumber :: "lua_conv \<Rightarrow> lua_value \<Rightarrow> cfloat" where
  "lua_tonumber cv v = (case tonumber cv v of Some x \<Rightarrow> x | None \<Rightarrow> Fin 0 0)"

definition lua_tointeger :: "lua_conv \<Rightarrow> lua_value \<Rightarrow> u32 result" where
  "lua_tointeger cv v = (case tonumber cv v of Some x \<Rightarrow> cfloat_to_int x | None \<Rightarrow> Inr 0)"

definition luaL_checkinteger :: "lua_conv \<Rightarrow> lua_value \<Rightarrow> u32 result" where
  "luaL_checkinteger cv v =
     rbind (lua_tointeger cv v) (\<lambda>d.
       if d = 0 \<and> \<not> lua_isnumber cv v then Inl (LuaError ''number expected'') else Inr d)"

text \<open>The bytes of a string (or of the string a number converts to); nil has none.\<close>

definition lua_tolstring :: "lua_conv \<Rightarrow> lua_value \<Rightarrow> bytes option" where
  "lua_tolstring cv v =
     (case v of LString s \<Rightarrow> Some s | LNumber x \<Rightarrow> Some (num2str cv x) | _ \<Rightarrow> None)"

definition luaL_checklstring :: "lua_conv \<Rightarrow> lua_value \<Rightarrow> bytes result" where
  "luaL_checklstring cv v =
     (case lua_tolstring cv v of Some s \<Rightarrow> Inr s | None \<Rightarrow> Inl (LuaError ''string expected''))"

definition lua_objlen :: "lua_conv \<Rightarrow> lua_value \<Rightarrow> nat" where
  "lua_objlen cv v =
     (case v of LString s \<Rightarrow> length s | LTable xs \<Rightarrow> length xs
      | LNumber x \<Rightarrow> length (num2str cv x) | _ \<Rightarrow> 0)"

definition lua_rawgeti :: "lua_value \<Rightarrow> nat \<Rightarrow> lua_value" where
  "lua_rawgeti v i = (case v of LTable xs \<Rightarrow> index2adr xs i | _ \<Rightarrow> LNil)"

text \<open>\<open>lua_type\<close> is \<open>LUA_TFUNCTION\<close> or \<open>LUA_TLIGHTFUNCTION\<close>.\<close>

definition is_function :: "lua_value \<Rightarrow> bool" where
  "is_function v = (case v of LFunction _ \<Rightarrow> True | _ \<Rightarrow> False)"

text \<open>Only a userdata whose metatable is the one registered under the name passes.\<close>

definition luaL_checkudata :: "lua_value \<Rightarrow> string \<Rightarrow> nat result" where
  "luaL_checkudata v tname =
     (case v of
        LUserdata t a \<Rightarrow> if t = tname then Inr a else Inl (LuaError ''type error'')
      | _ \<Rightarrow> Inl (LuaError ''type error''))"

section \<open>Facts about the accessors\<close>

abbreviation lua_int :: "int \<Rightarrow> lua_value" where
  "lua_int n \<equiv> LNumber (Fin n 0)"

lemma luaL_checkinteger_int [simp]:
  "- (2 ^ 31) \<le> n \<Longrightarrow> n < 2 ^ 31 \<Longrightarrow> luaL_checkinteger cv (lua_int n) = Inr (word_of_int n)"
  by (simp add: luaL_checkinteger_def lua_tointeger_def tonumber_def cfloat_to_int_def cf_trunc_def
      lua_isnumber_def)

lemma luaL_checkinteger_nil [simp]:
  "luaL_checkinteger cv LNil = Inl (LuaError ''number expected'')"
  by (simp add: luaL_checkinteger_def lua_tointeger_def tonumber_def lua_isnumber_def)

text \<open>Every number passes the string test, so a number test after a failed one never succeeds.\<close>

lemma number_is_string: "\<not> lua_isstring v \<Longrightarrow> \<not> lua_isnumber cv v"
  by (cases v) (auto simp: lua_isstring_def lua_isnumber_def tonumber_def)

lemma luaL_checkudata_Inr [simp]:
  "luaL_checkudata v t = Inr a \<longleftrightarrow> v = LUserdata t a"
  by (auto simp: luaL_checkudata_def split: lua_value.splits)

lemma index2adr_simps [simp]:
  "index2adr (v # vs) (Suc 0) = v"
  "0 < i \<Longrightarrow> index2adr (v # vs) (Suc i) = index2adr vs i"
  "index2adr [] i = LNil"
  by (auto simp: index2adr_def nth_Cons')

lemma checkinteger_clean: "clean (lua_tointeger cv v) \<Longrightarrow> clean (luaL_checkinteger cv v)"
  unfolding luaL_checkinteger_def by (auto intro!: clean_rbind)

lemma checklstring_clean: "clean (luaL_checklstring cv v)"
  by (simp add: luaL_checklstring_def split: option.splits)

lemma index2adr_clean:
  "\<forall>v\<in>set args. clean (lua_tointeger cv v) \<Longrightarrow> clean (lua_tointeger cv (index2adr args i))"
  by (auto simp: index2adr_def lua_tointeger_def tonumber_def)

text \<open>Conversions for examples in which no string is converted.\<close>

definition plain_conv :: lua_conv where
  "plain_conv = \<lparr>str2d = (\<lambda>_. None), num2str = (\<lambda>_. [])\<rparr>"

end
