(* ===== verification/Gpio.thy ===== *)
theory Gpio
  imports Prelude
begin

text \<open>
  The GPIO layer (\<open>platform/platform.c\<close>, \<open>platform/common.c\<close>, \<open>platform/pin_map.c\<close>,
  \<open>driver/gpio16.c\<close>). An operation's effect on the hardware is the list of register-level calls
  it makes, in order; \<open>drives\<close> reads such a list back as the level of a physical pin, which is
  what a device on the wire sees.
\<close>

datatype pin_event =
    GpioOutputSet u32 u32 u32 u32
  | Gpio16OutputConf
  | Gpio16InputConf
  | Gpio16OutputSet u32
  | PullUp u32 bool
  | PullDown u32 bool
  | PwmClose u32
  | LuaGpioUnref u32
  | GpioIntrEnable bool
  | PinIntDisable u32
  | PinFuncSelect u32
  | IntrStateDisable nat
  | IntrStatusClear nat
  | OpenDrainDisable nat
  | OpenDrainEnable nat
  | OutputEnable nat
  | PinRegisterInput nat
  | DelayUs u32
  | IntrLock
  | IntrUnlock

section \<open>Pins\<close>

definition NUM_GPIO :: u32 where
  "NUM_GPIO = 13"

definition pin_num :: "nat list" where
  "pin_num = [16, 5, 4, 0, 2, 14, 12, 13, 15, 3, 1, 9, 10]"

definition platform_gpio_exists :: "u32 \<Rightarrow> bool" where
  "platform_gpio_exists pin = (pin < NUM_GPIO)"

text \<open>
  The element of \<open>pin_num\<close> for a pin below \<open>NUM_GPIO\<close>. It is a total function: the functions that use it test the
  pin first, as the code does (\<open>platform_gpio_mode\<close>, \<open>platform_gpio_write\<close> and the other functions of
  \<open>platform.c\<close> return early), and where the code reads the table without such a test (the DHT, 1-Wire and PWM
  drivers) the model reads it with \<open>arr_get\<close> before.
\<close>

definition phys :: "u32 \<Rightarrow> nat" where
  "phys pin = pin_num ! unat pin"

text \<open>The macros \<open>GPIO_OUTPUT_SET\<close> and \<open>GPIO_DIS_OUTPUT\<close>.\<close>

definition gpio_output_set :: "nat \<Rightarrow> u32 \<Rightarrow> pin_event" where
  "gpio_output_set n v =
     GpioOutputSet (push_bit n v) (push_bit n (NOT v AND 1)) (push_bit n 1) 0"

definition gpio_dis_output :: "nat \<Rightarrow> pin_event" where
  "gpio_dis_output n = GpioOutputSet 0 0 0 (push_bit n 1)"

definition gpio16_output_set :: "u32 \<Rightarrow> pin_event" where
  "gpio16_output_set v = Gpio16OutputSet (v AND 1)"

section \<open>Operations\<close>

definition PLATFORM_GPIO_FLOAT :: u32 where "PLATFORM_GPIO_FLOAT = 0"
definition PLATFORM_GPIO_PULLUP :: u32 where "PLATFORM_GPIO_PULLUP = 1"
definition PLATFORM_GPIO_PULLDOWN :: u32 where "PLATFORM_GPIO_PULLDOWN = 2"
definition PLATFORM_GPIO_INPUT :: u32 where "PLATFORM_GPIO_INPUT = 0"
definition PLATFORM_GPIO_OUTPUT :: u32 where "PLATFORM_GPIO_OUTPUT = 1"
definition PLATFORM_GPIO_INT :: u32 where "PLATFORM_GPIO_INT = 2"

definition gpio_pull :: "u32 \<Rightarrow> u32 \<Rightarrow> pin_event list" where
  "gpio_pull pin pull =
     (if pull = PLATFORM_GPIO_PULLUP then [PullDown pin False, PullUp pin True]
      else if pull = PLATFORM_GPIO_PULLDOWN then [PullUp pin False, PullDown pin True]
      else [PullUp pin False, PullDown pin False])"

definition gpio_as_plain :: "u32 \<Rightarrow> pin_event list" where
  "gpio_as_plain pin =
     [GpioIntrEnable False, PinIntDisable pin, PinFuncSelect pin, IntrStateDisable (phys pin),
      IntrStatusClear (phys pin), OpenDrainDisable (phys pin), GpioIntrEnable True]"

text \<open>The input case falls through into the output case.\<close>

definition platform_gpio_mode :: "u32 \<Rightarrow> u32 \<Rightarrow> u32 \<Rightarrow> int \<times> pin_event list" where
  "platform_gpio_mode pin mode pull =
     (if NUM_GPIO \<le> pin then (- 1, [])
      else if pin = 0 then
        (1, [if mode = PLATFORM_GPIO_INPUT then Gpio16InputConf else Gpio16OutputConf])
      else
        (1, [PwmClose pin] @ gpio_pull pin pull @
            (if mode = PLATFORM_GPIO_INPUT then
               [LuaGpioUnref pin, gpio_dis_output (phys pin)] @ gpio_as_plain pin
             else if mode = PLATFORM_GPIO_OUTPUT then gpio_as_plain pin
             else if mode = PLATFORM_GPIO_INT then
               [GpioIntrEnable False, PinFuncSelect pin, gpio_dis_output (phys pin),
                PinRegisterInput (phys pin), GpioIntrEnable True]
             else [])))"

definition platform_gpio_write :: "u32 \<Rightarrow> u32 \<Rightarrow> pin_event list" where
  "platform_gpio_write pin level =
     (if NUM_GPIO \<le> pin then []
      else if pin = 0 then [Gpio16OutputConf, gpio16_output_set level]
      else [gpio_output_set (phys pin) level])"

section \<open>What a device on a pin sees\<close>

fun drives :: "nat \<Rightarrow> pin_event \<Rightarrow> bool \<Rightarrow> bool" where
  "drives n (GpioOutputSet set_mask clear_mask en dis) l =
     (if bit set_mask n then True else if bit clear_mask n then False else l)"
| "drives n (Gpio16OutputSet v) l = (if n = 16 then odd v else l)"
| "drives n _ l = l"

abbreviation level_after :: "nat \<Rightarrow> pin_event list \<Rightarrow> bool \<Rightarrow> bool" where
  "level_after n evs l \<equiv> fold (drives n) evs l"

lemma unat_less_13: "pin < NUM_GPIO \<Longrightarrow> unat pin < length pin_num"
  by (simp add: NUM_GPIO_def word_less_nat_alt pin_num_def)

lemma phys_range: "pin < NUM_GPIO \<Longrightarrow> phys pin \<in> set pin_num"
  unfolding phys_def by (intro nth_mem unat_less_13)

lemma phys_cases: "pin < NUM_GPIO \<Longrightarrow> pin = 0 \<and> phys pin = 16 \<or> pin \<noteq> 0 \<and> phys pin < 16"
proof -
  assume pin: "pin < NUM_GPIO"
  have "phys pin < 16" if pos: "0 < unat pin"
  proof -
    obtain i where i: "unat pin = Suc i"
      using gr0_implies_Suc [OF pos] by auto
    then have "i < length (tl pin_num)"
      using unat_less_13 [OF pin] by simp
    then have "phys pin \<in> set (tl pin_num)"
      using nth_mem [of i "tl pin_num"] by (simp only: nth_tl phys_def i)
    then show ?thesis by (auto simp: pin_num_def)
  qed
  moreover have "phys 0 = 16" by (simp add: phys_def pin_num_def)
  ultimately show ?thesis
    by (cases "pin = 0") (simp_all add: unat_gt_0)
qed

lemma phys_inject:
  assumes "p < NUM_GPIO" "q < NUM_GPIO" "phys p = phys q"
  shows "p = q"
proof -
  have "distinct pin_num" by (simp add: pin_num_def)
  then have "unat p = unat q"
    using assms unat_less_13 unfolding phys_def by (metis nth_eq_iff_index_eq)
  then show ?thesis by (rule word_unat_eq_iff [THEN iffD2])
qed

lemma drives_gpio_output_set:
  assumes "n < 32"
  shows "drives k (gpio_output_set n (of_bool b)) l = (if k = n then b else l)"
proof -
  have "bit (push_bit n 1 :: u32) k \<longleftrightarrow> k = n"
    using assms by (auto simp: bit_exp_iff possible_bit_word)
  moreover have "NOT (of_bool b) AND (1 :: u32) = of_bool (\<not> b)"
    by (cases b) simp_all
  ultimately show ?thesis
    unfolding gpio_output_set_def drives.simps by (cases b) auto
qed

text \<open>A write drives the written pin to the level, and no other pin.\<close>

lemma write_drives:
  assumes "p < NUM_GPIO" "q < NUM_GPIO" "v = of_bool b"
  shows "level_after (phys q) (platform_gpio_write p v) l = (if q = p then b else l)"
proof (cases "p = 0")
  case True
  with assms phys_cases [OF assms(2)] show ?thesis
    by (auto simp: platform_gpio_write_def gpio16_output_set_def NUM_GPIO_def)
next
  case False
  with assms(1) have n: "phys p < 16"
    using phys_cases by blast
  have "phys q = phys p \<longleftrightarrow> q = p"
    using phys_inject assms(1,2) by blast
  with assms n False show ?thesis
    by (auto simp: platform_gpio_write_def drives_gpio_output_set)
qed

end
