(* ===== verification/Lpd8806.thy ===== *)
theory Lpd8806
  imports Lua_Api Gpio
begin

text \<open>
  The LPD8806 LED strip module (\<open>modules/lpd8806.c\<close>, \<open>modules/lpd8806.h\<close>): a cached frame of
  three bytes per LED, gamma-corrected to seven bits with the top bit set, pushed to the strip
  over a bit-banged SPI line. Strips are Lua userdata on a heap, because a ticker keeps a pointer
  to the strip that the Lua program also holds. The lemmas show that the frame stays well formed,
  what a colour update changes, and that a receiver on the wire reads exactly the frame followed
  by the latch bytes.
\<close>

section \<open>Strip objects and the gamma table\<close>

record lpd_userdata =
  s_OutputBuffer :: "bytes option"
  s_Mosi :: u32
  s_Clk :: u32
  s_Length :: u32
  s_Type :: u32
  s_Delay :: u32

definition CPOL0_CPHA1 :: u32 where "CPOL0_CPHA1 = 0"
definition CPOL0_CPHA0 :: u32 where "CPOL0_CPHA0 = 1"
definition CPOL1_CPHA0 :: u32 where "CPOL1_CPHA0 = 2"
definition CPOL1_CPHA1 :: u32 where "CPOL1_CPHA1 = 3"

lemmas spi_mode_defs = CPOL0_CPHA1_def CPOL0_CPHA0_def CPOL1_CPHA0_def CPOL1_CPHA1_def

definition gammaTable :: bytes where
  "gammaTable =
    [0, 0, 0, 0, 0, 0, 0, 0, 0, 0, 0, 0, 0, 0, 0, 0,
     0, 0, 0, 0, 0, 0, 0, 0, 0, 0, 0, 0, 1, 1, 1, 1,
     1, 1, 1, 1, 1, 1, 1, 1, 1, 1, 1, 1, 2, 2, 2, 2,
     2, 2, 2, 2, 2, 3, 3, 3, 3, 3, 3, 3, 3, 4, 4, 4,
     4, 4, 4, 4, 5, 5, 5, 5, 5, 6, 6, 6, 6, 6, 7, 7,
     7, 7, 7, 8, 8, 8, 8, 9, 9, 9, 9, 10, 10, 10, 10, 11,
     11, 11, 12, 12, 12, 13, 13, 13, 13, 14, 14, 14, 15, 15, 16, 16,
     16, 17, 17, 17, 18, 18, 18, 19, 19, 20, 20, 21, 21, 21, 22, 22,
     23, 23, 24, 24, 24, 25, 25, 26, 26, 27, 27, 28, 28, 29, 29, 30,
     30, 31, 32, 32, 33, 33, 34, 34, 35, 35, 36, 37, 37, 38, 38, 39,
     40, 40, 41, 41, 42, 43, 43, 44, 45, 45, 46, 47, 47, 48, 49, 50,
     50, 51, 52, 52, 53, 54, 55, 55, 56, 57, 58, 58, 59, 60, 61, 62,
     62, 63, 64, 65, 66, 67, 67, 68, 69, 70, 71, 72, 73, 74, 74, 75,
     76, 77, 78, 79, 80, 81, 82, 83, 84, 85, 86, 87, 88, 89, 90, 91,
     92, 93, 94, 95, 96, 97, 98, 99, 100, 101, 102, 104, 105, 106, 107, 108,
     109, 110, 111, 113, 114, 115, 116, 117, 118, 120, 121, 122, 123, 125, 126, 127]"

section \<open>Bit-banged transfer\<close>

definition PLATFORM_GPIO_HIGH :: u32 where "PLATFORM_GPIO_HIGH = 1"
definition PLATFORM_GPIO_LOW :: u32 where "PLATFORM_GPIO_LOW = 0"

text \<open>The \<open>switch\<close> on the SPI type: one clock pulse; an unknown type clocks nothing.\<close>

definition clock_pulse :: "u32 \<Rightarrow> u32 \<Rightarrow> u32 \<Rightarrow> pin_event list" where
  "clock_pulse clk delay type =
     (if type = CPOL0_CPHA0 then
        [DelayUs delay] @ platform_gpio_write clk PLATFORM_GPIO_HIGH @
        [DelayUs delay] @ platform_gpio_write clk PLATFORM_GPIO_LOW
      else if type = CPOL0_CPHA1 then
        platform_gpio_write clk PLATFORM_GPIO_HIGH @ [DelayUs delay] @
        platform_gpio_write clk PLATFORM_GPIO_LOW @ [DelayUs delay]
      else if type = CPOL1_CPHA0 then
        [DelayUs delay] @ platform_gpio_write clk PLATFORM_GPIO_LOW @
        [DelayUs delay] @ platform_gpio_write clk PLATFORM_GPIO_HIGH
      else if type = CPOL1_CPHA1 then
        platform_gpio_write clk PLATFORM_GPIO_LOW @ [DelayUs delay] @
        platform_gpio_write clk PLATFORM_GPIO_HIGH @ [DelayUs delay]
      else [])"

lemma unat_drop_bit_1_less: "x \<noteq> 0 \<Longrightarrow> unat (drop_bit (Suc 0) x :: u8) < unat x"
proof -
  assume "x \<noteq> 0"
  then have "unat x \<noteq> 0" by (simp add: unat_eq_0)
  then have "drop_bit (Suc 0) (unat x) < unat x" by (simp add: drop_bit_Suc)
  then show ?thesis by (simp only: unat_drop_bit_eq)
qed

function transfer_bits :: "u32 \<Rightarrow> u32 \<Rightarrow> u8 \<Rightarrow> u32 \<Rightarrow> u32 \<Rightarrow> u8 \<Rightarrow> pin_event list" where
  "transfer_bits mosi clk byte delay type bt =
     (if bt = 0 then []
      else platform_gpio_write mosi (if byte AND bt \<noteq> 0 then PLATFORM_GPIO_HIGH else PLATFORM_GPIO_LOW) @
           clock_pulse clk delay type @
           transfer_bits mosi clk byte delay type (drop_bit 1 bt))"
  by pat_completeness auto
termination
  by (relation "measure (\<lambda>(_, _, _, _, _, bt). unat bt)") (auto simp: unat_drop_bit_1_less)

declare transfer_bits.simps [simp del]

definition transfer_byte :: "u32 \<Rightarrow> u32 \<Rightarrow> u8 \<Rightarrow> u32 \<Rightarrow> u32 \<Rightarrow> pin_event list" where
  "transfer_byte mosi clk byte delay type =
     platform_gpio_write clk (of_bool (type \<noteq> CPOL0_CPHA0 \<and> type \<noteq> CPOL0_CPHA1)) @
     transfer_bits mosi clk byte delay type 0x80"

section \<open>The frame: update, set_color, clear\<close>

text \<open>\<open>update\<close> counts both lengths in 16 bits.\<close>

definition frame_length :: "lpd_userdata \<Rightarrow> u16" where
  "frame_length pData = ucast (s_Length pData * 3)"

definition latch_length :: "lpd_userdata \<Rightarrow> u16" where
  "latch_length pData = ucast (((s_Length pData + 31) div 32) * 3)"

definition update :: "lpd_userdata \<Rightarrow> pin_event list result" where
  "update pData =
     (let send = (\<lambda>b. transfer_byte (s_Mosi pData) (s_Clk pData) b (s_Delay pData) (s_Type pData)) in
      rbind (rfold (\<lambda>i evs.
               rbind (deref (s_OutputBuffer pData)) (\<lambda>buf.
               rbind (arr_get buf i) (\<lambda>b. Inr (evs @ send b))))
             [0..<unat (frame_length pData)] [IntrLock]) (\<lambda>evs.
      Inr (evs @ concat (replicate (unat (latch_length pData)) (send 0)) @ [IntrUnlock])))"

text \<open>The three writes of one LED, in the strip's byte order green, red, blue.\<close>

definition put_pixel :: "lpd_userdata \<Rightarrow> u32 \<Rightarrow> u8 \<Rightarrow> u8 \<Rightarrow> u8 \<Rightarrow> lpd_userdata result" where
  "put_pixel pData index rn gn bn =
     rbind (deref (s_OutputBuffer pData)) (\<lambda>buf.
     rbind (arr_set buf (unat (3 * index + 0)) (gn OR 0x80)) (\<lambda>buf.
     rbind (arr_set buf (unat (3 * index + 1)) (rn OR 0x80)) (\<lambda>buf.
     rbind (arr_set buf (unat (3 * index + 2)) (bn OR 0x80)) (\<lambda>buf.
     Inr (pData\<lparr>s_OutputBuffer := Some buf\<rparr>)))))"

definition set_color :: "lpd_userdata \<Rightarrow> u32 \<Rightarrow> u32 \<Rightarrow> u32 \<Rightarrow> u32 \<Rightarrow> lpd_userdata result" where
  "set_color pData index r g b =
     rbind (guard_or DivByZero (s_Length pData \<noteq> 0)) (\<lambda>_.
     let index = index mod s_Length pData in
     rbind (arr_get gammaTable (unat r)) (\<lambda>rn.
     rbind (arr_get gammaTable (unat g)) (\<lambda>gn.
     rbind (arr_get gammaTable (unat b)) (\<lambda>bn.
     put_pixel pData index rn gn bn))))"

definition set_color_n ::
  "lpd_userdata \<Rightarrow> u32 \<Rightarrow> u32 list \<Rightarrow> u32 list \<Rightarrow> u32 list \<Rightarrow> u32 list \<Rightarrow> lpd_userdata result" where
  "set_color_n pData len indices r g b =
     rfold (\<lambda>i pd.
       rbind (arr_get indices i) (\<lambda>ix.
       rbind (guard_or DivByZero (s_Length pd \<noteq> 0)) (\<lambda>_.
       let index = ix mod s_Length pd in
       rbind (arr_get r i) (\<lambda>ri. rbind (arr_get gammaTable (unat ri)) (\<lambda>rn.
       rbind (arr_get g i) (\<lambda>gi. rbind (arr_get gammaTable (unat gi)) (\<lambda>gn.
       rbind (arr_get b i) (\<lambda>bi. rbind (arr_get gammaTable (unat bi)) (\<lambda>bn.
       put_pixel pd index rn gn bn)))))))))
     [0..<unat len] pData"

definition clear :: "lpd_userdata \<Rightarrow> u32 \<Rightarrow> u32 \<Rightarrow> u32 \<Rightarrow> lpd_userdata result" where
  "clear pData r g b =
     rfold (\<lambda>i pd. set_color pd (of_nat i) r g b) [0..<unat (s_Length pData)] pData"

section \<open>Functions called from Lua\<close>

record lpd_world =
  strips :: "nat \<Rightarrow> lpd_userdata option"
  wire :: "pin_event list"
  next_addr :: nat

definition get_strip :: "nat \<Rightarrow> ('x lpd_world_scheme, lpd_userdata) handler" where
  "get_strip a = mbind (mget strips) (\<lambda>h. mlift (deref (h a)))"

definition put_strip :: "nat \<Rightarrow> lpd_userdata \<Rightarrow> ('x lpd_world_scheme, unit) handler" where
  "put_strip a pd = mupd (\<lambda>w. w\<lparr>strips := (strips w)(a \<mapsto> pd)\<rparr>)"

definition emit :: "pin_event list \<Rightarrow> ('x lpd_world_scheme, unit) handler" where
  "emit evs = mupd (\<lambda>w. w\<lparr>wire := wire w @ evs\<rparr>)"

text \<open>Calls of the C functions above through a pointer to a strip.\<close>

definition update_at :: "nat \<Rightarrow> ('x lpd_world_scheme, unit) handler" where
  "update_at a = mbind (get_strip a) (\<lambda>pd. mbind (mlift (update pd)) emit)"

definition set_color_at ::
  "nat \<Rightarrow> u32 \<Rightarrow> u32 \<Rightarrow> u32 \<Rightarrow> u32 \<Rightarrow> ('x lpd_world_scheme, unit) handler" where
  "set_color_at a index r g b =
     mbind (get_strip a) (\<lambda>pd. mbind (mlift (set_color pd index r g b)) (put_strip a))"

definition clear_at :: "nat \<Rightarrow> u32 \<Rightarrow> u32 \<Rightarrow> u32 \<Rightarrow> ('x lpd_world_scheme, unit) handler" where
  "clear_at a r g b = mbind (get_strip a) (\<lambda>pd. mbind (mlift (clear pd r g b)) (put_strip a))"

text \<open>
  \<open>zalloc_ok n\<close> says whether the allocator serves a request of \<open>n\<close> bytes. The result is the
  address of the new userdata, left on the Lua stack.
\<close>

definition lpd_setup ::
  "(u32 \<Rightarrow> bool) \<Rightarrow> lua_conv \<Rightarrow> lua_value list \<Rightarrow> ('x lpd_world_scheme, nat) handler" where
  "lpd_setup zalloc_ok cv args =
     mbind (mlift (luaL_checkinteger cv (index2adr args 1))) (\<lambda>mosi.
     mbind (mlift (luaL_checkinteger cv (index2adr args 2))) (\<lambda>clk.
     mbind (mlift (luaL_checkinteger cv (index2adr args 3))) (\<lambda>length.
     mbind (if lua_isnumber cv (index2adr args 4)
            then mlift (lua_tointeger cv (index2adr args 4)) else mret 0) (\<lambda>type.
     mbind (if lua_isnumber cv (index2adr args 5)
            then mlift (lua_tointeger cv (index2adr args 5)) else mret 2) (\<lambda>delay.
     if \<not> platform_gpio_exists mosi then mfail (LuaError ''gpio does not exist'')
     else if \<not> platform_gpio_exists clk then mfail (LuaError ''gpio does not exist'')
     else
     (let (result, evs) = platform_gpio_mode mosi PLATFORM_GPIO_OUTPUT PLATFORM_GPIO_FLOAT in
     mbind (emit evs) (\<lambda>_.
     if result < 0 then mfail (LuaError ''Invalid MOSI pin.'')
     else
     (let (result, evs) = platform_gpio_mode clk PLATFORM_GPIO_OUTPUT PLATFORM_GPIO_FLOAT in
     mbind (emit evs) (\<lambda>_.
     if result < 0 then mfail (LuaError ''Invalid CLK pin.'')
     else
     mbind (mget next_addr) (\<lambda>a.
     mbind (mupd (\<lambda>w. w\<lparr>next_addr := Suc (next_addr w)\<rparr>)) (\<lambda>_.
     let pd = \<lparr>s_OutputBuffer = None, s_Mosi = mosi, s_Clk = clk, s_Length = length,
               s_Type = type, s_Delay = delay\<rparr>; size = length * 3 in
     mbind (put_strip a pd) (\<lambda>_.
     if \<not> zalloc_ok size then mfail (LuaError ''Out of memory (data).'')
     else
     mbind (put_strip a (pd\<lparr>s_OutputBuffer := Some (replicate (unat size) 0)\<rparr>)) (\<lambda>_.
     mbind (clear_at a 0 0 0) (\<lambda>_.
     mbind (update_at a) (\<lambda>_.
     mret a)))))))))))))))"

definition lpd_set_color :: "lua_conv \<Rightarrow> lua_value list \<Rightarrow> ('x lpd_world_scheme, unit) handler" where
  "lpd_set_color cv args =
     mbind (mlift (luaL_checkudata (index2adr args 1) ''lpd8806.lpd'')) (\<lambda>a.
     let t2 = index2adr args 2; t3 = index2adr args 3; t4 = index2adr args 4; t5 = index2adr args 5 in
     if lua_istable t2 then
       if \<not> (lua_istable t3 \<and> lua_istable t4 \<and> lua_istable t5 \<and>
             lua_objlen cv t2 = lua_objlen cv t3 \<and> lua_objlen cv t2 = lua_objlen cv t4 \<and>
             lua_objlen cv t2 = lua_objlen cv t5)
       then mfail (LuaError ''Tables sizes do not match'')
       else
         mfor [0..<lua_objlen cv t2] (\<lambda>i.
           mbind (mlift (luaL_checkinteger cv (lua_rawgeti t2 (i + 1)))) (\<lambda>index.
           mbind (mlift (luaL_checkinteger cv (lua_rawgeti t3 (i + 1)))) (\<lambda>r.
           mbind (mlift (luaL_checkinteger cv (lua_rawgeti t4 (i + 1)))) (\<lambda>g.
           mbind (mlift (luaL_checkinteger cv (lua_rawgeti t5 (i + 1)))) (\<lambda>b.
           set_color_at a index r g b)))))
     else
       mbind (mlift (luaL_checkinteger cv t2)) (\<lambda>index.
       mbind (mlift (luaL_checkinteger cv t3)) (\<lambda>r.
       mbind (mlift (luaL_checkinteger cv t4)) (\<lambda>g.
       mbind (mlift (luaL_checkinteger cv t5)) (\<lambda>b.
       set_color_at a index r g b)))))"

definition lpd_update :: "lua_value list \<Rightarrow> ('x lpd_world_scheme, unit) handler" where
  "lpd_update args =
     mbind (mlift (luaL_checkudata (index2adr args 1) ''lpd8806.lpd'')) update_at"

definition opt_integer :: "lua_conv \<Rightarrow> lua_value \<Rightarrow> u32 result" where
  "opt_integer cv v = (if lua_isnumber cv v then lua_tointeger cv v else Inr 0)"

definition lpd_clear :: "lua_conv \<Rightarrow> lua_value list \<Rightarrow> ('x lpd_world_scheme, unit) handler" where
  "lpd_clear cv args =
     mbind (mlift (luaL_checkudata (index2adr args 1) ''lpd8806.lpd'')) (\<lambda>a.
     mbind (mlift (opt_integer cv (index2adr args 2))) (\<lambda>r.
     mbind (mlift (opt_integer cv (index2adr args 3))) (\<lambda>g.
     mbind (mlift (opt_integer cv (index2adr args 4))) (\<lambda>b.
     mbind (clear_at a r g b) (\<lambda>_.
     update_at a)))))"

definition lpd_get_length :: "lua_value list \<Rightarrow> ('x lpd_world_scheme, lua_value) handler" where
  "lpd_get_length args =
     mbind (mlift (luaL_checkudata (index2adr args 1) ''lpd8806.lpd'')) (\<lambda>a.
     mbind (get_strip a) (\<lambda>pd.
     mret (lua_int (sint (s_Length pd)))))"

definition lpd_destroy :: "lua_value list \<Rightarrow> ('x lpd_world_scheme, unit) handler" where
  "lpd_destroy args =
     mbind (mlift (luaL_checkudata (index2adr args 1) ''lpd8806.lpd'')) (\<lambda>a.
     mbind (get_strip a) (\<lambda>pd.
     if s_OutputBuffer pd \<noteq> None then put_strip a (pd\<lparr>s_OutputBuffer := None\<rparr>) else mret ()))"


section \<open>Well-formed strips\<close>

text \<open>
  The frame of a live strip holds exactly three bytes per LED, and the byte offsets fit the
  machine's \<open>unsigned\<close>.
\<close>

definition wf_strip :: "lpd_userdata \<Rightarrow> bool" where
  "wf_strip pd \<longleftrightarrow>
     s_Length pd \<noteq> 0 \<and> 3 * unat (s_Length pd) < 2 ^ 32 \<and>
     (case s_OutputBuffer pd of None \<Rightarrow> False | Some buf \<Rightarrow> length buf = 3 * unat (s_Length pd))"

lemma wf_stripE:
  assumes "wf_strip pd"
  obtains buf where "s_OutputBuffer pd = Some buf" "length buf = 3 * unat (s_Length pd)"
    "s_Length pd \<noteq> 0" "0 < unat (s_Length pd)" "3 * unat (s_Length pd) < 2 ^ 32"
  using assms by (auto simp: wf_strip_def unat_gt_0 split: option.splits)

text \<open>What the strip shows for a colour component: seven gamma-corrected bits and the top bit.\<close>

definition shown :: "u32 \<Rightarrow> u8" where
  "shown c = gammaTable ! unat c OR 0x80"

definition set_pixel :: "bytes \<Rightarrow> nat \<Rightarrow> u8 \<Rightarrow> u8 \<Rightarrow> u8 \<Rightarrow> bytes" where
  "set_pixel buf k g r b = buf[3 * k := g, 3 * k + 1 := r, 3 * k + 2 := b]"

definition pixel :: "bytes \<Rightarrow> nat \<Rightarrow> u8 \<times> u8 \<times> u8" where
  "pixel buf k = (buf ! (3 * k), buf ! (3 * k + 1), buf ! (3 * k + 2))"

lemma length_set_pixel [simp]: "length (set_pixel buf k g r b) = length buf"
  by (simp add: set_pixel_def)

lemma pixel_set_pixel:
  assumes "3 * k + 2 < length buf"
  shows "pixel (set_pixel buf k g r b) j = (if j = k then (g, r, b) else pixel buf j)"
  using assms unfolding pixel_def set_pixel_def
  by (cases "j = k") (auto simp: nth_list_update intro!: nth_list_update_neq)

lemma length_gammaTable [simp]: "length gammaTable = 256"
  by (simp add: gammaTable_def)

lemma unat_offset:
  assumes "3 * unat n < 2 ^ 32" "unat k < unat n" "c < 3"
  shows "unat (3 * k + of_nat c :: u32) = 3 * unat k + c"
proof -
  have k: "unat (3 * k) = 3 * unat k"
    using assms by (subst unat_mult_no_wrap) auto
  have c: "unat (of_nat c :: u32) = c"
    using assms by (intro unat_of_nat_small) auto
  show ?thesis
    using assms k c by (subst unat_add_no_wrap) auto
qed

lemma put_pixel_eq:
  assumes "wf_strip pd" "s_OutputBuffer pd = Some buf" "k < s_Length pd"
  shows "put_pixel pd k rn gn bn =
    Inr (pd\<lparr>s_OutputBuffer := Some (set_pixel buf (unat k) (gn OR 0x80) (rn OR 0x80) (bn OR 0x80))\<rparr>)"
proof -
  obtain buf' where b: "s_OutputBuffer pd = Some buf'" "length buf' = 3 * unat (s_Length pd)"
    "3 * unat (s_Length pd) < 2 ^ 32"
    using assms(1) by (rule wf_stripE)
  have k: "unat k < unat (s_Length pd)"
    using assms(3) by (simp add: word_less_nat_alt)
  have offs: "unat (3 * k + 0) = 3 * unat k" "unat (3 * k + 1) = 3 * unat k + 1"
    "unat (3 * k + 2) = 3 * unat k + 2"
    using unat_offset [OF b(3) k, of 0] unat_offset [OF b(3) k, of 1] unat_offset [OF b(3) k, of 2]
    by simp_all
  show ?thesis
    using assms(2) b k unfolding put_pixel_def offs by (simp add: set_pixel_def)
qed

text \<open>A colour update with components below 256 never leaves the frame or the gamma table.\<close>

lemma set_color_eq:
  assumes "wf_strip pd" "s_OutputBuffer pd = Some buf"
    and "unat r < 256" "unat g < 256" "unat b < 256"
  shows "set_color pd index r g b =
    Inr (pd\<lparr>s_OutputBuffer :=
      Some (set_pixel buf (unat (index mod s_Length pd)) (shown g) (shown r) (shown b))\<rparr>)"
proof -
  have nz: "s_Length pd \<noteq> 0" using assms(1) by (simp add: wf_strip_def)
  then have "index mod s_Length pd < s_Length pd"
    by (simp add: word_mod_less_divisor word_neq_0_conv)
  from put_pixel_eq [OF assms(1,2) this] nz assms(3-5) show ?thesis
    by (simp add: set_color_def Let_def shown_def)
qed

lemma wf_strip_set_buffer:
  "wf_strip pd \<Longrightarrow> s_OutputBuffer pd = Some buf \<Longrightarrow> length buf' = length buf \<Longrightarrow>
   wf_strip (pd\<lparr>s_OutputBuffer := Some buf'\<rparr>)"
  by (simp add: wf_strip_def)

text \<open>Component values of 256 and more read past the gamma table.\<close>

lemma set_color_overflow:
  assumes "s_Length pd \<noteq> 0" "256 \<le> unat r"
  shows "set_color pd index r g b = Inl (OutOfBounds (unat r))"
  using assms by (simp add: set_color_def Let_def)


subsection \<open>Clearing\<close>

lemma set_pixel_split:
  assumes "length xs = 3 * n"
  shows "set_pixel (xs @ x # y # z # zs) n g r b = xs @ g # r # b # zs"
proof -
  have "3 * n + 1 = length xs + 1" "3 * n + 2 = length xs + 2"
    using assms by simp_all
  then show ?thesis
    unfolding set_pixel_def assms [symmetric]
    by (simp add: list_update_append)
qed

lemma drop_three:
  assumes "3 * n + 2 < length buf"
  obtains x y z where "drop (3 * n) buf = x # y # z # drop (3 * Suc n) buf"
proof
  have "drop i buf = buf ! i # drop (Suc i) buf" if "i \<le> 3 * n + 2" for i
    using assms that by (simp add: Cons_nth_drop_Suc)
  from this [of "3 * n"] this [of "3 * n + 1"] this [of "3 * n + 2"]
  show "drop (3 * n) buf =
      buf ! (3 * n) # buf ! (3 * n + 1) # buf ! (3 * n + 2) # drop (3 * Suc n) buf"
    by (simp add: eval_nat_numeral)
qed

definition filled :: "nat \<Rightarrow> u8 \<Rightarrow> u8 \<Rightarrow> u8 \<Rightarrow> bytes" where
  "filled n g r b = concat (replicate n [g, r, b])"

lemma length_filled [simp]: "length (filled n g r b) = 3 * n"
  by (induction n) (auto simp: filled_def)

lemma filled_Suc: "filled (Suc n) g r b = filled n g r b @ [g, r, b]"
  by (induction n) (simp_all add: filled_def)

lemma pixel_filled: "k < n \<Longrightarrow> pixel (filled n g r b) k = (g, r, b)"
proof (induction n)
  case (Suc n)
  then show ?case
    by (cases "k = n") (auto simp: filled_Suc pixel_def nth_append)
qed simp

lemma clear_loop:
  assumes wf: "wf_strip pd" and buf: "s_OutputBuffer pd = Some buf"
    and comps: "unat r < 256" "unat g < 256" "unat b < 256" and n: "n \<le> unat (s_Length pd)"
  shows "rfold (\<lambda>i pd. set_color pd (of_nat i) r g b) [0..<n] pd =
    Inr (pd\<lparr>s_OutputBuffer := Some (filled n (shown g) (shown r) (shown b) @ drop (3 * n) buf)\<rparr>)"
  using n
proof (induction n)
  case 0
  with buf show ?case by (simp add: filled_def)
next
  case (Suc n)
  let ?pd = "pd\<lparr>s_OutputBuffer := Some (filled n (shown g) (shown r) (shown b) @ drop (3 * n) buf)\<rparr>"
  obtain buf' where b: "s_OutputBuffer pd = Some buf'" "length buf' = 3 * unat (s_Length pd)"
    using wf by (rule wf_stripE)
  have len: "length buf = 3 * unat (s_Length pd)" using b buf by simp
  have wf': "wf_strip ?pd"
    using wf len Suc.prems by (auto simp: wf_strip_def)
  have "unat (of_nat n :: u32) = n"
    using Suc.prems u32_bound [of "s_Length pd"] by (intro unat_of_nat_small) simp
  then have ix: "unat (of_nat n mod s_Length pd) = n"
    using Suc.prems by (simp add: unat_mod)
  obtain x y z where d: "drop (3 * n) buf = x # y # z # drop (3 * Suc n) buf"
    using drop_three [of n buf] len Suc.prems by auto
  have "set_color ?pd (of_nat n) r g b =
    Inr (pd\<lparr>s_OutputBuffer :=
      Some (filled (Suc n) (shown g) (shown r) (shown b) @ drop (3 * Suc n) buf)\<rparr>)"
    using set_color_eq [OF wf' _ comps, where index = "of_nat n"] ix
    by (simp add: d set_pixel_split filled_Suc)
  moreover have "rfold (\<lambda>i pd. set_color pd (of_nat i) r g b) [0..<n] pd = Inr ?pd"
    using Suc by simp
  ultimately show ?case
    by (simp only: rfold_upt_Suc rbind_Inr)
qed

lemma clear_eq:
  assumes "wf_strip pd" and "unat r < 256" "unat g < 256" "unat b < 256"
  shows "clear pd r g b =
    Inr (pd\<lparr>s_OutputBuffer :=
      Some (filled (unat (s_Length pd)) (shown g) (shown r) (shown b))\<rparr>)"
proof -
  obtain buf where b: "s_OutputBuffer pd = Some buf" "length buf = 3 * unat (s_Length pd)"
    using assms(1) by (rule wf_stripE)
  show ?thesis
    using clear_loop [OF assms(1) b(1) assms(2-4), of "unat (s_Length pd)"] b(2)
    by (simp add: clear_def)
qed

section \<open>The gamma correction\<close>

lemma gammaTable_7bit: "\<forall>x \<in> set gammaTable. (x OR 0x80) AND 0x7F = x"
  by (simp add: gammaTable_def)

lemma gammaTable_sorted: "sorted (map (\<lambda>x. x OR 0x80) gammaTable)"
  unfolding gammaTable_def list.map
  by (simp only: sorted2 sorted1 simp_thms) simp

lemma shown_7bit: "unat c < 256 \<Longrightarrow> shown c AND 0x7F = gammaTable ! unat c"
  using gammaTable_7bit by (simp add: shown_def)

lemma shown_top: "bit (shown c) 7"
proof -
  have "bit (0x80 :: u8) 7" by simp
  then show ?thesis unfolding shown_def by (simp only: bit_or_iff simp_thms)
qed

lemma shown_nonzero: "shown c \<noteq> 0"
  using shown_top [of c] by auto

lemma shown_mono:
  assumes "unat c \<le> unat d" "unat d < 256"
  shows "shown c \<le> shown d"
  using sorted_nth_mono [OF gammaTable_sorted assms(1)] assms by (simp add: shown_def)

section \<open>What the strip receives\<close>

text \<open>
  A device on the data and clock pins that samples the data pin at every rising clock edge
  (the LPD8806 does): from the register-level calls to the bits it reads.
\<close>

fun spi_rx :: "nat \<Rightarrow> nat \<Rightarrow> pin_event list \<Rightarrow> bool \<times> bool \<Rightarrow> bool list" where
  "spi_rx m c [] s = []"
| "spi_rx m c (e # es) s =
     (let d = drives m e (fst s); k = drives c e (snd s) in
      (if \<not> snd s \<and> k then [d] else []) @ spi_rx m c es (d, k))"

lemma spi_rx_append:
  "spi_rx m c (xs @ ys) s =
   spi_rx m c xs s @ spi_rx m c ys (level_after m xs (fst s), level_after c xs (snd s))"
  by (induction xs arbitrary: s) (auto simp: Let_def)

definition bits_msb :: "u8 \<Rightarrow> bool list" where
  "bits_msb b = map (bit b) [7, 6, 5, 4, 3, 2, 1, 0]"

lemma bits_msb_inject: "bits_msb a = bits_msb b \<Longrightarrow> a = b"
proof (rule bit_word_eqI)
  fix n
  assume eq: "bits_msb a = bits_msb b" and "n < LENGTH(8)"
  then have "n \<in> {7, 6, 5, 4, 3, 2, 1, 0}" by auto
  with eq show "bit a n = bit b n" by (auto simp: bits_msb_def)
qed

text \<open>Level writes as a receiver sees them: only a rising edge of the clock yields a bit.\<close>

lemma spi_rx_write:
  assumes "p < NUM_GPIO" "mo < NUM_GPIO" "ck < NUM_GPIO" "mo \<noteq> ck" "v = of_bool b"
  shows "spi_rx (phys mo) (phys ck) (platform_gpio_write p v) (d, k) =
    (if p = ck \<and> \<not> k \<and> b then [d] else [])"
proof -
  have d: "level_after (phys mo) (platform_gpio_write p v) d = (if mo = p then b else d)" for d
    using write_drives [OF assms(1,2,5)] .
  have k: "level_after (phys ck) (platform_gpio_write p v) k = (if ck = p then b else k)" for k
    using write_drives [OF assms(1,3,5)] .
  show ?thesis
    using d [of d] k [of k] assms
    by (cases "p = 0") (auto simp: platform_gpio_write_def Let_def split: if_splits)
qed


definition clk_idle :: "u32 \<Rightarrow> bool" where
  "clk_idle type = (type \<noteq> CPOL0_CPHA0 \<and> type \<noteq> CPOL0_CPHA1)"

definition wired :: "u32 \<Rightarrow> u32 \<Rightarrow> u32 \<Rightarrow> bool" where
  "wired mo ck type \<longleftrightarrow> mo < NUM_GPIO \<and> ck < NUM_GPIO \<and> mo \<noteq> ck \<and> type < 4"

lemma type_cases: "type < 4 \<Longrightarrow> type = 0 \<or> type = 1 \<or> type = 2 \<or> type = (3 :: u32)"
  by unat_arith

lemma gpio_levels: "PLATFORM_GPIO_HIGH = of_bool True" "PLATFORM_GPIO_LOW = of_bool False"
  by (simp_all add: PLATFORM_GPIO_HIGH_def PLATFORM_GPIO_LOW_def)

lemmas rx_simps = spi_rx_append spi_rx_write write_drives gpio_levels

lemma clock_pulse_rx:
  assumes "wired mo ck type"
  shows "spi_rx (phys mo) (phys ck) (clock_pulse ck delay type) (d, clk_idle type) = [d]"
    and "level_after (phys mo) (clock_pulse ck delay type) d = d"
    and "level_after (phys ck) (clock_pulse ck delay type) k = clk_idle type"
  using assms type_cases [of type]
  by (auto simp: wired_def clock_pulse_def clk_idle_def spi_mode_defs rx_simps Let_def)

lemma one_bit_rx:
  assumes w: "wired mo ck type"
  shows "spi_rx (phys mo) (phys ck) (platform_gpio_write mo (of_bool v) @ clock_pulse ck delay type)
      (d, clk_idle type) = [v]"
    and "level_after (phys ck) (platform_gpio_write mo (of_bool v) @ clock_pulse ck delay type)
      (clk_idle type) = clk_idle type"
proof -
  have p: "mo < NUM_GPIO" "ck < NUM_GPIO" "mo \<noteq> ck" using w by (auto simp: wired_def)
  show "spi_rx (phys mo) (phys ck) (platform_gpio_write mo (of_bool v) @ clock_pulse ck delay type)
      (d, clk_idle type) = [v]"
    using p clock_pulse_rx(1) [OF w]
    by (simp add: spi_rx_append spi_rx_write [OF p(1) p(1) p(2) p(3) refl]
        write_drives [OF p(1) p(1) refl] write_drives [OF p(1) p(2) refl])
  show "level_after (phys ck) (platform_gpio_write mo (of_bool v) @ clock_pulse ck delay type)
      (clk_idle type) = clk_idle type"
    using p by (simp add: clock_pulse_rx(3) [OF w])
qed

lemma transfer_bits_push:
  assumes "n < 8"
  shows "transfer_bits mo ck byte delay type (push_bit n 1) =
    platform_gpio_write mo (of_bool (bit byte n)) @ clock_pulse ck delay type @
    (if n = 0 then [] else transfer_bits mo ck byte delay type (push_bit (n - 1) 1))"
proof -
  have nz: "push_bit n 1 \<noteq> (0 :: u8)"
    using assms by simp
  have and_iff: "byte AND push_bit n 1 \<noteq> 0 \<longleftrightarrow> bit byte n"
    by (simp add: bit_iff_and_push_bit_not_eq_0)
  have "drop_bit 1 (push_bit n 1 :: u8) = (if n = 0 then 0 else push_bit (n - 1) 1)"
    by (rule bit_word_eqI) (use assms in \<open>auto simp: bit_simps\<close>)
  with nz and_iff show ?thesis
    by (subst transfer_bits.simps) (auto simp: gpio_levels transfer_bits.simps [of _ _ _ _ _ 0])
qed

lemma transfer_bits_rx:
  assumes w: "wired mo ck type" and "n < 8"
  shows "spi_rx (phys mo) (phys ck) (transfer_bits mo ck byte delay type (push_bit n 1)) (d, clk_idle type) =
      map (bit byte) (rev [0..<Suc n])
    \<and> level_after (phys ck) (transfer_bits mo ck byte delay type (push_bit n 1)) (clk_idle type) =
      clk_idle type"
  using assms(2)
proof (induction n arbitrary: d)
  case 0
  show ?case
    using one_bit_rx [OF w, of "bit byte 0" delay]
    by (simp add: transfer_bits_push [of 0, simplified])
next
  case (Suc n)
  have "transfer_bits mo ck byte delay type (push_bit (Suc n) 1) =
    (platform_gpio_write mo (of_bool (bit byte (Suc n))) @ clock_pulse ck delay type) @
    transfer_bits mo ck byte delay type (push_bit n 1)"
    using Suc.prems by (subst transfer_bits_push) auto
  with Suc show ?case
    using one_bit_rx [OF w, of "bit byte (Suc n)" delay]
    by (simp only: spi_rx_append fst_conv snd_conv) simp
qed

lemma transfer_byte_rx:
  assumes w: "wired mo ck type"
  shows "spi_rx (phys mo) (phys ck) (transfer_byte mo ck byte delay type) (d, clk_idle type) = bits_msb byte"
    and "level_after (phys ck) (transfer_byte mo ck byte delay type) (clk_idle type) = clk_idle type"
proof -
  have p: "mo < NUM_GPIO" "ck < NUM_GPIO" "mo \<noteq> ck" using w by (auto simp: wired_def)
  have eq: "transfer_byte mo ck byte delay type =
    platform_gpio_write ck (of_bool (clk_idle type)) @
    transfer_bits mo ck byte delay type (push_bit 7 1)"
    by (simp add: transfer_byte_def clk_idle_def)
  have m: "map (bit byte) (rev [0..<Suc 7]) = bits_msb byte"
    by (simp add: bits_msb_def upt_rec) (simp add: eval_nat_numeral)
  show "spi_rx (phys mo) (phys ck) (transfer_byte mo ck byte delay type) (d, clk_idle type) = bits_msb byte"
    using p transfer_bits_rx [OF w, of 7 byte delay] m
    by (simp only: eq spi_rx_append spi_rx_write [OF p(2) p(1) p(2) p(3) refl] fst_conv snd_conv
        write_drives [OF p(2) p(1) refl] write_drives [OF p(2) p(2) refl]) simp
  show "level_after (phys ck) (transfer_byte mo ck byte delay type) (clk_idle type) = clk_idle type"
    using transfer_bits_rx [OF w, of 7 byte delay]
    by (simp only: eq fold_append o_apply write_drives [OF p(2) p(2) refl]) simp
qed

lemma transfer_bytes_rx:
  assumes w: "wired mo ck type"
  shows "spi_rx (phys mo) (phys ck) (concat (map (\<lambda>b. transfer_byte mo ck b delay type) bs))
      (d, clk_idle type) = concat (map bits_msb bs)
    \<and> level_after (phys ck) (concat (map (\<lambda>b. transfer_byte mo ck b delay type) bs)) (clk_idle type) =
      clk_idle type"
proof (induction bs arbitrary: d)
  case (Cons b bs)
  then show ?case
    using transfer_byte_rx [OF w, of b delay] by (simp add: spi_rx_append)
qed simp


subsection \<open>A whole update\<close>

definition send_bytes :: "lpd_userdata \<Rightarrow> bytes \<Rightarrow> pin_event list" where
  "send_bytes pd bs =
     concat (map (\<lambda>b. transfer_byte (s_Mosi pd) (s_Clk pd) b (s_Delay pd) (s_Type pd)) bs)"

lemma frame_length_le:
  assumes "wf_strip pd" "s_OutputBuffer pd = Some buf"
  shows "unat (frame_length pd) \<le> length buf"
proof -
  have 3: "unat (s_Length pd * 3) = 3 * unat (s_Length pd)"
    using assms(1) by (subst unat_mult_no_wrap) (auto simp: wf_strip_def)
  have "unat (frame_length pd) \<le> unat (s_Length pd * 3)"
    unfolding frame_length_def by (simp add: unat_ucast_mod)
  with 3 assms show ?thesis by (auto simp: wf_strip_def)
qed

lemma update_eq:
  assumes "wf_strip pd" "s_OutputBuffer pd = Some buf"
  shows "update pd = Inr (IntrLock # send_bytes pd (take (unat (frame_length pd)) buf @
           replicate (unat (latch_length pd)) 0) @ [IntrUnlock])"
  using assms(2)
  by (simp add: update_def send_bytes_def Let_def rfold_collect [OF frame_length_le [OF assms]])

text \<open>Up to 21845 LEDs the 16-bit counters hold the whole frame.\<close>

lemma unat_frame_length:
  assumes "3 * unat (s_Length pd) < 2 ^ 16"
  shows "unat (frame_length pd) = 3 * unat (s_Length pd)"
proof -
  have "unat (s_Length pd * 3) = 3 * unat (s_Length pd)"
    using assms by (subst unat_mult_no_wrap) auto
  with assms show ?thesis by (simp add: frame_length_def unat_ucast_mod)
qed

lemma unat_latch_length:
  assumes "3 * unat (s_Length pd) < 2 ^ 16"
  shows "unat (latch_length pd) = 3 * ((unat (s_Length pd) + 31) div 32)"
proof -
  have a: "unat (s_Length pd + 31) = unat (s_Length pd) + 31"
    using assms by (subst unat_add_no_wrap) auto
  then have d: "unat ((s_Length pd + 31) div 32) = (unat (s_Length pd) + 31) div 32"
    by (simp add: unat_div)
  have "3 * ((unat (s_Length pd) + 31) div 32) < 2 ^ 16"
    using assms by simp
  then show ?thesis
    by (simp add: latch_length_def unat_ucast_mod unat_word_ariths d)
qed

lemma update_rx:
  assumes "wf_strip pd" "s_OutputBuffer pd = Some buf" "3 * unat (s_Length pd) < 2 ^ 16"
    and w: "wired (s_Mosi pd) (s_Clk pd) (s_Type pd)"
  obtains evs where "update pd = Inr evs"
    and "spi_rx (phys (s_Mosi pd)) (phys (s_Clk pd)) evs (d, clk_idle (s_Type pd)) =
      concat (map bits_msb (buf @ replicate (3 * ((unat (s_Length pd) + 31) div 32)) 0))"
proof -
  have "length buf = 3 * unat (s_Length pd)"
    using assms(1,2) by (auto simp: wf_strip_def)
  then have "update pd = Inr (IntrLock # send_bytes pd
      (buf @ replicate (3 * ((unat (s_Length pd) + 31) div 32)) 0) @ [IntrUnlock])"
    using update_eq [OF assms(1,2)]
    by (simp add: unat_frame_length [OF assms(3)] unat_latch_length [OF assms(3)])
  from that [OF this] show ?thesis
    using transfer_bytes_rx [OF w]
    by (simp add: send_bytes_def spi_rx_append Let_def del: map_append concat_append)
qed


section \<open>The interface a display on a strip relies on\<close>

text \<open>
  A strip of LEDs behind a pointer: colour updates and clearing change LEDs of that strip only and
  nothing else of the state (\<open>rest\<close>), pushing the frame changes no LED. The client fact is about
  painting: a loop whose body sets pairwise different LEDs leaves every painted LED with its own
  colour and the others as they were.
\<close>

locale led_strip =
  fixes set_at :: "nat \<Rightarrow> u32 \<Rightarrow> u32 \<Rightarrow> u32 \<Rightarrow> u32 \<Rightarrow> ('w, unit) handler"
    and clear_all :: "nat \<Rightarrow> u32 \<Rightarrow> u32 \<Rightarrow> u32 \<Rightarrow> ('w, unit) handler"
    and push_at :: "nat \<Rightarrow> ('w, unit) handler"
    and leds :: "nat \<Rightarrow> 'w \<Rightarrow> nat"
    and led :: "nat \<Rightarrow> 'w \<Rightarrow> nat \<Rightarrow> u8 \<times> u8 \<times> u8"
    and tint :: "u32 \<Rightarrow> u8"
    and rest :: "nat \<Rightarrow> 'w \<Rightarrow> 'r"
  assumes set_at_law:
    "0 < leds a w \<Longrightarrow> unat r < 256 \<Longrightarrow> unat g < 256 \<Longrightarrow> unat b < 256 \<Longrightarrow>
     \<exists>w'. set_at a i r g b w = (Inr (), w') \<and> leds a w' = leds a w \<and> rest a w' = rest a w \<and>
       (\<forall>k < leds a w. led a w' k =
          (if k = unat i mod leds a w then (tint g, tint r, tint b) else led a w k))"
    and clear_all_law:
    "0 < leds a w \<Longrightarrow> unat r < 256 \<Longrightarrow> unat g < 256 \<Longrightarrow> unat b < 256 \<Longrightarrow>
     \<exists>w'. clear_all a r g b w = (Inr (), w') \<and> leds a w' = leds a w \<and> rest a w' = rest a w \<and>
       (\<forall>k < leds a w. led a w' k = (tint g, tint r, tint b))"
    and push_at_law:
    "0 < leds a w \<Longrightarrow>
     \<exists>w'. push_at a w = (Inr (), w') \<and> leds a w' = leds a w \<and> rest a w' = rest a w \<and>
       led a w' = led a w"
begin

lemma paint:
  assumes "leds a w = n" "0 < n" "rest a w = R"
    and body: "\<And>x w. x \<in> set xs \<Longrightarrow> leds a w = n \<Longrightarrow> rest a w = R \<Longrightarrow>
      body x w = set_at a (ix x) (cr x) (cg x) (cb x) w"
    and comps: "\<And>x. x \<in> set xs \<Longrightarrow> unat (cr x) < 256 \<and> unat (cg x) < 256 \<and> unat (cb x) < 256"
    and inj: "distinct (map (\<lambda>x. unat (ix x)) xs)"
    and range: "\<And>x. x \<in> set xs \<Longrightarrow> unat (ix x) < n"
  shows "\<exists>w'. mfor xs body w = (Inr (), w') \<and> leds a w' = n \<and> rest a w' = R \<and>
    (\<forall>x \<in> set xs. led a w' (unat (ix x)) = (tint (cg x), tint (cr x), tint (cb x))) \<and>
    (\<forall>k < n. k \<notin> (\<lambda>x. unat (ix x)) ` set xs \<longrightarrow> led a w' k = led a w k)"
  using assms
proof (induction xs arbitrary: w)
  case Nil
  then show ?case by simp
next
  case (Cons x xs)
  let ?col = "\<lambda>x. (tint (cg x), tint (cr x), tint (cb x))"
  have ix: "unat (ix x) mod n = unat (ix x)" "unat (ix x) < n"
    using Cons.prems(7) [of x] by auto
  obtain w1 where w1: "body x w = (Inr (), w1)" "leds a w1 = n" "rest a w1 = R"
    "\<forall>k < n. led a w1 k = (if k = unat (ix x) then ?col x else led a w k)"
    using set_at_law [of a w "cr x" "cg x" "cb x" "ix x"] Cons.prems(1-5) ix(1) by auto
  obtain w2 where w2: "mfor xs body w1 = (Inr (), w2)" "leds a w2 = n" "rest a w2 = R"
    "\<forall>y \<in> set xs. led a w2 (unat (ix y)) = ?col y"
    "\<forall>k < n. k \<notin> (\<lambda>x. unat (ix x)) ` set xs \<longrightarrow> led a w2 k = led a w1 k"
    using Cons.IH [OF w1(2) Cons.prems(2) w1(3)] Cons.prems(4-7) by auto
  have "led a w2 (unat (ix x)) = ?col x"
    using w1(4) w2(5) Cons.prems(6) ix(2) by auto
  with w1 w2 show ?case by auto
qed

end

subsection \<open>The strip module provides it\<close>

definition strip_leds :: "nat \<Rightarrow> 'x lpd_world_scheme \<Rightarrow> nat" where
  "strip_leds a w =
     (case strips w a of None \<Rightarrow> 0 | Some pd \<Rightarrow> if wf_strip pd then unat (s_Length pd) else 0)"

definition strip_led :: "nat \<Rightarrow> 'x lpd_world_scheme \<Rightarrow> nat \<Rightarrow> u8 \<times> u8 \<times> u8" where
  "strip_led a w k =
     (case strips w a of None \<Rightarrow> (0, 0, 0)
      | Some pd \<Rightarrow> (case s_OutputBuffer pd of None \<Rightarrow> (0, 0, 0) | Some buf \<Rightarrow> pixel buf k))"

definition strip_rest :: "nat \<Rightarrow> 'x lpd_world_scheme \<Rightarrow> (nat \<Rightarrow> lpd_userdata option) \<times> lpd_userdata option \<times> nat \<times> 'x" where
  "strip_rest a w =
     ((strips w)(a := None), map_option (\<lambda>pd. pd\<lparr>s_OutputBuffer := None\<rparr>) (strips w a),
      next_addr w, lpd_world.more w)"

abbreviation live :: "nat \<Rightarrow> 'x lpd_world_scheme \<Rightarrow> bool" where
  "live a w \<equiv> 0 < strip_leds a w"

lemma strip_ledsE:
  assumes "live a w"
  obtains pd buf where "strips w a = Some pd" "wf_strip pd" "s_OutputBuffer pd = Some buf"
    "strip_leds a w = unat (s_Length pd)"
  using assms that
  by (auto simp: strip_leds_def wf_strip_def split: option.splits if_splits)

lemmas strip_calls = set_color_at_def clear_at_def update_at_def get_strip_def put_strip_def emit_def
lemmas strip_views = strip_leds_def strip_led_def strip_rest_def

interpretation strip: led_strip set_color_at clear_at update_at strip_leds strip_led shown strip_rest
proof unfold_locales
  fix a :: nat and w :: "'x lpd_world_scheme" and r g b i :: u32
  assume l: "live a w" and c: "unat r < 256" "unat g < 256" "unat b < 256"
  obtain pd buf where pd: "strips w a = Some pd" "wf_strip pd" "s_OutputBuffer pd = Some buf"
    "strip_leds a w = unat (s_Length pd)"
    using l by (rule strip_ledsE)
  have len: "length buf = 3 * unat (s_Length pd)"
    using pd by (auto simp: wf_strip_def)
  have m: "unat (i mod s_Length pd) < unat (s_Length pd)"
    using l pd by (simp add: unat_mod)
  show "\<exists>w'. set_color_at a i r g b w = (Inr (), w') \<and> strip_leds a w' = strip_leds a w \<and>
      strip_rest a w' = strip_rest a w \<and>
      (\<forall>k < strip_leds a w. strip_led a w' k =
         (if k = unat i mod strip_leds a w then (shown g, shown r, shown b) else strip_led a w k))"
    using pd m len set_color_eq [OF pd(2,3) c]
    by (simp add: strip_calls) (auto simp: strip_views wf_strip_def unat_mod pixel_set_pixel)
  show "\<exists>w'. clear_at a r g b w = (Inr (), w') \<and> strip_leds a w' = strip_leds a w \<and>
      strip_rest a w' = strip_rest a w \<and>
      (\<forall>k < strip_leds a w. strip_led a w' k = (shown g, shown r, shown b))"
    using pd len clear_eq [OF pd(2) c]
    by (simp add: strip_calls) (auto simp: strip_views wf_strip_def pixel_filled)
next
  fix a :: nat and w :: "'x lpd_world_scheme"
  assume "live a w"
  then obtain pd buf where "strips w a = Some pd" "wf_strip pd" "s_OutputBuffer pd = Some buf"
    by (rule strip_ledsE)
  then show "\<exists>w'. update_at a w = (Inr (), w') \<and> strip_leds a w' = strip_leds a w \<and>
      strip_rest a w' = strip_rest a w \<and> strip_led a w' = strip_led a w"
    by (simp add: strip_calls update_eq) (auto simp: strip_views)
qed


section \<open>The module as a whole\<close>

text \<open>
  Every strip object either has no frame (allocation failed, or it was destroyed) or is well
  formed; addresses are handed out once.
\<close>

definition strips_ok :: "'x lpd_world_scheme \<Rightarrow> bool" where
  "strips_ok w \<longleftrightarrow>
     (\<forall>a pd. strips w a = Some pd \<longrightarrow>
        a < next_addr w \<and> (s_OutputBuffer pd = None \<or> wf_strip pd))"

lemma strips_okD: "strips_ok w \<Longrightarrow> strips w a = Some pd \<Longrightarrow> a < next_addr w"
  by (auto simp: strips_ok_def)

lemma strips_ok_put:
  "strips_ok w \<Longrightarrow> a < next_addr w \<Longrightarrow> s_OutputBuffer pd = None \<or> wf_strip pd \<Longrightarrow>
   strips_ok (w\<lparr>strips := (strips w)(a \<mapsto> pd)\<rparr>)"
  by (auto simp: strips_ok_def)

lemma strips_ok_wire [simp]: "strips_ok (w\<lparr>wire := v\<rparr>) = strips_ok w"
  by (simp add: strips_ok_def)

lemma live_wire [simp]: "strip_leds a (w\<lparr>wire := v\<rparr>) = strip_leds a w"
  by (simp add: strip_leds_def)

definition strip_ready :: "nat \<Rightarrow> 'x lpd_world_scheme \<Rightarrow> bool" where
  "strip_ready a w \<longleftrightarrow> strips_ok w \<and> live a w"

lemma strip_ready_put:
  assumes "strip_ready a w" "wf_strip pd"
  shows "strip_ready a (w\<lparr>strips := (strips w)(a \<mapsto> pd)\<rparr>)"
proof -
  obtain pd0 where "strips w a = Some pd0" "strips_ok w"
    using assms(1) by (auto simp: strip_ready_def elim: strip_ledsE)
  with assms(2) show ?thesis
    by (auto simp: strip_ready_def strip_leds_def strips_ok_put strips_okD elim: wf_stripE)
qed

lemma keeps_set_color_at [keeps_intro]:
  assumes "unat r < 256" "unat g < 256" "unat b < 256"
  shows "keeps (strip_ready a) (set_color_at a i r g b)"
proof (rule keepsI)
  fix w :: "'x lpd_world_scheme"
  assume w: "strip_ready a w"
  then obtain pd buf where pd: "strips w a = Some pd" "wf_strip pd" "s_OutputBuffer pd = Some buf"
    by (auto simp: strip_ready_def elim: strip_ledsE)
  show "clean (fst (set_color_at a i r g b w)) \<and> strip_ready a (snd (set_color_at a i r g b w))"
    using w pd set_color_eq [OF pd(2,3) assms]
    by (simp add: strip_calls strip_ready_put wf_strip_set_buffer)
qed

lemma keeps_clear_at [keeps_intro]:
  assumes "unat r < 256" "unat g < 256" "unat b < 256"
  shows "keeps (strip_ready a) (clear_at a r g b)"
proof (rule keepsI)
  fix w :: "'x lpd_world_scheme"
  assume w: "strip_ready a w"
  then obtain pd buf where pd: "strips w a = Some pd" "wf_strip pd" "s_OutputBuffer pd = Some buf"
    by (auto simp: strip_ready_def elim: strip_ledsE)
  then have "length buf = 3 * unat (s_Length pd)" by (auto simp: wf_strip_def)
  then show "clean (fst (clear_at a r g b w)) \<and> strip_ready a (snd (clear_at a r g b w))"
    using w pd clear_eq [OF pd(2) assms]
    by (simp add: strip_calls strip_ready_put wf_strip_set_buffer)
qed

lemma keeps_update_at [keeps_intro]: "keeps (strip_ready a) (update_at a)"
proof (rule keepsI)
  fix w :: "'x lpd_world_scheme"
  assume w: "strip_ready a w"
  then obtain pd buf where pd: "strips w a = Some pd" "wf_strip pd" "s_OutputBuffer pd = Some buf"
    by (auto simp: strip_ready_def elim: strip_ledsE)
  with w show "clean (fst (update_at a w)) \<and> strip_ready a (snd (update_at a w))"
    by (simp add: strip_calls update_eq strip_ready_def)
qed

subsection \<open>Calls from Lua\<close>

datatype lpd_call =
    LpdSetup "lua_value list"
  | LpdSetColor "lua_value list"
  | LpdUpdate "lua_value list"
  | LpdClear "lua_value list"
  | LpdGetLength "lua_value list"
  | LpdDestroy "lua_value list"

definition ignore :: "('w, 'a) handler \<Rightarrow> ('w, unit) handler" where
  "ignore m = mbind m (\<lambda>_. mret ())"

definition lpd_handle ::
  "(u32 \<Rightarrow> bool) \<Rightarrow> lua_conv \<Rightarrow> lpd_call \<Rightarrow> ('x lpd_world_scheme, unit) handler" where
  "lpd_handle zalloc_ok cv c =
     (case c of
        LpdSetup args \<Rightarrow> ignore (lpd_setup zalloc_ok cv args)
      | LpdSetColor args \<Rightarrow> lpd_set_color cv args
      | LpdUpdate args \<Rightarrow> lpd_update args
      | LpdClear args \<Rightarrow> lpd_clear cv args
      | LpdGetLength args \<Rightarrow> ignore (lpd_get_length args)
      | LpdDestroy args \<Rightarrow> lpd_destroy args)"

text \<open>
  What a Lua program has to respect: object arguments are strips whose frame was allocated, colour
  components fit a byte, a new strip has between 1 and \<open>2^32 div 3\<close> LEDs, and numbers fit the
  machine integer they are converted to.
\<close>

definition int_ok :: "lua_conv \<Rightarrow> lua_value \<Rightarrow> bool" where
  "int_ok cv v \<longleftrightarrow> clean (luaL_checkinteger cv v)"

definition byte_ok :: "lua_conv \<Rightarrow> lua_value \<Rightarrow> bool" where
  "byte_ok cv v \<longleftrightarrow> clean_and (\<lambda>n. unat n < 256) (luaL_checkinteger cv v)"

definition opt_ok :: "lua_conv \<Rightarrow> (u32 \<Rightarrow> bool) \<Rightarrow> lua_value \<Rightarrow> bool" where
  "opt_ok cv P v \<longleftrightarrow> clean_and P (opt_integer cv v)"

definition object_ok :: "lua_value list \<Rightarrow> 'x lpd_world_scheme \<Rightarrow> bool" where
  "object_ok args w \<longleftrightarrow>
     (case index2adr args 1 of
        LUserdata t a \<Rightarrow> t = ''lpd8806.lpd'' \<longrightarrow> live a w
      | _ \<Rightarrow> True)"

definition colours_ok :: "lua_conv \<Rightarrow> lua_value list \<Rightarrow> bool" where
  "colours_ok cv args \<longleftrightarrow>
     (if lua_istable (index2adr args 2) then
        \<forall>i < lua_objlen cv (index2adr args 2).
          int_ok cv (lua_rawgeti (index2adr args 2) (i + 1)) \<and>
          byte_ok cv (lua_rawgeti (index2adr args 3) (i + 1)) \<and>
          byte_ok cv (lua_rawgeti (index2adr args 4) (i + 1)) \<and>
          byte_ok cv (lua_rawgeti (index2adr args 5) (i + 1))
      else
        int_ok cv (index2adr args 2) \<and> byte_ok cv (index2adr args 3) \<and>
        byte_ok cv (index2adr args 4) \<and> byte_ok cv (index2adr args 5))"

definition lpd_call_ok :: "lua_conv \<Rightarrow> 'x lpd_world_scheme \<Rightarrow> lpd_call \<Rightarrow> bool" where
  "lpd_call_ok cv w c \<longleftrightarrow>
     (case c of
        LpdSetup args \<Rightarrow>
          int_ok cv (index2adr args 1) \<and> int_ok cv (index2adr args 2) \<and>
          clean_and (\<lambda>n. n \<noteq> 0 \<and> 3 * unat n < 2 ^ 32) (luaL_checkinteger cv (index2adr args 3)) \<and>
          opt_ok cv (\<lambda>_. True) (index2adr args 4) \<and> opt_ok cv (\<lambda>_. True) (index2adr args 5)
      | LpdSetColor args \<Rightarrow> object_ok args w \<and> colours_ok cv args
      | LpdUpdate args \<Rightarrow> object_ok args w
      | LpdClear args \<Rightarrow>
          object_ok args w \<and> opt_ok cv (\<lambda>n. unat n < 256) (index2adr args 2) \<and>
          opt_ok cv (\<lambda>n. unat n < 256) (index2adr args 3) \<and>
          opt_ok cv (\<lambda>n. unat n < 256) (index2adr args 4)
      | LpdGetLength args \<Rightarrow> object_ok args w
      | LpdDestroy args \<Rightarrow> object_ok args w)"

lemma with_strip:
  assumes "strips_ok w" "object_ok args w"
    and "\<And>a. strip_ready a w \<Longrightarrow> clean (fst (f a w)) \<and> strips_ok (snd (f a w))"
  shows "clean (fst (mbind (mlift (luaL_checkudata (index2adr args 1) ''lpd8806.lpd'')) f w)) \<and>
    strips_ok (snd (mbind (mlift (luaL_checkudata (index2adr args 1) ''lpd8806.lpd'')) f w))"
proof (cases "luaL_checkudata (index2adr args 1) ''lpd8806.lpd''")
  case (Inl e)
  then show ?thesis
    using assms(1) by (auto simp: luaL_checkudata_def split: lua_value.splits if_splits)
next
  case (Inr a)
  with assms(1,2) have "strip_ready a w"
    by (simp add: strip_ready_def object_ok_def)
  with Inr assms(3) [OF this] show ?thesis
    by (simp add: luaL_checkudata_def)
qed

lemma with_strip_keeps:
  assumes "strips_ok w" "object_ok args w" "\<And>a. keeps (strip_ready a) (f a)"
  shows "clean (fst (mbind (mlift (luaL_checkudata (index2adr args 1) ''lpd8806.lpd'')) f w)) \<and>
    strips_ok (snd (mbind (mlift (luaL_checkudata (index2adr args 1) ''lpd8806.lpd'')) f w))"
  using assms(1,2) keepsD [OF assms(3)] by (intro with_strip) (auto simp: strip_ready_def)

lemma keeps_set_color_args:
  assumes "int_ok cv v2" "byte_ok cv v3" "byte_ok cv v4" "byte_ok cv v5"
  shows "keeps (strip_ready a)
    (mbind (mlift (luaL_checkinteger cv v2)) (\<lambda>index.
     mbind (mlift (luaL_checkinteger cv v3)) (\<lambda>r.
     mbind (mlift (luaL_checkinteger cv v4)) (\<lambda>g.
     mbind (mlift (luaL_checkinteger cv v5)) (\<lambda>b. set_color_at a index r g b)))))"
  using assms unfolding int_ok_def byte_ok_def
  by (intro keeps_mlift_mbind keeps_set_color_at) (auto dest: clean_andD)

lemma lpd_set_color_ok:
  assumes "strips_ok w" "object_ok args w" "colours_ok cv args"
  shows "clean (fst (lpd_set_color cv args w)) \<and> strips_ok (snd (lpd_set_color cv args w))"
  unfolding lpd_set_color_def Let_def
  using assms(3) unfolding colours_ok_def
  by (intro with_strip_keeps assms(1,2) keeps_if keeps_mfail keeps_mfor keeps_set_color_args) simp_all

lemma lpd_clear_ok:
  assumes "strips_ok w" "lpd_call_ok cv w (LpdClear args)"
  shows "clean (fst (lpd_clear cv args w)) \<and> strips_ok (snd (lpd_clear cv args w))"
  unfolding lpd_clear_def
  using assms(2) unfolding lpd_call_ok_def opt_ok_def
  by (intro with_strip_keeps assms(1) keeps_mlift_mbind keeps_mbind keeps_clear_at keeps_update_at)
    (auto dest: clean_andD)


lemma lpd_update_ok:
  assumes "strips_ok w" "object_ok args w"
  shows "clean (fst (lpd_update args w)) \<and> strips_ok (snd (lpd_update args w))"
  unfolding lpd_update_def by (intro with_strip_keeps assms keeps_update_at)

lemma lpd_get_length_ok:
  assumes "strips_ok w" "object_ok args w"
  shows "clean (fst (ignore (lpd_get_length args) w)) \<and> strips_ok (snd (ignore (lpd_get_length args) w))"
proof -
  have "clean (fst (lpd_get_length args w)) \<and> strips_ok (snd (lpd_get_length args w))"
    unfolding lpd_get_length_def
    by (intro with_strip assms) (auto simp: get_strip_def strip_ready_def elim!: strip_ledsE)
  then show ?thesis
    by (cases "lpd_get_length args w"; cases "fst (lpd_get_length args w)")
      (auto simp: ignore_def mbind_split clean_Inl_iff)
qed

lemma lpd_destroy_ok:
  assumes "strips_ok w" "object_ok args w"
  shows "clean (fst (lpd_destroy args w)) \<and> strips_ok (snd (lpd_destroy args w))"
  unfolding lpd_destroy_def
  by (intro with_strip assms)
    (auto simp: get_strip_def put_strip_def strip_ready_def strips_ok_put strips_okD elim!: strip_ledsE)

lemma strip_ready_fresh:
  assumes "strips_ok w" "n \<noteq> 0" "3 * unat n < 2 ^ 32" "s_Length pd = n"
    "s_OutputBuffer pd = Some (replicate (unat (n * 3)) 0)"
  shows "strip_ready (next_addr w)
    (w\<lparr>next_addr := Suc (next_addr w), strips := (strips w)(next_addr w \<mapsto> pd)\<rparr>)"
proof -
  have "unat (n * 3) = 3 * unat n"
    using assms(3) by (subst unat_mult_no_wrap) auto
  then have "wf_strip pd" using assms by (simp add: wf_strip_def)
  then show ?thesis
    using assms(1,2,4) by (auto simp: strip_ready_def strips_ok_def strip_leds_def unat_gt_0 less_Suc_eq)
qed

lemma keeps_strip_create:
  assumes "n \<noteq> 0" "3 * unat n < 2 ^ 32"
  shows "keeps strips_ok
    (mbind (mget next_addr) (\<lambda>a.
     mbind (mupd (\<lambda>w. w\<lparr>next_addr := Suc (next_addr w)\<rparr>)) (\<lambda>_.
     mbind (put_strip a \<lparr>s_OutputBuffer = None, s_Mosi = mosi, s_Clk = clk, s_Length = n,
        s_Type = type, s_Delay = delay\<rparr>) (\<lambda>_.
     if \<not> zalloc_ok (n * 3) then mfail (LuaError ''Out of memory (data).'')
     else
     mbind (put_strip a \<lparr>s_OutputBuffer = Some (replicate (unat (n * 3)) 0), s_Mosi = mosi,
        s_Clk = clk, s_Length = n, s_Type = type, s_Delay = delay\<rparr>) (\<lambda>_.
     mbind (clear_at a 0 0 0) (\<lambda>_.
     mbind (update_at a) (\<lambda>_. mret a)))))))"
proof (rule keepsI, goal_cases)
  case (1 w)
  let ?pd = "\<lparr>s_OutputBuffer = Some (replicate (unat (n * 3)) 0), s_Mosi = mosi,
        s_Clk = clk, s_Length = n, s_Type = type, s_Delay = delay\<rparr>"
  let ?bare = "\<lparr>s_OutputBuffer = None, s_Mosi = mosi,
        s_Clk = clk, s_Length = n, s_Type = type, s_Delay = delay\<rparr>"
  let ?wbare = "w\<lparr>next_addr := Suc (next_addr w), strips := (strips w)(next_addr w \<mapsto> ?bare)\<rparr>"
  let ?wfull = "w\<lparr>next_addr := Suc (next_addr w), strips := (strips w)(next_addr w \<mapsto> ?pd)\<rparr>"
  have ready: "strip_ready (next_addr w) ?wfull"
    by (rule strip_ready_fresh [OF 1 assms]) simp_all
  have ok0: "strips_ok ?wbare"
    using 1 by (auto simp: strips_ok_def less_Suc_eq)
  have "keeps (strip_ready (next_addr w))
      (mbind (clear_at (next_addr w) 0 0 0) (\<lambda>_. mbind (update_at (next_addr w)) (\<lambda>_. mret (next_addr w))))"
    by (intro keeps_intro) simp_all
  from keepsD [OF this ready] ok0 show ?case
    by (simp add: put_strip_def strip_ready_def)
qed

lemma keeps_emit: "keeps strips_ok (emit evs)"
  by (simp add: emit_def keeps_def)

lemma lpd_setup_ok:
  assumes "lpd_call_ok cv w (LpdSetup args)"
  shows "keeps strips_ok (lpd_setup zalloc_ok cv args)"
  using assms unfolding lpd_setup_def lpd_call_ok_def int_ok_def opt_ok_def opt_integer_def Let_def
    split_def lpd_userdata.simps
  by (auto intro!: keeps_mlift_mbind keeps_if keeps_mfail keeps_mbind [OF keeps_emit]
      keeps_strip_create keeps_mbind [of _ "mret _"] keeps_mret dest: clean_andD)

interpretation lpd: handled "lpd_handle zalloc_ok cv" strips_ok "lpd_call_ok cv"
  for zalloc_ok cv
proof (unfold_locales, goal_cases)
  case (1 w e)
  show ?case
  proof (cases e)
    case (LpdSetup args)
    have "keeps strips_ok (ignore (lpd_setup zalloc_ok cv args))"
      using lpd_setup_ok [of cv w args] 1 LpdSetup unfolding ignore_def
      by (auto intro!: keeps_mbind keeps_mret)
    from keepsD [OF this 1(1)] LpdSetup show ?thesis by (simp add: lpd_handle_def)
  next
    case (LpdClear args)
    with 1 lpd_clear_ok show ?thesis by (simp add: lpd_handle_def)
  qed (use 1 in \<open>simp_all add: lpd_handle_def lpd_call_ok_def lpd_set_color_ok lpd_update_ok
    lpd_get_length_ok lpd_destroy_ok\<close>)
qed


section \<open>Properties\<close>

text \<open>C3: a strip of at most 21845 LEDs whose data and clock lines are two different pins receives, on
  the rising edges of the clock, exactly the bits of the cached frame in order, most significant bit
  first, followed by three zero latch bytes per 32 LEDs.\<close>

theorem update_transmits_frame:
  assumes "wf_strip pd" "s_OutputBuffer pd = Some buf" "3 * unat (s_Length pd) < 2 ^ 16"
    and "wired (s_Mosi pd) (s_Clk pd) (s_Type pd)"
  shows "\<exists>evs. update pd = Inr evs \<and>
    spi_rx (phys (s_Mosi pd)) (phys (s_Clk pd)) evs (d, clk_idle (s_Type pd)) =
      concat (map bits_msb (buf @ replicate (3 * ((unat (s_Length pd) + 31) div 32)) 0))"
  using update_rx [OF assms] by metis

definition sample_strip :: lpd_userdata where
  "sample_strip = \<lparr>s_OutputBuffer = Some [0x80, 0xFF, 0x81], s_Mosi = 7, s_Clk = 5, s_Length = 1,
     s_Type = 1, s_Delay = 2\<rparr>"

theorem update_transmits_frame_witness:
  "\<exists>evs. update sample_strip = Inr evs \<and>
    spi_rx (phys 7) (phys 5) evs (False, False) =
      concat (map bits_msb ([0x80, 0xFF, 0x81] @ replicate 3 0))"
  using update_transmits_frame [of sample_strip "[0x80, 0xFF, 0x81]" False]
  by (simp add: sample_strip_def wf_strip_def wired_def NUM_GPIO_def clk_idle_def spi_mode_defs)

text \<open>C20: a colour update with components below 256 always succeeds; it changes exactly the LED at the
  index reduced modulo the strip length, to the gamma-corrected green, red and blue bytes, and leaves
  the strip well formed and every other LED as it was.\<close>

theorem set_color_effect:
  assumes "wf_strip pd" "s_OutputBuffer pd = Some buf"
    and "unat r < 256" "unat g < 256" "unat b < 256"
  shows "\<exists>pd' buf'. set_color pd index r g b = Inr pd' \<and> wf_strip pd' \<and> s_OutputBuffer pd' = Some buf' \<and>
    (\<forall>k < unat (s_Length pd). pixel buf' k =
       (if k = unat index mod unat (s_Length pd) then (shown g, shown r, shown b) else pixel buf k))"
proof -
  obtain buf0 where "s_OutputBuffer pd = Some buf0" "length buf0 = 3 * unat (s_Length pd)"
    "0 < unat (s_Length pd)"
    using assms(1) by (rule wf_stripE)
  then have len: "length buf = 3 * unat (s_Length pd)" "0 < unat (s_Length pd)"
    using assms(2) by simp_all
  then have m: "unat (index mod s_Length pd) < unat (s_Length pd)" by (simp add: unat_mod)
  let ?buf = "set_pixel buf (unat (index mod s_Length pd)) (shown g) (shown r) (shown b)"
  have "wf_strip (pd\<lparr>s_OutputBuffer := Some ?buf\<rparr>)"
    using assms(1,2) by (rule wf_strip_set_buffer) simp
  moreover have "3 * unat (index mod s_Length pd) + 2 < length buf" using m len by simp
  ultimately show ?thesis
    using set_color_eq [OF assms, of index] by (simp add: pixel_set_pixel flip: unat_mod)
qed

theorem set_color_effect_witness:
  "\<exists>pd' buf'. set_color sample_strip 4 255 0 0 = Inr pd' \<and> wf_strip pd' \<and> s_OutputBuffer pd' = Some buf' \<and>
    pixel buf' 0 = (0x80, 0xFF, 0x80)"
  using set_color_effect [of sample_strip "[0x80, 0xFF, 0x81]" 255 0 0 4]
  by (simp add: sample_strip_def wf_strip_def shown_def gammaTable_def)

text \<open>the gamma correction never uses the top bit, so a shown byte carries the corrected seven bits
  under a set top bit and is never a latch byte, and brighter components are never shown darker.\<close>

theorem gamma_correction:
  assumes "unat c \<le> unat d" "unat d < 256"
  shows "shown c \<le> shown d \<and> shown c \<noteq> 0 \<and> bit (shown c) 7 \<and> shown c AND 0x7F = gammaTable ! unat c"
  using assms by (simp add: shown_mono shown_nonzero shown_top shown_7bit)

theorem gamma_correction_witness:
  "shown 100 \<le> shown 200 \<and> shown 100 \<noteq> 0 \<and> bit (shown 100) 7 \<and> shown 100 AND 0x7F = gammaTable ! 100"
  using gamma_correction [of 100 200] by simp

text \<open>a colour component of 256 or more reads past the end of the gamma table: nothing in
  \<open>set_color\<close> or its callers reduces or rejects it.\<close>

theorem set_color_component_overflow:
  assumes "s_Length pd \<noteq> 0" "256 \<le> unat r"
  shows "set_color pd index r g b = Inl (OutOfBounds (unat r))"
  using assms by (rule set_color_overflow)

theorem set_color_component_overflow_witness: "set_color sample_strip 0 266 0 0 = Inl (OutOfBounds 266)"
  using set_color_component_overflow [of sample_strip 266 0 0 0] by (simp add: sample_strip_def)

text \<open>C19: as long as calls respect the documented ranges, no sequence of calls of the strip module, in any
  order and with errors in between, does anything undefined, and all strips stay well formed.\<close>

theorem lpd_module_safe:
  assumes "strips_ok w" "admissible (lpd_handle zalloc_ok cv) (lpd_call_ok cv) w (es @ e # fs)"
  shows "clean (fst (lpd_handle zalloc_ok cv e (after (lpd_handle zalloc_ok cv) es w)))"
  using assms by (rule lpd.runs_clean)

definition empty_lpd_world :: lpd_world where
  "empty_lpd_world = \<lparr>strips = (\<lambda>_. None), wire = [], next_addr = 0\<rparr>"

definition sample_conv :: lua_conv where
  "sample_conv = \<lparr>str2d = (\<lambda>_. None), num2str = (\<lambda>_. [])\<rparr>"

theorem lpd_module_safe_witness:
  "clean (fst (lpd_handle (\<lambda>_. False) sample_conv (LpdUpdate [LUserdata ''lpd8806.lpd'' 0])
     (after (lpd_handle (\<lambda>_. False) sample_conv) [LpdSetup [lua_int 7]]
       (empty_lpd_world\<lparr>strips := [0 \<mapsto> sample_strip], next_addr := 1\<rparr>))))"
  by (rule lpd_module_safe [where fs = "[]"])
    (simp_all add: empty_lpd_world_def sample_strip_def strips_ok_def wf_strip_def lpd_call_ok_def
      int_ok_def opt_ok_def opt_integer_def clean_and_def lua_isnumber_def tonumber_def
      lpd_handle_def lpd_setup_def ignore_def mbind_split [of "mbind _ _"] object_ok_def strip_leds_def
      index2adr_def)

end
