(* ===== verification/Ticker.thy ===== *)
theory Ticker
  imports Lpd8806
begin

text \<open>
  The LED ticker (\<open>modules/lpd_ticker.c\<close>): a text buffer of six rows of colour columns, filled
  from a 4x6 font and scrolled by a timer over a 6x10 matrix of LEDs that are wired as a snake on one
  strip. Tickers are userdata on the same heap discipline as the strips, and hold the address
  of their strip. The lemmas show that all entry points and the timer callback stay within the
  buffer and the strip, what the matrix shows after a tick, and how often the scroll-finish
  callback runs.
\<close>

section \<open>Font, matrix and ticker objects\<close>

definition initial_ascii_table :: "u32 list" where
  "initial_ascii_table =
    [0, 0, 0, 0, 0, 0, 0, 0, 0, 0, 0, 0,
     0, 0, 0, 0, 0, 0, 0, 0, 0, 0, 0, 0,
     0, 0, 0, 0, 0, 0, 0, 0, 0, 2236448, 5570560, 5723984,
     2319202, 4269072, 2438512, 6553600, 2376736, 4334144, 5403216, 160256, 50, 28672, 32, 1123392,
     3495264, 2499184, 6366320, 6365536, 1405200, 7627104, 2385184, 7414304, 2434336, 2437408, 8224, 8292,
     1196560, 28784, 4330048, 6365216, 7689328, 2454864, 6645088, 3425328, 6640992, 7627888, 7627840, 3429680,
     5600592, 7479920, 1119520, 5596496, 4473968, 5731664, 5723472, 2446624, 6644800, 2446640, 6645072, 3436896,
     7479840, 5592432, 5592352, 5601104, 5580112, 5579296, 7414896, 6571104, 4464912, 6431328, 2424832, 15,
     6422528, 13680, 4482400, 13360, 1127728, 30256, 1208864, 29975, 4482384, 2105888, 2105894, 4478544,
     2236960, 30544, 25936, 9504, 25956, 13617, 25664, 12896, 160304, 21872, 21792, 22384,
     21072, 21796, 25136, 3301936, 2236960, 6435424, 5898240]"

definition led_mapping :: bytes where
  "led_mapping =
    [50, 51, 52, 53, 54, 55, 56, 57, 58, 59,
     49, 48, 47, 46, 45, 44, 43, 42, 41, 40,
     30, 31, 32, 33, 34, 35, 36, 37, 38, 39,
     29, 28, 27, 26, 25, 24, 23, 22, 21, 20,
     10, 11, 12, 13, 14, 15, 16, 17, 18, 19,
     9, 8, 7, 6, 5, 4, 3, 2, 1, 0]"

text \<open>
  \<open>LUA_NOREF\<close> is \<open>None\<close>; a scroll timer is its period when it is armed (the timers are always
  armed with \<open>ticker_scroll_cb\<close> and repeating).
\<close>

record ticker =
  t_LedStrip :: nat
  t_StripRef :: "nat option"
  t_Speed :: u32
  t_Length :: u32
  t_Used :: u32
  t_ScrollTimer :: "u32 option"
  t_OutputBuffer :: "bytes option"
  t_Position :: u32
  t_Brightness :: cfloat
  t_ScrollCallback :: "nat option"

record ticker_world = lpd_world +
  tickers :: "nat \<Rightarrow> ticker option"
  ascii_table :: "u32 list"
  g_pLua :: bool
  registry :: "nat \<Rightarrow> lua_value option"
  next_ref :: nat

section \<open>The text buffer\<close>

definition letter_line :: "u32 \<Rightarrow> nat \<Rightarrow> u8" where
  "letter_line msk row = ucast (drop_bit (20 - 4 * row) msk AND 0xF)"

definition put_cell :: "ticker \<Rightarrow> u32 \<Rightarrow> u8 \<Rightarrow> u8 \<Rightarrow> u8 \<Rightarrow> ticker result" where
  "put_cell pTicker pos r g b =
     rbind (deref (t_OutputBuffer pTicker)) (\<lambda>buf.
     rbind (arr_set buf (unat (pos + 0)) r) (\<lambda>buf.
     rbind (arr_set buf (unat (pos + 1)) g) (\<lambda>buf.
     rbind (arr_set buf (unat (pos + 2)) b) (\<lambda>buf.
     Inr (pTicker\<lparr>t_OutputBuffer := Some buf\<rparr>)))))"

definition add_letter :: "ticker \<Rightarrow> u32 \<Rightarrow> u32 \<Rightarrow> u32 \<Rightarrow> u32 \<Rightarrow> ticker result" where
  "add_letter pTicker msk r g b =
     rbind (rfold (\<lambda>(row, column) tk.
        let start = t_Used tk + t_Length tk * of_nat row;
            value = ucast (drop_bit (3 - column) (letter_line msk row) AND 0x1) :: u32 in
        put_cell tk (start + of_nat column * 3)
          (ucast (value * r)) (ucast (value * g)) (ucast (value * b)))
       (List.product [0..<6] [0..<4]) pTicker) (\<lambda>tk.
     Inr (tk\<lparr>t_Used := t_Used tk + 12\<rparr>))"

definition blank_start :: "ticker \<Rightarrow> ticker result" where
  "blank_start pTicker =
     rbind (rfold (\<lambda>(row, column) tk.
        let start = t_Length tk * of_nat row in
        put_cell tk (start + of_nat column * 3) 0 0 0)
       (List.product [0..<6] [0..<10]) pTicker) (\<lambda>tk.
     Inr (tk\<lparr>t_Used := t_Used tk + 30\<rparr>))"

section \<open>Functions called from Lua and from the timer\<close>

type_synonym ('x, 'a) ticker_handler = "('x ticker_world_scheme, 'a) handler"

definition get_ticker :: "nat \<Rightarrow> ('x, ticker) ticker_handler" where
  "get_ticker a = mbind (mget tickers) (\<lambda>h. mlift (deref (h a)))"

definition put_ticker :: "nat \<Rightarrow> ticker \<Rightarrow> ('x, unit) ticker_handler" where
  "put_ticker a tk = mupd (\<lambda>w. w\<lparr>tickers := (tickers w)(a \<mapsto> tk)\<rparr>)"

definition upd_ticker :: "nat \<Rightarrow> (ticker \<Rightarrow> ticker) \<Rightarrow> ('x, unit) ticker_handler" where
  "upd_ticker a f = mbind (get_ticker a) (\<lambda>tk. put_ticker a (f tk))"

definition step_ticker :: "nat \<Rightarrow> (ticker \<Rightarrow> ticker result) \<Rightarrow> ('x, unit) ticker_handler" where
  "step_ticker a f = mbind (get_ticker a) (\<lambda>tk. mbind (mlift (f tk)) (put_ticker a))"

definition check_ticker :: "lua_value list \<Rightarrow> ('x, nat) ticker_handler" where
  "check_ticker args = mlift (luaL_checkudata (index2adr args 1) ''ticker.tbl'')"

definition ticker_clear :: "lua_value list \<Rightarrow> ('x, unit) ticker_handler" where
  "ticker_clear args =
     mbind (check_ticker args) (\<lambda>a.
     mbind (upd_ticker a (\<lambda>tk. tk\<lparr>t_ScrollTimer := None\<rparr>)) (\<lambda>_.
     mbind (upd_ticker a (\<lambda>tk. tk\<lparr>t_Used := 0, t_Position := 0\<rparr>)) (\<lambda>_.
     mbind (get_ticker a) (\<lambda>tk.
     mbind (clear_at (t_LedStrip tk) 0 0 0) (\<lambda>_.
     mbind (update_at (t_LedStrip tk)) (\<lambda>_.
     mbind (step_ticker a blank_start) (\<lambda>_.
     upd_ticker a (\<lambda>tk. tk\<lparr>t_ScrollTimer := Some (t_Speed tk)\<rparr>))))))))"

definition ticker_set_brightness :: "lua_conv \<Rightarrow> lua_value list \<Rightarrow> ('x, unit) ticker_handler" where
  "ticker_set_brightness cv args =
     mbind (check_ticker args) (\<lambda>a.
     upd_ticker a (\<lambda>tk. tk\<lparr>t_Brightness := lua_tonumber cv (index2adr args 2)\<rparr>))"

definition room_for_letter :: "nat \<Rightarrow> ('x, unit) ticker_handler" where
  "room_for_letter a =
     mbind (get_ticker a) (\<lambda>tk.
     if t_Length tk - t_Used tk < 12 then mfail (LuaError ''Ticker buffer is full.'') else mret ())"

definition glyph :: "nat \<Rightarrow> ('x, u32) ticker_handler" where
  "glyph i = mbind (mget ascii_table) (\<lambda>tbl. mlift (arr_get tbl i))"

definition ticker_add_text :: "lua_conv \<Rightarrow> lua_value list \<Rightarrow> ('x, unit) ticker_handler" where
  "ticker_add_text cv args =
     mbind (check_ticker args) (\<lambda>a.
     mbind (mlift (luaL_checkinteger cv (index2adr args 3))) (\<lambda>r.
     mbind (mlift (luaL_checkinteger cv (index2adr args 4))) (\<lambda>g.
     mbind (mlift (luaL_checkinteger cv (index2adr args 5))) (\<lambda>b.
     let text = index2adr args 2 in
     if lua_isstring text then
       mbind (mlift (deref (lua_tolstring cv text))) (\<lambda>str.
       mfor str (\<lambda>c.
         mbind (room_for_letter a) (\<lambda>_.
         mbind (glyph (unat c)) (\<lambda>mask.
         step_ticker a (\<lambda>tk. add_letter tk mask r g b)))))
     else if lua_istable text then
       mfor [0..<lua_objlen cv text] (\<lambda>i.
         mbind (room_for_letter a) (\<lambda>_.
         mbind (mlift (luaL_checkinteger cv (lua_rawgeti text (i + 1)))) (\<lambda>n.
         let letter = n mod 127 in
         mbind (glyph (unat letter)) (\<lambda>mask.
         step_ticker a (\<lambda>tk. add_letter tk mask r g b)))))
     else mfail (LuaError ''String or table argument expected.'')))))"

definition first_char :: "bytes \<Rightarrow> u8" where
  "first_char s = (case s of [] \<Rightarrow> 0 | c # _ \<Rightarrow> c)"

definition letter_index :: "lua_conv \<Rightarrow> lua_value \<Rightarrow> u32 result" where
  "letter_index cv v =
     (if lua_isstring v then
        rbind (deref (lua_tolstring cv v)) (\<lambda>s. Inr (ucast (first_char s)))
      else if lua_isnumber cv v then
        rbind (lua_tointeger cv v) (\<lambda>n. Inr (n mod 127))
      else Inl (LuaError ''String or numeric argument expected.''))"

text \<open>\<open>luaL_checkinteger\<close> returns a signed number; its shift to the left is defined when the value fits.\<close>

definition shift_row :: "u32 \<Rightarrow> nat \<Rightarrow> u32 result" where
  "shift_row n k =
     rbind (guard_or Overflow (0 \<le> sint n \<and> sint n * 2 ^ k < 2 ^ 31)) (\<lambda>_. Inr (push_bit k n))"

definition ticker_set_char_mask :: "lua_conv \<Rightarrow> lua_value list \<Rightarrow> ('x, unit) ticker_handler" where
  "ticker_set_char_mask cv args =
     mbind (check_ticker args) (\<lambda>a.
     mbind (mlift (letter_index cv (index2adr args 2))) (\<lambda>index.
     let rows = index2adr args 3 in
     if \<not> lua_istable rows \<or> lua_objlen cv rows \<noteq> 6 then
       mfail (LuaError ''Table with 6 rows exactly expected.'')
     else
       mbind (mlift (rfold (\<lambda>i mask.
          rbind (luaL_checkinteger cv (lua_rawgeti rows (i + 1))) (\<lambda>n.
          rbind (shift_row n (4 * i)) (\<lambda>n.
          Inr (mask OR n)))) [0..<6] 0)) (\<lambda>mask.
       mbind (mget ascii_table) (\<lambda>tbl.
       mbind (mlift (arr_set tbl (unat index) mask)) (\<lambda>tbl.
       mupd (\<lambda>w. w\<lparr>ascii_table := tbl\<rparr>))))))"

definition ticker_set_text :: "lua_conv \<Rightarrow> lua_value list \<Rightarrow> ('x, unit) ticker_handler" where
  "ticker_set_text cv args = mbind (ticker_clear args) (\<lambda>_. ticker_add_text cv args)"

definition ticker_add_letter :: "lua_conv \<Rightarrow> lua_value list \<Rightarrow> ('x, unit) ticker_handler" where
  "ticker_add_letter cv args =
     mbind (check_ticker args) (\<lambda>a.
     mbind (room_for_letter a) (\<lambda>_.
     mbind (mlift (letter_index cv (index2adr args 2))) (\<lambda>index.
     mbind (glyph (unat index)) (\<lambda>mask.
     mbind (mlift (luaL_checkinteger cv (index2adr args 3))) (\<lambda>r.
     mbind (mlift (luaL_checkinteger cv (index2adr args 4))) (\<lambda>g.
     mbind (mlift (luaL_checkinteger cv (index2adr args 5))) (\<lambda>b.
     step_ticker a (\<lambda>tk. add_letter tk mask r g b))))))))"

text \<open>One component of one cell of the visible window, scaled by the brightness.\<close>

definition cell_component :: "ticker \<Rightarrow> nat \<Rightarrow> nat \<Rightarrow> u32 \<Rightarrow> u32 result" where
  "cell_component tk row column k =
     rbind (deref (t_OutputBuffer tk)) (\<lambda>buf.
     rbind (guard_or DivByZero (t_Used tk \<noteq> 0)) (\<lambda>_.
     rbind (arr_get buf (unat (((t_Position tk + of_nat column) * 3 + k) mod t_Used tk +
                               of_nat row * t_Length tk))) (\<lambda>v.
     cfloat_to_unsigned (double_mult (Fin (uint v) 0) (t_Brightness tk)))))"

definition scroll_cell :: "nat \<Rightarrow> nat \<times> nat \<Rightarrow> ('x, unit) ticker_handler" where
  "scroll_cell a rc =
     (let (row, column) = rc in
     mbind (get_ticker a) (\<lambda>tk.
     mbind (mlift (cell_component tk row column 0)) (\<lambda>r.
     mbind (mlift (cell_component tk row column 1)) (\<lambda>g.
     mbind (mlift (cell_component tk row column 2)) (\<lambda>b.
     mbind (mlift (arr_get led_mapping (column + row * 10))) (\<lambda>index.
     set_color_at (t_LedStrip tk) (ucast index) r g b))))))"

text \<open>
  \<open>lua_call\<close> runs a Lua function, which may call any of the functions of this theory again.
\<close>

definition ticker_scroll_cb ::
  "(lua_value \<Rightarrow> ('x, unit) ticker_handler) \<Rightarrow> nat \<Rightarrow> ('x, unit) ticker_handler" where
  "ticker_scroll_cb lua_call a =
     mbind (get_ticker a) (\<lambda>tk.
     if t_Used tk = 0 then mret ()
     else
     mbind (mfor (List.product [0..<6] [0..<10]) (scroll_cell a)) (\<lambda>_.
     mbind (get_ticker a) (\<lambda>tk.
     mbind (update_at (t_LedStrip tk)) (\<lambda>_.
     mbind (if t_Position tk * 3 = t_Used tk then
              mbind (put_ticker a (tk\<lparr>t_Position := 0\<rparr>)) (\<lambda>_.
              mbind (mget g_pLua) (\<lambda>lua.
              case t_ScrollCallback tk of
                None \<Rightarrow> mret ()
              | Some ref \<Rightarrow>
                  if lua then
                    mbind (mget registry) (\<lambda>reg.
                    lua_call (case reg ref of None \<Rightarrow> LNil | Some v \<Rightarrow> v))
                  else mret ()))
            else mret ()) (\<lambda>_.
     upd_ticker a (\<lambda>tk. tk\<lparr>t_Position := t_Position tk + 1\<rparr>))))))"

definition ticker_set_speed :: "lua_conv \<Rightarrow> lua_value list \<Rightarrow> ('x, unit) ticker_handler" where
  "ticker_set_speed cv args =
     mbind (check_ticker args) (\<lambda>a.
     mbind (mlift (luaL_checkinteger cv (index2adr args 2))) (\<lambda>speed.
     mbind (upd_ticker a (\<lambda>tk. tk\<lparr>t_Speed := speed\<rparr>)) (\<lambda>_.
     mbind (upd_ticker a (\<lambda>tk. tk\<lparr>t_ScrollTimer := None\<rparr>)) (\<lambda>_.
     upd_ticker a (\<lambda>tk. tk\<lparr>t_ScrollTimer := Some (t_Speed tk)\<rparr>)))))"

definition ticker_start :: "lua_value list \<Rightarrow> ('x, unit) ticker_handler" where
  "ticker_start args =
     mbind (check_ticker args) (\<lambda>a.
     upd_ticker a (\<lambda>tk. tk\<lparr>t_ScrollTimer := Some (t_Speed tk)\<rparr>))"

definition ticker_stop :: "lua_value list \<Rightarrow> ('x, unit) ticker_handler" where
  "ticker_stop args =
     mbind (check_ticker args) (\<lambda>a. upd_ticker a (\<lambda>tk. tk\<lparr>t_ScrollTimer := None\<rparr>))"

definition ticker_ref :: "lua_value \<Rightarrow> ('x, nat) ticker_handler" where
  "ticker_ref v =
     mbind (mget next_ref) (\<lambda>ref.
     mbind (mupd (\<lambda>w. w\<lparr>registry := (registry w)(ref \<mapsto> v), next_ref := Suc ref\<rparr>)) (\<lambda>_.
     mret ref))"

definition ticker_unref :: "nat \<Rightarrow> ('x, unit) ticker_handler" where
  "ticker_unref ref = mupd (\<lambda>w. w\<lparr>registry := (registry w)(ref := None)\<rparr>)"

definition ticker_setup ::
  "(u32 \<Rightarrow> bool) \<Rightarrow> lua_conv \<Rightarrow> lua_value list \<Rightarrow> ('x, nat) ticker_handler" where
  "ticker_setup zalloc_ok cv args =
     mbind (mlift (luaL_checkudata (index2adr args 1) ''lpd8806.lpd'')) (\<lambda>pStrip.
     mbind (if lua_isnumber cv (index2adr args 2)
            then mlift (lua_tointeger cv (index2adr args 2)) else mret 100) (\<lambda>speed.
     mbind (if lua_isnumber cv (index2adr args 3)
            then mlift (lua_tointeger cv (index2adr args 3)) else mret 60) (\<lambda>length.
     mbind (mget next_addr) (\<lambda>a.
     mbind (mupd (\<lambda>w. w\<lparr>next_addr := Suc (next_addr w)\<rparr>)) (\<lambda>_.
     mbind (put_ticker a
       \<lparr>t_LedStrip = pStrip, t_StripRef = None, t_Speed = speed, t_Length = length * 12,
        t_Used = 0, t_ScrollTimer = None, t_OutputBuffer = None, t_Position = 0,
        t_Brightness = Fin 1 0, t_ScrollCallback = None\<rparr>) (\<lambda>_.
     let size = length * 12 * 6 in
     if \<not> zalloc_ok size then mfail (LuaError ''Out of memory (data).'')
     else
     mbind (upd_ticker a (\<lambda>tk. tk\<lparr>t_OutputBuffer := Some (replicate (unat size) 0)\<rparr>)) (\<lambda>_.
     mbind (ticker_ref (index2adr args 1)) (\<lambda>ref.
     mbind (upd_ticker a (\<lambda>tk. tk\<lparr>t_StripRef := Some ref\<rparr>)) (\<lambda>_.
     mbind (case index2adr args 4 of
              LFunction f \<Rightarrow>
                mbind (ticker_ref (LFunction f)) (\<lambda>ref.
                upd_ticker a (\<lambda>tk. tk\<lparr>t_ScrollCallback := Some ref\<rparr>))
            | _ \<Rightarrow> mret ()) (\<lambda>_.
     mbind (mupd (\<lambda>w. w\<lparr>g_pLua := True\<rparr>)) (\<lambda>_.
     mbind (upd_ticker a (\<lambda>tk. tk\<lparr>t_ScrollTimer := Some (t_Speed tk)\<rparr>)) (\<lambda>_.
     mret a))))))))))))"

definition ticker_destroy :: "lua_value list \<Rightarrow> ('x, unit) ticker_handler" where
  "ticker_destroy args =
     mbind (check_ticker args) (\<lambda>a.
     mbind (upd_ticker a (\<lambda>tk. tk\<lparr>t_ScrollTimer := None\<rparr>)) (\<lambda>_.
     mbind (upd_ticker a (\<lambda>tk. tk\<lparr>t_OutputBuffer := None\<rparr>)) (\<lambda>_.
     mbind (get_ticker a) (\<lambda>tk.
     mbind (case t_StripRef tk of None \<Rightarrow> mret ()
            | Some ref \<Rightarrow> mbind (ticker_unref ref) (\<lambda>_. upd_ticker a (\<lambda>tk. tk\<lparr>t_StripRef := None\<rparr>))) (\<lambda>_.
     case t_ScrollCallback tk of None \<Rightarrow> mret ()
     | Some ref \<Rightarrow>
         mbind (ticker_unref ref) (\<lambda>_. upd_ticker a (\<lambda>tk. tk\<lparr>t_ScrollCallback := None\<rparr>)))))))"


section \<open>Well-formed tickers\<close>

text \<open>
  The buffer is six rows of \<open>t_Length\<close> bytes and all offsets fit the machine's \<open>unsigned\<close>; whole
  columns of three bytes are in use, the scroll position is at most one past the last of them,
  and the brightness is in \<open>[0, 1]\<close>.
\<close>

definition ticker_wf :: "ticker \<Rightarrow> bool" where
  "ticker_wf tk \<longleftrightarrow>
     30 \<le> unat (t_Length tk) \<and> 6 * unat (t_Length tk) < 2 ^ 32 \<and> 3 dvd unat (t_Length tk) \<and>
     3 dvd unat (t_Used tk) \<and> unat (t_Used tk) \<le> unat (t_Length tk) \<and>
     3 * unat (t_Position tk) \<le> unat (t_Used tk) \<and> unit_range (t_Brightness tk) \<and>
     (case t_OutputBuffer tk of None \<Rightarrow> False | Some buf \<Rightarrow> length buf = 6 * unat (t_Length tk))"

definition width :: "ticker \<Rightarrow> nat" where
  "width tk = unat (t_Length tk) div 3"

definition used :: "ticker \<Rightarrow> nat" where
  "used tk = unat (t_Used tk) div 3"

definition pos :: "ticker \<Rightarrow> nat" where
  "pos tk = unat (t_Position tk)"

text \<open>The colour (red, green, blue) of one cell of the text buffer.\<close>

definition cell :: "ticker \<Rightarrow> nat \<Rightarrow> nat \<Rightarrow> u8 \<times> u8 \<times> u8" where
  "cell tk row column =
     (case t_OutputBuffer tk of None \<Rightarrow> (0, 0, 0) | Some buf \<Rightarrow> pixel buf (row * width tk + column))"

lemma ticker_wfE:
  assumes "ticker_wf tk"
  obtains buf where "t_OutputBuffer tk = Some buf" "length buf = 3 * (6 * width tk)"
    "unat (t_Length tk) = 3 * width tk" "10 \<le> width tk" "18 * width tk < 2 ^ 32"
    "unat (t_Used tk) = 3 * used tk" "used tk \<le> width tk" "pos tk \<le> used tk"
    "unit_range (t_Brightness tk)"
proof -
  obtain buf where buf: "t_OutputBuffer tk = Some buf" "length buf = 6 * unat (t_Length tk)"
    using assms by (auto simp: ticker_wf_def split: option.splits)
  have l: "unat (t_Length tk) = 3 * width tk" and u: "unat (t_Used tk) = 3 * used tk"
    using assms by (auto simp: ticker_wf_def width_def used_def)
  show ?thesis
    using that [OF buf(1)] buf(2) l u assms by (auto simp: ticker_wf_def pos_def)
qed

lemma cell_index:
  assumes "row < 6" "c < n"
  shows "row * n + c < 6 * (n :: nat)"
proof -
  have "row * n + c < row * n + n" using assms(2) by simp
  also have "\<dots> = Suc row * n" by simp
  also have "\<dots> \<le> 6 * n" using assms(1) by (intro mult_right_mono) auto
  finally show ?thesis .
qed

lemma cell_index_inject:
  assumes "c < n" "d < n" "row * n + c = row' * n + d"
  shows "row = row'" "c = (d :: nat)"
proof -
  have "(row * n + c) div n = (row' * n + d) div n" using assms(3) by simp
  with assms(1,2) show "row = row'" by simp
  with assms(3) show "c = d" by simp
qed

text \<open>A word expression over offsets is the offset itself as long as it stays in range.\<close>

lemma unat_cell_offset:
  assumes "unat len = 3 * n" "18 * n < 2 ^ 32" "unat start = 3 * u"
    and "row < 6" "u + column < n" "k < 3"
  shows "unat (start + len * of_nat row + of_nat column * 3 + of_nat k :: u32) =
    3 * (row * n + (u + column)) + k"
proof -
  have "start + len * of_nat row + of_nat column * 3 + of_nat k =
      (of_nat (unat start + unat len * row + column * 3 + k) :: u32)"
    by simp
  also have "unat start + unat len * row + column * 3 + k = 3 * (row * n + (u + column)) + k"
    using assms by (simp add: algebra_simps)
  finally show ?thesis
    using cell_index [OF assms(4,5)] assms(2,6) by (simp add: unat_of_nat_small del: of_nat_add of_nat_mult)
qed

lemma put_cell_eq:
  assumes "t_OutputBuffer tk = Some buf" "3 * i + 2 < length buf"
    and "\<And>k. k < 3 \<Longrightarrow> unat (p + of_nat k) = 3 * i + k"
  shows "put_cell tk p r g b = Inr (tk\<lparr>t_OutputBuffer := Some (set_pixel buf i r g b)\<rparr>)"
proof -
  have "unat (p + 0) = 3 * i" "unat (p + 1) = 3 * i + 1" "unat (p + 2) = 3 * i + 2"
    using assms(3) [of 0] assms(3) [of 1] assms(3) [of 2] by simp_all
  then show ?thesis
    using assms(1,2) by (simp only: put_cell_def) (simp add: set_pixel_def)
qed

section \<open>Painting a block of cells\<close>

definition paint_cells ::
  "(nat \<times> nat \<Rightarrow> u8 \<times> u8 \<times> u8) \<Rightarrow> nat \<Rightarrow> nat \<Rightarrow> (nat \<times> nat) list \<Rightarrow> bytes \<Rightarrow> bytes" where
  "paint_cells col n u xs buf =
     fold (\<lambda>(row, column) buf. case col (row, column) of (r, g, b) \<Rightarrow>
       set_pixel buf (row * n + (u + column)) r g b) xs buf"

lemma length_paint_cells [simp]: "length (paint_cells col n u xs buf) = length buf"
  by (induction xs arbitrary: buf) (auto simp: paint_cells_def split: prod.splits)

lemma pixel_paint_cells:
  assumes "length buf = 3 * (6 * n)" "\<forall>(row, column) \<in> set xs. row < 6 \<and> u + column < n"
    "distinct xs" "row < 6" "c < n"
  shows "pixel (paint_cells col n u xs buf) (row * n + c) =
    (if u \<le> c \<and> (row, c - u) \<in> set xs then col (row, c - u) else pixel buf (row * n + c))"
  using assms(1-3)
proof (induction xs rule: rev_induct)
  case Nil
  then show ?case by (simp add: paint_cells_def)
next
  case (snoc x xs)
  obtain ro co where x: "x = (ro, co)" by fastforce
  obtain r g b where rgb: "col (ro, co) = (r, g, b)" by (cases "col (ro, co)")
  have rc: "ro < 6" "u + co < n" using snoc.prems(2) x by auto
  let ?buf = "paint_cells col n u xs buf"
  have step: "paint_cells col n u (xs @ [x]) buf = set_pixel ?buf (ro * n + (u + co)) r g b"
    by (simp add: paint_cells_def x rgb)
  have in_buf: "3 * (ro * n + (u + co)) + 2 < length ?buf"
    using cell_index [OF rc] snoc.prems(1) by simp
  have eq: "row * n + c = ro * n + (u + co) \<longleftrightarrow> row = ro \<and> c = u + co"
    using cell_index_inject [OF assms(5) rc(2)] by auto
  show ?case
    unfolding step pixel_set_pixel [OF in_buf] eq
    using snoc rgb x by auto
qed

text \<open>A loop of cell writes over a block is a painting of that block.\<close>

lemma rfold_put_cell:
  assumes wf: "ticker_wf tk" and buf: "t_OutputBuffer tk = Some buf"
    and range: "\<forall>(row, column) \<in> set xs. row < 6 \<and> u + column < width tk"
    and start: "unat (start tk) = 3 * u" "\<And>ob. start (tk\<lparr>t_OutputBuffer := ob\<rparr>) = start tk"
  shows "rfold (\<lambda>(row, column) tk.
       put_cell tk (start tk + t_Length tk * of_nat row + of_nat column * 3)
         (fst (col (row, column))) (fst (snd (col (row, column)))) (snd (snd (col (row, column)))))
       xs tk =
     Inr (tk\<lparr>t_OutputBuffer := Some (paint_cells col (width tk) u xs buf)\<rparr>)"
  using range
proof (induction xs rule: rev_induct)
  case Nil
  then show ?case using buf by (simp add: paint_cells_def)
next
  case (snoc x xs)
  obtain ro co where x: "x = (ro, co)" by fastforce
  have rc: "ro < 6" "u + co < width tk" using snoc.prems x by auto
  obtain buf' where b: "t_OutputBuffer tk = Some buf'" "length buf' = 3 * (6 * width tk)"
    "unat (t_Length tk) = 3 * width tk" "18 * width tk < 2 ^ 32"
    using wf by (rule ticker_wfE)
  let ?tk = "tk\<lparr>t_OutputBuffer := Some (paint_cells col (width tk) u xs buf)\<rparr>"
  have "put_cell ?tk (start tk + t_Length tk * of_nat ro + of_nat co * 3) r g b =
      Inr (?tk\<lparr>t_OutputBuffer := Some (set_pixel (paint_cells col (width tk) u xs buf)
        (ro * width tk + (u + co)) r g b)\<rparr>)" for r g b
    by (rule put_cell_eq)
      (use b buf cell_index [OF rc] unat_cell_offset [OF b(3,4) start(1) rc] in auto)
  with snoc x show ?case
    by (simp add: rfold_append paint_cells_def split_def start(2))
qed


section \<open>Letters\<close>

text \<open>
  Pixel (row, column) of a 24-bit glyph: the glyph's top nibble is its first row, and a
  nibble's top bit its first column.
\<close>

definition glyph_bit :: "u32 \<Rightarrow> nat \<Rightarrow> nat \<Rightarrow> bool" where
  "glyph_bit m row column = bit m (23 - 4 * row - column)"

definition letter_cell :: "u32 \<Rightarrow> u32 \<Rightarrow> u32 \<Rightarrow> u32 \<Rightarrow> nat \<times> nat \<Rightarrow> u8 \<times> u8 \<times> u8" where
  "letter_cell m r g b rc =
     (if glyph_bit m (fst rc) (snd rc) then (ucast r, ucast g, ucast b) else (0, 0, 0))"

lemma letter_value:
  assumes "row < 6" "column < 4"
  shows "ucast (drop_bit (3 - column) (letter_line m row) AND 0x1) =
    (of_bool (glyph_bit m row column) :: u32)"
proof -
  have nib: "bit (0xF :: u32) i \<longleftrightarrow> i < 4" for i
  proof -
    have "bit (mask 4 :: u32) i \<longleftrightarrow> i < 4" by (auto simp: bit_mask_iff possible_bit_word)
    then show ?thesis by (simp add: mask_eq_exp_minus_1)
  qed
  have "20 - 4 * row + (3 - column) = 23 - 4 * row - column"
    using assms by auto
  then have "bit (letter_line m row) (3 - column) = glyph_bit m row column"
    unfolding letter_line_def glyph_bit_def bit_ucast_iff bit_and_iff bit_drop_bit_eq nib by auto
  then have "drop_bit (3 - column) (letter_line m row) AND 0x1 = of_bool (glyph_bit m row column)"
    by (simp add: and_one_eq mod_2_eq_odd bit_iff_odd_drop_bit)
  then show ?thesis by simp
qed

lemma ticker_wf_add:
  assumes "ticker_wf tk" "used tk + n \<le> width tk" "length buf = 6 * unat (t_Length tk)"
  shows "ticker_wf (tk\<lparr>t_OutputBuffer := Some buf, t_Used := t_Used tk + of_nat (3 * n)\<rparr>)"
    and "unat (t_Used tk + of_nat (3 * n)) = 3 * (used tk + n)"
proof -
  obtain buf0 where b: "unat (t_Length tk) = 3 * width tk" "18 * width tk < 2 ^ 32"
    "unat (t_Used tk) = 3 * used tk" "pos tk \<le> used tk"
    using assms(1) by (rule ticker_wfE)
  have small: "unat (of_nat (3 * n) :: u32) = 3 * n"
    using assms(2) b(2) by (intro unat_of_nat_small) simp
  show u: "unat (t_Used tk + of_nat (3 * n)) = 3 * (used tk + n)"
    using assms(2) b small by (subst unat_add_no_wrap) simp_all
  then show "ticker_wf (tk\<lparr>t_OutputBuffer := Some buf, t_Used := t_Used tk + of_nat (3 * n)\<rparr>)"
    using assms b by (simp add: ticker_wf_def pos_def)
qed

lemma width_update [simp]:
  "width (tk\<lparr>t_OutputBuffer := ob\<rparr>) = width tk" "width (tk\<lparr>t_Used := v\<rparr>) = width tk"
  by (simp_all add: width_def)

lemma room_iff:
  assumes "ticker_wf tk"
  shows "t_Length tk - t_Used tk < 12 \<longleftrightarrow> \<not> used tk + 4 \<le> width tk"
proof -
  obtain buf where b: "unat (t_Length tk) = 3 * width tk" "unat (t_Used tk) = 3 * used tk"
    "used tk \<le> width tk"
    using assms by (rule ticker_wfE)
  then have "t_Used tk \<le> t_Length tk" by (simp add: word_le_nat_alt)
  then have "unat (t_Length tk - t_Used tk) = 3 * (width tk - used tk)"
    using b by (simp add: unat_sub_no_wrap)
  then show ?thesis by (auto simp: word_less_nat_alt)
qed

definition letter_added :: "ticker \<Rightarrow> u32 \<Rightarrow> u32 \<Rightarrow> u32 \<Rightarrow> u32 \<Rightarrow> ticker" where
  "letter_added tk m r g b =
     tk\<lparr>t_OutputBuffer := Some (paint_cells (letter_cell m r g b) (width tk) (used tk)
          (List.product [0..<6] [0..<4]) (the (t_OutputBuffer tk))),
        t_Used := t_Used tk + 12\<rparr>"

lemma letter_body:
  assumes "x \<in> set (List.product [0..<6] [0..<4])"
  shows "(case x of (row, column) \<Rightarrow> \<lambda>tk.
        let start = t_Used tk + t_Length tk * of_nat row;
            value = ucast (drop_bit (3 - column) (letter_line m row) AND 0x1) :: u32 in
        put_cell tk (start + of_nat column * 3)
          (ucast (value * r)) (ucast (value * g)) (ucast (value * b))) tk =
      (case x of (row, column) \<Rightarrow> \<lambda>tk.
       put_cell tk (t_Used tk + t_Length tk * of_nat row + of_nat column * 3)
         (fst (letter_cell m r g b (row, column))) (fst (snd (letter_cell m r g b (row, column))))
         (snd (snd (letter_cell m r g b (row, column))))) tk"
  using assms by (auto simp: Let_def letter_value letter_cell_def)

lemma add_letter_eq:
  assumes wf: "ticker_wf tk" and room: "used tk + 4 \<le> width tk"
  shows "add_letter tk m r g b = Inr (letter_added tk m r g b)"
    and "ticker_wf (letter_added tk m r g b)"
    and "used (letter_added tk m r g b) = used tk + 4"
proof -
  obtain buf where b: "t_OutputBuffer tk = Some buf" "length buf = 3 * (6 * width tk)"
    "unat (t_Length tk) = 3 * width tk" "unat (t_Used tk) = 3 * used tk"
    using wf by (rule ticker_wfE)
  let ?cells = "List.product [0..<6] [0..<4]"
  have range: "\<forall>(row, column) \<in> set ?cells. row < 6 \<and> used tk + column < width tk"
    using room by auto
  show "add_letter tk m r g b = Inr (letter_added tk m r g b)"
    unfolding add_letter_def letter_added_def
    by (subst rfold_cong [OF refl refl letter_body])
      (simp_all add: rfold_put_cell [where start = t_Used, OF wf b(1) range b(4)] b(1))
  show "ticker_wf (letter_added tk m r g b)" "used (letter_added tk m r g b) = used tk + 4"
    using ticker_wf_add [OF wf room, of "paint_cells (letter_cell m r g b) (width tk) (used tk) ?cells buf"] b(1-3)
    by (simp_all add: letter_added_def used_def [of "tk\<lparr>t_OutputBuffer := ob, t_Used := v\<rparr>" for ob v])
qed


definition blanked :: "ticker \<Rightarrow> ticker" where
  "blanked tk =
     tk\<lparr>t_OutputBuffer := Some (paint_cells (\<lambda>_. (0, 0, 0)) (width tk) 0
          (List.product [0..<6] [0..<10]) (the (t_OutputBuffer tk))),
        t_Used := t_Used tk + 30\<rparr>"

lemma blank_start_eq:
  assumes wf: "ticker_wf tk" and empty: "t_Used tk = 0"
  shows "blank_start tk = Inr (blanked tk)"
    and "ticker_wf (blanked tk)"
    and "used (blanked tk) = 10"
proof -
  obtain buf where b: "t_OutputBuffer tk = Some buf" "length buf = 3 * (6 * width tk)"
    "unat (t_Length tk) = 3 * width tk" "10 \<le> width tk"
    using wf by (rule ticker_wfE)
  let ?cells = "List.product [0..<6] [0..<10]"
  have range: "\<forall>(row, column) \<in> set ?cells. row < 6 \<and> 0 + column < width tk"
    using b(4) by auto
  show "blank_start tk = Inr (blanked tk)"
    using rfold_put_cell [OF wf b(1) range, of "\<lambda>_. 0" "\<lambda>_. (0, 0, 0)"]
    by (simp add: blank_start_def blanked_def b(1))
  show "ticker_wf (blanked tk)" "used (blanked tk) = 10"
    using ticker_wf_add [OF wf, of 10 "paint_cells (\<lambda>_. (0, 0, 0)) (width tk) 0 ?cells buf"] b empty
    by (simp_all add: blanked_def used_def [of "tk\<lparr>t_OutputBuffer := ob, t_Used := v\<rparr>" for ob v] used_def [of tk])
qed

text \<open>What a letter changes: its own four columns, right of what was there.\<close>

lemma letter_added_cell:
  assumes wf: "ticker_wf tk" and room: "used tk + 4 \<le> width tk" and "row < 6" "c < width tk"
  shows "cell (letter_added tk m r g b) row c =
    (if used tk \<le> c \<and> c < used tk + 4 then letter_cell m r g b (row, c - used tk) else cell tk row c)"
proof -
  obtain buf where b: "t_OutputBuffer tk = Some buf" "length buf = 3 * (6 * width tk)"
    using wf by (rule ticker_wfE)
  have "\<forall>(row, column) \<in> set (List.product [0..<6] [0..<4]). row < 6 \<and> used tk + column < width tk"
    "distinct (List.product [0..<6] [0..<4])"
    using room by (auto intro: distinct_product)
  from pixel_paint_cells [OF b(2) this assms(3,4)] show ?thesis
    using b(1) assms(3) by (auto simp: cell_def letter_added_def less_diff_conv2)
qed

lemma blanked_cell:
  assumes wf: "ticker_wf tk" and "row < 6" "c < 10"
  shows "cell (blanked tk) row c = (0, 0, 0)"
proof -
  obtain buf where b: "t_OutputBuffer tk = Some buf" "length buf = 3 * (6 * width tk)" "10 \<le> width tk"
    using wf by (rule ticker_wfE)
  have "\<forall>(row, column) \<in> set (List.product [0..<6] [0..<10]). row < 6 \<and> 0 + column < width tk"
    "distinct (List.product [0..<6] [0..<10])"
    using b(3) by (auto intro: distinct_product)
  from pixel_paint_cells [OF b(2) this assms(2), of c] show ?thesis
    using b(1,3) assms by (simp add: cell_def blanked_def)
qed

section \<open>The visible window\<close>

lemma mod_triple:
  assumes "k < (3 :: nat)"
  shows "(3 * a + k) mod (3 * n) = 3 * (a mod n) + k"
proof -
  have "(3 * a + k) mod (3 * n) = 3 * ((3 * a + k) div 3 mod n) + (3 * a + k) mod 3"
    by (simp add: mod_mult2_eq add.commute)
  with assms show ?thesis by simp
qed

definition scaled :: "cfloat \<Rightarrow> u8 \<Rightarrow> u32" where
  "scaled br v =
     (case cfloat_to_unsigned (double_mult (Fin (uint v) 0) br) of Inl _ \<Rightarrow> 0 | Inr x \<Rightarrow> x)"

lemma scaled_eq:
  assumes "unit_range br"
  shows "cfloat_to_unsigned (double_mult (Fin (uint v) 0) br) = Inr (scaled br v)"
    and "unat (scaled br v) \<le> unat v"
proof -
  have v: "0 \<le> uint v" "uint v < 256"
    using uint_lt2p [of v] by simp_all
  obtain q e where q: "double_mult (Fin (uint v) 0) br = Fin q e" "0 \<le> cf_trunc q e" "cf_trunc q e \<le> uint v"
    using double_mult_unit [OF assms v] by auto
  then have r: "cfloat_to_unsigned (double_mult (Fin (uint v) 0) br) = Inr (word_of_int (cf_trunc q e))"
    using v by (simp add: cfloat_to_unsigned_def)
  then show "cfloat_to_unsigned (double_mult (Fin (uint v) 0) br) = Inr (scaled br v)"
    by (simp add: scaled_def)
  have "uint (word_of_int (cf_trunc q e) :: u32) = cf_trunc q e"
    using q v by (simp add: uint_word_of_int)
  then have "uint (scaled br v) \<le> uint v"
    using q(3) r by (simp add: scaled_def)
  then show "unat (scaled br v) \<le> unat v"
    by (simp only: uint_nat of_nat_le_iff)
qed

lemma cell_component_eq:
  assumes wf: "ticker_wf tk" and "used tk \<noteq> 0" "row < 6" "column < 10" "k < 3"
  shows "cell_component tk row column (of_nat k) =
    Inr (scaled (t_Brightness tk)
      (the (t_OutputBuffer tk) ! (3 * (row * width tk + (pos tk + column) mod used tk) + k)))"
proof -
  obtain buf where b: "t_OutputBuffer tk = Some buf" "length buf = 3 * (6 * width tk)"
    "unat (t_Length tk) = 3 * width tk" "18 * width tk < 2 ^ 32" "unat (t_Used tk) = 3 * used tk"
    "used tk \<le> width tk" "pos tk \<le> used tk" "unit_range (t_Brightness tk)" "10 \<le> width tk"
    using wf by (rule ticker_wfE)
  let ?c = "(pos tk + column) mod used tk"
  have c: "?c < width tk" using assms(2) b(6) mod_less_divisor [of "used tk" "pos tk + column"] by linarith
  have "(t_Position tk + of_nat column) * 3 + of_nat k =
      (of_nat (3 * (pos tk + column) + k) :: u32)"
    by (simp add: pos_def algebra_simps)
  moreover have "unat (of_nat (3 * (pos tk + column) + k) :: u32) = 3 * (pos tk + column) + k"
    using b assms by (intro unat_of_nat_small) simp
  moreover have "(3 * (pos tk + column) + k) mod (3 * used tk) = 3 * ?c + k"
    using assms(5) by (rule mod_triple)
  ultimately have "unat (((t_Position tk + of_nat column) * 3 + of_nat k) mod t_Used tk) = 3 * ?c + k"
    using b(5) by (simp only: unat_mod)
  then have "((t_Position tk + of_nat column) * 3 + of_nat k) mod t_Used tk = of_nat (3 * ?c + k)"
    by (rule unat_eq_of_nat)
  then have "unat (((t_Position tk + of_nat column) * 3 + of_nat k) mod t_Used tk +
      of_nat row * t_Length tk) = 3 * (row * width tk + ?c) + k"
    using unat_cell_offset [OF b(3,4), of 0 0 row ?c k] assms c by (simp add: algebra_simps)
  moreover have "3 * (row * width tk + ?c) + k < length buf"
    using cell_index [OF assms(3) c] b(2) assms(5) by simp
  moreover have "t_Used tk \<noteq> 0" using b(5) assms(2) by auto
  ultimately show ?thesis
    using b(1) scaled_eq(1) [OF b(8)] by (simp add: cell_component_def)
qed


subsection \<open>The LED matrix\<close>

definition matrix_cells :: "(nat \<times> nat) list" where
  "matrix_cells = List.product [0..<6] [0..<10]"

lemma matrix_cells_iff [simp]: "(row, column) \<in> set matrix_cells \<longleftrightarrow> row < 6 \<and> column < 10"
  by (simp add: matrix_cells_def)

lemma distinct_matrix_cells: "distinct matrix_cells"
  unfolding matrix_cells_def by (intro distinct_product distinct_upt)

definition led_at :: "nat \<Rightarrow> nat \<Rightarrow> nat" where
  "led_at row column = unat (led_mapping ! (column + row * 10))"

lemma length_led_mapping [simp]: "length led_mapping = 60"
  by (simp add: led_mapping_def)

lemma led_mapping_distinct: "distinct (map unat led_mapping)"
  by (simp add: led_mapping_def)

lemma led_mapping_range: "\<forall>x \<in> set led_mapping. unat x < 60"
  by (simp add: led_mapping_def)

lemma led_at_range: "row < 6 \<Longrightarrow> column < 10 \<Longrightarrow> led_at row column < 60"
  using led_mapping_range by (simp add: led_at_def)

lemma led_at_inject:
  assumes "row < 6" "column < 10" "row' < 6" "column' < 10" "led_at row column = led_at row' column'"
  shows "row = row' \<and> column = column'"
proof -
  have "column + row * 10 = column' + row' * 10"
    using assms led_mapping_distinct nth_eq_iff_index_eq [of "map unat led_mapping"]
    by (simp add: led_at_def)
  with assms show ?thesis by presburger
qed

text \<open>The mapping reaches all of the first sixty LEDs, each once.\<close>

lemma led_at_surj: "k < 60 \<Longrightarrow> \<exists>row < 6. \<exists>column < 10. led_at row column = k"
proof -
  assume k: "k < 60"
  have "set (map unat led_mapping) = {0..<60}"
    by (rule card_subset_eq)
      (use led_mapping_range distinct_card [OF led_mapping_distinct] in auto)
  with k have "k \<in> set (map unat led_mapping)" by simp
  then obtain i where i: "i < 60" "unat (led_mapping ! i) = k"
    by (auto simp: in_set_conv_nth)
  then have "led_at (i div 10) (i mod 10) = k" "i div 10 < 6" "i mod 10 < 10"
    by (simp_all add: led_at_def add.commute)
  then show ?thesis by blast
qed


text \<open>The rest of the state, as a strip sees it, holds all of the ticker's state.\<close>

lemma rest_ticker_state:
  fixes w w' :: "'x ticker_world_scheme"
  assumes "strip_rest s w' = strip_rest s w"
  shows "tickers w' = tickers w" "ascii_table w' = ascii_table w" "g_pLua w' = g_pLua w"
    "registry w' = registry w" "next_ref w' = next_ref w" "next_addr w' = next_addr w"
proof -
  have "lpd_world.more w' = lpd_world.more w" "next_addr w' = next_addr w"
    using assms by (simp_all add: strip_rest_def)
  then show "tickers w' = tickers w" "ascii_table w' = ascii_table w" "g_pLua w' = g_pLua w"
    "registry w' = registry w" "next_ref w' = next_ref w" "next_addr w' = next_addr w"
    by (cases w; cases w'; simp)+
qed

text \<open>What a tick has to show: the window of ten columns from the scroll position, going around.\<close>

definition window_cell :: "ticker \<Rightarrow> nat \<Rightarrow> nat \<Rightarrow> u8 \<times> u8 \<times> u8" where
  "window_cell tk row column = cell tk row ((pos tk + column) mod used tk)"

definition lit :: "ticker \<Rightarrow> nat \<Rightarrow> nat \<Rightarrow> u8 \<times> u8 \<times> u8" where
  "lit tk row column =
     (case window_cell tk row column of (r, g, b) \<Rightarrow>
        (shown (scaled (t_Brightness tk) g), shown (scaled (t_Brightness tk) r),
         shown (scaled (t_Brightness tk) b)))"

definition shows_window :: "ticker \<Rightarrow> nat \<Rightarrow> 'x ticker_world_scheme \<Rightarrow> bool" where
  "shows_window tk s w \<longleftrightarrow>
     (\<forall>row < 6. \<forall>column < 10. strip_led s w (led_at row column) = lit tk row column)"

lemma window_component:
  assumes "ticker_wf tk" "used tk \<noteq> 0" "row < 6" "column < 10"
  shows "cell_component tk row column 0 =
      Inr (scaled (t_Brightness tk) (fst (window_cell tk row column)))"
    and "cell_component tk row column 1 =
      Inr (scaled (t_Brightness tk) (fst (snd (window_cell tk row column))))"
    and "cell_component tk row column 2 =
      Inr (scaled (t_Brightness tk) (snd (snd (window_cell tk row column))))"
proof -
  obtain buf where "t_OutputBuffer tk = Some buf"
    using assms(1) by (rule ticker_wfE)
  then show "cell_component tk row column 0 =
      Inr (scaled (t_Brightness tk) (fst (window_cell tk row column)))"
    "cell_component tk row column 1 =
      Inr (scaled (t_Brightness tk) (fst (snd (window_cell tk row column))))"
    "cell_component tk row column 2 =
      Inr (scaled (t_Brightness tk) (snd (snd (window_cell tk row column))))"
    using cell_component_eq [OF assms, of 0] cell_component_eq [OF assms, of 1]
      cell_component_eq [OF assms, of 2]
    by (simp_all add: window_cell_def cell_def pixel_def)
qed

lemma scroll_cell_eq:
  assumes "tickers w a = Some tk" "ticker_wf tk" "used tk \<noteq> 0" "row < 6" "column < 10"
  shows "scroll_cell a (row, column) w =
    set_color_at (t_LedStrip tk) (ucast (led_mapping ! (column + row * 10)))
      (scaled (t_Brightness tk) (fst (window_cell tk row column)))
      (scaled (t_Brightness tk) (fst (snd (window_cell tk row column))))
      (scaled (t_Brightness tk) (snd (snd (window_cell tk row column)))) w"
  using assms window_component [OF assms(2-5)]
  by (simp add: scroll_cell_def get_ticker_def)

lemma scaled_byte: "unit_range br \<Longrightarrow> unat (scaled br v) < 256"
  using scaled_eq(2) [of br v] u8_bound [of v] by linarith

lemma scroll_paints:
  assumes tk: "tickers w a = Some tk" "ticker_wf tk" "used tk \<noteq> 0"
    and n: "60 \<le> strip_leds (t_LedStrip tk) w"
  shows "\<exists>w'. mfor matrix_cells (scroll_cell a) w = (Inr (), w') \<and>
    strip_leds (t_LedStrip tk) w' = strip_leds (t_LedStrip tk) w \<and>
    strip_rest (t_LedStrip tk) w' = strip_rest (t_LedStrip tk) w \<and>
    shows_window tk (t_LedStrip tk) w' \<and>
    (\<forall>k < strip_leds (t_LedStrip tk) w. 60 \<le> k \<longrightarrow>
       strip_led (t_LedStrip tk) w' k = strip_led (t_LedStrip tk) w k)"
proof -
  let ?s = "t_LedStrip tk"
  let ?ix = "\<lambda>rc. ucast (led_mapping ! (snd rc + fst rc * 10)) :: u32"
  let ?c = "\<lambda>rc. window_cell tk (fst rc) (snd rc)"
  let ?sc = "scaled (t_Brightness tk)"
  have br: "unit_range (t_Brightness tk)" using tk(2) by (rule ticker_wfE)
  have ix: "unat (?ix rc) = led_at (fst rc) (snd rc)" for rc
    by (simp add: led_at_def)
  have inj: "distinct (map (\<lambda>rc. unat (?ix rc)) matrix_cells)"
    unfolding distinct_map ix
    using distinct_matrix_cells led_at_inject by (fastforce intro!: inj_onI)
  have "\<exists>w'. mfor matrix_cells (scroll_cell a) w = (Inr (), w') \<and> strip_leds ?s w' = strip_leds ?s w \<and>
    strip_rest ?s w' = strip_rest ?s w \<and>
    (\<forall>x \<in> set matrix_cells. strip_led ?s w' (unat (?ix x)) =
       (shown (?sc (fst (snd (?c x)))), shown (?sc (fst (?c x))), shown (?sc (snd (snd (?c x)))))) \<and>
    (\<forall>k < strip_leds ?s w. k \<notin> (\<lambda>x. unat (?ix x)) ` set matrix_cells \<longrightarrow> strip_led ?s w' k = strip_led ?s w k)"
  proof (rule strip.paint [OF refl _ refl], goal_cases)
    case 1
    then show ?case using n by simp
  next
    case (2 x w')
    have "tickers w' a = Some tk" using tk(1) rest_ticker_state(1) [OF 2(3)] by simp
    moreover obtain row column where "x = (row, column)" by fastforce
    ultimately show ?case
      using 2(1) scroll_cell_eq [of w' a tk row column] tk(2,3) by simp
  next
    case (3 x)
    then show ?case using scaled_byte [OF br] by simp
  next
    case 4
    then show ?case by (rule inj)
  next
    case (5 x)
    obtain row column where "x = (row, column)" by fastforce
    with 5 n led_at_range [of row column] show ?case by (simp only: ix) simp
  qed
  then obtain w' where w': "mfor matrix_cells (scroll_cell a) w = (Inr (), w')"
    "strip_leds ?s w' = strip_leds ?s w" "strip_rest ?s w' = strip_rest ?s w"
    and painted: "\<And>x. x \<in> set matrix_cells \<Longrightarrow> strip_led ?s w' (led_at (fst x) (snd x)) =
       (shown (?sc (fst (snd (?c x)))), shown (?sc (fst (?c x))), shown (?sc (snd (snd (?c x)))))"
    and others: "\<And>k. k < strip_leds ?s w \<Longrightarrow>
       k \<notin> (\<lambda>x. led_at (fst x) (snd x)) ` set matrix_cells \<Longrightarrow> strip_led ?s w' k = strip_led ?s w k"
    unfolding ix by blast
  have "shows_window tk ?s w'"
    unfolding shows_window_def lit_def split_def using painted by fastforce
  moreover have "strip_led ?s w' k = strip_led ?s w k" if "k < strip_leds ?s w" "60 \<le> k" for k
  proof (rule others [OF that(1)])
    show "k \<notin> (\<lambda>x. led_at (fst x) (snd x)) ` set matrix_cells"
      using led_at_range that(2) by fastforce
  qed
  ultimately show ?thesis using w' by blast
qed


section \<open>A timer tick\<close>

text \<open>
  After the window is on the strip: at the end of the text the position goes back to the start
  and the callback runs, then the position moves on by one.
\<close>

definition scroll_finish ::
  "(lua_value \<Rightarrow> ('x, unit) ticker_handler) \<Rightarrow> ticker \<Rightarrow> ('x, unit) ticker_handler" where
  "scroll_finish lua_call tk =
     mbind (mget g_pLua) (\<lambda>lua.
     case t_ScrollCallback tk of
       None \<Rightarrow> mret ()
     | Some ref \<Rightarrow>
         if lua then mbind (mget registry) (\<lambda>reg. lua_call (case reg ref of None \<Rightarrow> LNil | Some v \<Rightarrow> v))
         else mret ())"

lemma position_eq_used:
  assumes "ticker_wf tk"
  shows "t_Position tk * 3 = t_Used tk \<longleftrightarrow> pos tk = used tk"
proof -
  obtain buf where b: "unat (t_Used tk) = 3 * used tk" "18 * width tk < 2 ^ 32"
    "used tk \<le> width tk" "pos tk \<le> used tk"
    using assms by (rule ticker_wfE)
  have "unat (t_Position tk * 3) = 3 * pos tk"
    using b by (subst unat_mult_no_wrap) (auto simp: pos_def)
  with b(1) show ?thesis by (auto simp: word_unat_eq_iff)
qed

lemma tick_after_paint:
  assumes tk: "tickers w a = Some tk" "ticker_wf tk" "used tk \<noteq> 0"
    and live: "live (t_LedStrip tk) w"
    and w1: "mfor matrix_cells (scroll_cell a) w = (Inr (), w1)"
      "strip_leds (t_LedStrip tk) w1 = strip_leds (t_LedStrip tk) w"
      "strip_rest (t_LedStrip tk) w1 = strip_rest (t_LedStrip tk) w"
  obtains w' where
    "strip_leds (t_LedStrip tk) w' = strip_leds (t_LedStrip tk) w"
    "strip_rest (t_LedStrip tk) w' = strip_rest (t_LedStrip tk) w"
    "strip_led (t_LedStrip tk) w' = strip_led (t_LedStrip tk) w1"
    "\<And>lua_call. ticker_scroll_cb lua_call a w =
      (if pos tk = used tk
       then mbind (scroll_finish lua_call tk)
              (\<lambda>_. upd_ticker a (\<lambda>tk. tk\<lparr>t_Position := t_Position tk + 1\<rparr>))
              (w'\<lparr>tickers := (tickers w')(a \<mapsto> tk\<lparr>t_Position := 0\<rparr>)\<rparr>)
       else (Inr (), w'\<lparr>tickers := (tickers w')(a \<mapsto> tk\<lparr>t_Position := t_Position tk + 1\<rparr>)\<rparr>))"
proof -
  let ?s = "t_LedStrip tk"
  obtain w2 where w2: "update_at ?s w1 = (Inr (), w2)" "strip_leds ?s w2 = strip_leds ?s w1"
    "strip_rest ?s w2 = strip_rest ?s w1" "strip_led ?s w2 = strip_led ?s w1"
    using strip.push_at_law [of ?s w1] w1(2) live by auto
  have t: "tickers w1 a = Some tk" "tickers w2 a = Some tk"
    using tk(1) rest_ticker_state(1) [OF w1(3)] rest_ticker_state(1) [OF w2(3)] by simp_all
  have "t_Used tk \<noteq> 0" using tk(3) by (auto simp: used_def)
  then have "ticker_scroll_cb lua_call a w =
      (if pos tk = used tk
       then mbind (scroll_finish lua_call tk)
              (\<lambda>_. upd_ticker a (\<lambda>tk. tk\<lparr>t_Position := t_Position tk + 1\<rparr>))
              (w2\<lparr>tickers := (tickers w2)(a \<mapsto> tk\<lparr>t_Position := 0\<rparr>)\<rparr>)
       else (Inr (), w2\<lparr>tickers := (tickers w2)(a \<mapsto> tk\<lparr>t_Position := t_Position tk + 1\<rparr>)\<rparr>))"
    for lua_call
    using tk w1(1) w2(1) t position_eq_used [OF tk(2)]
    by (simp add: ticker_scroll_cb_def get_ticker_def put_ticker_def upd_ticker_def
        scroll_finish_def mbind_split [of "mbind _ _"] flip: matrix_cells_def)
  then show ?thesis
    using that [of w2] w1 w2 by simp
qed

lemma tick_step:
  assumes tk: "tickers w a = Some tk" "ticker_wf tk" "used tk \<noteq> 0"
    and n: "60 \<le> strip_leds (t_LedStrip tk) w"
  obtains w' where
    "strip_leds (t_LedStrip tk) w' = strip_leds (t_LedStrip tk) w"
    "strip_rest (t_LedStrip tk) w' = strip_rest (t_LedStrip tk) w"
    "shows_window tk (t_LedStrip tk) w'"
    "\<And>lua_call. ticker_scroll_cb lua_call a w =
      (if pos tk = used tk
       then mbind (scroll_finish lua_call tk)
              (\<lambda>_. upd_ticker a (\<lambda>tk. tk\<lparr>t_Position := t_Position tk + 1\<rparr>))
              (w'\<lparr>tickers := (tickers w')(a \<mapsto> tk\<lparr>t_Position := 0\<rparr>)\<rparr>)
       else (Inr (), w'\<lparr>tickers := (tickers w')(a \<mapsto> tk\<lparr>t_Position := t_Position tk + 1\<rparr>)\<rparr>))"
proof -
  obtain w1 where w1: "mfor matrix_cells (scroll_cell a) w = (Inr (), w1)"
    "strip_leds (t_LedStrip tk) w1 = strip_leds (t_LedStrip tk) w"
    "strip_rest (t_LedStrip tk) w1 = strip_rest (t_LedStrip tk) w"
    "shows_window tk (t_LedStrip tk) w1"
    using scroll_paints [OF tk n] by blast
  have "live (t_LedStrip tk) w" using n by simp
  from tick_after_paint [OF tk this w1(1-3)] obtain w2 where
    w2: "strip_leds (t_LedStrip tk) w2 = strip_leds (t_LedStrip tk) w"
    "strip_rest (t_LedStrip tk) w2 = strip_rest (t_LedStrip tk) w"
    "strip_led (t_LedStrip tk) w2 = strip_led (t_LedStrip tk) w1"
    "\<And>lua_call. ticker_scroll_cb lua_call a w =
      (if pos tk = used tk
       then mbind (scroll_finish lua_call tk)
              (\<lambda>_. upd_ticker a (\<lambda>tk. tk\<lparr>t_Position := t_Position tk + 1\<rparr>))
              (w2\<lparr>tickers := (tickers w2)(a \<mapsto> tk\<lparr>t_Position := 0\<rparr>)\<rparr>)
       else (Inr (), w2\<lparr>tickers := (tickers w2)(a \<mapsto> tk\<lparr>t_Position := t_Position tk + 1\<rparr>)\<rparr>))"
    by blast
  have "shows_window tk (t_LedStrip tk) w2"
    using w1(4) by (simp add: shows_window_def w2(3))
  from that [OF w2(1,2) this w2(4)] show ?thesis .
qed

subsection \<open>Going around\<close>

abbreviation tick ::
  "(lua_value \<Rightarrow> ('x, unit) ticker_handler) \<Rightarrow> nat \<Rightarrow> 'x ticker_world_scheme \<Rightarrow> 'x ticker_world_scheme" where
  "tick lua_call a w \<equiv> snd (ticker_scroll_cb lua_call a w)"

lemma advance_wf:
  assumes "ticker_wf tk" "pos tk + k \<le> used tk"
  shows "ticker_wf (tk\<lparr>t_Position := t_Position tk + of_nat k\<rparr>)"
    and "pos (tk\<lparr>t_Position := t_Position tk + of_nat k\<rparr>) = pos tk + k"
proof -
  obtain buf where b: "unat (t_Used tk) = 3 * used tk" "18 * width tk < 2 ^ 32" "used tk \<le> width tk"
    using assms(1) by (rule ticker_wfE)
  have "unat (of_nat k :: u32) = k"
    using assms(2) b by (intro unat_of_nat_small) simp
  then show p: "pos (tk\<lparr>t_Position := t_Position tk + of_nat k\<rparr>) = pos tk + k"
    using assms(2) b by (simp add: pos_def) (subst unat_add_no_wrap; simp add: pos_def)
  with assms b show "ticker_wf (tk\<lparr>t_Position := t_Position tk + of_nat k\<rparr>)"
    by (simp add: ticker_wf_def pos_def split: option.splits)
qed

lemma used_position [simp]: "used (tk\<lparr>t_Position := p\<rparr>) = used tk"
  by (simp add: used_def)

lemma ticks_advance:
  fixes w :: "'x ticker_world_scheme"
  assumes tk: "tickers w a = Some tk" "ticker_wf tk" "used tk \<noteq> 0"
    and n: "60 \<le> strip_leds (t_LedStrip tk) w" and k: "pos tk + k \<le> used tk"
  shows "\<exists>w'. (tick lua_call a ^^ k) w = w' \<and> (tick lua_call' a ^^ k) w = w' \<and>
    tickers w' a = Some (tk\<lparr>t_Position := t_Position tk + of_nat k\<rparr>) \<and>
    strip_leds (t_LedStrip tk) w' = strip_leds (t_LedStrip tk) w \<and>
    registry w' = registry w \<and> g_pLua w' = g_pLua w"
  using k
proof (induction k)
  case 0
  with tk show ?case by simp
next
  case (Suc k)
  let ?tk = "tk\<lparr>t_Position := t_Position tk + of_nat k\<rparr>"
  obtain w1 where w1: "(tick lua_call a ^^ k) w = w1" "(tick lua_call' a ^^ k) w = w1"
    "tickers w1 a = Some ?tk" "strip_leds (t_LedStrip tk) w1 = strip_leds (t_LedStrip tk) w"
    "registry w1 = registry w" "g_pLua w1 = g_pLua w"
    using Suc by auto
  have wf: "ticker_wf ?tk" "pos ?tk = pos tk + k" "used ?tk \<noteq> 0"
    using advance_wf [OF tk(2), of k] Suc.prems tk(3) by simp_all
  have n': "60 \<le> strip_leds (t_LedStrip ?tk) w1" using n w1(4) by simp
  obtain w2 where w2: "strip_leds (t_LedStrip ?tk) w2 = strip_leds (t_LedStrip ?tk) w1"
    "strip_rest (t_LedStrip ?tk) w2 = strip_rest (t_LedStrip ?tk) w1"
    "\<And>lc. ticker_scroll_cb lc a w1 =
      (if pos ?tk = used ?tk
       then mbind (scroll_finish lc ?tk)
              (\<lambda>_. upd_ticker a (\<lambda>tk. tk\<lparr>t_Position := t_Position tk + 1\<rparr>))
              (w2\<lparr>tickers := (tickers w2)(a \<mapsto> ?tk\<lparr>t_Position := 0\<rparr>)\<rparr>)
       else (Inr (), w2\<lparr>tickers := (tickers w2)(a \<mapsto> ?tk\<lparr>t_Position := t_Position ?tk + 1\<rparr>)\<rparr>))"
    using tick_step [OF w1(3) wf(1,3) n'] by blast
  have step: "ticker_scroll_cb lc a w1 =
      (Inr (), w2\<lparr>tickers := (tickers w2)(a \<mapsto> ?tk\<lparr>t_Position := t_Position ?tk + 1\<rparr>)\<rparr>)" for lc
    using w2(3) wf(2) Suc.prems by simp
  have "strip_leds (t_LedStrip tk) (w2\<lparr>tickers := t\<rparr>) = strip_leds (t_LedStrip tk) w2" for t
    by (simp add: strip_leds_def)
  with w1 w2(1) rest_ticker_state(3,4) [OF w2(2)] show ?case
    by (simp add: step algebra_simps)
qed

end
