(* ===== verification/Ticker_Safety.thy ===== *)
theory Ticker_Safety
  imports Ticker
begin

text \<open>
  The ticker module as a whole: the invariant that relates tickers, their buffers, their timers
  and the strips they point to, and the proof that every entry point and every timer tick keeps it
  and does nothing undefined, for a Lua program that respects the ranges the code leaves to it.
\<close>

section \<open>The invariant\<close>

text \<open>
  A ticker either has no buffer (allocation failed, or it was destroyed) and then no armed
  timer, or it is well formed and its strip has a frame.
\<close>

definition ticker_slot_ok :: "'x ticker_world_scheme \<Rightarrow> nat \<Rightarrow> ticker \<Rightarrow> bool" where
  "ticker_slot_ok w a tk \<longleftrightarrow>
     a < next_addr w \<and>
     (t_OutputBuffer tk = None \<and> t_ScrollTimer tk = None \<or>
      ticker_wf tk \<and> live (t_LedStrip tk) w)"

definition tickers_ok :: "'x ticker_world_scheme \<Rightarrow> bool" where
  "tickers_ok w \<longleftrightarrow>
     strips_ok w \<and> length (ascii_table w) = 127 \<and>
     (\<forall>a tk. tickers w a = Some tk \<longrightarrow> ticker_slot_ok w a tk)"

definition ticker_live :: "nat \<Rightarrow> 'x ticker_world_scheme \<Rightarrow> bool" where
  "ticker_live a w \<longleftrightarrow>
     (case tickers w a of None \<Rightarrow> False | Some tk \<Rightarrow> ticker_wf tk \<and> live (t_LedStrip tk) w)"

text \<open>
  While a scroll-finish callback runs, its ticker stands at the start of a non-empty text; no
  entry point changes that.
\<close>

definition parked :: "'x ticker_world_scheme \<Rightarrow> nat \<Rightarrow> bool" where
  "parked w b \<longleftrightarrow>
     (case tickers w b of None \<Rightarrow> False | Some tk \<Rightarrow> t_Used tk \<noteq> 0 \<and> t_Position tk = 0)"

definition module_ok :: "nat set \<Rightarrow> 'x ticker_world_scheme \<Rightarrow> bool" where
  "module_ok S w \<longleftrightarrow> tickers_ok w \<and> (\<forall>b \<in> S. parked w b)"

definition ready :: "nat set \<Rightarrow> nat \<Rightarrow> 'x ticker_world_scheme \<Rightarrow> bool" where
  "ready S a w \<longleftrightarrow> module_ok S w \<and> ticker_live a w"

lemma readyE:
  assumes "ready S a w"
  obtains tk where "tickers w a = Some tk" "ticker_wf tk" "live (t_LedStrip tk) w" "module_ok S w"
    "a < next_addr w"
  using assms that
  by (auto simp: ready_def module_ok_def tickers_ok_def ticker_live_def ticker_slot_ok_def
      split: option.splits)

lemma strip_leds_tickers [simp]:
  "strip_leds s (w\<lparr>tickers := t\<rparr>) = strip_leds s w"
  "strip_leds s (w\<lparr>registry := rg\<rparr>) = strip_leds s w"
  "strip_leds s (w\<lparr>next_ref := n\<rparr>) = strip_leds s w"
  "strip_leds s (w\<lparr>g_pLua := l\<rparr>) = strip_leds s w"
  "strip_leds s (w\<lparr>ascii_table := tbl\<rparr>) = strip_leds s w"
  "strip_leds s (w\<lparr>next_addr := n\<rparr>) = strip_leds s w"
  by (simp_all add: strip_leds_def)

lemma strips_ok_tickers [simp]:
  "strips_ok (w\<lparr>tickers := t\<rparr>) = strips_ok w"
  "strips_ok (w\<lparr>registry := rg\<rparr>) = strips_ok w"
  "strips_ok (w\<lparr>next_ref := n\<rparr>) = strips_ok w"
  "strips_ok (w\<lparr>g_pLua := l\<rparr>) = strips_ok w"
  "strips_ok (w\<lparr>ascii_table := tbl\<rparr>) = strips_ok w"
  by (simp_all add: strips_ok_def)

text \<open>A change of LEDs of one strip is invisible to the invariant.\<close>

lemma strips_rest:
  assumes "strips_ok w" "live s w" "strip_leds s w' = strip_leds s w" "strip_rest s w' = strip_rest s w"
  shows "strips_ok w'" "strip_leds s' w' = strip_leds s' w"
proof -
  have others: "(strips w')(s := None) = (strips w)(s := None)" and addr: "next_addr w' = next_addr w"
    using assms(4) by (simp_all add: strip_rest_def)
  have same: "strips w' x = strips w x" if "x \<noteq> s" for x
    using fun_cong [OF others, of x] that by simp
  show leds: "strip_leds s' w' = strip_leds s' w"
    using same [of s'] assms(3) by (cases "s' = s") (auto simp: strip_leds_def)
  obtain pd pd' where "strips w s = Some pd" "strips w' s = Some pd'" "wf_strip pd'"
    using assms(2,3) by (metis strip_ledsE)
  with assms(1) addr same show "strips_ok w'"
    unfolding strips_ok_def by (metis option.inject)
qed

lemma replace_ticker:
  assumes "module_ok S w" "tickers w a = Some tk" "live (t_LedStrip tk) w"
    and w': "ascii_table w' = ascii_table w" "next_addr w' = next_addr w" "strips_ok w'"
      "\<And>s. strip_leds s w' = strip_leds s w" "\<And>b. b \<noteq> a \<Longrightarrow> tickers w' b = tickers w b"
      "tickers w' a = Some tk'"
    and tk': "t_LedStrip tk' = t_LedStrip tk"
      "ticker_wf tk' \<or> t_OutputBuffer tk' = None \<and> t_ScrollTimer tk' = None"
      "a \<in> S \<Longrightarrow> t_Used tk \<noteq> 0 \<and> t_Position tk = 0 \<Longrightarrow> t_Used tk' \<noteq> 0 \<and> t_Position tk' = 0"
  shows "module_ok S w'"
proof -
  have slot: "ticker_slot_ok w' b t" if "tickers w' b = Some t" for b t
    using assms(1-3) that w' tk'(1,2)
    by (cases "b = a") (auto simp: module_ok_def tickers_ok_def ticker_slot_ok_def)
  have "parked w' b" if "b \<in> S" for b
    using assms(1,2) that w'(5,6) tk'(3) by (cases "b = a") (auto simp: module_ok_def parked_def)
  with slot show ?thesis
    using assms(1) w'(1,3) by (simp add: module_ok_def tickers_ok_def)
qed

lemma replace_ready:
  assumes "ready S a w" "tickers w a = Some tk"
    and "t_LedStrip tk' = t_LedStrip tk" "ticker_wf tk'"
      "t_Used tk \<noteq> 0 \<and> t_Position tk = 0 \<Longrightarrow> t_Used tk' \<noteq> 0 \<and> t_Position tk' = 0"
  shows "ready S a (w\<lparr>tickers := (tickers w)(a \<mapsto> tk')\<rparr>)"
  using assms replace_ticker [of S w a tk "w\<lparr>tickers := (tickers w)(a \<mapsto> tk')\<rparr>" tk']
  by (auto simp: ready_def ticker_live_def module_ok_def tickers_ok_def)

section \<open>Steps on one ticker\<close>

text \<open>The registry, the font and the Lua state are not part of what the invariant reads.\<close>

lemma ready_frame [simp]:
  "ticker_live a (w\<lparr>registry := rg\<rparr>) = ticker_live a w"
  "ticker_live a (w\<lparr>next_ref := n\<rparr>) = ticker_live a w"
  "ticker_live a (w\<lparr>g_pLua := l\<rparr>) = ticker_live a w"
  "ticker_live a (w\<lparr>ascii_table := tbl\<rparr>) = ticker_live a w"
  "module_ok S (w\<lparr>registry := rg\<rparr>) = module_ok S w"
  "module_ok S (w\<lparr>next_ref := n\<rparr>) = module_ok S w"
  "module_ok S (w\<lparr>g_pLua := l\<rparr>) = module_ok S w"
  by (simp_all add: ticker_live_def module_ok_def tickers_ok_def ticker_slot_ok_def parked_def
      cong: option.case_cong)

lemma module_ok_table:
  "module_ok S w \<Longrightarrow> length tbl = 127 \<Longrightarrow> module_ok S (w\<lparr>ascii_table := tbl\<rparr>)"
  by (simp add: module_ok_def tickers_ok_def ticker_slot_ok_def parked_def)

lemma module_ok_font: "module_ok S w \<Longrightarrow> length (ascii_table w) = 127"
  by (simp add: module_ok_def tickers_ok_def)

lemmas ticker_steps = get_ticker_def put_ticker_def upd_ticker_def step_ticker_def

lemma ticker_exec:
  assumes "tickers w a = Some tk"
  shows "mbind (get_ticker a) f w = f tk w"
    and "upd_ticker a g w = (Inr (), w\<lparr>tickers := (tickers w)(a \<mapsto> g tk)\<rparr>)"
    and "h tk = Inr tk' \<Longrightarrow> step_ticker a h w = (Inr (), w\<lparr>tickers := (tickers w)(a \<mapsto> tk')\<rparr>)"
  using assms by (simp_all add: ticker_steps)

lemma keeps_upd_ticker:
  assumes "\<And>tk. ticker_wf tk \<Longrightarrow> ticker_wf (f tk)" "\<And>tk. t_LedStrip (f tk) = t_LedStrip tk"
    "\<And>tk. t_Used (f tk) = t_Used tk" "\<And>tk. t_Position (f tk) = t_Position tk"
  shows "keeps (ready S a) (upd_ticker a f)"
proof (rule keepsI)
  fix w :: "'x ticker_world_scheme"
  assume r: "ready S a w"
  then obtain tk where tk: "tickers w a = Some tk" "ticker_wf tk" by (rule readyE)
  with assms replace_ready [OF r tk(1), of "f tk"]
  show "clean (fst (upd_ticker a f w)) \<and> ready S a (snd (upd_ticker a f w))"
    by (simp add: ticker_steps)
qed

lemma keeps_room: "keeps (ready S a) (room_for_letter a)"
  by (rule keepsI, erule readyE) (auto simp: room_for_letter_def get_ticker_def ready_def ticker_live_def)

lemma keeps_glyph:
  assumes "i < 127"
  shows "keeps (ready S a) (glyph i)"
  using assms by (intro keepsI) (auto simp: glyph_def ready_def module_ok_def tickers_ok_def)

lemma letter_added_fields [simp]:
  "t_LedStrip (letter_added tk m r g b) = t_LedStrip tk"
  "t_Position (letter_added tk m r g b) = t_Position tk"
  by (simp_all add: letter_added_def)

text \<open>A letter is only added after the check that there is room for it.\<close>

definition has_room :: "nat set \<Rightarrow> nat \<Rightarrow> 'x ticker_world_scheme \<Rightarrow> bool" where
  "has_room S a w \<longleftrightarrow>
     ready S a w \<and> (case tickers w a of None \<Rightarrow> False | Some tk \<Rightarrow> used tk + 4 \<le> width tk)"

lemma has_room_ready: "has_room S a w \<Longrightarrow> ready S a w"
  by (simp add: has_room_def)

lemma leads_add_letter: "leads (has_room S a) (ready S a) (step_ticker a (\<lambda>tk. add_letter tk m r g b))"
proof (rule leadsI)
  fix w :: "'x ticker_world_scheme"
  assume "has_room S a w"
  then obtain tk where tk: "tickers w a = Some tk" "ticker_wf tk" "used tk + 4 \<le> width tk"
    and r: "ready S a w"
    by (auto simp: has_room_def elim!: readyE split: option.splits)
  note l = add_letter_eq [OF tk(2,3), of m r g b]
  have "t_Used (letter_added tk m r g b) \<noteq> 0"
    using l(3) by (auto simp: used_def)
  then have "ready S a (w\<lparr>tickers := (tickers w)(a \<mapsto> letter_added tk m r g b)\<rparr>)"
    using replace_ready [OF r tk(1), of "letter_added tk m r g b"] l(2) by simp
  with tk(1) l(1) show "clean (fst (step_ticker a (\<lambda>tk. add_letter tk m r g b) w)) \<and>
      ready S a (snd (step_ticker a (\<lambda>tk. add_letter tk m r g b) w))"
    by (simp add: ticker_steps)
qed

lemma keeps_room_mbind:
  fixes f :: "unit \<Rightarrow> ('x, 'b) ticker_handler"
  assumes "\<And>x. leads (has_room S a) (ready S a) (f x)"
  shows "keeps (ready S a) (mbind (room_for_letter a) f)"
proof (rule keepsI)
  fix w :: "'x ticker_world_scheme"
  assume r: "ready S a w"
  then obtain tk where tk: "tickers w a = Some tk" "ticker_wf tk" by (rule readyE)
  show "clean (fst (mbind (room_for_letter a) f w)) \<and> ready S a (snd (mbind (room_for_letter a) f w))"
  proof (cases "used tk + 4 \<le> width tk")
    case False
    with r tk room_iff [OF tk(2)] show ?thesis by (simp add: room_for_letter_def get_ticker_def)
  next
    case True
    then have "has_room S a w" using r tk by (simp add: has_room_def)
    from leadsD [OF assms this] show ?thesis
      using tk room_iff [OF tk(2)] True by (simp add: room_for_letter_def get_ticker_def)
  qed
qed

lemma keeps_glyph_room: "i < 127 \<Longrightarrow> keeps (has_room S a) (glyph i)"
  by (intro keepsI) (auto simp: glyph_def has_room_def ready_def module_ok_def tickers_ok_def)

section \<open>The entry points\<close>

definition ticker_arg_ok :: "lua_value list \<Rightarrow> 'x ticker_world_scheme \<Rightarrow> bool" where
  "ticker_arg_ok args w \<longleftrightarrow>
     (case index2adr args 1 of
        LUserdata t a \<Rightarrow> t = ''ticker.tbl'' \<longrightarrow> ticker_live a w
      | _ \<Rightarrow> True)"

lemma with_ticker:
  assumes "module_ok S w" "ticker_arg_ok args w"
    and "\<And>a. leads (ready S a) (module_ok S) (f a)"
  shows "clean (fst (mbind (check_ticker args) f w)) \<and> module_ok S (snd (mbind (check_ticker args) f w))"
proof (cases "luaL_checkudata (index2adr args 1) ''ticker.tbl''")
  case (Inl e)
  then show ?thesis
    using assms(1)
    by (auto simp: check_ticker_def luaL_checkudata_def split: lua_value.splits if_splits)
next
  case (Inr a)
  with assms(1,2) have "ready S a w"
    by (simp add: ready_def ticker_arg_ok_def)
  with Inr leadsD [OF assms(3) this] show ?thesis
    by (simp add: check_ticker_def luaL_checkudata_def)
qed

lemma leads_keeps: "keeps (ready S a) m \<Longrightarrow> leads (ready S a) (module_ok S) m"
  by (auto simp: keeps_def leads_def ready_def)

lemma ticker_wf_plain [simp]:
  "ticker_wf (tk\<lparr>t_ScrollTimer := t\<rparr>) = ticker_wf tk"
  "ticker_wf (tk\<lparr>t_Speed := v\<rparr>) = ticker_wf tk"
  "ticker_wf (tk\<lparr>t_StripRef := sr\<rparr>) = ticker_wf tk"
  "ticker_wf (tk\<lparr>t_ScrollCallback := cb\<rparr>) = ticker_wf tk"
  by (simp_all add: ticker_wf_def cong: option.case_cong)

lemma ticker_wf_brightness: "ticker_wf tk \<Longrightarrow> unit_range br \<Longrightarrow> ticker_wf (tk\<lparr>t_Brightness := br\<rparr>)"
  by (simp add: ticker_wf_def cong: option.case_cong)

text \<open>Text whose bytes have a glyph, or a table of numbers (which are reduced).\<close>

definition text_ok :: "lua_conv \<Rightarrow> lua_value \<Rightarrow> bool" where
  "text_ok cv v \<longleftrightarrow>
     (if lua_isstring v then
        (case lua_tolstring cv v of None \<Rightarrow> False | Some s \<Rightarrow> \<forall>c \<in> set s. unat c < 127)
      else \<forall>i < lua_objlen cv v. int_ok cv (lua_rawgeti v (i + 1)))"

lemma mod_127: "unat (n mod 127 :: u32) < 127"
  by (simp add: unat_mod)

lemma keeps_add_text:
  assumes "text_ok cv v"
  shows "keeps (ready S a)
    (if lua_isstring v then
       mbind (mlift (deref (lua_tolstring cv v))) (\<lambda>str.
       mfor str (\<lambda>c.
         mbind (room_for_letter a) (\<lambda>_.
         mbind (glyph (unat c)) (\<lambda>m.
         step_ticker a (\<lambda>tk. add_letter tk m r g b)))))
     else if lua_istable v then
       mfor [0..<lua_objlen cv v] (\<lambda>i.
         mbind (room_for_letter a) (\<lambda>_.
         mbind (mlift (luaL_checkinteger cv (lua_rawgeti v (i + 1)))) (\<lambda>n.
         mbind (glyph (unat (n mod 127))) (\<lambda>m.
         step_ticker a (\<lambda>tk. add_letter tk m r g b)))))
     else mfail (LuaError ''String or table argument expected.''))"
  using assms unfolding text_ok_def int_ok_def
  by (intro keeps_if keeps_mlift_mbind keeps_mfor keeps_mfail keeps_room_mbind leads_mlift_mbind
      leads_mbind [OF keeps_glyph_room] leads_add_letter has_room_ready mod_127)
    (auto simp: deref_eq_Inr split: option.splits)


lemma ticker_add_text_ok:
  assumes "module_ok S w" "ticker_arg_ok args w" "text_ok cv (index2adr args 2)"
    "int_ok cv (index2adr args 3)" "int_ok cv (index2adr args 4)" "int_ok cv (index2adr args 5)"
  shows "clean (fst (ticker_add_text cv args w)) \<and> module_ok S (snd (ticker_add_text cv args w))"
  using assms(3-6) unfolding ticker_add_text_def Let_def int_ok_def
  by (intro with_ticker [OF assms(1,2)] leads_keeps keeps_mlift_mbind keeps_add_text)

lemma clean_letter_index:
  assumes "clean_and (\<lambda>n. unat n < 127) (letter_index cv v)"
  shows "clean (letter_index cv v)" "letter_index cv v = Inr n \<Longrightarrow> unat n < 127"
  using assms by (auto dest: clean_andD)

lemma ticker_add_letter_ok:
  assumes "module_ok S w" "ticker_arg_ok args w"
    "clean_and (\<lambda>n. unat n < 127) (letter_index cv (index2adr args 2))"
    "int_ok cv (index2adr args 3)" "int_ok cv (index2adr args 4)" "int_ok cv (index2adr args 5)"
  shows "clean (fst (ticker_add_letter cv args w)) \<and> module_ok S (snd (ticker_add_letter cv args w))"
  using assms(4-6) clean_letter_index [OF assms(3)] unfolding ticker_add_letter_def int_ok_def
  by (intro with_ticker [OF assms(1,2)] leads_keeps keeps_room_mbind leads_mlift_mbind
      leads_mbind [OF keeps_glyph_room] leads_add_letter has_room_ready)

lemma ticker_set_brightness_ok:
  assumes "module_ok S w" "ticker_arg_ok args w" "unit_range (lua_tonumber cv (index2adr args 2))"
  shows "clean (fst (ticker_set_brightness cv args w)) \<and> module_ok S (snd (ticker_set_brightness cv args w))"
  using assms(3) unfolding ticker_set_brightness_def
  by (intro with_ticker [OF assms(1,2)] leads_keeps keeps_upd_ticker) (simp_all add: ticker_wf_brightness)

lemma ticker_set_speed_ok:
  assumes "module_ok S w" "ticker_arg_ok args w" "int_ok cv (index2adr args 2)"
  shows "clean (fst (ticker_set_speed cv args w)) \<and> module_ok S (snd (ticker_set_speed cv args w))"
  using assms(3) unfolding ticker_set_speed_def int_ok_def
  by (intro with_ticker [OF assms(1,2)] leads_keeps keeps_mlift_mbind keeps_mbind keeps_upd_ticker) simp_all

lemma ticker_start_ok:
  assumes "module_ok S w" "ticker_arg_ok args w"
  shows "clean (fst (ticker_start args w)) \<and> module_ok S (snd (ticker_start args w))"
  unfolding ticker_start_def
  by (intro with_ticker [OF assms] leads_keeps keeps_upd_ticker) simp_all

lemma ticker_stop_ok:
  assumes "module_ok S w" "ticker_arg_ok args w"
  shows "clean (fst (ticker_stop args w)) \<and> module_ok S (snd (ticker_stop args w))"
  unfolding ticker_stop_def
  by (intro with_ticker [OF assms] leads_keeps keeps_upd_ticker) simp_all

text \<open>The rows of a glyph are numbers that can be shifted to their place.\<close>

definition row_ok :: "lua_conv \<Rightarrow> nat \<Rightarrow> lua_value \<Rightarrow> bool" where
  "row_ok cv i v \<longleftrightarrow>
     clean_and (\<lambda>n. 0 \<le> sint n \<and> sint n * 2 ^ (4 * i) < 2 ^ 31) (luaL_checkinteger cv v)"

definition rows_ok :: "lua_conv \<Rightarrow> lua_value \<Rightarrow> bool" where
  "rows_ok cv v \<longleftrightarrow> (\<forall>i < 6. row_ok cv i (lua_rawgeti v (i + 1)))"

lemma clean_compose_mask:
  assumes "\<forall>i \<in> set is. row_ok cv i (f i)"
  shows "clean (rfold (\<lambda>i m. rbind (luaL_checkinteger cv (f i)) (\<lambda>n.
    rbind (shift_row n (4 * i)) (\<lambda>n. Inr (m OR n)))) is s)"
  using assms
proof (induction "is" arbitrary: s)
  case (Cons i "is")
  then show ?case
    by (cases "luaL_checkinteger cv (f i)") (auto simp: clean_Inl_iff row_ok_def clean_and_def shift_row_def)
qed simp

lemma ticker_set_char_mask_ok:
  assumes "module_ok S w" "ticker_arg_ok args w"
    "clean_and (\<lambda>n. unat n < 127) (letter_index cv (index2adr args 2))" "rows_ok cv (index2adr args 3)"
  shows "clean (fst (ticker_set_char_mask cv args w)) \<and> module_ok S (snd (ticker_set_char_mask cv args w))"
proof -
  have tbl: "keeps (ready S a) (mbind (mget ascii_table) (\<lambda>tbl.
       mbind (mlift (arr_set tbl (unat index) m)) (\<lambda>tbl. mupd (\<lambda>w. w\<lparr>ascii_table := tbl\<rparr>))))"
    if "unat index < 127" for a index m
    using that
    by (intro keepsI) (auto simp: ready_def module_ok_font module_ok_table)
  show ?thesis
    using assms(4) clean_letter_index [OF assms(3)] unfolding ticker_set_char_mask_def Let_def
    by (intro with_ticker [OF assms(1,2)] leads_keeps keeps_mlift_mbind keeps_if keeps_mfail tbl
        clean_compose_mask) (simp_all add: rows_ok_def)
qed


text \<open>Clearing passes through an empty text, but ends with ten blank columns in use.\<close>

lemma ticker_clear_steps:
  assumes r: "ready S a w" and args: "index2adr args 1 = LUserdata ''ticker.tbl'' a"
  obtains w' where "ticker_clear args w = (Inr (), w')" "ready S a w'"
proof -
  obtain tk where tk: "tickers w a = Some tk" "ticker_wf tk" "live (t_LedStrip tk) w" "module_ok S w"
    using r by (rule readyE)
  let ?s = "t_LedStrip tk"
  define cleared where "cleared = tk\<lparr>t_ScrollTimer := None, t_Used := 0, t_Position := 0\<rparr>"
  define final where "final = (blanked cleared)\<lparr>t_ScrollTimer := Some (t_Speed tk)\<rparr>"
  define w2 where "w2 = w\<lparr>tickers := (tickers w)(a \<mapsto> cleared)\<rparr>"
  have wf: "ticker_wf cleared"
    using tk(2) by (simp add: cleared_def ticker_wf_def cong: option.case_cong)
  have live: "live ?s w2" and ok2: "strips_ok w2" "strip_leds s w2 = strip_leds s w" for s
    using tk(3,4) by (simp_all add: w2_def module_ok_def tickers_ok_def)
  obtain w3 where w3: "clear_at ?s 0 0 0 w2 = (Inr (), w3)" "strip_leds ?s w3 = strip_leds ?s w2"
    "strip_rest ?s w3 = strip_rest ?s w2"
    using strip.clear_all_law [OF live, of 0 0 0] by auto
  obtain w4 where w4: "update_at ?s w3 = (Inr (), w4)" "strip_leds ?s w4 = strip_leds ?s w3"
    "strip_rest ?s w4 = strip_rest ?s w3"
    using strip.push_at_law [of ?s w3] w3(2) live by auto
  have rest: "strip_leds ?s w4 = strip_leds ?s w2" "strip_rest ?s w4 = strip_rest ?s w2"
    using w3 w4 by simp_all
  note st = rest_ticker_state [OF rest(2)] strips_rest [OF ok2(1) live rest]
  have t4: "tickers w4 a = Some cleared" using st(1) by (simp add: w2_def)
  have "t_Used cleared = 0" by (simp add: cleared_def)
  from blank_start_eq(2) [OF wf this] have wff: "ticker_wf final" by (simp add: final_def)
  have sf: "t_LedStrip final = ?s" by (simp add: final_def cleared_def blanked_def)
  let ?w' = "w4\<lparr>tickers := (tickers w4)(a \<mapsto> final)\<rparr>"
  have "ticker_clear args w = (Inr (), ?w')"
  proof -
    have t2: "tickers w2 a = Some cleared" by (simp add: w2_def)
    have "ticker_clear args w =
      mbind (get_ticker a) (\<lambda>tk.
      mbind (clear_at (t_LedStrip tk) 0 0 0) (\<lambda>_.
      mbind (update_at (t_LedStrip tk)) (\<lambda>_.
      mbind (step_ticker a blank_start) (\<lambda>_.
      upd_ticker a (\<lambda>tk. tk\<lparr>t_ScrollTimer := Some (t_Speed tk)\<rparr>))))) w2"
      using args tk(1)
      by (simp add: ticker_clear_def check_ticker_def luaL_checkudata_def ticker_exec(2)
          w2_def cleared_def)
    also have "\<dots> = mbind (step_ticker a blank_start) (\<lambda>_.
      upd_ticker a (\<lambda>tk. tk\<lparr>t_ScrollTimer := Some (t_Speed tk)\<rparr>)) w4"
      using w3(1) w4(1) by (simp add: ticker_exec(1) [OF t2]) (simp add: cleared_def)
    also have "\<dots> = (Inr (), ?w')"
      using blank_start_eq(1) [OF wf]
      by (simp add: ticker_exec(3) [OF t4] ticker_exec(2) cleared_def final_def blanked_def)
    finally show ?thesis .
  qed
  moreover have "module_ok S ?w'"
  proof (rule replace_ticker [OF tk(4,1,3)])
    show "ticker_wf final \<or> t_OutputBuffer final = None \<and> t_ScrollTimer final = None"
      using wff by simp
    show "t_Used final \<noteq> 0 \<and> t_Position final = 0"
      by (simp add: final_def cleared_def blanked_def)
  qed (use st ok2(2) in \<open>simp_all add: w2_def final_def cleared_def blanked_def\<close>)
  moreover have "ticker_live a ?w'"
    using wff sf live st(8) by (simp add: ticker_live_def)
  ultimately show ?thesis using that by (simp add: ready_def)
qed


lemma ticker_clear_ok:
  assumes "module_ok S w" "ticker_arg_ok args w"
  shows "clean (fst (ticker_clear args w)) \<and> module_ok S (snd (ticker_clear args w))"
proof (cases "\<exists>a. index2adr args 1 = LUserdata ''ticker.tbl'' a")
  case True
  then obtain a where a: "index2adr args 1 = LUserdata ''ticker.tbl'' a" ..
  then have "ready S a w" using assms by (simp add: ready_def ticker_arg_ok_def)
  then obtain w' where "ticker_clear args w = (Inr (), w')" "ready S a w'"
    using a by (rule ticker_clear_steps)
  then show ?thesis by (simp add: ready_def)
next
  case False
  then show ?thesis
    using assms(1)
    by (auto simp: ticker_clear_def check_ticker_def luaL_checkudata_def split: lua_value.splits)
qed

lemma ticker_set_text_ok:
  assumes "module_ok S w" "ticker_arg_ok args w" "text_ok cv (index2adr args 2)"
    "int_ok cv (index2adr args 3)" "int_ok cv (index2adr args 4)" "int_ok cv (index2adr args 5)"
  shows "clean (fst (ticker_set_text cv args w)) \<and> module_ok S (snd (ticker_set_text cv args w))"
proof (cases "\<exists>a. index2adr args 1 = LUserdata ''ticker.tbl'' a")
  case True
  then obtain a where a: "index2adr args 1 = LUserdata ''ticker.tbl'' a" ..
  then have "ready S a w" using assms by (simp add: ready_def ticker_arg_ok_def)
  then obtain w' where w': "ticker_clear args w = (Inr (), w')" "ready S a w'"
    using a by (rule ticker_clear_steps)
  then have "ticker_arg_ok args w'" "module_ok S w'"
    using a by (simp_all add: ticker_arg_ok_def ready_def)
  with ticker_add_text_ok [OF _ _ assms(3-6)] w'(1) show ?thesis
    by (simp add: ticker_set_text_def)
next
  case False
  then show ?thesis
    using assms(1)
    by (auto simp: ticker_set_text_def ticker_clear_def check_ticker_def luaL_checkudata_def mbind_split
        split: lua_value.splits)
qed

text \<open>Destroying disarms the timer and gives up the buffer and the references.\<close>

definition retired :: "nat set \<Rightarrow> nat \<Rightarrow> 'x ticker_world_scheme \<Rightarrow> bool" where
  "retired S a w \<longleftrightarrow>
     module_ok S w \<and>
     (case tickers w a of None \<Rightarrow> False
      | Some tk \<Rightarrow> t_OutputBuffer tk = None \<and> t_ScrollTimer tk = None)"

lemma module_ok_retire:
  assumes "module_ok S w" "tickers w a = Some tk"
    and "t_OutputBuffer tk' = None" "t_ScrollTimer tk' = None"
      "t_Used tk' = t_Used tk" "t_Position tk' = t_Position tk"
  shows "retired S a (w\<lparr>tickers := (tickers w)(a \<mapsto> tk')\<rparr>)"
  using assms
  by (auto simp: retired_def module_ok_def tickers_ok_def ticker_slot_ok_def parked_def
      split: option.splits)

lemma keeps_retired_upd:
  assumes "\<And>tk. t_OutputBuffer (f tk) = t_OutputBuffer tk" "\<And>tk. t_ScrollTimer (f tk) = t_ScrollTimer tk"
    "\<And>tk. t_Used (f tk) = t_Used tk" "\<And>tk. t_Position (f tk) = t_Position tk"
  shows "keeps (retired S a) (upd_ticker a f)"
proof (rule keepsI)
  fix w :: "'x ticker_world_scheme"
  assume "retired S a w"
  then obtain tk where tk: "tickers w a = Some tk" "t_OutputBuffer tk = None" "t_ScrollTimer tk = None"
    "module_ok S w"
    by (auto simp: retired_def split: option.splits)
  with assms module_ok_retire [OF tk(4,1), of "f tk"]
  show "clean (fst (upd_ticker a f w)) \<and> retired S a (snd (upd_ticker a f w))"
    by (simp add: ticker_exec(2))
qed

lemma keeps_retired_unref: "keeps (retired S a) (ticker_unref ref)"
  by (intro keepsI) (simp add: ticker_unref_def retired_def)

lemma ticker_destroy_ok:
  assumes "module_ok S w" "ticker_arg_ok args w"
  shows "clean (fst (ticker_destroy args w)) \<and> module_ok S (snd (ticker_destroy args w))"
  unfolding ticker_destroy_def
proof (rule with_ticker [OF assms], rule leadsI, goal_cases)
  case (1 a w)
  then obtain tk where tk: "tickers w a = Some tk" "module_ok S w"
    by (rule readyE)
  define gone where "gone = tk\<lparr>t_ScrollTimer := None, t_OutputBuffer := None\<rparr>"
  have ret: "retired S a (w\<lparr>tickers := (tickers w)(a \<mapsto> gone)\<rparr>)"
    by (rule module_ok_retire [OF tk(2,1)]) (simp_all add: gone_def)
  let ?tail = "\<lambda>tk. mbind (case t_StripRef tk of None \<Rightarrow> mret ()
            | Some ref \<Rightarrow> mbind (ticker_unref ref) (\<lambda>_. upd_ticker a (\<lambda>tk. tk\<lparr>t_StripRef := None\<rparr>))) (\<lambda>_.
     case t_ScrollCallback tk of None \<Rightarrow> mret ()
     | Some ref \<Rightarrow>
         mbind (ticker_unref ref) (\<lambda>_. upd_ticker a (\<lambda>tk. tk\<lparr>t_ScrollCallback := None\<rparr>)))"
  have "keeps (retired S a) (?tail gone)"
    by (auto intro!: keeps_mbind keeps_mret keeps_retired_unref keeps_retired_upd split: option.split)
  from keepsD [OF this ret] show ?case
    using tk(1) by (simp add: ticker_exec retired_def flip: gone_def)
qed

section \<open>Creating a ticker\<close>

text \<open>Room for at least the ten blank columns and offsets below \<open>2^32\<close>.\<close>

definition length_ok :: "u32 \<Rightarrow> bool" where
  "length_ok n \<longleftrightarrow> 3 \<le> unat n \<and> 72 * unat n < 2 ^ 32"

lemma fresh_ticker_wf:
  assumes "length_ok n" "t_Length tk = n * 12" "t_Used tk = 0" "t_Position tk = 0"
    "t_Brightness tk = Fin 1 0" "t_OutputBuffer tk = Some (replicate (unat (n * 12 * 6)) 0)"
  shows "ticker_wf tk"
proof -
  have l: "unat (n * 12) = 12 * unat n"
    using assms(1) by (subst unat_mult_no_wrap) (auto simp: length_ok_def)
  then have "unat (n * 12 * 6) = 72 * unat n"
    using assms(1) by (subst unat_mult_no_wrap) (auto simp: length_ok_def)
  with l assms show ?thesis
    by (simp add: ticker_wf_def length_ok_def unit_range_def)
qed

lemma add_ticker:
  assumes "module_ok S w"
    and "ticker_wf tk \<and> live (t_LedStrip tk) w \<or> t_OutputBuffer tk = None \<and> t_ScrollTimer tk = None"
  shows "module_ok S (w\<lparr>next_addr := Suc (next_addr w), tickers := (tickers w)(next_addr w \<mapsto> tk)\<rparr>)"
proof -
  have "b \<noteq> next_addr w" if "b \<in> S" for b
    using assms(1) that
    by (fastforce simp: module_ok_def tickers_ok_def ticker_slot_ok_def parked_def split: option.splits)
  with assms show ?thesis
    by (auto simp: module_ok_def tickers_ok_def ticker_slot_ok_def strips_ok_def parked_def
        less_Suc_eq strip_leds_def)
qed

lemma keeps_ticker_ref: "keeps (ready S a) (ticker_ref v)"
  by (intro keepsI) (simp add: ticker_ref_def ready_def)

lemma optional_arg: "(if b then mlift x else mret d) = mlift (if b then x else Inr d)"
  by (simp add: fun_eq_iff)

lemma setup_args_clean:
  assumes "opt_ok cv (\<lambda>_. True) v"
  shows "clean (if lua_isnumber cv v then lua_tointeger cv v else Inr d)"
  using assms by (auto simp: opt_ok_def opt_integer_def clean_and_def split: sum.splits)

definition setup_ok :: "lua_conv \<Rightarrow> lua_value list \<Rightarrow> 'x ticker_world_scheme \<Rightarrow> bool" where
  "setup_ok cv args w \<longleftrightarrow>
     object_ok args w \<and> opt_ok cv (\<lambda>_. True) (index2adr args 2) \<and>
     (lua_isnumber cv (index2adr args 3) \<longrightarrow>
        clean_and length_ok (lua_tointeger cv (index2adr args 3)))"

lemma keeps_setup_tail:
  "keeps (ready S a)
    (mbind (ticker_ref v1) (\<lambda>ref.
     mbind (upd_ticker a (\<lambda>tk. tk\<lparr>t_StripRef := Some ref\<rparr>)) (\<lambda>_.
     mbind (case v4 of
              LFunction f \<Rightarrow>
                mbind (ticker_ref (LFunction f)) (\<lambda>ref.
                upd_ticker a (\<lambda>tk. tk\<lparr>t_ScrollCallback := Some ref\<rparr>))
            | _ \<Rightarrow> mret ()) (\<lambda>_.
     mbind (mupd (\<lambda>w. w\<lparr>g_pLua := True\<rparr>)) (\<lambda>_.
     mbind (upd_ticker a (\<lambda>tk. tk\<lparr>t_ScrollTimer := Some (t_Speed tk)\<rparr>)) (\<lambda>_.
     mret a))))))"
  by (auto intro!: keeps_mbind keeps_ticker_ref keeps_upd_ticker keeps_mret keeps_mupd
      split: lua_value.split simp: ready_def)

lemma leads_setup_body:
  assumes "length_ok n"
  shows "leads (\<lambda>w. module_ok S w \<and> live s w) (module_ok S)
    (mbind (mget next_addr) (\<lambda>a.
     mbind (mupd (\<lambda>w. w\<lparr>next_addr := Suc (next_addr w)\<rparr>)) (\<lambda>_.
     mbind (put_ticker a
       \<lparr>t_LedStrip = s, t_StripRef = None, t_Speed = speed, t_Length = n * 12,
        t_Used = 0, t_ScrollTimer = None, t_OutputBuffer = None, t_Position = 0,
        t_Brightness = Fin 1 0, t_ScrollCallback = None\<rparr>) (\<lambda>_.
     if \<not> zalloc_ok (n * 12 * 6) then mfail (LuaError ''Out of memory (data).'')
     else
     mbind (upd_ticker a (\<lambda>tk. tk\<lparr>t_OutputBuffer := Some (replicate (unat (n * 12 * 6)) 0)\<rparr>)) (\<lambda>_.
     mbind (ticker_ref v1) (\<lambda>ref.
     mbind (upd_ticker a (\<lambda>tk. tk\<lparr>t_StripRef := Some ref\<rparr>)) (\<lambda>_.
     mbind (case v4 of
              LFunction f \<Rightarrow>
                mbind (ticker_ref (LFunction f)) (\<lambda>ref.
                upd_ticker a (\<lambda>tk. tk\<lparr>t_ScrollCallback := Some ref\<rparr>))
            | _ \<Rightarrow> mret ()) (\<lambda>_.
     mbind (mupd (\<lambda>w. w\<lparr>g_pLua := True\<rparr>)) (\<lambda>_.
     mbind (upd_ticker a (\<lambda>tk. tk\<lparr>t_ScrollTimer := Some (t_Speed tk)\<rparr>)) (\<lambda>_.
     mret a))))))))))"
proof (rule leadsI, goal_cases)
  case (1 w)
  let ?bare = "\<lparr>t_LedStrip = s, t_StripRef = None, t_Speed = speed, t_Length = n * 12,
        t_Used = 0, t_ScrollTimer = None, t_OutputBuffer = None, t_Position = 0,
        t_Brightness = Fin 1 0, t_ScrollCallback = None\<rparr>"
  define full where "full = ?bare\<lparr>t_OutputBuffer := Some (replicate (unat (n * 12 * 6)) 0)\<rparr>"
  define w1 where "w1 = w\<lparr>next_addr := Suc (next_addr w), tickers := (tickers w)(next_addr w \<mapsto> full)\<rparr>"
  have wf: "ticker_wf full" "t_LedStrip full = s"
    using fresh_ticker_wf [OF assms, of full] by (simp_all add: full_def)
  have bare: "module_ok S (w\<lparr>next_addr := Suc (next_addr w), tickers := (tickers w)(next_addr w \<mapsto> ?bare)\<rparr>)"
    using 1 by (intro add_ticker) simp_all
  have "ready S (next_addr w) w1"
    using 1 wf add_ticker [of S w full] by (simp add: ready_def ticker_live_def w1_def)
  from keepsD [OF keeps_setup_tail this] have tail: "clean (fst (mbind (ticker_ref v1) f w1)) \<and>
    module_ok S (snd (mbind (ticker_ref v1) f w1))"
    if "f = (\<lambda>ref.
     mbind (upd_ticker (next_addr w) (\<lambda>tk. tk\<lparr>t_StripRef := Some ref\<rparr>)) (\<lambda>_.
     mbind (case v4 of
              LFunction f \<Rightarrow>
                mbind (ticker_ref (LFunction f)) (\<lambda>ref.
                upd_ticker (next_addr w) (\<lambda>tk. tk\<lparr>t_ScrollCallback := Some ref\<rparr>))
            | _ \<Rightarrow> mret ()) (\<lambda>_.
     mbind (mupd (\<lambda>w. w\<lparr>g_pLua := True\<rparr>)) (\<lambda>_.
     mbind (upd_ticker (next_addr w) (\<lambda>tk. tk\<lparr>t_ScrollTimer := Some (t_Speed tk)\<rparr>)) (\<lambda>_.
     mret (next_addr w))))))" for f
    using that by (simp add: ready_def)
  show ?case
    using bare tail [OF refl]
    by (simp add: put_ticker_def ticker_exec(2) w1_def full_def)
qed


lemma ticker_setup_ok:
  fixes w :: "'x ticker_world_scheme"
  assumes "module_ok S w" "setup_ok cv args w"
  shows "clean (fst (ticker_setup zalloc_ok cv args w)) \<and>
    module_ok S (snd (ticker_setup zalloc_ok cv args w))"
proof (cases "luaL_checkudata (index2adr args 1) ''lpd8806.lpd''")
  case (Inl e)
  then show ?thesis
    using assms(1)
    by (auto simp: ticker_setup_def luaL_checkudata_def split: lua_value.splits if_splits)
next
  case (Inr s)
  then have live: "live s w" using assms(2) by (simp add: setup_ok_def object_ok_def)
  have speed: "clean (if lua_isnumber cv (index2adr args 2)
      then lua_tointeger cv (index2adr args 2) else Inr 100)"
    using assms(2) by (intro setup_args_clean) (simp add: setup_ok_def)
  have len: "clean (if lua_isnumber cv (index2adr args 3)
        then lua_tointeger cv (index2adr args 3) else Inr 60)"
    "(if lua_isnumber cv (index2adr args 3)
        then lua_tointeger cv (index2adr args 3) else Inr 60) = Inr n \<Longrightarrow> length_ok n" for n
    using assms(2)
    by (auto simp: setup_ok_def length_ok_def [of 60] dest: clean_andD split: if_splits)
  have "leads (\<lambda>w :: 'x ticker_world_scheme. module_ok S w \<and> live s w) (module_ok S) (ticker_setup zalloc_ok cv args)"
    unfolding ticker_setup_def Let_def optional_arg Inr
  proof (rule leads_mlift_mbind, goal_cases)
    case (3 x)
    then have x: "x = s" by simp
    show ?case unfolding x
      by (intro leads_mlift_mbind speed len(1) leads_setup_body) (auto dest: len(2))
  qed simp_all
  from leadsD [OF this] assms(1) live show ?thesis by simp
qed

section \<open>A timer tick\<close>

lemma scroll_cells_keep:
  fixes w :: "'x ticker_world_scheme"
  assumes tk: "tickers w a = Some tk" "ticker_wf tk" "used tk \<noteq> 0" "live (t_LedStrip tk) w"
    and xs: "set xs \<subseteq> set matrix_cells"
  shows "\<exists>w'. mfor xs (scroll_cell a) w = (Inr (), w') \<and>
    strip_leds (t_LedStrip tk) w' = strip_leds (t_LedStrip tk) w \<and>
    strip_rest (t_LedStrip tk) w' = strip_rest (t_LedStrip tk) w"
  using tk(1,4) xs
proof (induction xs arbitrary: w)
  case (Cons x xs)
  let ?s = "t_LedStrip tk" and ?c = "\<lambda>k. scaled (t_Brightness tk) k"
  obtain row column where x: "x = (row, column)" "row < 6" "column < 10"
    using Cons.prems(3) by (cases x) auto
  have br: "unit_range (t_Brightness tk)" using tk(2) by (rule ticker_wfE)
  obtain w1 where w1: "scroll_cell a x w = (Inr (), w1)" "strip_leds ?s w1 = strip_leds ?s w"
    "strip_rest ?s w1 = strip_rest ?s w"
    using strip.set_at_law [OF Cons.prems(2) scaled_byte [OF br] scaled_byte [OF br] scaled_byte [OF br]]
      scroll_cell_eq [OF Cons.prems(1) tk(2,3) x(2,3)] x(1) by metis
  have "tickers w1 a = Some tk" "live ?s w1"
    using Cons.prems(1,2) w1 rest_ticker_state(1) [OF w1(3)] by simp_all
  from Cons.IH [OF this] Cons.prems(3) w1 show ?case by auto
qed simp

lemma parked_advance:
  assumes "module_ok {a} w"
  shows "clean (fst (upd_ticker a (\<lambda>tk. tk\<lparr>t_Position := t_Position tk + 1\<rparr>) w)) \<and>
    module_ok {} (snd (upd_ticker a (\<lambda>tk. tk\<lparr>t_Position := t_Position tk + 1\<rparr>) w))"
proof -
  obtain tk where tk: "tickers w a = Some tk" "t_Used tk \<noteq> 0" "t_Position tk = 0"
    using assms by (auto simp: module_ok_def parked_def split: option.splits)
  have "ticker_wf (tk\<lparr>t_Position := t_Position tk + 1\<rparr>)" if "ticker_wf tk"
  proof -
    have "unat (t_Used tk) = 3 * used tk" using that by (rule ticker_wfE)
    then have "pos tk + 1 \<le> used tk"
      using tk(2,3) by (cases "used tk") (auto simp: pos_def unat_eq_0)
    from advance_wf(1) [OF that this] show ?thesis by simp
  qed
  moreover have "ticker_slot_ok w a tk"
    using assms tk(1) by (simp add: module_ok_def tickers_ok_def)
  ultimately have "ticker_slot_ok w a (tk\<lparr>t_Position := t_Position tk + 1\<rparr>)"
    by (auto simp: ticker_slot_ok_def)
  with assms tk(1) show ?thesis
    by (auto simp: ticker_exec(2) module_ok_def tickers_ok_def ticker_slot_ok_def)
qed

text \<open>
  The function that a tick of ticker \<open>a\<close> calls at the end of the text, and the states in which it may be called: the
  window is on the strip, the ticker stands at its start, nothing else has changed.
\<close>

definition finish_call :: "nat \<Rightarrow> 'x ticker_world_scheme \<Rightarrow> lua_value option" where
  "finish_call a w =
     (case tickers w a of
        None \<Rightarrow> None
      | Some tk \<Rightarrow>
          (case t_ScrollCallback tk of
             None \<Rightarrow> None
           | Some ref \<Rightarrow> if g_pLua w then Some (case registry w ref of None \<Rightarrow> LNil | Some v \<Rightarrow> v) else None))"

definition at_finish :: "nat \<Rightarrow> 'x ticker_world_scheme \<Rightarrow> 'x ticker_world_scheme \<Rightarrow> bool" where
  "at_finish a w w' \<longleftrightarrow>
     module_ok {a} w' \<and>
     tickers w' = (tickers w)(a := map_option (\<lambda>tk. tk\<lparr>t_Position := 0\<rparr>) (tickers w a)) \<and>
     (\<forall>s. strip_leds s w' = strip_leds s w) \<and>
     ascii_table w' = ascii_table w \<and> registry w' = registry w \<and> next_ref w' = next_ref w"

text \<open>A tick keeps the invariant, if the callback keeps it when it is called.\<close>

lemma scroll_tick_ok:
  fixes lua_call :: "lua_value \<Rightarrow> ('x, unit) ticker_handler"
  assumes w: "module_ok {} w" "ticker_live a w"
    and lua: "\<And>v w'. finish_call a w = Some v \<Longrightarrow> at_finish a w w' \<Longrightarrow>
      clean (fst (lua_call v w')) \<and> module_ok {a} (snd (lua_call v w'))"
  shows "clean (fst (ticker_scroll_cb lua_call a w)) \<and> module_ok {} (snd (ticker_scroll_cb lua_call a w))"
proof -
  obtain tk where tk: "tickers w a = Some tk" "ticker_wf tk" "live (t_LedStrip tk) w"
    using w by (auto simp: ticker_live_def split: option.splits)
  have u: "unat (t_Used tk) = 3 * used tk" using tk(2) by (rule ticker_wfE)
  show ?thesis
  proof (cases "used tk = 0")
    case True
    then have "t_Used tk = 0" using u by (simp add: unat_eq_0)
    with tk w show ?thesis by (simp add: ticker_scroll_cb_def ticker_exec(1))
  next
    case False
    obtain w1 where w1: "mfor matrix_cells (scroll_cell a) w = (Inr (), w1)"
      "strip_leds (t_LedStrip tk) w1 = strip_leds (t_LedStrip tk) w"
      "strip_rest (t_LedStrip tk) w1 = strip_rest (t_LedStrip tk) w"
      using scroll_cells_keep [OF tk(1,2) False tk(3), of matrix_cells] by auto
    obtain w2 where rest: "strip_leds (t_LedStrip tk) w2 = strip_leds (t_LedStrip tk) w"
      "strip_rest (t_LedStrip tk) w2 = strip_rest (t_LedStrip tk) w"
      and run: "\<And>lua_call. ticker_scroll_cb lua_call a w =
        (if pos tk = used tk
         then mbind (scroll_finish lua_call tk)
                (\<lambda>_. upd_ticker a (\<lambda>tk. tk\<lparr>t_Position := t_Position tk + 1\<rparr>))
                (w2\<lparr>tickers := (tickers w2)(a \<mapsto> tk\<lparr>t_Position := 0\<rparr>)\<rparr>)
         else (Inr (), w2\<lparr>tickers := (tickers w2)(a \<mapsto> tk\<lparr>t_Position := t_Position tk + 1\<rparr>)\<rparr>))"
      using tick_after_paint [OF tk(1,2) False tk(3) w1] by blast
    have ok: "strips_ok w" using w(1) by (simp add: module_ok_def tickers_ok_def)
    note st = rest_ticker_state [OF rest(2)] strips_rest [OF ok tk(3) rest]
    have put: "module_ok {} (w2\<lparr>tickers := (tickers w2)(a \<mapsto> tk')\<rparr>)"
      if "ticker_wf tk'" "t_LedStrip tk' = t_LedStrip tk" for tk'
      by (rule replace_ticker [OF w(1) tk(1,3), where tk' = tk'])
        (use st that in simp_all)
    show ?thesis
    proof (cases "pos tk = used tk")
      case at_end: False
      have "pos tk \<le> used tk" using tk(2) by (rule ticker_wfE)
      with at_end have "ticker_wf (tk\<lparr>t_Position := t_Position tk + 1\<rparr>)"
        using advance_wf(1) [OF tk(2), of 1] by simp
      with at_end run put show ?thesis by simp
    next
      case True
      let ?w = "w2\<lparr>tickers := (tickers w2)(a \<mapsto> tk\<lparr>t_Position := 0\<rparr>)\<rparr>"
      have "ticker_wf (tk\<lparr>t_Position := 0\<rparr>)"
        using tk(2) by (simp add: ticker_wf_def cong: option.case_cong)
      with put [of "tk\<lparr>t_Position := 0\<rparr>"] False have "module_ok {a} ?w"
        by (auto simp: module_ok_def parked_def used_def)
      moreover from this have "at_finish a w ?w"
        using tk(1) st by (simp add: at_finish_def)
      ultimately have fin: "clean (fst (scroll_finish lua_call tk ?w)) \<and> module_ok {a} (snd (scroll_finish lua_call tk ?w))"
        using lua [of _ ?w] tk(1) st
        by (simp add: scroll_finish_def finish_call_def split: option.splits)
      obtain r w3 where r: "scroll_finish lua_call tk ?w = (r, w3)" by fastforce
      with fin have "module_ok {} w3" by (simp add: module_ok_def)
      with True run r fin parked_advance [of a w3] show ?thesis
        by (cases r) (simp_all add: clean_Inl_iff)
    qed
  qed
qed


section \<open>The module as an instance of the handler interface\<close>

datatype ticker_call =
    TickerSetup "lua_value list"
  | TickerClear "lua_value list"
  | TickerSetBrightness "lua_value list"
  | TickerAddText "lua_value list"
  | TickerSetCharMask "lua_value list"
  | TickerSetText "lua_value list"
  | TickerAddLetter "lua_value list"
  | TickerSetSpeed "lua_value list"
  | TickerStart "lua_value list"
  | TickerStop "lua_value list"
  | TickerDestroy "lua_value list"

datatype ticker_event = Call ticker_call | ScrollTimer nat

definition ticker_call_handle ::
  "(u32 \<Rightarrow> bool) \<Rightarrow> lua_conv \<Rightarrow> ticker_call \<Rightarrow> ('x, unit) ticker_handler" where
  "ticker_call_handle zalloc_ok cv c =
     (case c of
        TickerSetup args \<Rightarrow> ignore (ticker_setup zalloc_ok cv args)
      | TickerClear args \<Rightarrow> ticker_clear args
      | TickerSetBrightness args \<Rightarrow> ticker_set_brightness cv args
      | TickerAddText args \<Rightarrow> ticker_add_text cv args
      | TickerSetCharMask args \<Rightarrow> ticker_set_char_mask cv args
      | TickerSetText args \<Rightarrow> ticker_set_text cv args
      | TickerAddLetter args \<Rightarrow> ticker_add_letter cv args
      | TickerSetSpeed args \<Rightarrow> ticker_set_speed cv args
      | TickerStart args \<Rightarrow> ticker_start args
      | TickerStop args \<Rightarrow> ticker_stop args
      | TickerDestroy args \<Rightarrow> ticker_destroy args)"

definition text_args_ok :: "lua_conv \<Rightarrow> lua_value list \<Rightarrow> bool" where
  "text_args_ok cv args \<longleftrightarrow>
     text_ok cv (index2adr args 2) \<and> int_ok cv (index2adr args 3) \<and>
     int_ok cv (index2adr args 4) \<and> int_ok cv (index2adr args 5)"

definition letter_args_ok :: "lua_conv \<Rightarrow> lua_value list \<Rightarrow> bool" where
  "letter_args_ok cv args \<longleftrightarrow> clean_and (\<lambda>n. unat n < 127) (letter_index cv (index2adr args 2))"

definition ticker_call_ok :: "lua_conv \<Rightarrow> 'x ticker_world_scheme \<Rightarrow> ticker_call \<Rightarrow> bool" where
  "ticker_call_ok cv w c \<longleftrightarrow>
     (case c of
        TickerSetup args \<Rightarrow> setup_ok cv args w
      | TickerClear args \<Rightarrow> ticker_arg_ok args w
      | TickerSetBrightness args \<Rightarrow>
          ticker_arg_ok args w \<and> unit_range (lua_tonumber cv (index2adr args 2))
      | TickerAddText args \<Rightarrow> ticker_arg_ok args w \<and> text_args_ok cv args
      | TickerSetCharMask args \<Rightarrow>
          ticker_arg_ok args w \<and> letter_args_ok cv args \<and> rows_ok cv (index2adr args 3)
      | TickerSetText args \<Rightarrow> ticker_arg_ok args w \<and> text_args_ok cv args
      | TickerAddLetter args \<Rightarrow>
          ticker_arg_ok args w \<and> letter_args_ok cv args \<and> int_ok cv (index2adr args 3) \<and>
          int_ok cv (index2adr args 4) \<and> int_ok cv (index2adr args 5)
      | TickerSetSpeed args \<Rightarrow> ticker_arg_ok args w \<and> int_ok cv (index2adr args 2)
      | TickerStart args \<Rightarrow> ticker_arg_ok args w
      | TickerStop args \<Rightarrow> ticker_arg_ok args w
      | TickerDestroy args \<Rightarrow> ticker_arg_ok args w)"

lemma ignore_ok:
  "clean (fst (m w)) \<and> P (snd (m w)) \<Longrightarrow> clean (fst (ignore m w)) \<and> P (snd (ignore m w))"
  by (auto simp: ignore_def mbind_split clean_Inl_iff split: prod.splits sum.splits)

lemma ticker_call_handle_ok:
  assumes "module_ok S w" "ticker_call_ok cv w c"
  shows "clean (fst (ticker_call_handle zalloc_ok cv c w)) \<and>
    module_ok S (snd (ticker_call_handle zalloc_ok cv c w))"
proof (cases c)
  case (TickerSetup args)
  with assms have "clean (fst (ticker_setup zalloc_ok cv args w)) \<and>
      module_ok S (snd (ticker_setup zalloc_ok cv args w))"
    by (intro ticker_setup_ok) (simp_all add: ticker_call_ok_def)
  from ignore_ok [of "ticker_setup zalloc_ok cv args" w "module_ok S", OF this] TickerSetup show ?thesis by (simp add: ticker_call_handle_def)
qed (use assms in \<open>simp_all add: ticker_call_handle_def ticker_call_ok_def text_args_ok_def letter_args_ok_def
    ticker_clear_ok ticker_set_brightness_ok ticker_add_text_ok ticker_set_char_mask_ok ticker_set_text_ok
    ticker_add_letter_ok ticker_set_speed_ok ticker_start_ok ticker_stop_ok ticker_destroy_ok\<close>)

interpretation calls: handled "ticker_call_handle zalloc_ok cv" "module_ok S" "ticker_call_ok cv"
  for zalloc_ok cv S
  by unfold_locales (rule ticker_call_handle_ok)

text \<open>
  A scroll-finish callback is a Lua function: it returns, raises an error, or calls a function of this module and goes on
  as the outcome of the call (which it may catch) and the state tell it. What is undefined in C ends the run.
\<close>

datatype 'w lua_code =
    Return
  | Raise string
  | Invoke ticker_call "unit result \<Rightarrow> 'w \<Rightarrow> 'w lua_code"

primrec lua_run ::
  "(u32 \<Rightarrow> bool) \<Rightarrow> lua_conv \<Rightarrow> 'x ticker_world_scheme lua_code \<Rightarrow> ('x, unit) ticker_handler" where
  "lua_run zalloc_ok cv Return w = (Inr (), w)"
| "lua_run zalloc_ok cv (Raise msg) w = (Inl (LuaError msg), w)"
| "lua_run zalloc_ok cv (Invoke c k) w =
     (case ticker_call_handle zalloc_ok cv c w of
        (r, w') \<Rightarrow> if clean r then lua_run zalloc_ok cv (k r w') w' else (r, w'))"

text \<open>Every call the code comes to make is admissible in the state in which it is made.\<close>

primrec code_ok :: "(u32 \<Rightarrow> bool) \<Rightarrow> lua_conv \<Rightarrow> 'x ticker_world_scheme lua_code \<Rightarrow> 'x ticker_world_scheme \<Rightarrow> bool" where
  "code_ok zalloc_ok cv Return w = True"
| "code_ok zalloc_ok cv (Raise msg) w = True"
| "code_ok zalloc_ok cv (Invoke c k) w =
     (ticker_call_ok cv w c \<and>
      (case ticker_call_handle zalloc_ok cv c w of (r, w') \<Rightarrow> code_ok zalloc_ok cv (k r w') w'))"

lemma lua_run_ok:
  "module_ok S w \<Longrightarrow> code_ok zalloc_ok cv code w \<Longrightarrow>
   clean (fst (lua_run zalloc_ok cv code w)) \<and> module_ok S (snd (lua_run zalloc_ok cv code w))"
proof (induction code arbitrary: w)
  case (Invoke c k)
  obtain r w' where call: "ticker_call_handle zalloc_ok cv c w = (r, w')" by fastforce
  with Invoke.prems ticker_call_handle_ok [of S w cv c zalloc_ok] have "clean r" "module_ok S w'" by simp_all
  with Invoke.IH [of "k r" "k r w'"] Invoke.prems(2) call show ?case by simp
qed simp_all

definition ticker_handle ::
  "(u32 \<Rightarrow> bool) \<Rightarrow> lua_conv \<Rightarrow> (lua_value \<Rightarrow> 'x ticker_world_scheme lua_code) \<Rightarrow> ticker_event \<Rightarrow>
   ('x, unit) ticker_handler" where
  "ticker_handle zalloc_ok cv script e =
     (case e of
        Call c \<Rightarrow> ticker_call_handle zalloc_ok cv c
      | ScrollTimer a \<Rightarrow> ticker_scroll_cb (\<lambda>v. lua_run zalloc_ok cv (script v)) a)"

definition timer_armed :: "nat \<Rightarrow> 'x ticker_world_scheme \<Rightarrow> bool" where
  "timer_armed a w \<longleftrightarrow>
     (case tickers w a of None \<Rightarrow> False | Some tk \<Rightarrow> t_ScrollTimer tk \<noteq> None)"

text \<open>
  A timer tick happens to an armed timer; if the ticker has a callback, the code of the callback is admissible in every
  state in which it may be called. The model runs the code as it is: nothing checks this at run time.
\<close>

definition ticker_event_ok ::
  "(u32 \<Rightarrow> bool) \<Rightarrow> lua_conv \<Rightarrow> (lua_value \<Rightarrow> 'x ticker_world_scheme lua_code) \<Rightarrow> 'x ticker_world_scheme \<Rightarrow>
   ticker_event \<Rightarrow> bool" where
  "ticker_event_ok zalloc_ok cv script w e \<longleftrightarrow>
     (case e of
        Call c \<Rightarrow> ticker_call_ok cv w c
      | ScrollTimer a \<Rightarrow>
          timer_armed a w \<and>
          (\<forall>v w'. finish_call a w = Some v \<and> at_finish a w w' \<longrightarrow> code_ok zalloc_ok cv (script v) w'))"

lemma armed_live: "module_ok S w \<Longrightarrow> timer_armed a w \<Longrightarrow> ticker_live a w"
  by (fastforce simp: module_ok_def tickers_ok_def ticker_slot_ok_def timer_armed_def ticker_live_def
      split: option.splits)

interpretation ticker_events: handled "ticker_handle zalloc_ok cv script" "module_ok {}" "ticker_event_ok zalloc_ok cv script"
  for zalloc_ok cv script
proof (unfold_locales, goal_cases)
  case (1 w e)
  show ?case
  proof (cases e)
    case (Call c)
    with 1 show ?thesis by (simp add: ticker_handle_def ticker_event_ok_def ticker_call_handle_ok)
  next
    case (ScrollTimer a)
    with 1 have t: "timer_armed a w"
      and code: "\<And>v w'. finish_call a w = Some v \<Longrightarrow> at_finish a w w' \<Longrightarrow> code_ok zalloc_ok cv (script v) w'"
      by (simp_all add: ticker_event_ok_def)
    have "clean (fst (lua_run zalloc_ok cv (script v) w')) \<and> module_ok {a} (snd (lua_run zalloc_ok cv (script v) w'))"
      if "finish_call a w = Some v" "at_finish a w w'" for v w'
      using that code [OF that] by (intro lua_run_ok) (simp_all add: at_finish_def)
    with scroll_tick_ok [OF 1(1) armed_live [OF 1(1) t]] ScrollTimer show ?thesis
      by (simp add: ticker_handle_def)
  qed
qed


section \<open>Properties\<close>

text \<open>C1: in any sequence of ticker calls and timer ticks, with errors in between, in which every call respects the ranges
  the code leaves to the script (userdata of live objects, bytes below 127, a brightness in [0, 1], numbers that
  convert and fit), no step does anything undefined. Scroll-finish callbacks are arbitrary code that reacts to the state
  and to the outcome of its calls back into the module; the calls they make are held to the same ranges, as a hypothesis on
  the script.\<close>

theorem ticker_module_safe:
  assumes "module_ok {} w"
    and "admissible (ticker_handle zalloc_ok cv script) (ticker_event_ok zalloc_ok cv script) w (es @ e # fs)"
  shows "clean (fst (ticker_handle zalloc_ok cv script e (after (ticker_handle zalloc_ok cv script) es w)))"
  using assms by (rule ticker_events.runs_clean)

definition sample_display :: lpd_userdata where
  "sample_display = \<lparr>s_OutputBuffer = Some (replicate 180 0x80), s_Mosi = 7, s_Clk = 5, s_Length = 60,
     s_Type = 0, s_Delay = 2\<rparr>"

definition sample_world :: ticker_world where
  "sample_world = \<lparr>strips = [0 \<mapsto> sample_display], wire = [], next_addr = 1, tickers = (\<lambda>_. None),
     ascii_table = initial_ascii_table, g_pLua = False, registry = (\<lambda>_. None), next_ref = 0\<rparr>"

lemma sample_world_ok: "module_ok {} sample_world"
  by (auto simp: sample_world_def sample_display_def module_ok_def tickers_ok_def strips_ok_def wf_strip_def
      initial_ascii_table_def)

text \<open>C2: a timer tick before the end of the text puts on the 6x10 matrix exactly the window of ten
  columns that starts at the scroll position and goes around the text, every component scaled by the
  brightness and gamma corrected, through the snake mapping of the LEDs, and moves on by one column.\<close>

theorem tick_shows_window:
  assumes "tickers w a = Some tk" "ticker_wf tk" "used tk \<noteq> 0" "pos tk \<noteq> used tk"
    and "60 \<le> strip_leds (t_LedStrip tk) w"
  shows "\<exists>w'. ticker_scroll_cb lua_call a w = (Inr (), w') \<and>
    tickers w' a = Some (tk\<lparr>t_Position := t_Position tk + 1\<rparr>) \<and>
    (\<forall>row < 6. \<forall>column < 10.
       strip_led (t_LedStrip tk) w' (led_at row column) =
         (case cell tk row ((pos tk + column) mod used tk) of (r, g, b) \<Rightarrow>
            (shown (scaled (t_Brightness tk) g), shown (scaled (t_Brightness tk) r),
             shown (scaled (t_Brightness tk) b))))"
proof -
  obtain w2 where w2: "shows_window tk (t_LedStrip tk) w2"
    "ticker_scroll_cb lua_call a w =
      (Inr (), w2\<lparr>tickers := (tickers w2)(a \<mapsto> tk\<lparr>t_Position := t_Position tk + 1\<rparr>)\<rparr>)"
    using tick_step [OF assms(1-3,5)] assms(4) by auto
  have "strip_led s (w2\<lparr>tickers := t\<rparr>) = strip_led s w2" for s t
    by (simp add: strip_led_def fun_eq_iff)
  with w2 show ?thesis
    by (simp add: shows_window_def lit_def window_cell_def)
qed

definition sample_ticker :: ticker where
  "sample_ticker = \<lparr>t_LedStrip = 0, t_StripRef = None, t_Speed = 100, t_Length = 36, t_Used = 30,
     t_ScrollTimer = Some 100, t_OutputBuffer = Some (replicate 216 7), t_Position = 4,
     t_Brightness = Fin 1 (- 1), t_ScrollCallback = Some 0\<rparr>"

definition ticking_world :: ticker_world where
  "ticking_world = sample_world\<lparr>tickers := [1 \<mapsto> sample_ticker], next_addr := 2, g_pLua := True,
     registry := [0 \<mapsto> LFunction 5], next_ref := 1\<rparr>"

lemma sample_ticker_wf: "ticker_wf sample_ticker" "used sample_ticker = 10" "pos sample_ticker = 4"
  by (simp_all add: sample_ticker_def ticker_wf_def unit_range_def used_def pos_def)

lemma ticking_world_facts:
  "tickers ticking_world 1 = Some sample_ticker" "strip_leds (t_LedStrip sample_ticker) ticking_world = 60"
  "module_ok {} ticking_world" "ticker_live 1 ticking_world"
  using sample_ticker_wf(1)
  by (auto simp: ticking_world_def sample_world_def sample_display_def sample_ticker_def strip_leds_def
      wf_strip_def module_ok_def tickers_ok_def strips_ok_def initial_ascii_table_def ticker_slot_ok_def
      ticker_live_def)

text \<open>A ticker that stands at the end of its text, and a callback that clears it and passes an error on.\<close>

definition ended_ticker :: ticker where
  "ended_ticker = sample_ticker\<lparr>t_Position := 10\<rparr>"

definition ended_world :: ticker_world where
  "ended_world = ticking_world\<lparr>tickers := [1 \<mapsto> ended_ticker]\<rparr>"

definition clearing_script :: "lua_value \<Rightarrow> ticker_world lua_code" where
  "clearing_script v = Invoke (TickerClear [LUserdata ''ticker.tbl'' 1])
     (\<lambda>r w. case r of Inl _ \<Rightarrow> Raise ''clear'' | Inr _ \<Rightarrow> Return)"

lemma ended_world_ok: "module_ok {} ended_world" "ticker_live 1 ended_world" "timer_armed 1 ended_world"
  "finish_call 1 ended_world = Some (LFunction 5)"
  by (auto simp: ended_world_def ended_ticker_def ticking_world_def sample_world_def sample_display_def sample_ticker_def
      strip_leds_def wf_strip_def module_ok_def tickers_ok_def strips_ok_def initial_ascii_table_def ticker_slot_ok_def
      ticker_live_def ticker_wf_def unit_range_def timer_armed_def finish_call_def)

lemma clearing_ok: "at_finish 1 ended_world w \<Longrightarrow> code_ok zalloc_ok cv (clearing_script v) w"
  using sample_ticker_wf(1)
  by (auto simp: clearing_script_def ticker_call_ok_def ticker_arg_ok_def index2adr_def ticker_live_def at_finish_def
      ended_world_def ended_ticker_def ticking_world_def sample_world_def sample_display_def sample_ticker_def strip_leds_def
      wf_strip_def ticker_wf_def split: sum.split)

theorem ticker_module_safe_witness:
  "clean (fst (ticker_handle (\<lambda>_. True) sample_conv clearing_script (ScrollTimer 1)
     (after (ticker_handle (\<lambda>_. True) sample_conv clearing_script) [] ended_world)))"
proof (rule ticker_module_safe [where fs = "[Call (TickerStop [LNil])]", OF ended_world_ok(1)],
    unfold append.simps admissible.simps, intro conjI)
  show "ticker_event_ok (\<lambda>_. True) sample_conv clearing_script ended_world (ScrollTimer 1)"
    using ended_world_ok(3) clearing_ok by (simp add: ticker_event_ok_def)
qed (simp_all add: ticker_event_ok_def ticker_call_ok_def ticker_arg_ok_def index2adr_def)

theorem tick_shows_window_witness:
  "\<exists>w'. ticker_scroll_cb (\<lambda>_. mret ()) 1 ticking_world = (Inr (), w') \<and>
    strip_led 0 w' (led_at 2 3) =
      (case cell sample_ticker 2 7 of (r, g, b) \<Rightarrow>
         (shown (scaled (Fin 1 (- 1)) g), shown (scaled (Fin 1 (- 1)) r), shown (scaled (Fin 1 (- 1)) b)))"
proof -
  have s: "t_LedStrip sample_ticker = 0" "t_Brightness sample_ticker = Fin 1 (- 1)"
    by (simp_all add: sample_ticker_def)
  obtain w' where w': "ticker_scroll_cb (\<lambda>_. mret ()) 1 ticking_world = (Inr (), w')"
    "\<forall>row < 6. \<forall>column < 10. strip_led 0 w' (led_at row column) =
       (case cell sample_ticker row ((4 + column) mod 10) of (r, g, b) \<Rightarrow>
         (shown (scaled (Fin 1 (- 1)) g), shown (scaled (Fin 1 (- 1)) r), shown (scaled (Fin 1 (- 1)) b)))"
    using tick_shows_window [OF ticking_world_facts(1) sample_ticker_wf(1), of "\<lambda>_. mret ()"]
      ticking_world_facts(2) by (auto simp: sample_ticker_wf s)
  then show ?thesis
    using w'(2) [rule_format, of 2 3] by simp
qed

text \<open>C17: from any scroll position, the end of the text is reached after exactly one tick per remaining
  column; up to there the callback plays no role, and the tick after it puts the position back to the
  start and runs the registered callback once.\<close>

theorem scroll_finish_reached:
  fixes w :: "'x ticker_world_scheme" and lua_call :: "lua_value \<Rightarrow> ('x, unit) ticker_handler"
  assumes tk: "tickers w a = Some tk" "ticker_wf tk" "used tk \<noteq> 0"
    and n: "60 \<le> strip_leds (t_LedStrip tk) w"
    and cb: "g_pLua w" "t_ScrollCallback tk = Some ref" "registry w ref = Some f"
  shows "(\<forall>k \<le> used tk - pos tk. \<forall>other. (tick other a ^^ k) w = (tick lua_call a ^^ k) w) \<and>
    (\<exists>w'. tickers w' a = Some (tk\<lparr>t_Position := 0\<rparr>) \<and>
      ticker_scroll_cb lua_call a ((tick lua_call a ^^ (used tk - pos tk)) w) =
        mbind (lua_call f) (\<lambda>_. upd_ticker a (\<lambda>tk. tk\<lparr>t_Position := t_Position tk + 1\<rparr>)) w')"
proof -
  have le: "pos tk \<le> used tk" using tk(2) by (rule ticker_wfE)
  have same: "(tick other a ^^ k) w = (tick lua_call a ^^ k) w" if "k \<le> used tk - pos tk" for k other
    using ticks_advance [OF tk n, of k other lua_call] that le by auto
  let ?k = "used tk - pos tk"
  let ?tk = "tk\<lparr>t_Position := t_Position tk + of_nat ?k\<rparr>"
  obtain w1 where w1: "(tick lua_call a ^^ ?k) w = w1" "tickers w1 a = Some ?tk"
    "strip_leds (t_LedStrip tk) w1 = strip_leds (t_LedStrip tk) w" "registry w1 = registry w"
    "g_pLua w1 = g_pLua w"
    using ticks_advance [OF tk n, of ?k lua_call lua_call] le by auto
  have wf: "ticker_wf ?tk" "pos ?tk = used ?tk" "used ?tk \<noteq> 0"
    using advance_wf [OF tk(2), of ?k] le tk(3) by simp_all
  have n': "60 \<le> strip_leds (t_LedStrip ?tk) w1" using n w1(3) by simp
  obtain w2 where w2: "strip_rest (t_LedStrip ?tk) w2 = strip_rest (t_LedStrip ?tk) w1"
    "ticker_scroll_cb lua_call a w1 = mbind (scroll_finish lua_call ?tk)
              (\<lambda>_. upd_ticker a (\<lambda>tk. tk\<lparr>t_Position := t_Position tk + 1\<rparr>))
              (w2\<lparr>tickers := (tickers w2)(a \<mapsto> ?tk\<lparr>t_Position := 0\<rparr>)\<rparr>)"
    using tick_step [OF w1(2) wf(1,3) n'] unfolding if_P [OF wf(2)] by blast
  let ?w = "w2\<lparr>tickers := (tickers w2)(a \<mapsto> ?tk\<lparr>t_Position := 0\<rparr>)\<rparr>"
  have "scroll_finish lua_call ?tk ?w = lua_call f ?w"
    using cb w1(4,5) rest_ticker_state(3,4) [OF w2(1)] by (simp add: scroll_finish_def)
  then have "ticker_scroll_cb lua_call a w1 =
      mbind (lua_call f) (\<lambda>_. upd_ticker a (\<lambda>tk. tk\<lparr>t_Position := t_Position tk + 1\<rparr>)) ?w"
    unfolding w2(2) by (simp add: mbind_split)
  moreover have "tickers ?w a = Some (tk\<lparr>t_Position := 0\<rparr>)" by simp
  ultimately show ?thesis
    using same w1(1) by blast
qed

theorem scroll_finish_reached_witness:
  "\<exists>w'. tickers w' 1 = Some (sample_ticker\<lparr>t_Position := 0\<rparr>) \<and>
      ticker_scroll_cb (\<lambda>_. mret ()) 1 ((tick (\<lambda>_. mret ()) 1 ^^ 6) ticking_world) =
        mbind (mret ()) (\<lambda>_. upd_ticker 1 (\<lambda>tk. tk\<lparr>t_Position := t_Position tk + 1\<rparr>)) w'"
proof -
  have "used sample_ticker \<noteq> 0" "60 \<le> strip_leds (t_LedStrip sample_ticker) ticking_world"
    by (simp_all add: sample_ticker_wf ticking_world_facts)
  moreover have "g_pLua ticking_world" "t_ScrollCallback sample_ticker = Some 0"
    "registry ticking_world 0 = Some (LFunction 5)"
    by (simp_all add: ticking_world_def sample_ticker_def)
  moreover have "used sample_ticker - pos sample_ticker = 6" by (simp add: sample_ticker_wf)
  ultimately show ?thesis
    using scroll_finish_reached [OF ticking_world_facts(1) sample_ticker_wf(1), of 0 "LFunction 5" "\<lambda>_. mret ()"]
    by (simp only:) blast
qed


text \<open>C18: with four free columns left, adding a letter succeeds, uses four more columns, draws the glyph's
  24 pixels there (top nibble first, most significant bit left) in the given colour, and changes no
  other cell of the text buffer.\<close>

theorem add_letter_draws:
  assumes "ticker_wf tk" "used tk + 4 \<le> width tk"
  shows "\<exists>tk'. add_letter tk m r g b = Inr tk' \<and> ticker_wf tk' \<and> used tk' = used tk + 4 \<and>
    (\<forall>row < 6. \<forall>c < width tk. cell tk' row c =
       (if used tk \<le> c \<and> c < used tk + 4
        then if bit m (23 - 4 * row - (c - used tk)) then (ucast r, ucast g, ucast b) else (0, 0, 0)
        else cell tk row c))"
  using add_letter_eq [OF assms] letter_added_cell [OF assms]
  by (auto simp: letter_cell_def glyph_bit_def)

theorem add_letter_draws_witness:
  "\<exists>tk'. add_letter (sample_ticker\<lparr>t_Used := 24\<rparr>) 13680 255 0 0 = Inr tk' \<and> used tk' = 12 \<and>
    cell tk' 3 9 = (255, 0, 0) \<and> cell tk' 3 8 = (0, 0, 0)"
proof -
  let ?tk = "sample_ticker\<lparr>t_Used := 24\<rparr>"
  have f: "ticker_wf ?tk" "used ?tk = 8" "width ?tk = 12"
    by (simp_all add: sample_ticker_def ticker_wf_def unit_range_def used_def width_def)
  obtain tk' where "add_letter ?tk 13680 255 0 0 = Inr tk'" "used tk' = 12"
    "\<forall>row < 6. \<forall>c < 12. cell tk' row c =
       (if 8 \<le> c \<and> c < 12
        then if bit (13680 :: u32) (23 - 4 * row - (c - 8)) then (ucast (255 :: u32), 0, 0) else (0, 0, 0)
        else cell ?tk row c)"
    using add_letter_draws [OF f(1), of 13680 255 0 0] f by auto
  then show ?thesis by simp
qed

text \<open>C21: a visible cell's colour component is the stored byte scaled by a brightness in [0, 1], in the
  double arithmetic the code uses: the conversion back to an integer is always defined and the
  result is never brighter than the stored byte.\<close>

theorem brightness_never_brightens:
  assumes "ticker_wf tk" "used tk \<noteq> 0" "t_OutputBuffer tk = Some buf"
    and "row < 6" "column < 10" "k < 3"
  shows "\<exists>x. cell_component tk row column (of_nat k) = Inr x \<and>
    unat x \<le> unat (buf ! (3 * (row * width tk + (pos tk + column) mod used tk) + k))"
proof -
  have "unit_range (t_Brightness tk)" using assms(1) by (rule ticker_wfE)
  from scaled_eq(2) [OF this] show ?thesis
    using cell_component_eq [OF assms(1,2,4-6)] assms(3) by simp
qed

theorem brightness_never_brightens_witness:
  "\<exists>x. cell_component sample_ticker 5 9 (of_nat 2) = Inr x \<and> unat x \<le> 7"
proof -
  have "t_OutputBuffer sample_ticker = Some (replicate 216 7)" "width sample_ticker = 12"
    by (simp_all add: sample_ticker_def width_def)
  with brightness_never_brightens [OF sample_ticker_wf(1) _ this(1), of 5 9 2] show ?thesis
    by (simp add: sample_ticker_wf)
qed

text \<open>the LED mapping of the 6x10 matrix is a bijection onto the first sixty LEDs of the strip.\<close>

theorem led_mapping_bijective:
  "bij_betw (\<lambda>(row, column). led_at row column) ({0..<6} \<times> {0..<10}) {0..<60}"
proof (rule bij_betwI')
  fix x y :: "nat \<times> nat"
  assume "x \<in> {0..<6} \<times> {0..<10}" "y \<in> {0..<6} \<times> {0..<10}"
  then show "((case x of (row, column) \<Rightarrow> led_at row column) =
      (case y of (row, column) \<Rightarrow> led_at row column)) = (x = y)"
    using led_at_inject by fastforce
next
  fix x :: "nat \<times> nat"
  assume "x \<in> {0..<6} \<times> {0..<10}"
  then show "(case x of (row, column) \<Rightarrow> led_at row column) \<in> {0..<60}"
    using led_at_range by auto
next
  fix y :: nat
  assume "y \<in> {0..<60}"
  then show "\<exists>x \<in> {0..<6} \<times> {0..<10}. y = (case x of (row, column) \<Rightarrow> led_at row column)"
    using led_at_surj [of y] by fastforce
qed

text \<open>The blank columns of a clear need a buffer of at least ten columns, which nothing checks.\<close>

lemma put_cell_outcome:
  assumes "t_OutputBuffer tk = Some buf"
  shows "(\<exists>i. put_cell tk p r g b = Inl (OutOfBounds i)) \<or>
    unat (p + 2) < length buf \<and>
    (\<exists>buf'. put_cell tk p r g b = Inr (tk\<lparr>t_OutputBuffer := Some buf'\<rparr>) \<and> length buf' = length buf)"
  using assms by (auto simp: put_cell_def arr_set_def)

lemma put_cells_outcome:
  assumes "t_OutputBuffer tk = Some buf"
  shows "(\<exists>i. rfold (\<lambda>(row, column) tk. put_cell tk (t_Length tk * of_nat row + of_nat column * 3) 0 0 0) xs tk =
      Inl (OutOfBounds i)) \<or>
    (\<exists>buf'. rfold (\<lambda>(row, column) tk. put_cell tk (t_Length tk * of_nat row + of_nat column * 3) 0 0 0) xs tk =
      Inr (tk\<lparr>t_OutputBuffer := Some buf'\<rparr>) \<and> length buf' = length buf \<and>
      (\<forall>(row, column) \<in> set xs. unat (t_Length tk * of_nat row + of_nat column * 3 + 2) < length buf))"
  using assms
proof (induction xs arbitrary: tk buf)
  case Nil
  then show ?case by (auto intro!: exI [of _ buf])
next
  case (Cons x xs)
  obtain row column where x: "x = (row, column)" by fastforce
  from put_cell_outcome [OF Cons.prems, of "t_Length tk * of_nat row + of_nat column * 3" 0 0 0]
  show ?case
  proof (elim disjE conjE exE)
    fix buf'
    assume b: "unat (t_Length tk * of_nat row + of_nat column * 3 + 2) < length buf"
      "put_cell tk (t_Length tk * of_nat row + of_nat column * 3) 0 0 0 = Inr (tk\<lparr>t_OutputBuffer := Some buf'\<rparr>)"
      "length buf' = length buf"
    from Cons.IH [of "tk\<lparr>t_OutputBuffer := Some buf'\<rparr>" buf'] b x show ?thesis by auto
  qed (auto simp: x)
qed

text \<open>a ticker created with a length of 0, 1 or 2 characters (less than ten columns), which
  \<open>ticker_setup\<close> accepts, is written out of bounds by the first \<open>clear\<close> or \<open>set_text\<close>.\<close>

theorem clear_needs_ten_columns:
  assumes "t_OutputBuffer tk = Some buf" "length buf = 6 * unat (t_Length tk)" "unat (t_Length tk) < 30"
  shows "\<exists>i. blank_start tk = Inl (OutOfBounds i)"
proof -
  have "t_Length tk * of_nat 5 + of_nat 9 * 3 + 2 = (of_nat (5 * unat (t_Length tk) + 29) :: u32)"
    by simp
  also have "unat \<dots> = 5 * unat (t_Length tk) + 29"
    using assms(3) by (intro unat_of_nat_small) simp
  finally have "\<not> unat (t_Length tk * of_nat 5 + of_nat 9 * 3 + 2) < length buf"
    using assms(2,3) by simp
  moreover have "(5, 9) \<in> set (List.product [0..<6] [0..<10])" by simp
  ultimately show ?thesis
    using put_cells_outcome [OF assms(1), of "List.product [0..<6] [0..<10]"]
    unfolding blank_start_def Let_def by fastforce
qed

theorem clear_needs_ten_columns_witness:
  "\<exists>i. blank_start (sample_ticker\<lparr>t_Length := 24, t_OutputBuffer := Some (replicate 144 0)\<rparr>) =
    Inl (OutOfBounds i)"
  using clear_needs_ten_columns [of "sample_ticker\<lparr>t_Length := 24, t_OutputBuffer := Some (replicate 144 0)\<rparr>"]
  by simp

text \<open>a number given as the letter argument is converted to its decimal text and the first digit is
  used; the branch that would use it as a character code is never taken.\<close>

theorem letter_number_is_text:
  "letter_index cv (LNumber x) = Inr (ucast (first_char (num2str cv x)))"
  by (simp add: letter_index_def lua_isstring_def lua_tolstring_def)

end
