(* ===== verification/Mqtt_Msg.thy ===== *)
theory Mqtt_Msg
  imports Prelude
begin

text \<open>
  The MQTT packet codec (\<open>mqtt/mqtt_msg.c\<close>, \<open>mqtt/mqtt_msg.h\<close>): building packets in the connection's
  buffer and taking received packets apart. The lemmas show that no builder leaves the buffer, that a
  built packet is the one the protocol prescribes, and that the accessors return what was put in.
  A C string is the list of its bytes before the terminating zero; a null pointer is \<open>None\<close>.
\<close>

section \<open>Connections and messages\<close>

definition MQTT_MAX_FIXED_HEADER_SIZE :: nat where "MQTT_MAX_FIXED_HEADER_SIZE = 3"

definition MQTT_MSG_TYPE_CONNECT :: u8 where "MQTT_MSG_TYPE_CONNECT = 1"
definition MQTT_MSG_TYPE_PUBLISH :: u8 where "MQTT_MSG_TYPE_PUBLISH = 3"
definition MQTT_MSG_TYPE_PUBACK :: u8 where "MQTT_MSG_TYPE_PUBACK = 4"
definition MQTT_MSG_TYPE_PUBREC :: u8 where "MQTT_MSG_TYPE_PUBREC = 5"
definition MQTT_MSG_TYPE_PUBREL :: u8 where "MQTT_MSG_TYPE_PUBREL = 6"
definition MQTT_MSG_TYPE_PUBCOMP :: u8 where "MQTT_MSG_TYPE_PUBCOMP = 7"
definition MQTT_MSG_TYPE_SUBSCRIBE :: u8 where "MQTT_MSG_TYPE_SUBSCRIBE = 8"
definition MQTT_MSG_TYPE_SUBACK :: u8 where "MQTT_MSG_TYPE_SUBACK = 9"
definition MQTT_MSG_TYPE_UNSUBSCRIBE :: u8 where "MQTT_MSG_TYPE_UNSUBSCRIBE = 10"
definition MQTT_MSG_TYPE_UNSUBACK :: u8 where "MQTT_MSG_TYPE_UNSUBACK = 11"
definition MQTT_MSG_TYPE_PINGREQ :: u8 where "MQTT_MSG_TYPE_PINGREQ = 12"
definition MQTT_MSG_TYPE_PINGRESP :: u8 where "MQTT_MSG_TYPE_PINGRESP = 13"
definition MQTT_MSG_TYPE_DISCONNECT :: u8 where "MQTT_MSG_TYPE_DISCONNECT = 14"

lemmas mqtt_types = MQTT_MSG_TYPE_CONNECT_def MQTT_MSG_TYPE_PUBLISH_def MQTT_MSG_TYPE_PUBACK_def
  MQTT_MSG_TYPE_PUBREC_def MQTT_MSG_TYPE_PUBREL_def MQTT_MSG_TYPE_PUBCOMP_def MQTT_MSG_TYPE_SUBSCRIBE_def
  MQTT_MSG_TYPE_SUBACK_def MQTT_MSG_TYPE_UNSUBSCRIBE_def MQTT_MSG_TYPE_UNSUBACK_def
  MQTT_MSG_TYPE_PINGREQ_def MQTT_MSG_TYPE_PINGRESP_def MQTT_MSG_TYPE_DISCONNECT_def

text \<open>The message's \<open>data\<close> pointer is an offset into the buffer.\<close>

record mqtt_connection =
  msg_data :: nat
  msg_length :: u16
  message_id :: u16
  buffer :: bytes
  buffer_length :: u16

record mqtt_connect_info =
  client_id :: "bytes option"
  username :: "bytes option"
  password :: "bytes option"
  will_topic :: "bytes option"
  will_message :: "bytes option"
  keepalive :: u32
  will_qos :: u32
  will_retain :: bool
  clean_session :: bool

section \<open>Building messages\<close>

text \<open>\<open>buffer[message.length++] = v\<close>\<close>

definition append_byte :: "mqtt_connection \<Rightarrow> u8 \<Rightarrow> mqtt_connection result" where
  "append_byte c v =
     rbind (arr_set (buffer c) (unat (msg_length c)) v) (\<lambda>buf.
     Inr (c\<lparr>buffer := buf, msg_length := msg_length c + 1\<rparr>))"

definition append_bytes :: "mqtt_connection \<Rightarrow> bytes \<Rightarrow> mqtt_connection result" where
  "append_bytes c bs =
     rbind (arr_copy (buffer c) (unat (msg_length c)) bs) (\<lambda>buf.
     Inr (c\<lparr>buffer := buf, msg_length := msg_length c + of_nat (length bs)\<rparr>))"

definition append_string :: "mqtt_connection \<Rightarrow> bytes \<Rightarrow> (int \<times> mqtt_connection) result" where
  "append_string c str =
     (let len = length str in
      if unat (msg_length c) + len + 2 > unat (buffer_length c) then Inr (- 1, c)
      else
        rbind (append_byte c (of_nat (len div 256))) (\<lambda>c.
        rbind (append_byte c (of_nat (len mod 256))) (\<lambda>c.
        rbind (append_bytes c str) (\<lambda>c.
        Inr (int len + 2, c)))))"

text \<open>The loop that assigns a fresh message id; the counter may have to skip zero.\<close>

function assign_id :: "u16 \<Rightarrow> u16 \<Rightarrow> u16 \<times> u16" where
  "assign_id mid counter =
     (if mid = 0 then assign_id (counter + 1) (counter + 1) else (mid, counter))"
  by pat_completeness auto
termination
  by (relation "measure (\<lambda>(mid, counter). if mid \<noteq> 0 then 0 else if counter + 1 = 0 then 2 else (1 :: nat))")
    auto

declare assign_id.simps [simp del]

definition append_message_id :: "mqtt_connection \<Rightarrow> u16 \<Rightarrow> (u16 \<times> mqtt_connection) result" where
  "append_message_id c mid =
     (let (mid, counter) = assign_id mid (message_id c); c = c\<lparr>message_id := counter\<rparr> in
      if unat (msg_length c) + 2 > unat (buffer_length c) then Inr (0, c)
      else
        rbind (append_byte c (ucast (drop_bit 8 mid))) (\<lambda>c.
        rbind (append_byte c (ucast (mid AND 0xff))) (\<lambda>c.
        Inr (mid, c))))"

definition init_message :: "mqtt_connection \<Rightarrow> mqtt_connection" where
  "init_message c = c\<lparr>msg_length := of_nat MQTT_MAX_FIXED_HEADER_SIZE\<rparr>"

definition fail_message :: "mqtt_connection \<Rightarrow> mqtt_connection" where
  "fail_message c = c\<lparr>msg_data := 0, msg_length := 0\<rparr>"

definition fixed_header :: "u8 \<Rightarrow> u8 \<Rightarrow> u32 \<Rightarrow> u32 \<Rightarrow> u8" where
  "fixed_header type dup qos retain =
     push_bit 4 (type AND 0x0f) OR push_bit 3 (dup AND 1) OR push_bit 1 (ucast (qos AND 3)) OR
     ucast (retain AND 1)"

definition fini_message ::
  "mqtt_connection \<Rightarrow> u8 \<Rightarrow> u8 \<Rightarrow> u32 \<Rightarrow> u32 \<Rightarrow> mqtt_connection result" where
  "fini_message c type dup qos retain =
     (let remaining_length = int (unat (msg_length c)) - int MQTT_MAX_FIXED_HEADER_SIZE in
      if remaining_length > 127 then
        rbind (arr_set (buffer c) 0 (fixed_header type dup qos retain)) (\<lambda>buf.
        rbind (arr_set buf 1 (0x80 OR of_int (remaining_length mod 128))) (\<lambda>buf.
        rbind (arr_set buf 2 (of_int (remaining_length div 128))) (\<lambda>buf.
        Inr (c\<lparr>buffer := buf, msg_length := of_int (remaining_length + 3), msg_data := 0\<rparr>))))
      else
        rbind (arr_set (buffer c) 1 (fixed_header type dup qos retain)) (\<lambda>buf.
        rbind (arr_set buf 2 (of_int remaining_length)) (\<lambda>buf.
        Inr (c\<lparr>buffer := buf, msg_length := of_int (remaining_length + 2), msg_data := 1\<rparr>))))"

text \<open>
  \<open>memset(connection, 0, sizeof(connection))\<close> clears as many bytes as a pointer has: on this machine
  four, which is the first field, the message's data pointer.
\<close>

definition mqtt_msg_init :: "mqtt_connection \<Rightarrow> bytes \<Rightarrow> u16 \<Rightarrow> mqtt_connection" where
  "mqtt_msg_init c buf len = c\<lparr>msg_data := 0, buffer := buf, buffer_length := len\<rparr>"

section \<open>Taking messages apart\<close>

definition mqtt_get_type :: "bytes \<Rightarrow> u8 result" where
  "mqtt_get_type buf = rbind (arr_get buf 0) (\<lambda>b. Inr (drop_bit 4 (b AND 0xf0)))"

definition mqtt_get_dup :: "bytes \<Rightarrow> u8 result" where
  "mqtt_get_dup buf = rbind (arr_get buf 0) (\<lambda>b. Inr (drop_bit 3 (b AND 0x08)))"

definition mqtt_get_qos :: "bytes \<Rightarrow> u8 result" where
  "mqtt_get_qos buf = rbind (arr_get buf 0) (\<lambda>b. Inr (drop_bit 1 (b AND 0x06)))"

definition mqtt_get_retain :: "bytes \<Rightarrow> u8 result" where
  "mqtt_get_retain buf = rbind (arr_get buf 0) (\<lambda>b. Inr (b AND 0x01))"

text \<open>
  The loop over the length bytes: the index behind them and the value they encode. A shift or a sum
  that does not fit a signed 32-bit integer is undefined.
\<close>

function length_loop :: "bytes \<Rightarrow> nat \<Rightarrow> nat \<Rightarrow> nat \<Rightarrow> (nat \<times> nat) result" where
  "length_loop buf len i totlen =
     (if i < len then
        rbind (arr_get buf i) (\<lambda>b.
        let totlen' = totlen + unat (b AND 0x7f) * 2 ^ (7 * (i - 1)) in
        rbind (guard_or Overflow (7 * (i - 1) < 32 \<and> totlen' < 2 ^ 31)) (\<lambda>_.
        if b AND 0x80 = 0 then Inr (i + 1, totlen') else length_loop buf len (i + 1) totlen'))
      else Inr (i, totlen))"
  by pat_completeness auto
termination
  by (relation "measure (\<lambda>(buf, len, i, totlen). len - i)") auto

declare length_loop.simps [simp del]

definition mqtt_get_total_length :: "bytes \<Rightarrow> u16 \<Rightarrow> nat result" where
  "mqtt_get_total_length buf len =
     rbind (length_loop buf (unat len) 1 0) (\<lambda>(i, totlen). Inr (totlen + i))"

definition get_u16 :: "bytes \<Rightarrow> nat \<Rightarrow> nat result" where
  "get_u16 buf i =
     rbind (arr_get buf i) (\<lambda>h. rbind (arr_get buf (i + 1)) (\<lambda>l. Inr (unat h * 256 + unat l)))"

text \<open>The returned pointer is an offset into the packet; the length argument is updated.\<close>

definition mqtt_get_publish_topic :: "bytes \<Rightarrow> u16 \<Rightarrow> (nat option \<times> u16) result" where
  "mqtt_get_publish_topic buf len =
     rbind (length_loop buf (unat len) 1 0) (\<lambda>(i, _).
     if i + 2 \<ge> unat len then Inr (None, len)
     else
       rbind (get_u16 buf i) (\<lambda>topiclen.
       let i = i + 2 in
       if i + topiclen > unat len then Inr (None, len)
       else Inr (Some i, of_nat topiclen)))"

definition mqtt_get_publish_data :: "bytes \<Rightarrow> u16 \<Rightarrow> (nat option \<times> u16) result" where
  "mqtt_get_publish_data buf len =
     rbind (length_loop buf (unat len) 1 0) (\<lambda>(i, totlen).
     let totlen = totlen + i in
     if i + 2 \<ge> unat len then Inr (None, len)
     else
       rbind (get_u16 buf i) (\<lambda>topiclen.
       let i = i + 2 in
       if i + topiclen \<ge> unat len then Inr (None, 0)
       else
         rbind (mqtt_get_qos buf) (\<lambda>qos.
         let i = i + topiclen in
         if qos > 0 \<and> i + 2 \<ge> unat len then Inr (None, len)
         else
           let i = (if qos > 0 then i + 2 else i) in
           if totlen < i then Inr (None, len)
           else if totlen \<le> unat len then Inr (Some i, of_nat (totlen - i))
           else Inr (Some i, of_nat (unat len - i)))))"

text \<open>\<open>mqtt_get_id\<close> looks for the end of the length bytes without decoding them.\<close>

function skip_length :: "bytes \<Rightarrow> nat \<Rightarrow> nat \<Rightarrow> nat result" where
  "skip_length buf len i =
     (if i < len then
        rbind (arr_get buf i) (\<lambda>b. if b AND 0x80 = 0 then Inr (i + 1) else skip_length buf len (i + 1))
      else Inr i)"
  by pat_completeness auto
termination
  by (relation "measure (\<lambda>(buf, len, i). len - i)") auto

declare skip_length.simps [simp del]

definition mqtt_get_id :: "bytes \<Rightarrow> u16 \<Rightarrow> u16 result" where
  "mqtt_get_id buf len =
     (if unat len < 1 then Inr 0
      else
        rbind (mqtt_get_type buf) (\<lambda>type.
        if type = MQTT_MSG_TYPE_PUBLISH then
          rbind (skip_length buf (unat len) 1) (\<lambda>i.
          if i + 2 \<ge> unat len then Inr 0
          else
            rbind (get_u16 buf i) (\<lambda>topiclen.
            let i = i + 2 in
            if i + topiclen \<ge> unat len then Inr 0
            else
              let i = i + topiclen in
              rbind (mqtt_get_qos buf) (\<lambda>qos.
              if qos > 0 then
                if i + 2 \<ge> unat len then Inr 0
                else rbind (get_u16 buf i) (\<lambda>v. Inr (of_nat v))
              else Inr 0)))
        else if type \<in> {MQTT_MSG_TYPE_PUBACK, MQTT_MSG_TYPE_PUBREC, MQTT_MSG_TYPE_PUBREL,
            MQTT_MSG_TYPE_PUBCOMP, MQTT_MSG_TYPE_SUBACK, MQTT_MSG_TYPE_UNSUBACK, MQTT_MSG_TYPE_SUBSCRIBE} then
          if unat len \<ge> 4 then
            rbind (arr_get buf 1) (\<lambda>b.
            if b AND 0x80 = 0 then rbind (get_u16 buf 2) (\<lambda>v. Inr (of_nat v)) else Inr 0)
          else Inr 0
        else Inr 0))"

section \<open>The messages\<close>

definition given :: "bytes option \<Rightarrow> bool" where
  "given s = (case s of None \<Rightarrow> False | Some str \<Rightarrow> str \<noteq> [])"

text \<open>\<open>flags |= v\<close> on the connect header that starts at offset 3.\<close>

definition or_flags :: "mqtt_connection \<Rightarrow> u8 \<Rightarrow> mqtt_connection result" where
  "or_flags c v =
     rbind (arr_get (buffer c) 10) (\<lambda>f.
     rbind (arr_set (buffer c) 10 (f OR v)) (\<lambda>buf.
     Inr (c\<lparr>buffer := buf\<rparr>)))"

definition connect_header :: "mqtt_connect_info \<Rightarrow> bytes" where
  "connect_header info =
     [0, 4, 0x4D, 0x51, 0x54, 0x54, 4, 0, ucast (drop_bit 8 (keepalive info)),
      ucast (keepalive info AND 0xff)]"

text \<open>An append that must succeed: otherwise the function returns the failed message.\<close>

definition append_or_fail ::
  "mqtt_connection \<Rightarrow> bytes option \<Rightarrow> (mqtt_connection \<Rightarrow> mqtt_connection result) \<Rightarrow> mqtt_connection result" where
  "append_or_fail c s k =
     rbind (deref s) (\<lambda>str.
     rbind (append_string c str) (\<lambda>(r, c).
     if r < 0 then Inr (fail_message c) else k c))"

definition connect_optional ::
  "mqtt_connection \<Rightarrow> bytes option \<Rightarrow> u8 \<Rightarrow> (mqtt_connection \<Rightarrow> mqtt_connection result) \<Rightarrow>
   mqtt_connection result" where
  "connect_optional c s flag k =
     (if given s then append_or_fail c s (\<lambda>c. rbind (or_flags c flag) k) else k c)"

definition connect_will ::
  "mqtt_connect_info \<Rightarrow> mqtt_connection \<Rightarrow> (mqtt_connection \<Rightarrow> mqtt_connection result) \<Rightarrow>
   mqtt_connection result" where
  "connect_will info c k =
     (if given (will_topic info) then
        append_or_fail c (will_topic info) (\<lambda>c.
        append_or_fail c (will_message info) (\<lambda>c.
        rbind (or_flags c 0x04) (\<lambda>c.
        rbind (if will_retain info then or_flags c 0x20 else Inr c) (\<lambda>c.
        rbind (or_flags c (push_bit 3 (ucast (will_qos info AND 3)))) k))))
      else k c)"

definition mqtt_msg_connect :: "mqtt_connection \<Rightarrow> mqtt_connect_info \<Rightarrow> mqtt_connection result" where
  "mqtt_msg_connect c info =
     (let c = init_message c in
      if unat (msg_length c) + 10 > unat (buffer_length c) then Inr (fail_message c)
      else
        rbind (append_bytes c (connect_header info)) (\<lambda>c.
        rbind (if clean_session info then or_flags c 0x02 else Inr c) (\<lambda>c.
        if given (client_id info) then
          append_or_fail c (client_id info) (\<lambda>c.
          connect_will info c (\<lambda>c.
          connect_optional c (username info) 0x80 (\<lambda>c.
          connect_optional c (password info) 0x40 (\<lambda>c.
          fini_message c MQTT_MSG_TYPE_CONNECT 0 0 0))))
        else Inr (fail_message c))))"

text \<open>
  The result carries the message id written through the pointer argument: \<open>None\<close> when the function
  returns before it assigns one.
\<close>

definition mqtt_msg_publish ::
  "mqtt_connection \<Rightarrow> bytes option \<Rightarrow> bytes \<Rightarrow> u32 \<Rightarrow> u32 \<Rightarrow> (u16 option \<times> mqtt_connection) result" where
  "mqtt_msg_publish c topic data qos retain =
     (let c = init_message c in
      if \<not> given topic then Inr (None, fail_message c)
      else
        rbind (deref topic) (\<lambda>str.
        rbind (append_string c str) (\<lambda>(r, c).
        if r < 0 then Inr (None, fail_message c)
        else
          rbind (if 0 <s qos then append_message_id c 0 else Inr (0, c)) (\<lambda>(mid, c).
          if 0 <s qos \<and> mid = 0 then Inr (Some mid, fail_message c)
          else if unat (msg_length c) + length data > unat (buffer_length c)
          then Inr (Some mid, fail_message c)
          else
            rbind (append_bytes c data) (\<lambda>c.
            rbind (fini_message c MQTT_MSG_TYPE_PUBLISH 0 qos retain) (\<lambda>c. Inr (Some mid, c)))))))"

definition id_message :: "mqtt_connection \<Rightarrow> u16 \<Rightarrow> u8 \<Rightarrow> u32 \<Rightarrow> mqtt_connection result" where
  "id_message c mid type qos =
     rbind (append_message_id (init_message c) mid) (\<lambda>(mid, c).
     if mid = 0 then Inr (fail_message c) else fini_message c type 0 qos 0)"

definition mqtt_msg_puback :: "mqtt_connection \<Rightarrow> u16 \<Rightarrow> mqtt_connection result" where
  "mqtt_msg_puback c mid = id_message c mid MQTT_MSG_TYPE_PUBACK 0"

definition mqtt_msg_pubrec :: "mqtt_connection \<Rightarrow> u16 \<Rightarrow> mqtt_connection result" where
  "mqtt_msg_pubrec c mid = id_message c mid MQTT_MSG_TYPE_PUBREC 0"

definition mqtt_msg_pubrel :: "mqtt_connection \<Rightarrow> u16 \<Rightarrow> mqtt_connection result" where
  "mqtt_msg_pubrel c mid = id_message c mid MQTT_MSG_TYPE_PUBREL 1"

definition mqtt_msg_pubcomp :: "mqtt_connection \<Rightarrow> u16 \<Rightarrow> mqtt_connection result" where
  "mqtt_msg_pubcomp c mid = id_message c mid MQTT_MSG_TYPE_PUBCOMP 0"

definition topic_message ::
  "mqtt_connection \<Rightarrow> bytes option \<Rightarrow> (mqtt_connection \<Rightarrow> mqtt_connection result) \<Rightarrow>
   (u16 option \<times> mqtt_connection) result" where
  "topic_message c topic k =
     (let c = init_message c in
      if \<not> given topic then Inr (None, fail_message c)
      else
        rbind (append_message_id c 0) (\<lambda>(mid, c).
        if mid = 0 then Inr (Some mid, fail_message c)
        else
          rbind (append_or_fail c topic k) (\<lambda>c. Inr (Some mid, c))))"

definition mqtt_msg_subscribe ::
  "mqtt_connection \<Rightarrow> bytes option \<Rightarrow> u32 \<Rightarrow> (u16 option \<times> mqtt_connection) result" where
  "mqtt_msg_subscribe c topic qos =
     topic_message c topic (\<lambda>c.
       if unat (msg_length c) + 1 > unat (buffer_length c) then Inr (fail_message c)
       else rbind (append_byte c (ucast qos)) (\<lambda>c. fini_message c MQTT_MSG_TYPE_SUBSCRIBE 0 1 0))"

definition mqtt_msg_unsubscribe ::
  "mqtt_connection \<Rightarrow> bytes option \<Rightarrow> (u16 option \<times> mqtt_connection) result" where
  "mqtt_msg_unsubscribe c topic =
     topic_message c topic (\<lambda>c. fini_message c MQTT_MSG_TYPE_SUBSCRIBE 0 1 0)"

definition mqtt_msg_pingreq :: "mqtt_connection \<Rightarrow> mqtt_connection result" where
  "mqtt_msg_pingreq c = fini_message (init_message c) MQTT_MSG_TYPE_PINGREQ 0 0 0"

definition mqtt_msg_pingresp :: "mqtt_connection \<Rightarrow> mqtt_connection result" where
  "mqtt_msg_pingresp c = fini_message (init_message c) MQTT_MSG_TYPE_PINGRESP 0 0 0"

definition mqtt_msg_disconnect :: "mqtt_connection \<Rightarrow> mqtt_connection result" where
  "mqtt_msg_disconnect c = fini_message (init_message c) MQTT_MSG_TYPE_DISCONNECT 0 0 0"


section \<open>What has been built so far\<close>

text \<open>
  The buffer object has the length the connection records and room for a fixed header; behind the
  header's three bytes stand the bytes appended so far.
\<close>

definition conn_ok :: "mqtt_connection \<Rightarrow> bool" where
  "conn_ok c \<longleftrightarrow> length (buffer c) = unat (buffer_length c) \<and> 3 \<le> unat (buffer_length c)"

definition built :: "mqtt_connection \<Rightarrow> bytes \<Rightarrow> bool" where
  "built c xs \<longleftrightarrow>
     conn_ok c \<and> unat (msg_length c) = 3 + length xs \<and> 3 + length xs \<le> unat (buffer_length c) \<and>
     take (length xs) (drop 3 (buffer c)) = xs"

definition wire :: "mqtt_connection \<Rightarrow> bytes" where
  "wire c = take (unat (msg_length c)) (drop (msg_data c) (buffer c))"

abbreviation same_conn :: "mqtt_connection \<Rightarrow> mqtt_connection \<Rightarrow> bool" where
  "same_conn c c' \<equiv> buffer_length c' = buffer_length c \<and> message_id c' = message_id c"

lemma init_built: "conn_ok c \<Longrightarrow> built (init_message c) []"
  by (simp add: built_def init_message_def conn_ok_def MQTT_MAX_FIXED_HEADER_SIZE_def)

lemma unat_u16_add:
  "unat (a :: u16) + n < 65536 \<Longrightarrow> unat (a + of_nat n) = unat a + n"
  by (simp add: unat_word_ariths unat_of_nat)

lemma append_bytes_built:
  assumes "built c xs" "3 + length xs + length bs \<le> unat (buffer_length c)"
  obtains c' where "append_bytes c bs = Inr c'" "built c' (xs @ bs)" "same_conn c c'"
proof -
  let ?c = "c\<lparr>buffer := take (3 + length xs) (buffer c) @ bs @ drop (3 + length xs + length bs) (buffer c),
    msg_length := msg_length c + of_nat (length bs)\<rparr>"
  have b: "length (buffer c) = unat (buffer_length c)" "3 \<le> unat (buffer_length c)"
    "unat (msg_length c) = 3 + length xs" "take (length xs) (drop 3 (buffer c)) = xs"
    using assms(1) by (auto simp: built_def conn_ok_def)
  have len: "unat (msg_length c + of_nat (length bs)) = 3 + length xs + length bs"
    using assms(2) b(3) u16_bound [of "buffer_length c"] by (subst unat_u16_add) simp_all
  have "append_bytes c bs = Inr ?c"
    using b assms(2) by (simp add: append_bytes_def)
  moreover have "built ?c (xs @ bs)"
    using b assms(2) len by (auto simp: built_def conn_ok_def drop_take min_def)
  ultimately show ?thesis using that by simp
qed

lemma append_byte_is:
  "unat (msg_length c) < length (buffer c) \<Longrightarrow> append_byte c v = append_bytes c [v]"
  by (simp add: append_byte_def append_bytes_def list_update_as_append)

lemma append_byte_built:
  assumes "built c xs" "3 + length xs + 1 \<le> unat (buffer_length c)"
  obtains c' where "append_byte c v = Inr c'" "built c' (xs @ [v])" "same_conn c c'"
proof -
  have "append_byte c v = append_bytes c [v]"
    using assms by (intro append_byte_is) (simp add: built_def conn_ok_def)
  then show ?thesis
    using append_bytes_built [OF assms(1), of "[v]"] assms(2) that by auto
qed

definition be16 :: "nat \<Rightarrow> bytes" where
  "be16 n = [of_nat (n div 256), of_nat (n mod 256)]"

lemma length_be16 [simp]: "length (be16 n) = 2"
  by (simp add: be16_def)

text \<open>A string is appended as a whole or not at all.\<close>

lemma append_string_built:
  assumes "built c xs" "5 + length xs + length str \<le> unat (buffer_length c)"
  obtains c' where "append_string c str = Inr (int (length str) + 2, c')"
    "built c' (xs @ be16 (length str) @ str)" "same_conn c c'"
proof -
  obtain c1 where c1: "append_byte c (of_nat (length str div 256)) = Inr c1"
    "built c1 (xs @ [of_nat (length str div 256)])" "same_conn c c1"
    using append_byte_built [OF assms(1)] assms(2) by auto
  obtain c2 where c2: "append_byte c1 (of_nat (length str mod 256)) = Inr c2"
    "built c2 (xs @ be16 (length str))" "same_conn c c2"
    using append_byte_built [OF c1(2)] assms(2) c1(3) by (auto simp: be16_def)
  obtain c3 where c3: "append_bytes c2 str = Inr c3" "built c3 (xs @ be16 (length str) @ str)"
    "same_conn c c3"
    using append_bytes_built [OF c2(2), of str] assms(2) c2(3) by auto
  have "unat (msg_length c) = 3 + length xs" using assms(1) by (simp add: built_def)
  then have "append_string c str = Inr (int (length str) + 2, c3)"
    using c1(1) c2(1) c3(1) assms(2) by (simp add: append_string_def Let_def)
  with that c3 show ?thesis by blast
qed

lemma append_string_full:
  assumes "built c xs" "\<not> 5 + length xs + length str \<le> unat (buffer_length c)"
  shows "append_string c str = Inr (- 1, c)"
  using assms by (simp add: append_string_def built_def)

lemma assign_id_nonzero: "fst (assign_id mid counter) \<noteq> 0"
  by (induction mid counter rule: assign_id.induct) (subst assign_id.simps, auto)

lemma assign_id_given: "mid \<noteq> 0 \<Longrightarrow> assign_id mid counter = (mid, counter)"
  by (subst assign_id.simps) simp

text \<open>A fresh id is the next counter value, or the one after it when that is zero.\<close>

lemma assign_id_fresh:
  "assign_id 0 counter = (if counter + 1 = 0 then (1, 1) else (counter + 1, counter + 1))"
  by (simp add: assign_id.simps [of 0] assign_id.simps [of 1] assign_id.simps [of "counter + 1"])

definition id_bytes :: "u16 \<Rightarrow> bytes" where
  "id_bytes mid = [ucast (drop_bit 8 mid), ucast (mid AND 0xff)]"

lemma append_message_id_built:
  assumes "built c xs" "5 + length xs \<le> unat (buffer_length c)"
    and id: "assign_id mid (message_id c) = (m, n)"
  obtains c' where "append_message_id c mid = Inr (m, c')" "built c' (xs @ id_bytes m)"
    "buffer_length c' = buffer_length c" "message_id c' = n"
proof -
  let ?c = "c\<lparr>message_id := n\<rparr>"
  have b: "built ?c xs" using assms(1) by (simp add: built_def conn_ok_def)
  obtain c1 where c1: "append_byte ?c (ucast (drop_bit 8 m)) = Inr c1"
    "built c1 (xs @ [ucast (drop_bit 8 m)])" "same_conn ?c c1"
    using append_byte_built [OF b] assms(2) by auto
  obtain c2 where c2: "append_byte c1 (ucast (m AND 0xff)) = Inr c2"
    "built c2 (xs @ id_bytes m)" "same_conn ?c c2"
    using append_byte_built [OF c1(2)] assms(2) c1(3) by (auto simp: id_bytes_def)
  have "unat (msg_length c) = 3 + length xs" using assms(1) by (simp add: built_def)
  then have "append_message_id c mid = Inr (m, c2)"
    using c1(1) c2(1) assms(2) id by (simp add: append_message_id_def Let_def)
  with that c2 show ?thesis by simp
qed

lemma append_message_id_full:
  assumes "built c xs" "\<not> 5 + length xs \<le> unat (buffer_length c)"
  obtains c' where "append_message_id c mid = Inr (0, c')" "conn_ok c'" "buffer_length c' = buffer_length c"
proof -
  obtain m n where id: "assign_id mid (message_id c) = (m, n)" by fastforce
  have "append_message_id c mid = Inr (0, c\<lparr>message_id := n\<rparr>)"
    using assms id by (simp add: append_message_id_def built_def)
  with that assms(1) show ?thesis by (auto simp: built_def conn_ok_def)
qed

section \<open>Finished messages\<close>

definition varlen :: "nat \<Rightarrow> bytes" where
  "varlen n = (if n \<le> 127 then [of_nat n] else [0x80 OR of_nat (n mod 128), of_nat (n div 128)])"

lemma fini_built:
  assumes "built c xs"
  obtains c' where "fini_message c type dup qos retain = Inr c'" "conn_ok c'" "same_conn c c'"
    "wire c' = fixed_header type dup qos retain # varlen (length xs) @ xs"
    "unat (msg_length c') = 1 + length (varlen (length xs)) + length xs"
proof -
  let ?h = "fixed_header type dup qos retain" and ?n = "length xs"
  have b: "length (buffer c) = unat (buffer_length c)" "3 + ?n \<le> unat (buffer_length c)"
    "unat (msg_length c) = 3 + ?n" "take ?n (drop 3 (buffer c)) = xs"
    using assms by (auto simp: built_def conn_ok_def)
  obtain x y z rest where buf: "buffer c = x # y # z # rest"
    using b(1,2) by (metis Suc_le_length_iff add_leD1 numeral_3_eq_3)
  have rest: "take ?n rest = xs" using b(4) buf by simp
  have rl: "int (unat (msg_length c)) - int MQTT_MAX_FIXED_HEADER_SIZE = int ?n"
    using b(3) by (simp add: MQTT_MAX_FIXED_HEADER_SIZE_def)
  have small: "?n + 3 < 2 ^ 16" using b(2) u16_bound [of "buffer_length c"] by simp
  have "(of_int (int ?n + int k) :: u16) = of_nat (?n + k)" for k by simp
  from this [of 3] this [of 2]
  have len: "unat (of_int (int ?n + 3) :: u16) = ?n + 3" "unat (of_int (int ?n + 2) :: u16) = ?n + 2"
    using small unat_of_nat_small [where 'a = 16, of "?n + 3"] unat_of_nat_small [where 'a = 16, of "?n + 2"]
    by (simp_all only: of_nat_numeral) simp_all
  show ?thesis
  proof (cases "?n \<le> 127")
    case True
    let ?c = "c\<lparr>buffer := x # ?h # of_int (int ?n) # rest, msg_length := of_int (int ?n + 2), msg_data := 1\<rparr>"
    have "fini_message c type dup qos retain = Inr ?c"
      using True unfolding fini_message_def rl Let_def by (simp add: buf)
    moreover have "conn_ok ?c" using b buf by (simp add: conn_ok_def)
    ultimately show ?thesis
      using that [of ?c] len(2) rest True by (simp add: wire_def varlen_def)
  next
    case False
    let ?c = "c\<lparr>buffer := ?h # (0x80 OR of_int (int ?n mod 128)) # of_int (int ?n div 128) # rest,
      msg_length := of_int (int ?n + 3), msg_data := 0\<rparr>"
    have "fini_message c type dup qos retain = Inr ?c"
      using False unfolding fini_message_def rl Let_def by (simp add: buf)
    moreover have "conn_ok ?c" using b buf by (simp add: conn_ok_def)
    moreover have "(of_int (int ?n mod 128) :: u8) = of_nat (?n mod 128)"
      "(of_int (int ?n div 128) :: u8) = of_nat (?n div 128)"
      by (metis of_int_of_nat_eq of_nat_numeral zmod_int, metis of_int_of_nat_eq of_nat_numeral zdiv_int)
    ultimately show ?thesis
      using that [of ?c] len(1) rest False by (simp add: wire_def varlen_def)
  qed
qed


section \<open>Decoding\<close>

lemma u8_seven_bits:
  assumes "n < 128"
  shows "unat ((of_nat n :: u8) AND 0x7f) = n" "(of_nat n :: u8) AND 0x80 = 0"
    "unat ((0x80 OR of_nat n :: u8) AND 0x7f) = n" "(0x80 OR x :: u8) AND 0x80 \<noteq> 0"
proof -
  have m: "(0x7f :: u8) = mask 7" and e: "(0x80 :: u8) = 2 ^ 7"
    by (simp_all add: mask_eq_exp_minus_1)
  have n7: "take_bit 7 n = n" using assms by (simp add: take_bit_nat_eq_self)
  have low: "unat (of_nat n AND (0x7f :: u8)) = n"
    unfolding m by (simp add: unsigned_take_bit_eq unsigned_of_nat take_bit_take_bit n7 flip: take_bit_eq_mask)
  show "unat ((of_nat n :: u8) AND 0x7f) = n" by (fact low)
  have "\<not> bit n 7" using assms by (simp add: bit_iff_odd)
  then have "\<not> bit (of_nat n :: u8) 7" by (simp add: bit_of_nat_iff)
  then show "(of_nat n :: u8) AND 0x80 = 0"
    unfolding e by (simp only: and_exp_eq_0_iff_not_bit not_True_eq_False not_False_eq_True)
  have "(0x80 OR of_nat n) AND 0x7f = (of_nat n AND 0x7f :: u8)"
    by (simp add: and.commute [of _ "0x7f"] bit.conj_disj_distrib)
  with low show "unat ((0x80 OR of_nat n :: u8) AND 0x7f) = n" by simp
  have "bit (0x80 OR x :: u8) 7" unfolding e by (simp add: bit_or_iff bit_exp_iff)
  then show "(0x80 OR x :: u8) AND 0x80 \<noteq> 0"
    unfolding e by (simp only: and_exp_eq_0_iff_not_bit not_True_eq_False not_False_eq_True)
qed

lemma length_varlen: "length (varlen n) = (if n \<le> 127 then 1 else 2)"
  by (simp add: varlen_def)

lemma length_loop_varlen:
  assumes "n < 16384" "1 + length (varlen n) \<le> len"
  shows "length_loop (h # varlen n @ rest) len 1 0 = Inr (1 + length (varlen n), n)"
proof (cases "n \<le> 127")
  case True
  with assms(2) u8_seven_bits [of n] show ?thesis
    by (subst length_loop.simps) (simp add: varlen_def)
next
  case False
  have "n mod 128 + n div 128 * 128 = n" by simp
  moreover have "n mod 128 < 2147483648" using mod_less_divisor [of 128 n] by linarith
  ultimately show ?thesis
    using False assms u8_seven_bits [of "n mod 128"] u8_seven_bits [of "n div 128"]
    by (subst length_loop.simps, simp add: varlen_def, subst length_loop.simps, simp)
qed

lemma get_u16_at:
  assumes "n < 65536"
  shows "get_u16 (xs @ be16 n @ ys) (length xs) = Inr n"
proof -
  have "unat (of_nat (n div 256) :: u8) = n div 256" "unat (of_nat (n mod 256) :: u8) = n mod 256"
    using assms by (simp_all add: unat_of_nat take_bit_nat_eq_self)
  then show ?thesis
    by (simp add: get_u16_def be16_def nth_append)
qed

lemma skip_length_varlen:
  assumes "n < 16384" "1 + length (varlen n) \<le> len"
  shows "skip_length (h # varlen n @ rest) len 1 = Inr (1 + length (varlen n))"
proof (cases "n \<le> 127")
  case True
  with assms(2) u8_seven_bits [of n] show ?thesis
    by (subst skip_length.simps) (simp add: varlen_def)
next
  case False
  with assms u8_seven_bits [of "n mod 128"] u8_seven_bits [of "n div 128"] show ?thesis
    by (subst skip_length.simps, simp add: varlen_def, subst skip_length.simps, simp)
qed

text \<open>The fixed header carries type, quality of service and retain flag.\<close>

lemma header_bits:
  assumes "qos < 4" "t \<in> {1, 3, 4, 5, 6, 7, 8, 12, 13, 14}"
  shows "drop_bit 4 (fixed_header t 0 qos retain AND 0xf0) = t"
    and "drop_bit 1 (fixed_header t 0 qos retain AND 0x06) = ucast qos"
    and "drop_bit 3 (fixed_header t 0 qos retain AND 0x08) = 0"
    and "fixed_header t 0 qos retain AND 0x01 = ucast (retain AND 1)"
proof -
  have q: "qos = 0 \<or> qos = 1 \<or> qos = 2 \<or> qos = 3" using assms(1) by unat_arith
  have r: "retain AND 1 = 0 \<or> retain AND 1 = 1" by (auto simp: and_one_eq mod_2_eq_odd)
  show "drop_bit 4 (fixed_header t 0 qos retain AND 0xf0) = t"
    using assms(2) q r by (elim insertE emptyE disjE) (simp_all add: fixed_header_def)
  show "drop_bit 1 (fixed_header t 0 qos retain AND 0x06) = ucast qos"
    using assms(2) q r by (elim insertE emptyE disjE) (simp_all add: fixed_header_def)
  show "drop_bit 3 (fixed_header t 0 qos retain AND 0x08) = 0"
    using assms(2) q r by (elim insertE emptyE disjE) (simp_all add: fixed_header_def)
  show "fixed_header t 0 qos retain AND 0x01 = ucast (retain AND 1)"
    using assms(2) q r by (elim insertE emptyE disjE) (simp_all add: fixed_header_def)
qed

section \<open>A publish packet\<close>

text \<open>The packet the protocol prescribes (MQTT 3.1.1, 3.3), with the id present only above QoS 0.\<close>

definition publish_body :: "bytes \<Rightarrow> u32 \<Rightarrow> u16 \<Rightarrow> bytes \<Rightarrow> bytes" where
  "publish_body topic qos mid data =
     be16 (length topic) @ topic @ (if qos = 0 then [] else id_bytes mid) @ data"

definition publish_packet :: "bytes \<Rightarrow> u32 \<Rightarrow> u32 \<Rightarrow> u16 \<Rightarrow> bytes \<Rightarrow> bytes" where
  "publish_packet topic qos retain mid data =
     (let body = publish_body topic qos mid data in
      fixed_header MQTT_MSG_TYPE_PUBLISH 0 qos retain # varlen (length body) @ body)"

lemma small_qos: "qos < (4 :: u32) \<Longrightarrow> 0 <s qos \<longleftrightarrow> qos \<noteq> 0"
proof -
  assume "qos < 4"
  then have "qos = 0 \<or> qos = 1 \<or> qos = 2 \<or> qos = 3" by unat_arith
  then show ?thesis by (auto simp: word_sless_alt)
qed

lemma publish_builds:
  assumes c: "conn_ok c" and topic: "topic \<noteq> []" and qos: "qos < 4"
    and fits: "5 + length topic + (if qos = 0 then 0 else 2) + length data \<le> unat (buffer_length c)"
  obtains c' mid where "mqtt_msg_publish c (Some topic) data qos retain = Inr (Some mid, c')"
    "conn_ok c'" "buffer_length c' = buffer_length c" "wire c' = publish_packet topic qos retain mid data"
    "unat (msg_length c') = length (wire c')" "mid = (if qos = 0 then 0 else fst (assign_id 0 (message_id c)))"
proof -
  obtain c1 where c1: "append_string (init_message c) topic = Inr (int (length topic) + 2, c1)"
    "built c1 (be16 (length topic) @ topic)" "same_conn (init_message c) c1"
    using append_string_built [OF init_built [OF c], of topic] fits
    by (auto simp: init_message_def split: if_splits)
  have bl1: "buffer_length c1 = buffer_length c" "message_id c1 = message_id c"
    using c1(3) by (simp_all add: init_message_def)
  obtain mid n where id: "assign_id 0 (message_id c) = (mid, n)" by fastforce
  have mid: "mid \<noteq> 0" using assign_id_nonzero [of 0 "message_id c"] id by simp
  define m where "m = (if qos = 0 then 0 else mid)"
  obtain c2 where c2: "(if 0 <s qos then append_message_id c1 0 else Inr (0, c1)) = Inr (m, c2)"
    "built c2 (be16 (length topic) @ topic @ (if qos = 0 then [] else id_bytes m))"
    "buffer_length c2 = buffer_length c"
  proof (cases "qos = 0")
    case True
    with that [of c1] c1(2) bl1 show ?thesis by (simp add: m_def small_qos [OF qos])
  next
    case False
    obtain c2 where "append_message_id c1 0 = Inr (mid, c2)"
      "built c2 ((be16 (length topic) @ topic) @ id_bytes mid)" "buffer_length c2 = buffer_length c"
      using append_message_id_built [OF c1(2) _ id [folded bl1(2)]] fits False bl1(1) by auto
    with that [of c2] False show ?thesis by (simp add: m_def small_qos [OF qos])
  qed
  have idl: "length (if qos = 0 then [] else id_bytes m) = (if qos = 0 then 0 else 2)"
    by (simp add: id_bytes_def)
  obtain c3 where c3: "append_bytes c2 data = Inr c3" "built c3 (publish_body topic qos m data)"
    "same_conn c2 c3"
    using append_bytes_built [OF c2(2), of data] fits c2(3) idl by (auto simp: publish_body_def)
  obtain c4 where c4: "fini_message c3 MQTT_MSG_TYPE_PUBLISH 0 qos retain = Inr c4" "conn_ok c4"
    "same_conn c3 c4" "wire c4 = publish_packet topic qos retain m data"
    "unat (msg_length c4) = 1 + length (varlen (length (publish_body topic qos m data))) +
       length (publish_body topic qos m data)"
    using fini_built [OF c3(2)] unfolding publish_packet_def Let_def by blast
  have ml: "unat (msg_length c2) = 3 + length (be16 (length topic) @ topic @ (if qos = 0 then [] else id_bytes m))"
    using c2(2) by (simp add: built_def)
  have "mqtt_msg_publish c (Some topic) data qos retain = Inr (Some m, c4)"
    using topic c1(1) c2(1) c3(1) c4(1) ml c2(3) fits idl mid small_qos [OF qos]
    by (simp add: mqtt_msg_publish_def given_def Let_def) (auto simp: m_def)
  moreover have "m = (if qos = 0 then 0 else fst (assign_id 0 (message_id c)))"
    using id by (simp add: m_def)
  moreover have "buffer_length c4 = buffer_length c" using c4(3) c3(3) c2(3) by simp
  moreover have "unat (msg_length c4) = length (wire c4)"
    using c4(4,5) by (simp add: publish_packet_def Let_def)
  ultimately show ?thesis using that c4(2,4) by blast
qed


text \<open>The offset of the topic's length field, and the facts the accessors share.\<close>

definition body_at :: "nat \<Rightarrow> nat" where
  "body_at n = 1 + length (varlen n)"

lemma publish_packet_parts:
  fixes rest :: bytes
  assumes "length (publish_body topic qos mid data) < 16384"
    and "length (publish_packet topic qos retain mid data) \<le> unat len"
  defines "p \<equiv> publish_packet topic qos retain mid data @ rest"
    and "n \<equiv> length (publish_body topic qos mid data)"
  shows "length_loop p (unat len) 1 0 = Inr (body_at n, n)"
    and "skip_length p (unat len) 1 = Inr (body_at n)"
    and "get_u16 p (body_at n) = Inr (length topic)"
    and "length (publish_packet topic qos retain mid data) = body_at n + n"
    and "n = 2 + length topic + (if qos = 0 then 0 else 2) + length data"
    and "drop (body_at n + 2) p = topic @ (if qos = 0 then [] else id_bytes mid) @ data @ rest"
proof -
  let ?h = "fixed_header MQTT_MSG_TYPE_PUBLISH 0 qos retain"
  have pe: "p = (?h # varlen n) @ be16 (length topic) @ topic @ (if qos = 0 then [] else id_bytes mid) @ data @ rest"
    by (simp add: p_def n_def publish_packet_def publish_body_def Let_def)
  have pe': "p = ?h # varlen n @ publish_body topic qos mid data @ rest"
    by (simp add: p_def n_def publish_packet_def Let_def)
  have pre: "length (?h # varlen n) = body_at n" by (simp add: body_at_def)
  show len: "length (publish_packet topic qos retain mid data) = body_at n + n"
    by (simp add: body_at_def n_def publish_packet_def Let_def)
  show nn: "n = 2 + length topic + (if qos = 0 then 0 else 2) + length data"
    by (simp add: n_def publish_body_def id_bytes_def)
  show "length_loop p (unat len) 1 0 = Inr (body_at n, n)"
    unfolding pe' body_at_def
    by (rule length_loop_varlen) (use assms(1,2) len in \<open>simp_all add: body_at_def n_def\<close>)
  show "skip_length p (unat len) 1 = Inr (body_at n)"
    unfolding pe' body_at_def
    by (rule skip_length_varlen) (use assms(1,2) len in \<open>simp_all add: body_at_def n_def\<close>)
  have "length topic < 65536" using nn assms(1) by (simp add: n_def)
  then show "get_u16 p (body_at n) = Inr (length topic)"
    unfolding pe pre [symmetric] by (rule get_u16_at)
  show "drop (body_at n + 2) p = topic @ (if qos = 0 then [] else id_bytes mid) @ data @ rest"
    unfolding pe pre [symmetric] by simp
qed

lemma publish_packet_head:
  assumes "qos < 4"
  shows "mqtt_get_type (publish_packet topic qos retain mid data @ rest) = Inr MQTT_MSG_TYPE_PUBLISH"
    and "mqtt_get_qos (publish_packet topic qos retain mid data @ rest) = Inr (ucast qos)"
    and "mqtt_get_dup (publish_packet topic qos retain mid data @ rest) = Inr 0"
    and "mqtt_get_retain (publish_packet topic qos retain mid data @ rest) = Inr (ucast (retain AND 1))"
  using header_bits [OF assms, of MQTT_MSG_TYPE_PUBLISH retain]
  by (simp_all add: publish_packet_def Let_def mqtt_get_type_def mqtt_get_qos_def mqtt_get_dup_def mqtt_get_retain_def mqtt_types)

lemma ucast_small_qos: "qos < (4 :: u32) \<Longrightarrow> (ucast qos :: u8) > 0 \<longleftrightarrow> qos \<noteq> 0"
proof -
  assume "qos < 4"
  then have "qos = 0 \<or> qos = 1 \<or> qos = 2 \<or> qos = 3" by unat_arith
  then show ?thesis by auto
qed

lemma id_bytes_u16: "of_nat (unat (ucast (drop_bit 8 mid) :: u8) * 256 + unat (ucast (mid AND 0xff) :: u8)) = (mid :: u16)"
proof -
  have h: "unat (ucast (drop_bit 8 mid) :: u8) = unat mid div 256"
    using u16_bound [of mid] by (simp add: unat_ucast_mod unat_div drop_bit_eq_div)
  have "(0xff :: u16) = mask 8" by (simp add: mask_eq_exp_minus_1)
  then have "mid AND 0xff = take_bit 8 mid" by (simp add: take_bit_eq_mask)
  then have l: "unat (ucast (mid AND 0xff) :: u8) = unat mid mod 256"
    by (simp add: unat_ucast_mod unat_mod take_bit_eq_mod)
  have "unat mid div 256 * 256 + unat mid mod 256 = unat mid" by simp
  then show ?thesis unfolding h l by (simp only:) simp
qed

lemma get_u16_id:
  assumes "drop i p = id_bytes mid @ rest"
  shows "rbind (get_u16 p i) (\<lambda>v. Inr (of_nat v)) = Inr mid"
proof -
  have l: "i + 1 < length p"
  proof (rule ccontr)
    assume "\<not> i + 1 < length p"
    then have "length (drop i p) \<le> 1" by simp
    then show False unfolding assms by (simp add: id_bytes_def)
  qed
  have "p ! i = ucast (drop_bit 8 mid)" "p ! (i + 1) = ucast (mid AND 0xff)"
    using arg_cong [OF assms, of "\<lambda>xs. xs ! 0"] arg_cong [OF assms, of "\<lambda>xs. xs ! 1"] l
    by (simp_all add: id_bytes_def)
  with l id_bytes_u16 [of mid] show ?thesis by (simp add: get_u16_def)
qed

lemma publish_accessors:
  fixes rest :: bytes
  assumes qos: "qos < 4" and n: "length (publish_body topic qos mid data) < 16384"
    and len: "length (publish_packet topic qos retain mid data) \<le> unat len"
    and ne: "topic \<noteq> []" "data \<noteq> []"
  defines "p \<equiv> publish_packet topic qos retain mid data @ rest"
  shows "mqtt_get_total_length p len = Inr (length (publish_packet topic qos retain mid data))"
    and "\<exists>i. mqtt_get_publish_topic p len = Inr (Some i, of_nat (length topic)) \<and>
      take (length topic) (drop i p) = topic"
    and "\<exists>i. mqtt_get_publish_data p len = Inr (Some i, of_nat (length data)) \<and>
      take (length data) (drop i p) = data"
    and "mqtt_get_id p len = Inr (if qos = 0 then 0 else mid)"
proof -
  note parts = publish_packet_parts(1-3) [OF n len, where rest = rest, folded p_def] publish_packet_parts(4,5) [OF n len]
    publish_packet_parts(6) [OF n len, where rest = rest, folded p_def]
  note head = publish_packet_head [OF qos, of topic retain mid data rest, folded p_def]
  let ?n = "length (publish_body topic qos mid data)" and ?idl = "if qos = 0 then 0 else 2 :: nat"
  have pl: "body_at ?n + ?n \<le> unat len" using parts(4) len by simp
  have ids: "length (if qos = 0 then [] else id_bytes mid) = ?idl" by (simp add: id_bytes_def)
  have lt: "0 < length topic" "0 < length data" using ne by simp_all
  show "mqtt_get_total_length p len = Inr (length (publish_packet topic qos retain mid data))"
    by (simp add: mqtt_get_total_length_def parts(1) [unfolded One_nat_def] parts(4))
  have room: "body_at ?n + 2 < unat len" "body_at ?n + 2 + length topic \<le> unat len"
    using pl parts(5) lt by linarith+
  have "mqtt_get_publish_topic p len = Inr (Some (body_at ?n + 2), of_nat (length topic))"
    unfolding mqtt_get_publish_topic_def parts(1) using parts(3) room by (simp add: Let_def)
  moreover have "take (length topic) (drop (body_at ?n + 2) p) = topic"
    unfolding parts(6) by simp
  ultimately show "\<exists>i. mqtt_get_publish_topic p len = Inr (Some i, of_nat (length topic)) \<and>
      take (length topic) (drop i p) = topic" by blast
  let ?j = "body_at ?n + 2 + length topic + ?idl"
  have room': "body_at ?n + 2 + length topic < unat len" "?j < unat len" "\<not> ?n + body_at ?n < ?j"
    "?n + body_at ?n \<le> unat len" "?n + body_at ?n - ?j = length data"
    using pl parts(5) lt by linarith+
  have "mqtt_get_publish_data p len = Inr (Some ?j, of_nat (length data))"
    unfolding mqtt_get_publish_data_def parts(1)
    using parts(3) room room' head(2) ucast_small_qos [OF qos] by (cases "qos = 0") (simp_all add: Let_def)
  moreover have "drop ?j p = data @ rest"
  proof -
    have "drop ?j p = drop (length topic + ?idl) (drop (body_at ?n + 2) p)" by (simp add: ac_simps)
    then show ?thesis unfolding parts(6) using ids by (simp add: id_bytes_def)
  qed
  ultimately show "\<exists>i. mqtt_get_publish_data p len = Inr (Some i, of_nat (length data)) \<and>
      take (length data) (drop i p) = data" by (intro exI [of _ ?j]) simp
  have "drop (body_at ?n + 2 + length topic) p = id_bytes mid @ data @ rest" if "qos \<noteq> 0"
  proof -
    have "drop (body_at ?n + 2 + length topic) p = drop (length topic) (drop (body_at ?n + 2) p)"
      by (simp add: ac_simps)
    then show ?thesis unfolding parts(6) using that by simp
  qed
  from get_u16_id [OF this] show "mqtt_get_id p len = Inr (if qos = 0 then 0 else mid)"
    using head parts(2,3) room room' ucast_small_qos [OF qos]
    by (cases "qos = 0") (simp_all add: mqtt_get_id_def Let_def)
qed


section \<open>Every builder stays in the buffer\<close>

definition partial :: "mqtt_connection \<Rightarrow> mqtt_connection \<Rightarrow> bool" where
  "partial c0 c \<longleftrightarrow>
     conn_ok c \<and> buffer_length c = buffer_length c0 \<and> 3 \<le> unat (msg_length c) \<and>
     unat (msg_length c) \<le> unat (buffer_length c)"

definition finished :: "mqtt_connection \<Rightarrow> mqtt_connection result \<Rightarrow> bool" where
  "finished c0 r \<longleftrightarrow>
     (case r of Inl _ \<Rightarrow> False
      | Inr c \<Rightarrow> conn_ok c \<and> buffer_length c = buffer_length c0 \<and> msg_data c < length (buffer c) \<and>
          msg_data c + unat (msg_length c) \<le> length (buffer c))"

lemma finishedE:
  assumes "finished c0 r"
  obtains c where "r = Inr c" "finished c0 (Inr c)"
  using assms that by (cases r) (auto simp: finished_def)

lemma partial_built:
  assumes "partial c0 c"
  obtains xs where "built c xs" "unat (msg_length c) = 3 + length xs"
proof -
  let ?xs = "take (unat (msg_length c) - 3) (drop 3 (buffer c))"
  have "length (buffer c) = unat (buffer_length c)" "3 \<le> unat (msg_length c)"
    "unat (msg_length c) \<le> unat (buffer_length c)" "conn_ok c"
    using assms by (auto simp: partial_def conn_ok_def)
  then have "length ?xs = unat (msg_length c) - 3" by simp
  with \<open>conn_ok c\<close> \<open>3 \<le> unat (msg_length c)\<close> \<open>unat (msg_length c) \<le> unat (buffer_length c)\<close>
  show ?thesis using that [of ?xs] by (simp add: built_def)
qed

lemma built_partial: "built c xs \<Longrightarrow> buffer_length c = buffer_length c0 \<Longrightarrow> partial c0 c"
  by (auto simp: partial_def built_def)

lemma init_partial: "conn_ok c \<Longrightarrow> partial c (init_message c)"
  by (rule built_partial [OF init_built]) (simp_all add: init_message_def)

lemma finished_fail: "partial c0 c \<Longrightarrow> finished c0 (Inr (fail_message c))"
  by (auto simp: partial_def finished_def fail_message_def conn_ok_def)

lemma finished_fini: "partial c0 c \<Longrightarrow> finished c0 (fini_message c type dup qos retain)"
proof -
  assume p: "partial c0 c"
  obtain xs where b: "built c xs" using p by (rule partial_built)
  obtain c' where c': "fini_message c type dup qos retain = Inr c'" "conn_ok c'" "same_conn c c'"
    "wire c' = fixed_header type dup qos retain # varlen (length xs) @ xs"
    "unat (msg_length c') = 1 + length (varlen (length xs)) + length xs"
    using fini_built [OF b] by blast
  have "length (wire c') = unat (msg_length c')" "0 < unat (msg_length c')"
    using c'(4,5) by simp_all
  then have "msg_data c' + unat (msg_length c') \<le> length (buffer c') \<and> msg_data c' < length (buffer c')"
    by (auto simp: wire_def min_def split: if_splits)
  with c' p show ?thesis by (simp add: finished_def partial_def)
qed

lemma append_string_partial:
  assumes "partial c0 c"
  obtains r c' where "append_string c str = Inr (r, c')" "partial c0 c'"
    "unat (msg_length c) \<le> unat (msg_length c')"
proof -
  obtain xs where b: "built c xs" "unat (msg_length c) = 3 + length xs"
    using assms by (rule partial_built)
  show ?thesis
  proof (cases "5 + length xs + length str \<le> unat (buffer_length c)")
    case True
    obtain c' where c': "append_string c str = Inr (int (length str) + 2, c')"
      "built c' (xs @ be16 (length str) @ str)" "same_conn c c'"
      using append_string_built [OF b(1) True] by blast
    then have "unat (msg_length c) \<le> unat (msg_length c')" using b by (simp add: built_def)
    moreover have "partial c0 c'" using c' assms by (intro built_partial) (simp_all add: partial_def)
    ultimately show ?thesis using that c'(1) by blast
  next
    case False
    from that [OF append_string_full [OF b(1) this] assms] show ?thesis by simp
  qed
qed

lemma finished_append_or_fail:
  assumes "partial c0 c" "lo \<le> unat (msg_length c)"
    and "\<And>c'. partial c0 c' \<Longrightarrow> lo \<le> unat (msg_length c') \<Longrightarrow> finished c0 (k c')"
  shows "finished c0 (append_or_fail c (Some str) k)"
proof -
  obtain r c' where r: "append_string c str = Inr (r, c')" "partial c0 c'"
    "unat (msg_length c) \<le> unat (msg_length c')"
    using append_string_partial [OF assms(1)] by blast
  with assms show ?thesis by (simp add: append_or_fail_def finished_fail)
qed

lemma finished_or_flags:
  assumes "partial c0 c" "13 \<le> unat (msg_length c)"
    and "\<And>c'. partial c0 c' \<Longrightarrow> 13 \<le> unat (msg_length c') \<Longrightarrow> finished c0 (k c')"
  shows "finished c0 (rbind (or_flags c v) k)"
proof -
  have "10 < length (buffer c)" using assms(1,2) unfolding partial_def conn_ok_def by linarith
  moreover have "partial c0 (c\<lparr>buffer := (buffer c)[10 := x]\<rparr>)" for x
    using assms(1) by (auto simp: partial_def conn_ok_def)
  ultimately show ?thesis
    using assms(2,3) by (simp add: or_flags_def)
qed

lemma finished_or_flags_if:
  assumes "partial c0 c" "13 \<le> unat (msg_length c)"
    and "\<And>c'. partial c0 c' \<Longrightarrow> 13 \<le> unat (msg_length c') \<Longrightarrow> finished c0 (k c')"
  shows "finished c0 (rbind (if b then or_flags c v else Inr c) k)"
  using finished_or_flags [OF assms, where v = v] assms by simp

lemma finished_optional:
  assumes "partial c0 c" "13 \<le> unat (msg_length c)"
    and "\<And>c'. partial c0 c' \<Longrightarrow> 13 \<le> unat (msg_length c') \<Longrightarrow> finished c0 (k c')"
  shows "finished c0 (connect_optional c s v k)"
  using assms
  by (cases s)
    (auto simp: connect_optional_def given_def intro!: finished_append_or_fail [where lo = 13] finished_or_flags)

lemma finished_will:
  assumes "partial c0 c" "13 \<le> unat (msg_length c)"
    and "\<And>c'. partial c0 c' \<Longrightarrow> 13 \<le> unat (msg_length c') \<Longrightarrow> finished c0 (k c')"
    and "given (will_topic info) \<Longrightarrow> will_message info \<noteq> None"
  shows "finished c0 (connect_will info c k)"
proof (cases "given (will_topic info)")
  case False
  with assms show ?thesis by (simp add: connect_will_def)
next
  case True
  then obtain t msg where t: "will_topic info = Some t" "will_message info = Some msg"
    using assms(4) by (auto simp: given_def split: option.splits)
  with True assms(1-3) show ?thesis
    unfolding connect_will_def
    by (simp add: t) (intro finished_append_or_fail [where lo = 13] finished_or_flags finished_or_flags_if; simp)
qed

lemma mqtt_msg_connect_finished:
  assumes "conn_ok c" "given (will_topic info) \<Longrightarrow> will_message info \<noteq> None"
  shows "finished c (mqtt_msg_connect c info)"
proof (cases "13 \<le> unat (buffer_length c)")
  case False
  then have "mqtt_msg_connect c info = Inr (fail_message (init_message c))"
    by (simp add: mqtt_msg_connect_def Let_def init_message_def MQTT_MAX_FIXED_HEADER_SIZE_def)
  with assms(1) show ?thesis by (simp add: init_partial finished_fail)
next
  case True
  obtain c1 where c1: "append_bytes (init_message c) (connect_header info) = Inr c1"
    "built c1 (connect_header info)" "same_conn (init_message c) c1"
    using append_bytes_built [OF init_built [OF assms(1)], of "connect_header info"] True
    by (auto simp: connect_header_def init_message_def)
  have p1: "partial c c1" "13 \<le> unat (msg_length c1)"
    using c1(2,3) built_partial [OF c1(2), of c] by (simp_all add: init_message_def built_def connect_header_def)
  have tail: "finished c (connect_will info c' (\<lambda>c. connect_optional c (username info) 0x80 (\<lambda>c.
      connect_optional c (password info) 0x40 (\<lambda>c. fini_message c MQTT_MSG_TYPE_CONNECT 0 0 0))))"
    if "partial c c'" "13 \<le> unat (msg_length c')" for c'
    using that assms(2) by (intro finished_will finished_optional finished_fini)
  have "finished c (rbind (if clean_session info then or_flags c1 0x02 else Inr c1) (\<lambda>c.
        if given (client_id info) then
          append_or_fail c (client_id info) (\<lambda>c.
          connect_will info c (\<lambda>c.
          connect_optional c (username info) 0x80 (\<lambda>c.
          connect_optional c (password info) 0x40 (\<lambda>c.
          fini_message c MQTT_MSG_TYPE_CONNECT 0 0 0))))
        else Inr (fail_message c)))"
  proof (rule finished_or_flags_if [OF p1], goal_cases)
    case (1 c')
    then show ?case
      by (cases "client_id info")
        (auto simp: given_def finished_fail intro!: finished_append_or_fail [where lo = 13] tail)
  qed
  moreover have "unat (msg_length (init_message c)) = 3" "buffer_length (init_message c) = buffer_length c"
    by (simp_all add: init_message_def MQTT_MAX_FIXED_HEADER_SIZE_def)
  ultimately show ?thesis
    using True by (simp add: mqtt_msg_connect_def Let_def c1(1))
qed

lemma append_message_id_partial:
  assumes "partial c0 c"
  obtains r c' where "append_message_id c mid = Inr (r, c')" "partial c0 c'"
proof -
  obtain xs where b: "built c xs" "unat (msg_length c) = 3 + length xs"
    using assms by (rule partial_built)
  obtain m n where id: "assign_id mid (message_id c) = (m, n)" by fastforce
  show ?thesis
  proof (cases "5 + length xs \<le> unat (buffer_length c)")
    case True
    obtain c' where c': "append_message_id c mid = Inr (m, c')" "built c' (xs @ id_bytes m)"
      "buffer_length c' = buffer_length c"
      using append_message_id_built [OF b(1) True id] by blast
    moreover have "partial c0 c'" using c' assms by (intro built_partial) (simp_all add: partial_def)
    ultimately show ?thesis using that by blast
  next
    case False
    then have "append_message_id c mid = Inr (0, c\<lparr>message_id := n\<rparr>)"
      using b id by (simp add: append_message_id_def)
    moreover have "partial c0 (c\<lparr>message_id := n\<rparr>)" using assms by (auto simp: partial_def conn_ok_def)
    ultimately show ?thesis using that by blast
  qed
qed

lemma finished_id_message: "conn_ok c \<Longrightarrow> finished c (id_message c mid type qos)"
  unfolding id_message_def
  by (rule append_message_id_partial [OF init_partial, of c mid])
    (auto intro: finished_fail finished_fini)

lemma append_bytes_partial:
  assumes "partial c0 c" "unat (msg_length c) + length bs \<le> unat (buffer_length c)"
  obtains c' where "append_bytes c bs = Inr c'" "partial c0 c'"
proof -
  obtain xs where b: "built c xs" "unat (msg_length c) = 3 + length xs"
    using assms(1) by (rule partial_built)
  obtain c' where "append_bytes c bs = Inr c'" "built c' (xs @ bs)" "same_conn c c'"
    using append_bytes_built [OF b(1), of bs] b(2) assms(2) by auto
  with that built_partial [of c' "xs @ bs" c0] assms(1) show ?thesis by (simp add: partial_def)
qed

lemma finished_publish:
  assumes "conn_ok c"
  shows "finished c (map_sum id snd (mqtt_msg_publish c topic data qos retain))"
proof (cases "given topic")
  case False
  with assms show ?thesis by (simp add: mqtt_msg_publish_def Let_def init_partial finished_fail)
next
  case True
  then obtain str where str: "topic = Some str" "str \<noteq> []" by (auto simp: given_def split: option.splits)
  obtain r c1 where c1: "append_string (init_message c) str = Inr (r, c1)" "partial c c1"
    using append_string_partial [OF init_partial [OF assms]] by blast
  obtain mid c2 where c2: "(if 0 <s qos then append_message_id c1 0 else Inr (0, c1)) = Inr (mid, c2)" "partial c c2"
  proof (cases "0 <s qos")
    case True
    then show ?thesis using that append_message_id_partial [OF c1(2), of 0] by auto
  next
    case False
    then show ?thesis using that [of 0 c1] c1(2) by simp
  qed
  show ?thesis
  proof (cases "unat (msg_length c2) + length data \<le> unat (buffer_length c2)")
    case fits: True
    obtain c3 where c3: "append_bytes c2 data = Inr c3" "partial c c3"
      using append_bytes_partial [OF c2(2) fits] by blast
    from finished_fini [OF c3(2)] obtain c4 where
      c4: "fini_message c3 MQTT_MSG_TYPE_PUBLISH 0 qos retain = Inr c4" "finished c (Inr c4)"
      by (rule finishedE)
    show ?thesis
      using True str c1 c2 c3 c4 by (simp add: mqtt_msg_publish_def Let_def finished_fail)
  next
    case False
    then show ?thesis
      using True str c1 c2 by (simp add: mqtt_msg_publish_def Let_def finished_fail)
  qed
qed

lemma finished_topic_message:
  assumes "conn_ok c" "\<And>c'. partial c c' \<Longrightarrow> finished c (k c')"
  shows "finished c (map_sum id snd (topic_message c topic k))"
proof (cases "given topic")
  case False
  with assms show ?thesis by (simp add: topic_message_def Let_def init_partial finished_fail)
next
  case True
  then obtain str where str: "topic = Some str" by (auto simp: given_def split: option.splits)
  obtain mid c1 where c1: "append_message_id (init_message c) 0 = Inr (mid, c1)" "partial c c1"
    using append_message_id_partial [OF init_partial [OF assms(1)]] by blast
  have "finished c (append_or_fail c1 topic k)"
    unfolding str by (rule finished_append_or_fail [OF c1(2), where lo = 0]) (simp_all add: assms(2))
  then obtain c2 where c2: "append_or_fail c1 topic k = Inr c2" "finished c (Inr c2)"
    by (rule finishedE)
  with True c1 show ?thesis by (simp add: topic_message_def Let_def finished_fail)
qed

lemma finished_subscribe_tail:
  assumes "partial c0 c"
  shows "finished c0 (if unat (msg_length c) + 1 > unat (buffer_length c) then Inr (fail_message c)
    else rbind (append_byte c v) (\<lambda>c. fini_message c type dup qos retain))"
proof (cases "unat (msg_length c) + 1 > unat (buffer_length c)")
  case False
  then obtain c' where "append_bytes c [v] = Inr c'" "partial c0 c'"
    using append_bytes_partial [OF assms, of "[v]"] by auto
  moreover have "append_byte c v = append_bytes c [v]"
    using False assms by (intro append_byte_is) (simp add: partial_def conn_ok_def)
  ultimately show ?thesis using False by (simp add: finished_fini)
qed (simp add: assms finished_fail)


subsection \<open>Received packets\<close>

text \<open>The accessors read only inside the packet; only an over-long length field is undefined.\<close>

lemma length_loop_safe:
  assumes "len \<le> length buf"
  shows "length_loop buf len i t = Inl Overflow \<or> (\<exists>j t'. length_loop buf len i t = Inr (j, t') \<and> i \<le> j)"
  using assms
proof (induction buf len i t rule: length_loop.induct)
  case (1 buf len i t)
  show ?case
  proof (cases "i < len")
    case True
    let ?b = "buf ! i"
    let ?t = "t + unat (?b AND 0x7f) * 2 ^ (7 * (i - 1))"
    have ib: "i < length buf" using True 1(2) by simp
    show ?thesis
    proof (cases "7 * (i - 1) < 32 \<and> ?t < 2 ^ 31 \<and> ?b AND 0x80 \<noteq> 0")
      case rec: True
      then have "length_loop buf len i t = length_loop buf len (i + 1) ?t"
        using True ib by (subst length_loop.simps) (simp add: Let_def)
      moreover have "length_loop buf len (i + 1) ?t = Inl Overflow \<or>
          (\<exists>j t'. length_loop buf len (i + 1) ?t = Inr (j, t') \<and> i + 1 \<le> j)"
        by (rule 1(1) [OF True, of ?b ?t "()"]) (use rec ib 1(2) in simp_all)
      ultimately show ?thesis by fastforce
    next
      case False
      with True ib show ?thesis
        by (subst (1 2) length_loop.simps) (auto simp: Let_def guard_or_def)
    qed
  next
    case False
    then show ?thesis by (subst (2) length_loop.simps) simp
  qed
qed

lemma get_u16_in: "i + 1 < length buf \<Longrightarrow> \<exists>n. get_u16 buf i = Inr n \<and> n < 65536"
  using u8_bound [of "buf ! i"] u8_bound [of "buf ! (i + 1)"]
  by (simp add: get_u16_def)

text \<open>What an accessor may return for a packet of \<open>len\<close> bytes.\<close>

definition slice_ok :: "nat \<Rightarrow> (nat option \<times> u16) result \<Rightarrow> bool" where
  "slice_ok len r \<longleftrightarrow>
     (case r of Inl e \<Rightarrow> e = Overflow
      | Inr (None, _) \<Rightarrow> True
      | Inr (Some i, n) \<Rightarrow> i + unat n \<le> len)"

lemma slice_ok_simps [simp]:
  "slice_ok len (Inl e) \<longleftrightarrow> e = Overflow" "slice_ok len (Inr (None, n))"
  "slice_ok len (Inr (Some i, n)) \<longleftrightarrow> i + unat n \<le> len"
  by (simp_all add: slice_ok_def)

lemma unat_of_nat_le: "unat (of_nat n :: u16) \<le> n"
  by (simp add: unat_of_nat)

lemma publish_topic_safe:
  assumes "unat len \<le> length buf"
  shows "slice_ok (unat len) (mqtt_get_publish_topic buf len)"
proof -
  consider "length_loop buf (unat len) 1 0 = Inl Overflow"
    | i t where "length_loop buf (unat len) 1 0 = Inr (i, t)"
    using length_loop_safe [OF assms] by blast
  then show ?thesis
  proof cases
    case 2
    show ?thesis
    proof (cases "i + 2 < unat len")
      case True
      then obtain n where "get_u16 buf i = Inr n" using get_u16_in [of i buf] assms by auto
      with 2 True show ?thesis
        using unat_of_nat_le [of n] by (simp add: mqtt_get_publish_topic_def Let_def del: One_nat_def)
    qed (use 2 in \<open>simp add: mqtt_get_publish_topic_def del: One_nat_def\<close>)
  qed (simp add: mqtt_get_publish_topic_def del: One_nat_def)
qed

lemma publish_data_safe:
  assumes "unat len \<le> length buf"
  shows "slice_ok (unat len) (mqtt_get_publish_data buf len)"
proof -
  consider "length_loop buf (unat len) 1 0 = Inl Overflow"
    | i t where "length_loop buf (unat len) 1 0 = Inr (i, t)"
    using length_loop_safe [OF assms] by blast
  then show ?thesis
  proof cases
    case 2
    show ?thesis
    proof (cases "i + 2 < unat len")
      case True
      then obtain n where n: "get_u16 buf i = Inr n" using get_u16_in [of i buf] assms by auto
      have "0 < length buf" using True assms by linarith
      then obtain q where q: "mqtt_get_qos buf = Inr q"
        by (simp add: mqtt_get_qos_def)
      let ?j = "if q > 0 then i + 2 + n + 2 else i + 2 + n"
      have "unat (of_nat (t + i - ?j) :: u16) \<le> t + i - ?j" "unat (of_nat (unat len - ?j) :: u16) \<le> unat len - ?j"
        by (rule unat_of_nat_le)+
      then show ?thesis
        using 2 True n q by (auto simp: mqtt_get_publish_data_def Let_def simp del: One_nat_def)
    qed (use 2 in \<open>simp add: mqtt_get_publish_data_def Let_def del: One_nat_def\<close>)
  qed (simp add: mqtt_get_publish_data_def del: One_nat_def)
qed


section \<open>Properties\<close>

datatype mqtt_request =
    Connect mqtt_connect_info
  | Publish "bytes option" bytes u32 u32
  | Puback u16
  | Pubrec u16
  | Pubrel u16
  | Pubcomp u16
  | Subscribe "bytes option" u32
  | Unsubscribe "bytes option"
  | Pingreq
  | Pingresp
  | Disconnect

definition mqtt_build :: "mqtt_connection \<Rightarrow> mqtt_request \<Rightarrow> mqtt_connection result" where
  "mqtt_build c r =
     (case r of
        Connect info \<Rightarrow> mqtt_msg_connect c info
      | Publish topic data qos retain \<Rightarrow> map_sum id snd (mqtt_msg_publish c topic data qos retain)
      | Puback mid \<Rightarrow> mqtt_msg_puback c mid
      | Pubrec mid \<Rightarrow> mqtt_msg_pubrec c mid
      | Pubrel mid \<Rightarrow> mqtt_msg_pubrel c mid
      | Pubcomp mid \<Rightarrow> mqtt_msg_pubcomp c mid
      | Subscribe topic qos \<Rightarrow> map_sum id snd (mqtt_msg_subscribe c topic qos)
      | Unsubscribe topic \<Rightarrow> map_sum id snd (mqtt_msg_unsubscribe c topic)
      | Pingreq \<Rightarrow> mqtt_msg_pingreq c
      | Pingresp \<Rightarrow> mqtt_msg_pingresp c
      | Disconnect \<Rightarrow> mqtt_msg_disconnect c)"

lemma mqtt_build_finished:
  assumes "conn_ok c"
    and "\<And>info. r = Connect info \<Longrightarrow> given (will_topic info) \<Longrightarrow> will_message info \<noteq> None"
  shows "finished c (mqtt_build c r)"
proof (cases r)
  case (Connect info)
  with assms mqtt_msg_connect_finished show ?thesis by (simp add: mqtt_build_def)
next
  case (Subscribe topic qos)
  have "finished c (map_sum id snd (mqtt_msg_subscribe c topic qos))"
    unfolding mqtt_msg_subscribe_def
    by (intro finished_topic_message assms(1) finished_subscribe_tail)
  with Subscribe show ?thesis by (simp add: mqtt_build_def)
next
  case (Unsubscribe topic)
  have "finished c (map_sum id snd (mqtt_msg_unsubscribe c topic))"
    unfolding mqtt_msg_unsubscribe_def by (intro finished_topic_message assms(1) finished_fini)
  with Unsubscribe show ?thesis by (simp add: mqtt_build_def)
qed (use assms(1) in \<open>simp_all add: mqtt_build_def finished_publish finished_id_message finished_fini init_partial
    mqtt_msg_puback_def mqtt_msg_pubrec_def mqtt_msg_pubrel_def mqtt_msg_pubcomp_def
    mqtt_msg_pingreq_def mqtt_msg_pingresp_def mqtt_msg_disconnect_def\<close>)

text \<open>C22: on a connection whose buffer object has the recorded length and at least three bytes, every
  message builder returns, whatever the strings and payloads it is given: it never writes outside the
  buffer, and the message it returns (empty when it did not fit) lies inside it.\<close>

theorem mqtt_builders_safe:
  assumes "conn_ok c"
    and "\<And>info. r = Connect info \<Longrightarrow> given (will_topic info) \<Longrightarrow> will_message info \<noteq> None"
  shows "\<exists>c'. mqtt_build c r = Inr c' \<and> conn_ok c' \<and> buffer_length c' = buffer_length c \<and>
    msg_data c' + unat (msg_length c') \<le> length (buffer c')"
proof -
  have "finished c (mqtt_build c r)"
    using assms by (rule mqtt_build_finished)
  then obtain c' where "mqtt_build c r = Inr c'" "finished c (Inr c')" by (rule finishedE)
  then show ?thesis by (simp add: finished_def)
qed

definition sample_conn :: mqtt_connection where
  "sample_conn = \<lparr>msg_data = 0, msg_length = 0, message_id = 0xFFFF, buffer = replicate 32 0, buffer_length = 32\<rparr>"

theorem mqtt_builders_safe_witness:
  "\<exists>c'. mqtt_build sample_conn (Subscribe (Some [0x61, 0x2F, 0x62]) 1) = Inr c' \<and> conn_ok c' \<and>
    msg_data c' + unat (msg_length c') \<le> length (buffer c')"
  using mqtt_builders_safe [of sample_conn "Subscribe (Some [0x61, 0x2F, 0x62]) 1"]
  by (auto simp: sample_conn_def conn_ok_def)

text \<open>C11: a publish with a topic and a payload, neither of them empty, that fits the buffer (and the two-byte length
  field) is built as the packet the protocol prescribes, and the accessors applied to that packet return its type and
  flags (quality of service, retain, no duplicate), its total length, topic, payload and message id.\<close>

theorem mqtt_publish_round_trip:
  assumes "conn_ok c" "topic \<noteq> []" "data \<noteq> []" "qos < 4"
    and "5 + length topic + (if qos = 0 then 0 else 2) + length data \<le> unat (buffer_length c)"
    and "2 + length topic + (if qos = 0 then 0 else 2) + length data < 16384"
  shows "\<exists>c' mid i j. mqtt_msg_publish c (Some topic) data qos retain = Inr (Some mid, c') \<and>
    (mid = 0 \<longleftrightarrow> qos = 0) \<and>
    wire c' = publish_packet topic qos retain mid data \<and>
    mqtt_get_type (wire c') = Inr MQTT_MSG_TYPE_PUBLISH \<and> mqtt_get_qos (wire c') = Inr (ucast qos) \<and>
    mqtt_get_dup (wire c') = Inr 0 \<and> mqtt_get_retain (wire c') = Inr (ucast (retain AND 1)) \<and>
    mqtt_get_total_length (wire c') (msg_length c') = Inr (length (wire c')) \<and>
    mqtt_get_publish_topic (wire c') (msg_length c') = Inr (Some i, of_nat (length topic)) \<and>
    take (length topic) (drop i (wire c')) = topic \<and>
    mqtt_get_publish_data (wire c') (msg_length c') = Inr (Some j, of_nat (length data)) \<and>
    take (length data) (drop j (wire c')) = data \<and>
    mqtt_get_id (wire c') (msg_length c') = Inr mid"
proof -
  obtain c' mid where c': "mqtt_msg_publish c (Some topic) data qos retain = Inr (Some mid, c')"
    "wire c' = publish_packet topic qos retain mid data" "unat (msg_length c') = length (wire c')"
    "mid = (if qos = 0 then 0 else fst (assign_id 0 (message_id c)))"
    using publish_builds [OF assms(1,2,4,5)] by metis
  have n: "length (publish_body topic qos mid data) < 16384"
    using assms(6) by (simp add: publish_body_def id_bytes_def split: if_splits)
  have mid: "mid = 0 \<longleftrightarrow> qos = 0" "(if qos = 0 then 0 else mid) = mid"
    using c'(4) assign_id_nonzero by auto
  note head = publish_packet_head [OF assms(4), of topic retain mid data "[]", unfolded append_Nil2, folded c'(2)]
  note acc = publish_accessors [OF assms(4) n eq_imp_le [OF c'(3) [symmetric, unfolded c'(2)]] assms(2,3), where rest = "[]",
      unfolded append_Nil2, folded c'(2)]
  obtain i j where
    "mqtt_get_publish_topic (wire c') (msg_length c') = Inr (Some i, of_nat (length topic))"
    "take (length topic) (drop i (wire c')) = topic"
    "mqtt_get_publish_data (wire c') (msg_length c') = Inr (Some j, of_nat (length data))"
    "take (length data) (drop j (wire c')) = data"
    using acc(2,3) by blast
  with c'(1,2) mid head acc(1,4) show ?thesis by simp
qed

theorem mqtt_publish_round_trip_witness:
  "\<exists>c' mid i. mqtt_msg_publish sample_conn (Some [0x74]) [1, 2, 3] 1 1 = Inr (Some mid, c') \<and> mid \<noteq> 0 \<and>
    mqtt_get_qos (wire c') = Inr 1 \<and> mqtt_get_retain (wire c') = Inr 1 \<and>
    mqtt_get_publish_data (wire c') (msg_length c') = Inr (Some i, 3) \<and>
    take (length [1, 2, 3 :: u8]) (drop i (wire c')) = [1, 2, 3] \<and>
    mqtt_get_id (wire c') (msg_length c') = Inr mid"
  using mqtt_publish_round_trip [of sample_conn "[0x74]" "[1, 2, 3]" 1 1]
  by (simp add: sample_conn_def conn_ok_def) blast

text \<open>C23: whatever bytes a received packet holds, the topic and payload accessors never read outside it,
  the slice they return lies inside it, and the only undefined behaviour left is a length field that
  overflows a signed integer.\<close>

theorem mqtt_accessors_within_packet:
  assumes "unat len \<le> length buf"
  shows "slice_ok (unat len) (mqtt_get_publish_topic buf len) \<and>
    slice_ok (unat len) (mqtt_get_publish_data buf len)"
  using assms by (simp add: publish_topic_safe publish_data_safe)

theorem mqtt_accessors_within_packet_witness:
  "slice_ok 4 (mqtt_get_publish_topic [0x30, 0xFF, 0xFF, 0xFF] 4) \<and>
    slice_ok 4 (mqtt_get_publish_data [0x30, 0xFF, 0xFF, 0xFF] 4)"
  using mqtt_accessors_within_packet [of 4 "[0x30, 0xFF, 0xFF, 0xFF]"] by simp

text \<open>for a received publish above QoS 0 with an empty payload the payload accessor returns a null
  pointer but leaves the length argument at the length of the whole packet, so the caller goes on with
  a null pointer and a positive length.\<close>

theorem mqtt_empty_payload_null:
  assumes "qos < 4" "qos \<noteq> 0" "topic \<noteq> []" "length (publish_body topic qos mid []) < 16384"
    and "unat len = length (publish_packet topic qos retain mid [])"
  shows "mqtt_get_publish_data (publish_packet topic qos retain mid []) len = Inr (None, len) \<and> 0 < unat len"
proof -
  note len = eq_imp_le [OF assms(5) [symmetric]]
  note parts = publish_packet_parts(1-3) [OF assms(4) len, where rest = "[]", unfolded append_Nil2]
    publish_packet_parts(4,5) [OF assms(4) len]
  note head = publish_packet_head [OF assms(1), of topic retain mid "[]" "[]", unfolded append_Nil2]
  show ?thesis
    unfolding mqtt_get_publish_data_def parts(1)
    using parts(3,4,5) assms(5) head(2) ucast_small_qos [OF assms(1)] assms(2) by (simp add: Let_def)
qed

theorem mqtt_empty_payload_null_witness:
  "mqtt_get_publish_data (publish_packet [0x74] 1 0 7 []) 7 = Inr (None, 7)"
  using mqtt_empty_payload_null [of 1 "[0x74]" 7 7 0]
  by (simp add: publish_body_def publish_packet_def Let_def be16_def id_bytes_def varlen_def)

text \<open>the unsubscribe builder marks its packet as SUBSCRIBE, not as UNSUBSCRIBE.\<close>

theorem mqtt_unsubscribe_type:
  assumes "mqtt_msg_unsubscribe c (Some topic) = Inr (Some mid, c')" "conn_ok c" "topic \<noteq> []"
    and "7 + length topic \<le> unat (buffer_length c)"
  shows "mqtt_get_type (wire c') = Inr MQTT_MSG_TYPE_SUBSCRIBE"
proof -
  obtain m n where id: "assign_id 0 (message_id (init_message c)) = (m, n)" by fastforce
  have m: "m \<noteq> 0" using assign_id_nonzero [of 0 "message_id (init_message c)"] id by simp
  obtain c1 where c1: "append_message_id (init_message c) 0 = Inr (m, c1)" "built c1 ([] @ id_bytes m)"
    "buffer_length c1 = buffer_length (init_message c)"
    using append_message_id_built [OF init_built [OF assms(2)] _ id] assms(4) by (auto simp: init_message_def)
  obtain c2 where c2: "append_string c1 topic = Inr (int (length topic) + 2, c2)"
    "built c2 (id_bytes m @ be16 (length topic) @ topic)"
    using append_string_built [OF c1(2), of topic] assms(4) c1(3)
    by (auto simp: init_message_def id_bytes_def)
  obtain c3 rest where c3: "fini_message c2 MQTT_MSG_TYPE_SUBSCRIBE 0 1 0 = Inr c3"
    "wire c3 = fixed_header MQTT_MSG_TYPE_SUBSCRIBE 0 1 0 # rest"
    using fini_built [OF c2(2)] by metis
  have "mqtt_msg_unsubscribe c (Some topic) = Inr (Some m, c3)"
    using c1(1) c2(1) c3(1) m assms(3)
    by (simp add: mqtt_msg_unsubscribe_def topic_message_def Let_def given_def append_or_fail_def)
  then have "c' = c3" using assms(1) by simp
  with c3(2) show ?thesis by (simp add: mqtt_get_type_def fixed_header_def mqtt_types)
qed

lemma sample_unsubscribe:
  "mqtt_msg_unsubscribe sample_conn (Some [0x74]) =
     Inr (Some 1, sample_conn\<lparr>msg_data := 1, msg_length := 7, message_id := 1,
       buffer := [0, 0x82, 5, 0, 1, 0, 1, 0x74] @ replicate 24 0\<rparr>)"
  by code_simp

theorem mqtt_unsubscribe_type_witness:
  "mqtt_get_type (wire (sample_conn\<lparr>msg_data := 1, msg_length := 7, message_id := 1,
       buffer := [0, 0x82, 5, 0, 1, 0, 1, 0x74] @ replicate 24 0\<rparr>)) = Inr 8"
  using mqtt_unsubscribe_type [OF sample_unsubscribe]
  by (simp add: sample_conn_def conn_ok_def mqtt_types)

end
