(* ===== verification/Mqtt_Session.thy ===== *)
theory Mqtt_Session
  imports Mqtt_Msg Lua_Api
begin

text \<open>
  The MQTT client (\<open>modules/mqtt.c\<close>): an object that Lua scripts drive and that the network stack and
  a timer call back. It uses the codec of \<open>Mqtt_Msg\<close>. The state below is that of one client, together
  with the connection blocks (\<open>struct espconn\<close>) it allocates, as a heap: reading a block that was freed is
  an error. Callbacks into Lua run an arbitrary script, the argument \<open>run\<close>, which may call the client
  again. Allocations succeed.
\<close>

section \<open>State\<close>

definition MQTT_BUF_SIZE :: nat where "MQTT_BUF_SIZE = 1024"
definition MQTT_DEFAULT_KEEPALIVE :: u32 where "MQTT_DEFAULT_KEEPALIVE = 60"
definition MQTT_SEND_TIMEOUT :: u32 where "MQTT_SEND_TIMEOUT = 5"
definition MQTT_MSG_TYPE_CONNACK :: u8 where "MQTT_MSG_TYPE_CONNACK = 2"
definition IPADDR_NONE :: u32 where "IPADDR_NONE = 0xFFFFFFFF"

datatype tConnState = MQTT_INIT | MQTT_CONNECT_SEND | MQTT_CONNECT_SENDING | MQTT_DATA

record esp_tcp =
  remote_ip :: u32
  remote_port :: u32
  local_port :: u32

text \<open>\<open>reverse\<close> says whether the block points back to the client or holds a null pointer.\<close>

record espconn =
  reverse :: bool
  tcp :: "esp_tcp option"

text \<open>Calls to the network stack and the interpreter.\<close>

datatype mqtt_out =
    EspSent bool nat bytes
  | EspDisconnect bool nat
  | EspConnect bool nat
  | EspLookUp nat bytes
  | LuaCallback lua_value "lua_value list"
  | TimerArm
  | TimerDisarm

text \<open>
  A reference into the Lua registry is the value it refers to, none for \<open>LUA_NOREF\<close>; \<open>self_ref\<close> says whether
  the client refers to itself. The pointer \<open>outbound_message\<close> is null or points to the message of the
  connection. Once \<open>mqtt_msg_init\<close> has run, the connection's buffer is the object \<open>out_buffer\<close> points to; its
  contents are then those of the connection. The variable \<open>dns_reconn_count\<close> is static in the code, one for all
  clients; here there is one client.
\<close>

record mqtt_client =
  conns :: "nat \<Rightarrow> espconn option"
  next_conn :: nat
  pesp_conn :: "nat option"
  self_ref :: bool
  cb_connect_ref :: "lua_value option"
  cb_disconnect_ref :: "lua_value option"
  cb_message_ref :: "lua_value option"
  cb_suback_ref :: "lua_value option"
  cb_puback_ref :: "lua_value option"
  in_buffer :: bytes
  in_buffer_length :: u16
  out_buffer :: bytes
  out_buffer_length :: u16
  message_length :: u16
  message_length_read :: u16
  outbound_message :: bool
  mqtt_conn :: mqtt_connection
  pending_msg_id :: u16
  pending_msg_type :: u8
  pending_publish_qos :: u8
  connect_info :: mqtt_connect_info
  keep_alive_tick :: u32
  send_timeout :: u32
  secure :: bool
  connected :: bool
  timer_armed :: bool
  connState :: tConnState
  dns_reconn_count :: int
  mqtt_log :: "mqtt_out list"

type_synonym 'a mqtt_handler = "(mqtt_client, 'a) handler"

type_synonym lua_run = "lua_value \<Rightarrow> lua_value list \<Rightarrow> unit mqtt_handler"

definition mqtt_emit :: "mqtt_out list \<Rightarrow> unit mqtt_handler" where
  "mqtt_emit evs = mupd (\<lambda>w. w\<lparr>mqtt_log := mqtt_log w @ evs\<rparr>)"

text \<open>Following a pointer to a connection block.\<close>

definition get_conn :: "nat \<Rightarrow> espconn mqtt_handler" where
  "get_conn a = mbind (mget conns) (\<lambda>h. mlift (deref_block (h a)))"

definition put_conn :: "nat \<Rightarrow> espconn \<Rightarrow> unit mqtt_handler" where
  "put_conn a c = mupd (\<lambda>w. w\<lparr>conns := (conns w)(a \<mapsto> c)\<rparr>)"

text \<open>\<open>pesp_conn->proto.tcp = NULL; c_free(pesp_conn)\<close>\<close>

definition free_conn :: "nat \<Rightarrow> unit mqtt_handler" where
  "free_conn a = mbind (get_conn a) (\<lambda>_. mupd (\<lambda>w. w\<lparr>conns := (conns w)(a := None)\<rparr>))"

definition get_tcp :: "nat \<Rightarrow> esp_tcp mqtt_handler" where
  "get_tcp a = mbind (get_conn a) (\<lambda>c. mlift (deref (tcp c)))"

text \<open>The stack follows the pointer it is given; a null pointer it refuses.\<close>

definition esp_call :: "nat \<Rightarrow> (bool \<Rightarrow> mqtt_out) \<Rightarrow> unit mqtt_handler" where
  "esp_call a ev = mbind (get_conn a) (\<lambda>_. mbind (mget secure) (\<lambda>sec. mqtt_emit [ev sec]))"

definition esp_send :: "nat option \<Rightarrow> unit mqtt_handler" where
  "esp_send p =
     (case p of
        None \<Rightarrow> mret ()
      | Some a \<Rightarrow> mbind (mget mqtt_conn) (\<lambda>c. esp_call a (\<lambda>sec. EspSent sec a (wire c))))"

definition lua_call :: "lua_run \<Rightarrow> lua_value \<Rightarrow> lua_value list \<Rightarrow> unit mqtt_handler" where
  "lua_call run f args = mbind (mqtt_emit [LuaCallback f args]) (\<lambda>_. run f args)"

abbreviation self_value :: lua_value where
  "self_value \<equiv> LUserdata ''mqtt.socket'' 0"

text \<open>Calling back with the client and further arguments, when a callback and the client are referenced.\<close>

definition call_back :: "lua_run \<Rightarrow> (mqtt_client \<Rightarrow> lua_value option) \<Rightarrow> lua_value list \<Rightarrow> unit mqtt_handler" where
  "call_back run ref args =
     mbind (mget (\<lambda>w. (ref w, self_ref w))) (\<lambda>(f, self).
     case f of
       None \<Rightarrow> mret ()
     | Some f \<Rightarrow> if self then lua_call run f (self_value # args) else mret ())"

section \<open>Callbacks of the network stack\<close>

text \<open>The callbacks start by following the argument to the client.\<close>

definition with_client :: "nat option \<Rightarrow> 'a \<Rightarrow> (nat \<Rightarrow> 'a mqtt_handler) \<Rightarrow> 'a mqtt_handler" where
  "with_client arg x k =
     (case arg of
        None \<Rightarrow> mret x
      | Some a \<Rightarrow> mbind (get_conn a) (\<lambda>c. if reverse c then k a else mret x))"

definition mqtt_socket_disconnected :: "lua_run \<Rightarrow> nat option \<Rightarrow> unit mqtt_handler" where
  "mqtt_socket_disconnected run arg =
     with_client arg () (\<lambda>a.
     mbind (call_back run cb_disconnect_ref []) (\<lambda>_.
     mbind (mupd (\<lambda>w. w\<lparr>connected := False, timer_armed := False\<rparr>)) (\<lambda>_.
     mbind (mqtt_emit [TimerDisarm]) (\<lambda>_.
     mbind (get_conn a) (\<lambda>c.
     mbind (put_conn a (c\<lparr>tcp := None\<rparr>)) (\<lambda>_.
     mbind (mget pesp_conn) (\<lambda>p.
     mbind (case p of None \<Rightarrow> mret () | Some b \<Rightarrow> free_conn b) (\<lambda>_.
     mupd (\<lambda>w. w\<lparr>pesp_conn := None, self_ref := False\<rparr>)))))))))"

definition mqtt_socket_reconnected :: "lua_run \<Rightarrow> nat option \<Rightarrow> unit mqtt_handler" where
  "mqtt_socket_reconnected run arg = mqtt_socket_disconnected run arg"

text \<open>\<open>lua_pushlstring\<close> copies from the pointer it is given, here an offset into the receive buffer or null.\<close>

definition push_slice :: "bytes \<Rightarrow> nat option \<times> u16 \<Rightarrow> bytes result" where
  "push_slice buf = (\<lambda>(p, n).
     case p of
       None \<Rightarrow> if n = 0 then Inr [] else Inl NullPointer
     | Some i \<Rightarrow> if i + unat n \<le> length buf then Inr (take (unat n) (drop i buf)) else Inl (OutOfBounds (length buf)))"

definition deliver_publish :: "lua_run \<Rightarrow> u16 \<Rightarrow> unit mqtt_handler" where
  "deliver_publish run len =
     mbind (mget in_buffer) (\<lambda>buf.
     mbind (mlift (mqtt_get_publish_topic buf len)) (\<lambda>topic.
     mbind (mlift (mqtt_get_publish_data buf len)) (\<lambda>data.
     mbind (mget (\<lambda>w. (cb_message_ref w, self_ref w))) (\<lambda>(f, self).
     case f of
       None \<Rightarrow> mret ()
     | Some f \<Rightarrow>
         if \<not> self then mret ()
         else
         mbind (mlift (push_slice buf topic)) (\<lambda>t.
         if 0 < snd data then
           mbind (mlift (push_slice buf data)) (\<lambda>d. lua_call run f [self_value, LString t, LString d])
         else lua_call run f [self_value, LString t])))))"

text \<open>\<open>outbound_message = mqtt_msg_...(&mqtt_connection, ...)\<close>\<close>

definition answer :: "(mqtt_connection \<Rightarrow> mqtt_connection result) \<Rightarrow> unit mqtt_handler" where
  "answer build =
     mbind (mget mqtt_conn) (\<lambda>c.
     mbind (mlift (build c)) (\<lambda>c.
     mupd (\<lambda>w. w\<lparr>mqtt_conn := c, outbound_message := True\<rparr>)))"

definition send_outbound :: "nat \<Rightarrow> unit mqtt_handler" where
  "send_outbound a =
     mbind (mget outbound_message) (\<lambda>out.
     if out then mbind (esp_send (Some a)) (\<lambda>_. mupd (\<lambda>w. w\<lparr>outbound_message := False\<rparr>)) else mret ())"

text \<open>The switch over the type of a packet that arrives in the data state.\<close>

definition data_packet :: "lua_run \<Rightarrow> u8 \<Rightarrow> u8 \<Rightarrow> u16 \<Rightarrow> unit mqtt_handler" where
  "data_packet run msg_type msg_qos msg_id =
     mbind (mget (\<lambda>w. pending_msg_type w = MQTT_MSG_TYPE_PUBLISH \<and> pending_msg_id w = msg_id)) (\<lambda>pending.
     if msg_type = MQTT_MSG_TYPE_SUBACK then call_back run cb_suback_ref []
     else if msg_type = MQTT_MSG_TYPE_UNSUBACK then mret ()
     else if msg_type = MQTT_MSG_TYPE_PUBLISH then
       mbind (if msg_qos = 1 then answer (\<lambda>c. mqtt_msg_puback c msg_id)
              else if msg_qos = 2 then answer (\<lambda>c. mqtt_msg_pubrec c msg_id)
              else mret ()) (\<lambda>_.
       mbind (mget message_length_read) (\<lambda>len. deliver_publish run len))
     else if msg_type = MQTT_MSG_TYPE_PUBACK then if pending then call_back run cb_puback_ref [] else mret ()
     else if msg_type = MQTT_MSG_TYPE_PUBREC then answer (\<lambda>c. mqtt_msg_pubrel c msg_id)
     else if msg_type = MQTT_MSG_TYPE_PUBREL then answer (\<lambda>c. mqtt_msg_pubcomp c msg_id)
     else if msg_type = MQTT_MSG_TYPE_PUBCOMP then if pending then call_back run cb_puback_ref [] else mret ()
     else if msg_type = MQTT_MSG_TYPE_PINGREQ then answer mqtt_msg_pingresp
     else mret ())"

text \<open>
  The loop over the packets of a segment (the label \<open>READPACKET\<close>). The test of the length before the
  copy is never true, so it is left out. The first argument bounds the number of rounds; the
  result is false when the function has not returned within it.
\<close>

fun read_packets :: "nat \<Rightarrow> lua_run \<Rightarrow> nat \<Rightarrow> bytes \<Rightarrow> bool mqtt_handler" where
  "read_packets 0 run a pdata = mret False"
| "read_packets (Suc fuel) run a pdata =
     mbind (mget in_buffer) (\<lambda>buf.
     mbind (mlift (arr_copy buf 0 pdata)) (\<lambda>buf.
     mbind (mupd (\<lambda>w. w\<lparr>in_buffer := buf, outbound_message := False\<rparr>)) (\<lambda>_.
     mbind (mget connState) (\<lambda>st.
     case st of
       MQTT_CONNECT_SENDING \<Rightarrow>
         mbind (mlift (mqtt_get_type buf)) (\<lambda>type.
         if type \<noteq> MQTT_MSG_TYPE_CONNACK then
           mbind (mupd (\<lambda>w. w\<lparr>connState := MQTT_INIT\<rparr>)) (\<lambda>_.
           mbind (esp_call a (\<lambda>sec. EspDisconnect sec a)) (\<lambda>_.
           mbind (send_outbound a) (\<lambda>_. mret True)))
         else
           mbind (mupd (\<lambda>w. w\<lparr>connState := MQTT_DATA\<rparr>)) (\<lambda>_.
           mbind (call_back run cb_connect_ref []) (\<lambda>_. mret True)))
     | MQTT_DATA \<Rightarrow>
         mbind (mupd (\<lambda>w. w\<lparr>message_length_read := of_nat (length pdata)\<rparr>)) (\<lambda>_.
         mbind (mlift (mqtt_get_total_length buf (of_nat (length pdata)))) (\<lambda>total.
         mbind (mupd (\<lambda>w. w\<lparr>message_length := of_nat total\<rparr>)) (\<lambda>_.
         mbind (mlift (mqtt_get_type buf)) (\<lambda>msg_type.
         mbind (mlift (mqtt_get_qos buf)) (\<lambda>msg_qos.
         mbind (mget in_buffer_length) (\<lambda>len.
         mbind (mlift (mqtt_get_id buf len)) (\<lambda>msg_id.
         mbind (data_packet run msg_type msg_qos msg_id) (\<lambda>_.
         mbind (mget (\<lambda>w. (message_length w, message_length_read w))) (\<lambda>(ml, mlr).
         if msg_type = MQTT_MSG_TYPE_PUBLISH \<and> ml < mlr
         then read_packets fuel run a (drop (unat ml) pdata)
         else mbind (send_outbound a) (\<lambda>_. mret True))))))))))
     | _ \<Rightarrow> mbind (send_outbound a) (\<lambda>_. mret True)))))"

definition mqtt_socket_received :: "nat \<Rightarrow> lua_run \<Rightarrow> nat option \<Rightarrow> bytes \<Rightarrow> bool mqtt_handler" where
  "mqtt_socket_received fuel run arg pdata = with_client arg True (\<lambda>a. read_packets fuel run a pdata)"

definition mqtt_socket_sent :: "lua_run \<Rightarrow> nat option \<Rightarrow> unit mqtt_handler" where
  "mqtt_socket_sent run arg =
     with_client arg () (\<lambda>a.
     mbind (mget connected) (\<lambda>con.
     if \<not> con then mret ()
     else
     mbind (mupd (\<lambda>w. w\<lparr>send_timeout := 0\<rparr>)) (\<lambda>_.
     mbind (mget (\<lambda>w. pending_msg_type w = MQTT_MSG_TYPE_PUBLISH \<and> pending_publish_qos w = 0)) (\<lambda>done.
     if done then call_back run cb_puback_ref [] else mret ()))))"

definition mqtt_socket_connected :: "nat option \<Rightarrow> unit mqtt_handler" where
  "mqtt_socket_connected arg =
     with_client arg () (\<lambda>a.
     mbind (mupd (\<lambda>w. w\<lparr>connected := True\<rparr>)) (\<lambda>_.
     mbind (mupd (\<lambda>w. w\<lparr>mqtt_conn := mqtt_msg_init (mqtt_conn w)
       (if buffer (mqtt_conn w) = [] then out_buffer w else buffer (mqtt_conn w)) (out_buffer_length w)\<rparr>)) (\<lambda>_.
     mbind (mget connect_info) (\<lambda>info.
     mbind (answer (\<lambda>c. mqtt_msg_connect c info)) (\<lambda>_.
     mbind (esp_send (Some a)) (\<lambda>_.
     mupd (\<lambda>w. w\<lparr>outbound_message := False, connState := MQTT_CONNECT_SENDING\<rparr>)))))))"

text \<open>The timer runs every second while it is armed.\<close>

definition mqtt_socket_timer :: "unit mqtt_handler" where
  "mqtt_socket_timer =
     mbind (mget id) (\<lambda>w.
     mbind (if connState w = MQTT_DATA then
              mbind (mupd (\<lambda>w. w\<lparr>keep_alive_tick := keep_alive_tick w + 1\<rparr>)) (\<lambda>_.
              mbind (mget (\<lambda>w. keepalive (connect_info w) < keep_alive_tick w)) (\<lambda>due.
              if due then
                mbind (mupd (\<lambda>w. w\<lparr>pending_msg_type := MQTT_MSG_TYPE_PINGREQ, send_timeout := MQTT_SEND_TIMEOUT\<rparr>)) (\<lambda>_.
                mbind (answer mqtt_msg_pingreq) (\<lambda>_.
                mbind (esp_send (pesp_conn w)) (\<lambda>_.
                mupd (\<lambda>w. w\<lparr>keep_alive_tick := 0\<rparr>))))
              else mret ()))
            else mret ()) (\<lambda>_.
     mupd (\<lambda>w. if 0 < send_timeout w then w\<lparr>send_timeout := send_timeout w - 1\<rparr> else w)))"


section \<open>Lua functions\<close>

text \<open>
  What the functions get from outside: the address in a string (\<open>IPADDR_NONE\<close> when it is none), the
  answer of the resolver when it has it at once, a free local port, and what an uninitialised
  variable on the stack happens to hold.
\<close>

record net_env =
  ipaddr_addr :: "bytes \<Rightarrow> u32"
  gethostbyname :: "bytes \<Rightarrow> u32 option"
  espconn_port :: u32
  stack_word :: u32

definition cstr :: "bytes \<Rightarrow> bytes" where
  "cstr = takeWhile (\<lambda>b. b \<noteq> 0)"

definition luaL_checkanyfunction :: "lua_value \<Rightarrow> unit result" where
  "luaL_checkanyfunction v =
     (if is_function v then Inr () else Inl (LuaError ''function or lightfunction expected''))"

definition check_client :: "lua_value list \<Rightarrow> nat result" where
  "check_client args = luaL_checkudata (index2adr args 1) ''mqtt.socket''"

definition empty_info :: mqtt_connect_info where
  "empty_info = \<lparr>client_id = None, username = None, password = None, will_topic = None, will_message = None,
     keepalive = 0, will_qos = 0, will_retain = False, clean_session = False\<rparr>"

text \<open>
  A new client; \<open>default_id\<close> is the identifier made from the number of the chip, \<open>garbage\<close> what the memory
  of the field \<open>connected\<close> held, which the function does not set.
\<close>

definition new_client :: "bytes \<Rightarrow> bool \<Rightarrow> mqtt_client" where
  "new_client ident garbage =
     \<lparr>conns = (\<lambda>_. None), next_conn = 0, pesp_conn = None, self_ref = False, cb_connect_ref = None,
      cb_disconnect_ref = None, cb_message_ref = None, cb_suback_ref = None, cb_puback_ref = None,
      in_buffer = replicate MQTT_BUF_SIZE 0, in_buffer_length = of_nat MQTT_BUF_SIZE,
      out_buffer = replicate MQTT_BUF_SIZE 0, out_buffer_length = of_nat MQTT_BUF_SIZE,
      message_length = 0, message_length_read = 0, outbound_message = False,
      mqtt_conn = \<lparr>msg_data = 0, msg_length = 0, message_id = 0, buffer = [], buffer_length = 0\<rparr>,
      pending_msg_id = 0, pending_msg_type = 0, pending_publish_qos = 0,
      connect_info = empty_info\<lparr>client_id := Some (cstr ident), clean_session := True\<rparr>,
      keep_alive_tick = 0, send_timeout = 0, secure = False, connected = garbage, timer_armed = False,
      connState = MQTT_INIT, dns_reconn_count = 0, mqtt_log = []\<rparr>"

text \<open>An optional string argument: it and the position of the next argument.\<close>

definition string_arg :: "lua_conv \<Rightarrow> lua_value list \<Rightarrow> nat \<Rightarrow> (bytes option \<times> nat) result" where
  "string_arg cv args stack =
     (if lua_isstring (index2adr args stack)
      then rbind (luaL_checklstring cv (index2adr args stack)) (\<lambda>s. Inr (Some s, stack + 1))
      else Inr (None, stack))"

definition mqtt_socket_client :: "lua_conv \<Rightarrow> bytes \<Rightarrow> bool \<Rightarrow> lua_value list \<Rightarrow> mqtt_client result" where
  "mqtt_socket_client cv default_id garbage args =
     rbind (string_arg cv args 1) (\<lambda>(ident, stack).
     let w = new_client (case ident of None \<Rightarrow> default_id | Some s \<Rightarrow> s) garbage in
     rbind (if lua_isnumber cv (index2adr args stack)
            then rbind (luaL_checkinteger cv (index2adr args stack)) (\<lambda>k. Inr (k, stack + 1))
            else Inr (0, stack)) (\<lambda>(k, stack).
     if k = 0 then Inr (w\<lparr>connect_info := (connect_info w)\<lparr>keepalive := MQTT_DEFAULT_KEEPALIVE\<rparr>\<rparr>)
     else
     rbind (string_arg cv args stack) (\<lambda>(user, stack).
     rbind (string_arg cv args stack) (\<lambda>(pass, stack).
     let str = (\<lambda>s. Some (case s of None \<Rightarrow> [] | Some s \<Rightarrow> cstr s)) in
     Inr (w\<lparr>connect_info := (connect_info w)\<lparr>keepalive := k, username := str user, password := str pass\<rparr>\<rparr>)))))"

definition mqtt_delete :: "lua_value list \<Rightarrow> lua_value list mqtt_handler" where
  "mqtt_delete args =
     mbind (mlift (check_client args)) (\<lambda>_.
     mbind (mqtt_emit [TimerDisarm]) (\<lambda>_.
     mbind (mupd (\<lambda>w. w\<lparr>timer_armed := False, connected := False\<rparr>)) (\<lambda>_.
     mbind (mget pesp_conn) (\<lambda>p.
     mbind (case p of None \<Rightarrow> mret () | Some b \<Rightarrow> free_conn b) (\<lambda>_.
     mbind (mupd (\<lambda>w. w\<lparr>pesp_conn := None,
       connect_info := (connect_info w)\<lparr>will_topic := None, will_message := None, client_id := None,
         username := None, password := None\<rparr>,
       in_buffer := [], out_buffer := [], cb_connect_ref := None, cb_disconnect_ref := None, cb_message_ref := None,
       cb_suback_ref := None, cb_puback_ref := None, self_ref := False\<rparr>)) (\<lambda>_.
     mret []))))))"

definition socket_connect :: "nat option \<Rightarrow> unit mqtt_handler" where
  "socket_connect arg = with_client arg () (\<lambda>a. esp_call a (\<lambda>sec. EspConnect sec a))"

definition set_tcp :: "nat \<Rightarrow> (esp_tcp \<Rightarrow> esp_tcp) \<Rightarrow> unit mqtt_handler" where
  "set_tcp a f =
     mbind (get_conn a) (\<lambda>c. mbind (mlift (deref (tcp c))) (\<lambda>t. put_conn a (c\<lparr>tcp := Some (f t)\<rparr>)))"

definition socket_dns_found :: "lua_run \<Rightarrow> bytes \<Rightarrow> u32 option \<Rightarrow> nat option \<Rightarrow> unit mqtt_handler" where
  "socket_dns_found run name ipaddr arg =
     (case arg of
        None \<Rightarrow> mret ()
      | Some a \<Rightarrow>
          (case ipaddr of
             None \<Rightarrow>
               mbind (mupd (\<lambda>w. w\<lparr>dns_reconn_count := dns_reconn_count w + 1\<rparr>)) (\<lambda>_.
               mbind (mget dns_reconn_count) (\<lambda>n.
               if 5 \<le> n then mqtt_socket_disconnected run arg
               else mbind (get_conn a) (\<lambda>_. mqtt_emit [EspLookUp a name])))
           | Some ip \<Rightarrow>
               if ip \<noteq> 0 then
                 mbind (mupd (\<lambda>w. w\<lparr>dns_reconn_count := 0\<rparr>)) (\<lambda>_.
                 mbind (set_tcp a (\<lambda>t. t\<lparr>remote_ip := ip\<rparr>)) (\<lambda>_.
                 socket_connect arg))
               else mret ()))"

definition mqtt_socket_lwt :: "lua_conv \<Rightarrow> lua_value list \<Rightarrow> lua_value list mqtt_handler" where
  "mqtt_socket_lwt cv args =
     mbind (mlift (check_client args)) (\<lambda>_.
     mbind (mlift (luaL_checklstring cv (index2adr args 2))) (\<lambda>topic.
     mbind (mlift (luaL_checklstring cv (index2adr args 3))) (\<lambda>msg.
     mbind (mupd (\<lambda>w. w\<lparr>connect_info := (connect_info w)\<lparr>will_topic := Some (cstr topic), will_message := Some (cstr msg)\<rparr>\<rparr>)) (\<lambda>_.
     mbind (mlift (luaL_checkinteger cv (index2adr args 4))) (\<lambda>qos.
     mbind (mupd (\<lambda>w. w\<lparr>connect_info := (connect_info w)\<lparr>will_qos := qos\<rparr>\<rparr>)) (\<lambda>_.
     mbind (mlift (luaL_checkinteger cv (index2adr args 5))) (\<lambda>retain.
     mbind (mupd (\<lambda>w. w\<lparr>connect_info := (connect_info w)\<lparr>will_retain := retain \<noteq> 0\<rparr>\<rparr>)) (\<lambda>_.
     mret []))))))))"

text \<open>The arguments of \<open>connect\<close>: host, port, security and callback, each optional.\<close>

definition number_arg :: "lua_conv \<Rightarrow> lua_value list \<Rightarrow> nat \<Rightarrow> (u32 option \<times> nat) result" where
  "number_arg cv args stack =
     (if stack \<le> length args \<and> lua_isnumber cv (index2adr args stack)
      then rbind (lua_tointeger cv (index2adr args stack)) (\<lambda>n. Inr (Some n, stack + 1))
      else Inr (None, stack))"

definition drop_conn :: "unit mqtt_handler" where
  "drop_conn =
     mbind (mget pesp_conn) (\<lambda>p.
     mbind (case p of None \<Rightarrow> mret () | Some b \<Rightarrow> free_conn b) (\<lambda>_.
     mupd (\<lambda>w. w\<lparr>pesp_conn := None\<rparr>)))"

definition new_conn :: "nat mqtt_handler" where
  "new_conn =
     mbind (mget next_conn) (\<lambda>a.
     mbind (mupd (\<lambda>w. w\<lparr>next_conn := Suc a, pesp_conn := Some a,
       conns := (conns w)(a \<mapsto> \<lparr>reverse = True, tcp = Some \<lparr>remote_ip = 0, remote_port = 0, local_port = 0\<rparr>\<rparr>),
       connected := False\<rparr>)) (\<lambda>_.
     mret a))"

definition look_up :: "net_env \<Rightarrow> lua_run \<Rightarrow> bytes option \<Rightarrow> u32 \<Rightarrow> nat \<Rightarrow> unit mqtt_handler" where
  "look_up env run domain ip a =
     (if ip = IPADDR_NONE then
        mbind (mlift (deref domain)) (\<lambda>name.
        if name \<noteq> map (of_nat \<circ> of_char) ''255.255.255.255'' then
          mbind (mupd (\<lambda>w. w\<lparr>dns_reconn_count := 0\<rparr>)) (\<lambda>_.
          mbind (mqtt_emit [EspLookUp a name]) (\<lambda>_.
          case gethostbyname env name of
            None \<Rightarrow> mret ()
          | Some ip \<Rightarrow> socket_dns_found run name (Some ip) (Some a)))
        else socket_connect (Some a))
      else socket_connect (Some a))"

definition mqtt_socket_connect :: "net_env \<Rightarrow> lua_conv \<Rightarrow> lua_run \<Rightarrow> lua_value list \<Rightarrow> lua_value list mqtt_handler" where
  "mqtt_socket_connect env cv run args =
     mbind (mlift (check_client args)) (\<lambda>_.
     mbind drop_conn (\<lambda>_.
     mbind new_conn (\<lambda>a.
     mbind (mlift (if 2 \<le> length args then string_arg cv args 2 else Inr (None, 2))) (\<lambda>(domain, stack).
     let ip = (case domain of None \<Rightarrow> stack_word env | Some s \<Rightarrow> ipaddr_addr env (cstr s)) in
     mbind (if domain = None then mret () else set_tcp a (\<lambda>t. t\<lparr>remote_ip := ip\<rparr>)) (\<lambda>_.
     mbind (mlift (number_arg cv args stack)) (\<lambda>(port, stack).
     mbind (set_tcp a (\<lambda>t. t\<lparr>remote_port := (case port of None \<Rightarrow> 1883 | Some p \<Rightarrow> p), local_port := espconn_port env\<rparr>)) (\<lambda>_.
     mbind (mlift (number_arg cv args stack)) (\<lambda>(sec, stack).
     mbind (mupd (\<lambda>w. w\<lparr>secure := sec = Some 1\<rparr>)) (\<lambda>_.
     mbind (if stack \<le> length args \<and> is_function (index2adr args stack)
            then mupd (\<lambda>w. w\<lparr>cb_connect_ref := Some (index2adr args stack)\<rparr>) else mret ()) (\<lambda>_.
     mbind (mupd (\<lambda>w. w\<lparr>self_ref := True\<rparr>)) (\<lambda>_.
     mbind (look_up env run (map_option cstr domain) ip a) (\<lambda>_.
     mbind (mqtt_emit [TimerDisarm, TimerArm]) (\<lambda>_.
     mbind (mupd (\<lambda>w. w\<lparr>timer_armed := True\<rparr>)) (\<lambda>_.
     mret []))))))))))))))"

definition mqtt_socket_close :: "lua_value list \<Rightarrow> lua_value list mqtt_handler" where
  "mqtt_socket_close args =
     mbind (mlift (check_client args)) (\<lambda>_.
     mbind (mget pesp_conn) (\<lambda>p.
     case p of
       None \<Rightarrow> mret []
     | Some a \<Rightarrow>
         mbind (get_tcp a) (\<lambda>t.
         mbind (if remote_port t \<noteq> 0 \<or> local_port t \<noteq> 0 then esp_call a (\<lambda>sec. EspDisconnect sec a) else mret ()) (\<lambda>_.
         mret []))))"

definition mqtt_socket_on :: "lua_conv \<Rightarrow> lua_value list \<Rightarrow> lua_value list mqtt_handler" where
  "mqtt_socket_on cv args =
     mbind (mlift (check_client args)) (\<lambda>_.
     mbind (mlift (luaL_checklstring cv (index2adr args 2))) (\<lambda>name.
     mbind (mlift (luaL_checkanyfunction (index2adr args 3))) (\<lambda>_.
     let f = Some (index2adr args 3); is = (\<lambda>s. name = map (of_nat \<circ> of_char) s) in
     if is ''connect'' then mbind (mupd (\<lambda>w. w\<lparr>cb_connect_ref := f\<rparr>)) (\<lambda>_. mret [])
     else if is ''offline'' then mbind (mupd (\<lambda>w. w\<lparr>cb_disconnect_ref := f\<rparr>)) (\<lambda>_. mret [])
     else if is ''message'' then mbind (mupd (\<lambda>w. w\<lparr>cb_message_ref := f\<rparr>)) (\<lambda>_. mret [])
     else mfail (LuaError ''method not supported''))))"

text \<open>A message of the codec that also yields a message identifier, written through a pointer.\<close>

definition compose :: "(mqtt_connection \<Rightarrow> (u16 option \<times> mqtt_connection) result) \<Rightarrow> unit mqtt_handler" where
  "compose build =
     mbind (mget mqtt_conn) (\<lambda>c.
     mbind (mlift (build c)) (\<lambda>(mid, c).
     mupd (\<lambda>w. w\<lparr>mqtt_conn := c, outbound_message := True,
       pending_msg_id := (case mid of None \<Rightarrow> pending_msg_id w | Some i \<Rightarrow> i)\<rparr>)))"

text \<open>
  The table of \<open>subscribe\<close>: the pairs \<open>lua_next\<close> yields, and whether it then fails because \<open>luaL_checkstring\<close> has
  turned a number key into a string in place.
\<close>

definition table_pairs :: "lua_conv \<Rightarrow> lua_value \<Rightarrow> (bytes \<times> lua_value) list \<times> bool" where
  "table_pairs cv v =
     (case v of
        LMap ps \<Rightarrow> (ps, False)
      | LTable (x # _) \<Rightarrow> ([(num2str cv (Fin 1 0), x)], True)
      | _ \<Rightarrow> ([], False))"

fun subscribe_all :: "lua_conv \<Rightarrow> (bytes \<times> lua_value) list \<Rightarrow> bytes list mqtt_handler" where
  "subscribe_all cv [] = mret []"
| "subscribe_all cv ((topic, v) # ps) =
     mbind (mlift (luaL_checkinteger cv v)) (\<lambda>qos.
     mbind (compose (\<lambda>c. mqtt_msg_subscribe c (Some (cstr topic)) (ucast (ucast qos :: u8)))) (\<lambda>_.
     mbind (mget (\<lambda>w. wire (mqtt_conn w))) (\<lambda>m.
     mbind (subscribe_all cv ps) (\<lambda>ms. mret (m # ms)))))"

text \<open>
  The stored messages are copied one behind the other while they fit. A message of length 0 is passed over; any other
  is freed, and the loop then reads \<open>curr->next\<close> from the freed block.
\<close>

fun pack_messages :: "nat \<Rightarrow> bytes list \<Rightarrow> nat \<Rightarrow> bytes \<Rightarrow> (nat \<times> bytes) result" where
  "pack_messages limit [] ptr buf = Inr (ptr, buf)"
| "pack_messages limit (m # ms) ptr buf =
     (if m = [] then pack_messages limit ms ptr buf
      else
      rbind (if ptr + length m < limit
             then rbind (arr_copy buf ptr m) (\<lambda>buf. Inr (ptr + length m, buf)) else Inr (ptr, buf)) (\<lambda>(ptr, buf).
      Inl UseAfterFree))"

definition subscribe_table :: "lua_conv \<Rightarrow> lua_value \<Rightarrow> unit mqtt_handler" where
  "subscribe_table cv v =
     (let (ps, bad_key) = table_pairs cv v in
      mbind (subscribe_all cv ps) (\<lambda>ms.
      if bad_key then mfail (LuaError ''invalid key to next'')
      else
      mbind (mget (\<lambda>w. (mqtt_conn w, out_buffer_length w))) (\<lambda>(c, limit).
      mbind (mlift (pack_messages (unat limit) ms 0 (buffer c))) (\<lambda>(ptr, buf).
      mbind (mupd (\<lambda>w. w\<lparr>mqtt_conn := (mqtt_conn w)\<lparr>buffer := buf\<rparr>\<rparr>)) (\<lambda>_.
      if ptr = 0 then mfail (LuaError ''invalid data'')
      else mupd (\<lambda>w. w\<lparr>mqtt_conn := (mqtt_conn w)\<lparr>msg_data := 0, msg_length := of_nat ptr\<rparr>\<rparr>))))))"

definition mqtt_socket_subscribe :: "lua_conv \<Rightarrow> lua_value list \<Rightarrow> lua_value list mqtt_handler" where
  "mqtt_socket_subscribe cv args =
     mbind (mlift (check_client args)) (\<lambda>_.
     mbind (mget send_timeout) (\<lambda>busy.
     if busy \<noteq> 0 then mfail (LuaError ''sending in process'')
     else
     mbind (mget connected) (\<lambda>con.
     if \<not> con then mfail (LuaError ''not connected'')
     else
     mbind (if lua_istable (index2adr args 2) then mbind (subscribe_table cv (index2adr args 2)) (\<lambda>_. mret 3)
            else
              mbind (mlift (luaL_checklstring cv (index2adr args 2))) (\<lambda>topic.
              mbind (mlift (luaL_checkinteger cv (index2adr args 3))) (\<lambda>qos.
              mbind (compose (\<lambda>c. mqtt_msg_subscribe c (Some (cstr topic)) (ucast (ucast qos :: u8)))) (\<lambda>_.
              mret 4)))) (\<lambda>stack.
     mbind (mupd (\<lambda>w. w\<lparr>send_timeout := MQTT_SEND_TIMEOUT, pending_msg_type := MQTT_MSG_TYPE_SUBSCRIBE\<rparr>)) (\<lambda>_.
     mbind (mget mqtt_conn) (\<lambda>c.
     mbind (mlift (mqtt_get_qos (drop (msg_data c) (buffer c)))) (\<lambda>qos.
     mbind (mupd (\<lambda>w. w\<lparr>pending_publish_qos := qos,
       cb_suback_ref := (if is_function (index2adr args stack) then Some (index2adr args stack) else cb_suback_ref w)\<rparr>)) (\<lambda>_.
     mbind (mget pesp_conn) (\<lambda>p.
     mbind (esp_send p) (\<lambda>_. mret []))))))))))"

definition mqtt_socket_publish :: "lua_conv \<Rightarrow> lua_value list \<Rightarrow> lua_value list mqtt_handler" where
  "mqtt_socket_publish cv args =
     mbind (mlift (check_client args)) (\<lambda>_.
     mbind (mget pesp_conn) (\<lambda>p.
     if p = None then mret []
     else
     mbind (mget send_timeout) (\<lambda>busy.
     if busy \<noteq> 0 then mfail (LuaError ''sending in process'')
     else
     mbind (mlift (luaL_checklstring cv (index2adr args 2))) (\<lambda>topic.
     mbind (mlift (luaL_checklstring cv (index2adr args 3))) (\<lambda>payload.
     mbind (mlift (luaL_checkinteger cv (index2adr args 4))) (\<lambda>qos.
     mbind (mlift (luaL_checkinteger cv (index2adr args 5))) (\<lambda>retain.
     let qos = ucast qos :: u8; retain = ucast retain :: u8 in
     mbind (compose (\<lambda>c. mqtt_msg_publish c (Some (cstr topic)) payload (ucast qos) (ucast retain))) (\<lambda>_.
     mbind (mupd (\<lambda>w. w\<lparr>pending_msg_type := MQTT_MSG_TYPE_PUBLISH, pending_publish_qos := qos,
       send_timeout := MQTT_SEND_TIMEOUT,
       cb_puback_ref := (if is_function (index2adr args 6) then Some (index2adr args 6) else cb_puback_ref w)\<rparr>)) (\<lambda>_.
     mbind (esp_send p) (\<lambda>_.
     mbind (mupd (\<lambda>w. w\<lparr>outbound_message := False\<rparr>)) (\<lambda>_.
     mret [])))))))))))"

end
