(* ===== verification/Mqtt_Delivery.thy ===== *)
theory Mqtt_Delivery
  imports Mqtt_Session
begin

text \<open>
  What the MQTT client does with the packets it receives: publications are delivered to the script in
  order, and the handshakes of the protocol are answered. The scripts called back do nothing here; what
  scripts may do is the subject of \<open>Mqtt_Safety\<close>.
\<close>

section \<open>Packets\<close>

record publication =
  pub_topic :: bytes
  pub_qos :: u32
  pub_retain :: u32
  pub_id :: u16
  pub_data :: bytes

definition pub_bytes :: "publication \<Rightarrow> bytes" where
  "pub_bytes p = publish_packet (pub_topic p) (pub_qos p) (pub_retain p) (pub_id p) (pub_data p)"

definition pub_ok :: "publication \<Rightarrow> bool" where
  "pub_ok p \<longleftrightarrow> pub_topic p \<noteq> [] \<and> pub_data p \<noteq> [] \<and> pub_qos p < 3 \<and> (pub_qos p \<noteq> 0 \<longrightarrow> pub_id p \<noteq> 0)"

definition id_packet :: "u8 \<Rightarrow> u32 \<Rightarrow> u16 \<Rightarrow> bytes" where
  "id_packet type qos mid = [fixed_header type 0 qos 0, 2] @ id_bytes mid"

definition pub_ack :: "publication \<Rightarrow> bytes list" where
  "pub_ack p =
     (if pub_qos p = 1 then [id_packet MQTT_MSG_TYPE_PUBACK 0 (pub_id p)]
      else if pub_qos p = 2 then [id_packet MQTT_MSG_TYPE_PUBREC 0 (pub_id p)]
      else [])"

text \<open>The packets of the handshakes that a server starts or continues, and their answers.\<close>

datatype control = Rec u16 | Rel u16 | Ping

fun control_bytes :: "control \<Rightarrow> bytes" where
  "control_bytes (Rec mid) = id_packet MQTT_MSG_TYPE_PUBREC 0 mid"
| "control_bytes (Rel mid) = id_packet MQTT_MSG_TYPE_PUBREL 1 mid"
| "control_bytes Ping = [fixed_header MQTT_MSG_TYPE_PINGREQ 0 0 0, 0]"

fun control_reply :: "control \<Rightarrow> bytes" where
  "control_reply (Rec mid) = id_packet MQTT_MSG_TYPE_PUBREL 1 mid"
| "control_reply (Rel mid) = id_packet MQTT_MSG_TYPE_PUBCOMP 0 mid"
| "control_reply Ping = [fixed_header MQTT_MSG_TYPE_PINGRESP 0 0 0, 0]"

fun control_ok :: "control \<Rightarrow> bool" where
  "control_ok (Rec mid) = (mid \<noteq> 0)"
| "control_ok (Rel mid) = (mid \<noteq> 0)"
| "control_ok Ping = True"

section \<open>Built answers\<close>

definition conn_ready :: "mqtt_connection \<Rightarrow> bool" where
  "conn_ready c \<longleftrightarrow> conn_ok c \<and> buffer_length c = 1024 \<and> msg_data c < 1024"

lemma conn_ready_finished:
  assumes "conn_ready c" "finished c r"
  obtains c' where "r = Inr c'" "conn_ready c'"
proof -
  obtain c' where "r = Inr c'" "finished c (Inr c')" using assms(2) by (rule finishedE)
  with assms(1) that show ?thesis by (auto simp: finished_def conn_ready_def conn_ok_def)
qed

lemma id_message_wire:
  assumes "conn_ready c" "mid \<noteq> 0"
  obtains c' where "id_message c mid type qos = Inr c'" "conn_ready c'" "wire c' = id_packet type qos mid"
proof -
  have ok: "conn_ok c" "unat (buffer_length c) = 1024" using assms(1) by (simp_all add: conn_ready_def)
  obtain c1 where c1: "append_message_id (init_message c) mid = Inr (mid, c1)" "built c1 ([] @ id_bytes mid)"
      "buffer_length c1 = buffer_length (init_message c)"
    by (rule append_message_id_built [OF init_built [OF ok(1)], of mid mid])
      (use ok(2) assign_id_given [OF assms(2)] in \<open>simp_all add: init_message_def\<close>)
  obtain c' where c': "fini_message c1 type 0 qos 0 = Inr c'" "wire c' = fixed_header type 0 qos 0 # varlen (length (id_bytes mid)) @ id_bytes mid"
    using fini_built [OF c1(2)] by (metis append_Nil)
  have "finished c (fini_message c1 type 0 qos 0)"
    by (rule finished_fini [OF built_partial [OF c1(2)]]) (use c1(3) in \<open>simp add: init_message_def\<close>)
  then obtain c'' where "fini_message c1 type 0 qos 0 = Inr c''" "conn_ready c''"
    by (rule conn_ready_finished [OF assms(1)])
  with c' c1(1) assms(2) that show ?thesis
    by (simp add: id_message_def id_packet_def varlen_def id_bytes_def)
qed

lemma empty_wire:
  assumes "conn_ready c"
  obtains c' where "fini_message (init_message c) type 0 0 0 = Inr c'" "conn_ready c'" "wire c' = [fixed_header type 0 0 0, 0]"
proof -
  have ok: "conn_ok c" using assms by (simp add: conn_ready_def)
  obtain c' where c': "fini_message (init_message c) type 0 0 0 = Inr c'" "wire c' = fixed_header type 0 0 0 # varlen 0"
    using fini_built [OF init_built [OF ok]] by (metis append_Nil2 list.size(3))
  have "finished c (fini_message (init_message c) type 0 0 0)" by (rule finished_fini [OF init_partial [OF ok]])
  then obtain c'' where "fini_message (init_message c) type 0 0 0 = Inr c''" "conn_ready c''"
    by (rule conn_ready_finished [OF assms])
  with c' that show ?thesis by (simp add: varlen_def)
qed

lemma pingresp_wire:
  assumes "conn_ready c"
  obtains c' where "mqtt_msg_pingresp c = Inr c'" "conn_ready c'" "wire c' = control_reply Ping"
  unfolding mqtt_msg_pingresp_def using empty_wire [OF assms] by (metis control_reply.simps(3))

section \<open>One packet\<close>

definition silent :: lua_run where
  "silent f args = mret ()"

definition receiving :: "lua_value \<Rightarrow> nat \<Rightarrow> mqtt_client \<Rightarrow> bool" where
  "receiving f a w \<longleftrightarrow> length (in_buffer w) = 1024 \<and> in_buffer_length w = 1024 \<and> conn_ready (mqtt_conn w)
     \<and> connState w = MQTT_DATA \<and> self_ref w \<and> cb_message_ref w = Some f \<and> conns w a \<noteq> None"

lemma receiving_frame [simp]:
  "receiving f a (w\<lparr>outbound_message := o1\<rparr>) = receiving f a w"
  "receiving f a (w\<lparr>message_length := n1\<rparr>) = receiving f a w"
  "receiving f a (w\<lparr>message_length_read := n2\<rparr>) = receiving f a w"
  "receiving f a (w\<lparr>mqtt_log := l\<rparr>) = receiving f a w"
  by (simp_all add: receiving_def)


definition refilled :: "bytes \<Rightarrow> mqtt_client \<Rightarrow> bytes" where
  "refilled pdata w = pdata @ drop (length pdata) (in_buffer w)"

lemma read_data_step:
  fixes w pdata total
  defines "w0 \<equiv> w\<lparr>in_buffer := refilled pdata w, outbound_message := False, message_length_read := of_nat (length pdata),
    message_length := of_nat total\<rparr>"
  assumes "connState w = MQTT_DATA" "length pdata \<le> length (in_buffer w)"
    "mqtt_get_total_length (refilled pdata w) (of_nat (length pdata)) = Inr total"
    "mqtt_get_type (refilled pdata w) = Inr ty" "mqtt_get_qos (refilled pdata w) = Inr q"
    "mqtt_get_id (refilled pdata w) (in_buffer_length w) = Inr mid"
  shows "read_packets (Suc k) run a pdata w = mbind (data_packet run ty q mid) (\<lambda>_.
         mbind (mget (\<lambda>w. (message_length w, message_length_read w))) (\<lambda>(ml, mlr).
         if ty = MQTT_MSG_TYPE_PUBLISH \<and> ml < mlr
         then read_packets k run a (drop (unat ml) pdata)
         else mbind (send_outbound a) (\<lambda>_. mret True))) w0"
proof -
  have buf: "arr_copy (in_buffer w) 0 pdata = Inr (refilled pdata w)"
    using assms(3) by (simp add: refilled_def)
  have w0: "w\<lparr>in_buffer := refilled pdata w, outbound_message := False, message_length_read := of_nat (length pdata),
    message_length := of_nat total\<rparr> = w0"
    "in_buffer_length w0 = in_buffer_length w" by (simp_all add: w0_def)
  show ?thesis using assms(2,4-7) buf w0 by simp
qed

lemma read_data:
  fixes w pdata total
  defines "w0 \<equiv> w\<lparr>in_buffer := refilled pdata w, outbound_message := False, message_length_read := of_nat (length pdata),
    message_length := of_nat total\<rparr>"
  assumes "connState w = MQTT_DATA" "length pdata \<le> length (in_buffer w)"
    "mqtt_get_total_length (refilled pdata w) (of_nat (length pdata)) = Inr total"
    "mqtt_get_type (refilled pdata w) = Inr ty" "mqtt_get_qos (refilled pdata w) = Inr q"
    "mqtt_get_id (refilled pdata w) (in_buffer_length w) = Inr mid"
    "data_packet run ty q mid w0 = (Inr (), w1)"
  shows "read_packets (Suc k) run a pdata w =
    (if ty = MQTT_MSG_TYPE_PUBLISH \<and> message_length w1 < message_length_read w1
     then read_packets k run a (drop (unat (message_length w1)) pdata) w1
     else mbind (send_outbound a) (\<lambda>_. mret True) w1)"
  using read_data_step [OF assms(2-7), of k run a, folded w0_def,
      unfolded mbind_Inr [where m = "data_packet run ty q mid", OF assms(8)]]
  by (simp del: read_packets.simps)

text \<open>A publication at the front of the segment is delivered, and its answer is prepared.\<close>

lemma data_publication:
  assumes "pub_ok p" "receiving f a w" "length (pub_bytes p @ rest) \<le> 1024" "in_buffer w = pub_bytes p @ rest'"
    "message_length_read w = of_nat (length (pub_bytes p @ rest))"
  shows "\<exists>w1. data_packet silent MQTT_MSG_TYPE_PUBLISH (ucast (pub_qos p)) (if pub_qos p = 0 then 0 else pub_id p) (w\<lparr>outbound_message := False\<rparr>) = (Inr (), w1)
    \<and> receiving f a w1 \<and> conns w1 = conns w \<and> secure w1 = secure w \<and> message_length w1 = message_length w
    \<and> message_length_read w1 = message_length_read w
    \<and> mqtt_log w1 = mqtt_log w @ [LuaCallback f [self_value, LString (pub_topic p), LString (pub_data p)]]
    \<and> (if pub_ack p = [] then \<not> outbound_message w1 else outbound_message w1 \<and> wire (mqtt_conn w1) = hd (pub_ack p))"
proof -
  let ?mlr = "message_length_read w" and ?body = "publish_body (pub_topic p) (pub_qos p) (pub_id p) (pub_data p)"
  have ok: "pub_topic p \<noteq> []" "pub_data p \<noteq> []" "pub_qos p < 4" "pub_qos p < 3" "pub_qos p \<noteq> 0 \<longrightarrow> pub_id p \<noteq> 0"
    using assms(1) by (auto simp: pub_ok_def word_less_nat_alt)
  have len: "length ?body < length (pub_bytes p)" by (simp add: pub_bytes_def publish_packet_def Let_def)
  have mlr: "unat ?mlr = length (pub_bytes p @ rest)"
    unfolding assms(5) using assms(3) by (intro unat_of_nat_small) simp
  then have pl: "length (pub_bytes p) \<le> unat ?mlr" by simp
  note acc = publish_accessors(2,3) [OF ok(3) _ pl [unfolded pub_bytes_def] ok(1,2), where rest = rest', folded pub_bytes_def assms(4)]
  have body: "length ?body < 16384" using len assms(3) by simp
  obtain i where i: "mqtt_get_publish_topic (in_buffer w) ?mlr = Inr (Some i, of_nat (length (pub_topic p)))"
      "take (length (pub_topic p)) (drop i (in_buffer w)) = pub_topic p" using acc(1) [OF body] by blast
  obtain j where j: "mqtt_get_publish_data (in_buffer w) ?mlr = Inr (Some j, of_nat (length (pub_data p)))"
      "take (length (pub_data p)) (drop j (in_buffer w)) = pub_data p" using acc(2) [OF body] by blast
  have small: "length (pub_topic p) < 65536" "length (pub_data p) < 65536"
    using len assms(3) by (auto simp: publish_body_def)
  have slice: "push_slice (in_buffer w) (Some k, of_nat (length s)) = Inr s"
    if "take (length s) (drop k (in_buffer w)) = s" "s \<noteq> []" "length s < 65536" for k s
  proof -
    have "unat (of_nat (length s) :: u16) = length s" using that(3) by (intro unat_of_nat_small) simp
    moreover have "length (take (length s) (drop k (in_buffer w))) = length s" using that(1) by simp
    then have "k + length s \<le> length (in_buffer w)" using that(2) by (cases "k \<le> length (in_buffer w)") auto
    ultimately show ?thesis using that(1) by (simp add: push_slice_def)
  qed
  have "(of_nat (length (pub_data p)) :: u16) \<noteq> 0"
    using unat_of_nat_small [of "length (pub_data p)", where 'a = 16] small(2) ok(2) by force
  then have "0 < (of_nat (length (pub_data p)) :: u16)" by (simp add: word_neq_0_conv)
  then have deliver: "deliver_publish silent (message_length_read u) u = (Inr (), u\<lparr>mqtt_log := mqtt_log u @
      [LuaCallback f [self_value, LString (pub_topic p), LString (pub_data p)]]\<rparr>)"
    if "in_buffer u = in_buffer w" "message_length_read u = ?mlr" "cb_message_ref u = Some f" "self_ref u" for u
    using that i(1) j(1) slice [OF i(2) ok(1) small(1)] slice [OF j(2) ok(2) small(2)]
    by (simp add: deliver_publish_def lua_call_def mqtt_emit_def silent_def)
  have rec: "self_ref w" "cb_message_ref w = Some f" "conn_ready (mqtt_conn w)" using assms(2) by (simp_all add: receiving_def)
  have out: "\<exists>w1. data_packet silent MQTT_MSG_TYPE_PUBLISH q mid (w\<lparr>outbound_message := False\<rparr>) = (Inr (), w1)
      \<and> receiving f a w1 \<and> conns w1 = conns w \<and> secure w1 = secure w \<and> message_length w1 = message_length w
      \<and> message_length_read w1 = ?mlr
      \<and> mqtt_log w1 = mqtt_log w @ [LuaCallback f [self_value, LString (pub_topic p), LString (pub_data p)]]
      \<and> outbound_message w1 \<and> wire (mqtt_conn w1) = id_packet type 0 mid"
    if mid: "mid \<noteq> 0" and q: "q = 1 \<and> type = MQTT_MSG_TYPE_PUBACK \<or> q = 2 \<and> type = MQTT_MSG_TYPE_PUBREC" for q mid type
  proof -
    obtain c' where c': "id_message (mqtt_conn w) mid type 0 = Inr c'" "conn_ready c'" "wire c' = id_packet type 0 mid"
      using id_message_wire [OF rec(3) mid] by blast
    let ?u = "w\<lparr>mqtt_conn := c', outbound_message := True\<rparr>"
    have "data_packet silent MQTT_MSG_TYPE_PUBLISH q mid (w\<lparr>outbound_message := False\<rparr>) = deliver_publish silent (message_length_read ?u) ?u"
      using q c'(1)
      by (elim disjE) (simp_all add: data_packet_def answer_def mqtt_msg_puback_def mqtt_msg_pubrec_def mqtt_types)
    then show ?thesis
      using deliver [of ?u] rec assms(2) c'(2,3) by (simp add: receiving_def)
  qed
  have "pub_qos p = 0 \<or> pub_qos p = 1 \<or> pub_qos p = 2" using ok(4) by unat_arith
  then consider "pub_qos p = 0" | "pub_qos p = 1" | "pub_qos p = 2" by blast
  then show ?thesis
  proof cases
    case 1
    let ?u = "w\<lparr>outbound_message := False\<rparr>"
    have "data_packet silent MQTT_MSG_TYPE_PUBLISH 0 0 ?u = deliver_publish silent (message_length_read ?u) ?u"
      by (simp add: data_packet_def mqtt_types)
    with 1 deliver [of ?u] rec assms(2) show ?thesis by (simp add: pub_ack_def receiving_def)
  next
    case 2
    with out [of "pub_id p" 1] ok(5) show ?thesis by (simp add: pub_ack_def)
  next
    case 3
    with out [of "pub_id p" 2] ok(5) show ?thesis by (simp add: pub_ack_def)
  qed
qed


declare read_packets.simps [simp del]

lemma read_publication:
  assumes "pub_ok p" "receiving f a w" "length (pub_bytes p @ rest) \<le> 1024"
  obtains w1 where "read_packets (Suc k) silent a (pub_bytes p @ rest) w =
      (if rest \<noteq> [] then read_packets k silent a rest w1 else mbind (send_outbound a) (\<lambda>_. mret True) w1)"
    "receiving f a w1" "conns w1 = conns w" "secure w1 = secure w"
    "mqtt_log w1 = mqtt_log w @ [LuaCallback f [self_value, LString (pub_topic p), LString (pub_data p)]]"
    "if pub_ack p = [] then \<not> outbound_message w1 else outbound_message w1 \<and> wire (mqtt_conn w1) = hd (pub_ack p)"
proof -
  let ?pdata = "pub_bytes p @ rest" and ?body = "publish_body (pub_topic p) (pub_qos p) (pub_id p) (pub_data p)"
  let ?w0 = "w\<lparr>in_buffer := refilled ?pdata w, outbound_message := False, message_length_read := of_nat (length ?pdata),
    message_length := of_nat (length (pub_bytes p))\<rparr>"
  have ok: "pub_topic p \<noteq> []" "pub_data p \<noteq> []" "pub_qos p < 4"
    using assms(1) by (auto simp: pub_ok_def word_less_nat_alt)
  have w: "connState w = MQTT_DATA" "length (in_buffer w) = 1024" "in_buffer_length w = 1024"
    using assms(2) by (simp_all add: receiving_def)
  have body: "length ?body < 16384" using assms(3) by (simp add: pub_bytes_def publish_packet_def Let_def)
  have buf: "refilled ?pdata w = pub_bytes p @ rest @ drop (length ?pdata) (in_buffer w)"
    by (simp add: refilled_def)
  have len: "unat (of_nat (length ?pdata) :: u16) = length ?pdata"
    "unat (of_nat (length (pub_bytes p)) :: u16) = length (pub_bytes p)"
    by (rule unat_of_nat_small, use assms(3) in simp)+
  note acc = publish_accessors [OF ok(3) body _ ok(1,2), where rest = "rest @ drop (length ?pdata) (in_buffer w)" and retain = "pub_retain p",
      folded pub_bytes_def, folded buf]
  have total: "mqtt_get_total_length (refilled ?pdata w) (of_nat (length ?pdata)) = Inr (length (pub_bytes p))"
    by (rule acc(1)) (use len in \<open>simp add: pub_bytes_def\<close>)
  have ident: "mqtt_get_id (refilled ?pdata w) (in_buffer_length w) = Inr (if pub_qos p = 0 then 0 else pub_id p)"
    unfolding w(3) by (rule acc(4)) (use assms(3) in \<open>simp add: pub_bytes_def\<close>)
  note head = publish_packet_head(1,2) [OF ok(3), of "pub_topic p" "pub_retain p" "pub_id p" "pub_data p"
      "rest @ drop (length ?pdata) (in_buffer w)", folded pub_bytes_def, folded buf]
  have rec: "receiving f a ?w0"
    using assms(2,3) by (simp add: receiving_def refilled_def)
  obtain w1 where w1: "data_packet silent MQTT_MSG_TYPE_PUBLISH (ucast (pub_qos p)) (if pub_qos p = 0 then 0 else pub_id p) (?w0\<lparr>outbound_message := False\<rparr>) = (Inr (), w1)"
    "receiving f a w1" "conns w1 = conns w" "secure w1 = secure w" "message_length w1 = of_nat (length (pub_bytes p))"
    "message_length_read w1 = of_nat (length ?pdata)"
    "mqtt_log w1 = mqtt_log w @ [LuaCallback f [self_value, LString (pub_topic p), LString (pub_data p)]]"
    "if pub_ack p = [] then \<not> outbound_message w1 else outbound_message w1 \<and> wire (mqtt_conn w1) = hd (pub_ack p)"
    using data_publication [OF assms(1) rec assms(3), of "rest @ drop (length ?pdata) (in_buffer w)"] buf by auto
  have same: "?w0\<lparr>outbound_message := False\<rparr> = ?w0" by simp
  have "read_packets (Suc k) silent a ?pdata w = (if message_length w1 < message_length_read w1
     then read_packets k silent a (drop (unat (message_length w1)) ?pdata) w1
     else mbind (send_outbound a) (\<lambda>_. mret True) w1)"
    using read_data [OF w(1) _ total head ident w1(1) [unfolded same], of k a] w(2) assms(3) by simp
  also have "message_length w1 < message_length_read w1 \<longleftrightarrow> rest \<noteq> []"
    unfolding w1(5,6) word_less_nat_alt len by simp
  also have "drop (unat (message_length w1)) ?pdata = rest"
    unfolding w1(5) len by simp
  finally show ?thesis using that w1 by blast
qed

text \<open>A control packet ends the segment; its answer is sent.\<close>

lemma send_outbound_sends:
  assumes "conns w a \<noteq> None" "outbound_message w"
  shows "mbind (send_outbound a) (\<lambda>_. mret True) w =
    (Inr True, w\<lparr>mqtt_log := mqtt_log w @ [EspSent (secure w) a (wire (mqtt_conn w))], outbound_message := False\<rparr>)"
  using assms by (auto simp: send_outbound_def esp_send_def esp_call_def get_conn_def mqtt_emit_def mbind_def mget_def mlift_def deref_def mupd_def mret_def)

lemma get_id_packet:
  assumes "mid \<noteq> 0" "t = MQTT_MSG_TYPE_PUBREC \<and> qos = 0 \<or> t = MQTT_MSG_TYPE_PUBREL \<and> qos = 1"
  shows "mqtt_get_type (id_packet t qos mid @ rest) = Inr t"
    "mqtt_get_id (id_packet t qos mid @ rest) 1024 = Inr mid"
    "mqtt_get_total_length (id_packet t qos mid @ rest) 4 = Inr 4"
    "\<exists>q. mqtt_get_qos (id_packet t qos mid @ rest) = Inr q"
proof -
  have t: "t \<in> {1, 3, 4, 5, 6, 7, 8, 12, 13, 14}" "qos < 4" using assms(2) by (auto simp: mqtt_types)
  have p: "id_packet t qos mid @ rest = fixed_header t 0 qos 0 # varlen 2 @ id_bytes mid @ rest"
    by (simp add: id_packet_def varlen_def)
  show type: "mqtt_get_type (id_packet t qos mid @ rest) = Inr t"
    using header_bits(1) [OF t(2,1), of 0] by (simp add: p mqtt_get_type_def)
  show "\<exists>q. mqtt_get_qos (id_packet t qos mid @ rest) = Inr q" by (simp add: p mqtt_get_qos_def)
  have "length_loop (fixed_header t 0 qos 0 # varlen 2 @ id_bytes mid @ rest) 4 1 0 = Inr (2, 2)"
    using length_loop_varlen [of 2 4 "fixed_header t 0 qos 0" "id_bytes mid @ rest"] by (simp add: varlen_def)
  then show "mqtt_get_total_length (id_packet t qos mid @ rest) 4 = Inr 4"
    unfolding p mqtt_get_total_length_def by simp
  have "rbind (get_u16 (id_packet t qos mid @ rest) 2) (\<lambda>v. Inr (of_nat v)) = Inr mid"
    by (rule get_u16_id [of 2 _ mid rest]) (simp add: id_packet_def)
  moreover have "arr_get (id_packet t qos mid @ rest) 1 = Inr 2" by (simp add: id_packet_def)
  ultimately show "mqtt_get_id (id_packet t qos mid @ rest) 1024 = Inr mid"
    using assms(2) type by (auto simp: mqtt_get_id_def mqtt_types simp del: One_nat_def)
qed


lemma read_control:
  assumes "control_ok t" "receiving f a w"
  obtains w1 where "read_packets (Suc k) silent a (control_bytes t) w = (Inr True, w1)"
    "mqtt_log w1 = mqtt_log w @ [EspSent (secure w) a (control_reply t)]"
proof -
  let ?b = "control_bytes t" and ?rest = "drop (length (control_bytes t)) (in_buffer w)"
  have w: "connState w = MQTT_DATA" "length (in_buffer w) = 1024" "in_buffer_length w = 1024" "conn_ready (mqtt_conn w)" "conns w a \<noteq> None"
    using assms(2) by (simp_all add: receiving_def)
  have len: "length ?b \<le> length (in_buffer w)" using w(2) by (cases t) (simp_all add: id_packet_def id_bytes_def)
  have buf: "refilled ?b w = ?b @ ?rest" by (simp add: refilled_def)
  note found = that
  have step: thesis
    if h: "mqtt_get_total_length (?b @ ?rest) (of_nat (length ?b)) = Inr total" "mqtt_get_type (?b @ ?rest) = Inr ty"
      "mqtt_get_qos (?b @ ?rest) = Inr q" "mqtt_get_id (?b @ ?rest) 1024 = Inr mid" "ty \<noteq> MQTT_MSG_TYPE_PUBLISH"
      and c: "wire c' = control_reply t" "\<And>u. mqtt_conn u = mqtt_conn w \<Longrightarrow>
        data_packet silent ty q mid u = (Inr (), u\<lparr>mqtt_conn := c', outbound_message := True\<rparr>)" for total ty q mid c'
  proof -
    let ?u = "w\<lparr>in_buffer := refilled ?b w, outbound_message := False, message_length_read := of_nat (length ?b),
      message_length := of_nat total\<rparr>"
    have "read_packets (Suc k) silent a ?b w = mbind (send_outbound a) (\<lambda>_. mret True) (?u\<lparr>mqtt_conn := c', outbound_message := True\<rparr>)"
      using read_data [OF w(1) len h(1-3) [folded buf] _ c(2), of k a] h(4,5) w(3) buf by simp
    also have "\<dots> = (Inr True, ?u\<lparr>mqtt_conn := c', outbound_message := False,
        mqtt_log := mqtt_log w @ [EspSent (secure w) a (control_reply t)]\<rparr>)"
      using w(5) c(1) by (subst send_outbound_sends) simp_all
    finally show thesis using found by simp
  qed
  have idl: "length (id_packet type qos mid) = 4" for type qos mid by (simp add: id_packet_def id_bytes_def)
  show thesis
  proof (cases t)
    case (Rec mid)
    then have mid: "mid \<noteq> 0" using assms(1) by simp
    note g = get_id_packet [OF mid, of MQTT_MSG_TYPE_PUBREC 0 ?rest, simplified]
    obtain c' where c': "id_message (mqtt_conn w) mid MQTT_MSG_TYPE_PUBREL 1 = Inr c'" "wire c' = id_packet MQTT_MSG_TYPE_PUBREL 1 mid"
      using id_message_wire [OF w(4) mid] by metis
    obtain q where q: "mqtt_get_qos (id_packet MQTT_MSG_TYPE_PUBREC 0 mid @ ?rest) = Inr q" using g(4) by blast
    show thesis
      by (rule step [of 4 MQTT_MSG_TYPE_PUBREC q mid c'])
        (use Rec g q c' idl in \<open>simp_all add: data_packet_def answer_def mqtt_msg_pubrel_def mqtt_types\<close>)
  next
    case (Rel mid)
    then have mid: "mid \<noteq> 0" using assms(1) by simp
    note g = get_id_packet [OF mid, of MQTT_MSG_TYPE_PUBREL 1 ?rest, simplified]
    obtain c' where c': "id_message (mqtt_conn w) mid MQTT_MSG_TYPE_PUBCOMP 0 = Inr c'" "wire c' = id_packet MQTT_MSG_TYPE_PUBCOMP 0 mid"
      using id_message_wire [OF w(4) mid] by metis
    obtain q where q: "mqtt_get_qos (id_packet MQTT_MSG_TYPE_PUBREL 1 mid @ ?rest) = Inr q" using g(4) by blast
    show thesis
      by (rule step [of 4 MQTT_MSG_TYPE_PUBREL q mid c'])
        (use Rel g q c' idl in \<open>simp_all add: data_packet_def answer_def mqtt_msg_pubcomp_def mqtt_types\<close>)
  next
    case Ping
    obtain c' where c': "mqtt_msg_pingresp (mqtt_conn w) = Inr c'" "wire c' = control_reply Ping"
      using pingresp_wire [OF w(4)] by metis
    have type: "mqtt_get_type (?b @ ?rest) = Inr MQTT_MSG_TYPE_PINGREQ" "mqtt_get_id (?b @ ?rest) 1024 = Inr 0"
      "mqtt_get_qos (?b @ ?rest) = Inr 0"
      by (simp_all add: Ping mqtt_get_type_def mqtt_get_id_def mqtt_get_qos_def fixed_header_def mqtt_types)
    have "length_loop (fixed_header MQTT_MSG_TYPE_PINGREQ 0 0 0 # varlen 0 @ ?rest) 2 1 0 = Inr (2, 0)"
      using length_loop_varlen [of 0 2 "fixed_header MQTT_MSG_TYPE_PINGREQ 0 0 0" ?rest] by (simp add: varlen_def)
    then have total: "mqtt_get_total_length (?b @ ?rest) (of_nat (length ?b)) = Inr 2"
      by (simp add: Ping mqtt_get_total_length_def varlen_def)
    show thesis
      by (rule step [OF total type(1,3,2), of c'])
        (use Ping c' in \<open>simp_all add: data_packet_def answer_def mqtt_types\<close>)
  qed
qed

section \<open>Segments\<close>

definition segment :: "publication list \<Rightarrow> control option \<Rightarrow> bytes" where
  "segment pubs t = concat (map pub_bytes pubs) @ (case t of None \<Rightarrow> [] | Some t \<Rightarrow> control_bytes t)"

definition answers :: "publication list \<Rightarrow> control option \<Rightarrow> bytes list" where
  "answers pubs t = (case t of None \<Rightarrow> pub_ack (last pubs) | Some t \<Rightarrow> [control_reply t])"

definition delivery :: "lua_value \<Rightarrow> publication \<Rightarrow> mqtt_out" where
  "delivery f p = LuaCallback f [self_value, LString (pub_topic p), LString (pub_data p)]"

lemma pub_bytes_not_Nil [simp]: "pub_bytes p \<noteq> []"
  by (simp add: pub_bytes_def publish_packet_def Let_def)

lemma control_bytes_not_Nil [simp]: "control_bytes t \<noteq> []"
  by (cases t) (simp_all add: id_packet_def)

lemma read_segment:
  assumes "receiving f a w" "\<forall>p\<in>set pubs. pub_ok p" "\<forall>c. t = Some c \<longrightarrow> control_ok c" "pubs \<noteq> [] \<or> t \<noteq> None"
    "length (segment pubs t) \<le> 1024" "length pubs + (if t = None then 0 else 1) \<le> fuel"
  shows "\<exists>w'. read_packets fuel silent a (segment pubs t) w = (Inr True, w')
    \<and> mqtt_log w' = mqtt_log w @ map (delivery f) pubs @ map (EspSent (secure w) a) (answers pubs t)"
  using assms
proof (induction pubs arbitrary: w fuel)
  case Nil
  then obtain c where c: "t = Some c" "control_ok c" by auto
  obtain k where k: "fuel = Suc k" using Nil.prems(6) c by (cases fuel) auto
  obtain w1 where "read_packets (Suc k) silent a (control_bytes c) w = (Inr True, w1)"
    "mqtt_log w1 = mqtt_log w @ [EspSent (secure w) a (control_reply c)]"
    using read_control [OF c(2) Nil.prems(1)] by blast
  then show ?case by (simp add: c(1) k segment_def answers_def)
next
  case (Cons p pubs)
  let ?rest = "segment pubs t"
  have seg: "segment (p # pubs) t = pub_bytes p @ ?rest" by (simp add: segment_def)
  obtain k where k: "fuel = Suc k" using Cons.prems(6) by (cases fuel) auto
  obtain w1 where w1: "read_packets (Suc k) silent a (pub_bytes p @ ?rest) w =
      (if ?rest \<noteq> [] then read_packets k silent a ?rest w1 else mbind (send_outbound a) (\<lambda>_. mret True) w1)"
    "receiving f a w1" "conns w1 = conns w" "secure w1 = secure w" "mqtt_log w1 = mqtt_log w @ [delivery f p]"
    "if pub_ack p = [] then \<not> outbound_message w1 else outbound_message w1 \<and> wire (mqtt_conn w1) = hd (pub_ack p)"
    using read_publication [OF _ Cons.prems(1), of p ?rest k] Cons.prems(2,5) seg unfolding delivery_def by auto
  show ?case
  proof (cases "pubs = [] \<and> t = None")
    case True
    then have rest: "?rest = []" by (simp add: segment_def)
    have "conns w1 a \<noteq> None" using w1(2) by (simp add: receiving_def)
    then have "mbind (send_outbound a) (\<lambda>_. mret True) w1 = (Inr True, w1\<lparr>outbound_message := False,
        mqtt_log := mqtt_log w1 @ map (EspSent (secure w1) a) (pub_ack p)\<rparr>)"
      using w1(6) send_outbound_sends [of w1 a] by (auto simp: pub_ack_def send_outbound_def split: if_splits)
    then show ?thesis using w1(1,4,5) rest k seg True by (simp add: answers_def)
  next
    case False
    then have rest: "?rest \<noteq> []" by (cases pubs; cases t) (auto simp: segment_def)
    have len: "length ?rest \<le> 1024" using Cons.prems(5) seg by simp
    have "\<exists>w'. read_packets k silent a ?rest w1 = (Inr True, w')
      \<and> mqtt_log w' = mqtt_log w1 @ map (delivery f) pubs @ map (EspSent (secure w1) a) (answers pubs t)"
      by (rule Cons.IH [OF w1(2)]) (use Cons.prems False len k in auto)
    moreover have "answers (p # pubs) t = answers pubs t" using False by (auto simp: answers_def split: option.splits)
    ultimately show ?thesis using w1 rest k seg by simp
  qed
qed



text \<open>An example: a client that is connected and waits for publications.\<close>

definition listening :: mqtt_client where
  "listening = (new_client [105] False)\<lparr>conns := [0 \<mapsto> \<lparr>reverse = True, tcp = None\<rparr>], pesp_conn := Some 0, self_ref := True,
     cb_message_ref := Some (LFunction 1), connected := True, connState := MQTT_DATA,
     mqtt_conn := mqtt_msg_init (mqtt_conn (new_client [105] False)) (replicate 1024 0) 1024\<rparr>"

lemma listening_receives: "receiving (LFunction 1) 0 listening" "conns listening 0 = Some \<lparr>reverse = True, tcp = None\<rparr>"
  by (simp_all add: receiving_def listening_def new_client_def MQTT_BUF_SIZE_def conn_ready_def conn_ok_def mqtt_msg_init_def)

lemma two_publications:
  fixes p q :: publication
  defines "p \<equiv> \<lparr>pub_topic = [116], pub_qos = 0, pub_retain = 0, pub_id = 0, pub_data = [1, 2]\<rparr>"
    and "q \<equiv> \<lparr>pub_topic = [116], pub_qos = 1, pub_retain = 0, pub_id = 9, pub_data = [3]\<rparr>"
  shows "\<forall>r\<in>set [p, q]. pub_ok r" "length (segment [p, q] (Some (Rel 7))) \<le> MQTT_BUF_SIZE"
  by (simp_all add: p_def q_def pub_ok_def segment_def pub_bytes_def publish_packet_def MQTT_BUF_SIZE_def varlen_def be16_def id_bytes_def id_packet_def publish_body_def Let_def)



section \<open>Leaving the loop\<close>

lemma length_loop_prefix:
  "len \<le> length p \<Longrightarrow> length_loop (p @ r) len i t = length_loop p len i t"
proof (induction p len i t rule: length_loop.induct)
  case (1 p len i t)
  show ?case
  proof (cases "i < len")
    case True
    then have i: "arr_get (p @ r) i = Inr (p ! i)" "arr_get p i = Inr (p ! i)" using 1(2) by (simp_all add: nth_append)
    have "length_loop (p @ r) len (i + 1) (t + unat (p ! i AND 0x7f) * 2 ^ (7 * (i - 1)))
        = length_loop p len (i + 1) (t + unat (p ! i AND 0x7f) * 2 ^ (7 * (i - 1)))"
      if "7 * (i - 1) < 32 \<and> t + unat (p ! i AND 0x7f) * 2 ^ (7 * (i - 1)) < 2 ^ 31" "p ! i AND 0x80 \<noteq> 0"
      by (rule 1(1) [OF True i(2) refl, of "()"]) (use that 1(2) in simp_all)
    then show ?thesis
      using True i by (subst (1 2) length_loop.simps) (auto simp: Let_def guard_or_def)
  next
    case False
    then show ?thesis by (subst (1 2) length_loop.simps) simp
  qed
qed

lemma total_length_prefix:
  "length p < 65536 \<Longrightarrow> mqtt_get_total_length (p @ r) (of_nat (length p)) = mqtt_get_total_length p (of_nat (length p))"
  by (simp add: mqtt_get_total_length_def unat_of_nat_small length_loop_prefix)

lemma call_back_leaves: "(\<And>f args. leaves g (run f args)) \<Longrightarrow> (\<And>w l. g (w\<lparr>mqtt_log := l\<rparr>) = g w) \<Longrightarrow> leaves g (call_back run ref args)"
  unfolding call_back_def lua_call_def mqtt_emit_def by (intro leaves_intro)

lemma data_packet_leaves:
  assumes "\<And>f args. leaves g (run f args)" "\<And>w l. g (w\<lparr>mqtt_log := l\<rparr>) = g w"
    "\<And>w c b. g (w\<lparr>mqtt_conn := c, outbound_message := b\<rparr>) = g w"
  shows "leaves g (data_packet run type qos mid)"
  unfolding data_packet_def answer_def deliver_publish_def lua_call_def mqtt_emit_def
  by (intro leaves_intro call_back_leaves assms)

definition read_lengths :: "mqtt_client \<Rightarrow> u16 \<times> u16" where
  "read_lengths w = (message_length w, message_length_read w)"

text \<open>
  The segments that the loop gets through: at no publication that it comes to is the announced total length, which is
  kept in 16 bits, a multiple of 65536. Only the packets that the loop visits matter, not the bytes inside them.
\<close>

declare conj_cong [fundef_cong]

function moves_on :: "bytes \<Rightarrow> bool" where
  "moves_on pdata =
     (case mqtt_get_total_length pdata (of_nat (length pdata)) of
        Inl _ \<Rightarrow> True
      | Inr n \<Rightarrow>
          mqtt_get_type pdata = Inr MQTT_MSG_TYPE_PUBLISH \<longrightarrow>
          n mod 65536 \<noteq> 0 \<and> (n mod 65536 < length pdata \<longrightarrow> moves_on (drop (n mod 65536) pdata)))"
  by pat_completeness auto
termination
  by (relation "measure length") auto

declare moves_on.simps [simp del]

lemma length_loop_grows: "length_loop p len i t = Inr (j, t') \<Longrightarrow> i \<le> j"
proof (induction p len i t rule: length_loop.induct)
  case (1 p len i t)
  from 1(2) show ?case
    by (subst (asm) length_loop.simps) (auto simp: Let_def rbind_eq_Inr arr_get_eq_Inr split: if_splits dest!: 1(1))
qed

lemma unat_u16: "unat (of_nat n :: u16) = n mod 65536"
  by (simp add: unat_of_nat take_bit_eq_mod)

lemma read_packets_returns:
  assumes "\<And>f args. leaves read_lengths (run f args)" "moves_on pdata" "length pdata < fuel" "length pdata < 65536"
  shows "fst (read_packets fuel run a pdata w) \<noteq> Inr False"
  using assms(2-4)
proof (induction fuel arbitrary: pdata w)
  case (Suc fuel)
  have ends: "fst (mbind m (\<lambda>_. mret True) u) \<noteq> Inr False" for m :: "unit mqtt_handler" and u
    by (rule mbind_result) simp
  have data: "fst (mbind (data_packet run ty q mid) (\<lambda>_.
         mbind (mget (\<lambda>w. (message_length w, message_length_read w))) (\<lambda>(ml, mlr).
         if ty = MQTT_MSG_TYPE_PUBLISH \<and> ml < mlr
         then read_packets fuel run a (drop (unat ml) pdata)
         else mbind (send_outbound a) (\<lambda>_. mret True))) u) \<noteq> Inr False"
    if u: "message_length u = of_nat total" "message_length_read u = of_nat (length pdata)"
      and total: "pdata \<noteq> [] \<Longrightarrow> ty = MQTT_MSG_TYPE_PUBLISH \<Longrightarrow>
        total mod 65536 \<noteq> 0 \<and> (total mod 65536 < length pdata \<longrightarrow> moves_on (drop (total mod 65536) pdata))"
    for ty q mid u total
  proof (rule mbind_result, goal_cases)
    case (1 x u')
    have "leaves read_lengths (data_packet run ty q mid)"
      by (rule data_packet_leaves) (use assms(1) in \<open>simp_all add: read_lengths_def\<close>)
    then have u': "message_length u' = of_nat total" "message_length_read u' = of_nat (length pdata)"
      using leavesD [of read_lengths "data_packet run ty q mid" u] 1 u by (simp_all add: read_lengths_def)
    show ?case
    proof (cases "pdata \<noteq> [] \<and> ty = MQTT_MSG_TYPE_PUBLISH \<and> total mod 65536 < length pdata")
      case True
      have "fst (read_packets fuel run a (drop (total mod 65536) pdata) u') \<noteq> Inr False"
        by (rule Suc.IH) (use Suc.prems total True in auto)
      then show ?thesis using u' ends by (simp add: unat_u16)
    next
      case False
      then have "\<not> (ty = MQTT_MSG_TYPE_PUBLISH \<and> message_length u' < message_length_read u')"
        using u' Suc.prems(3) by (auto simp: word_less_nat_alt unat_u16)
      then show ?thesis using ends by auto
    qed
  qed
  show ?case
  proof (cases "arr_copy (in_buffer w) 0 pdata")
    case (Inr buf)
    let ?w = "w\<lparr>in_buffer := buf, outbound_message := False\<rparr>"
    show ?thesis
    proof (cases "connState w")
      case MQTT_CONNECT_SENDING
      have "fst (mbind (mlift (mqtt_get_type buf)) (\<lambda>type.
         if type \<noteq> MQTT_MSG_TYPE_CONNACK then
           mbind (mupd (\<lambda>w. w\<lparr>connState := MQTT_INIT\<rparr>)) (\<lambda>_.
           mbind (esp_call a (\<lambda>sec. EspDisconnect sec a)) (\<lambda>_.
           mbind (send_outbound a) (\<lambda>_. mret True)))
         else
           mbind (mupd (\<lambda>w. w\<lparr>connState := MQTT_DATA\<rparr>)) (\<lambda>_.
           mbind (call_back run cb_connect_ref []) (\<lambda>_. mret True))) ?w) \<noteq> Inr False"
        by (intro mbind_result) (auto intro!: mbind_result ends)
      then show ?thesis using Inr MQTT_CONNECT_SENDING by (simp add: read_packets.simps)
    next
      case MQTT_DATA
      have buf: "buf = pdata @ drop (length pdata) (in_buffer w)" using Inr by (auto simp: arr_copy_def split: if_splits)
      show ?thesis
      proof (cases "mqtt_get_total_length buf (of_nat (length pdata))")
        case (Inl e)
        then show ?thesis using Inr MQTT_DATA by (simp add: read_packets.simps)
      next
        case n: (Inr n)
        have n': "mqtt_get_total_length pdata (of_nat (length pdata)) = Inr n"
          using n total_length_prefix [OF Suc.prems(3)] unfolding buf by simp
        show ?thesis
        proof (cases "mqtt_get_type buf")
          case (Inl e)
          then show ?thesis using Inr MQTT_DATA n by (simp add: read_packets.simps)
        next
          case ty: (Inr ty)
          have "mqtt_get_type pdata = Inr ty" if "pdata \<noteq> []"
            using ty that unfolding buf by (simp add: mqtt_get_type_def nth_append)
          then have next_packet: "n mod 65536 \<noteq> 0 \<and> (n mod 65536 < length pdata \<longrightarrow> moves_on (drop (n mod 65536) pdata))"
            if "pdata \<noteq> []" "ty = MQTT_MSG_TYPE_PUBLISH"
            using Suc.prems(1) n' that by (subst (asm) moves_on.simps) simp
          let ?u = "?w\<lparr>message_length_read := of_nat (length pdata), message_length := of_nat n\<rparr>"
          have "fst (mbind (data_packet run ty q mid) (\<lambda>_.
             mbind (mget (\<lambda>w. (message_length w, message_length_read w))) (\<lambda>(ml, mlr).
             if ty = MQTT_MSG_TYPE_PUBLISH \<and> ml < mlr
             then read_packets fuel run a (drop (unat ml) pdata)
             else mbind (send_outbound a) (\<lambda>_. mret True))) ?u) \<noteq> Inr False" for q mid
            by (rule data) (use next_packet in auto)
          then show ?thesis
            using Inr MQTT_DATA n ty by (simp add: read_packets.simps split: sum.split)
        qed
      qed
    qed (use Inr ends in \<open>simp_all add: read_packets.simps\<close>)
  qed (simp add: read_packets.simps)
qed simp


text \<open>C34: The loop over the packets of a segment ends after at most as many rounds as the segment has bytes,
  whatever they are, provided that at no publication it comes to the announced total length is a multiple of 65536
  (with one that is, it does not end: C36). The script that is called back may do anything but write the two lengths that
  the loop works with, which no function of the module does but the receive function itself.\<close>

theorem mqtt_receive_returns:
  assumes "\<And>f args. leaves read_lengths (run f args)" "moves_on pdata" "length pdata < fuel" "length pdata < 65536"
  shows "fst (mqtt_socket_received fuel run arg pdata w) \<noteq> Inr False"
proof -
  have "fst (read_packets fuel run a pdata u) \<noteq> Inr False" for a u
    by (rule read_packets_returns) (fact assms)+
  then show ?thesis
    by (cases arg) (auto simp: mqtt_socket_received_def with_client_def intro!: mbind_result split: if_splits)
qed

theorem mqtt_receive_returns_witness:
  "fst (mqtt_socket_received 9 silent (Some 0) [0x30, 6, 0, 1, 116, 0xC3, 0xA9, 0x20] listening) \<noteq> Inr False"
proof (rule mqtt_receive_returns)
  have "length_loop [0x30, 6, 0, 1, 116, 0xC3, 0xA9, 0x20] 8 1 0 = Inr (2, 6)"
    by (subst length_loop.simps) simp
  then show "moves_on [0x30, 6, 0, 1, 116, 0xC3, 0xA9, 0x20]"
    by (subst moves_on.simps) (simp add: mqtt_get_total_length_def)
qed (simp_all add: leaves_def silent_def)

text \<open>A publication whose length field announces 65532 bytes, so that the packet has 65536.\<close>

definition looping_segment :: "bytes \<Rightarrow> bytes \<Rightarrow> bytes" where
  "looping_segment topic data = [0x30, 0xFC, 0xFF, 0x03] @ be16 (length topic) @ topic @ data"

lemma looping_packet:
  fixes rest :: bytes
  assumes "topic \<noteq> []" "data \<noteq> []" "length (looping_segment topic data) \<le> 1024"
  defines "n \<equiv> of_nat (length (looping_segment topic data)) :: u16" and "p \<equiv> looping_segment topic data @ rest"
  shows "mqtt_get_type p = Inr MQTT_MSG_TYPE_PUBLISH" "mqtt_get_qos p = Inr 0" "mqtt_get_total_length p n = Inr 65536"
    "mqtt_get_publish_topic p n = Inr (Some 6, of_nat (length topic))"
    "mqtt_get_publish_data p n = Inr (Some (6 + length topic), of_nat (length data))"
    "mqtt_get_id p 1024 = Inr 0"
proof -
  have p: "p = [0x30, 0xFC, 0xFF, 0x03] @ be16 (length topic) @ topic @ data @ rest" by (simp add: p_def looping_segment_def)
  have len: "unat n = 6 + length topic + length data"
    unfolding n_def using assms(3) by (subst unat_of_nat_small) (simp_all add: looping_segment_def)
  have pos: "0 < length topic" "0 < length data" using assms(1,2) by simp_all
  show type: "mqtt_get_type p = Inr MQTT_MSG_TYPE_PUBLISH" and qos: "mqtt_get_qos p = Inr 0"
    by (simp_all add: p mqtt_get_type_def mqtt_get_qos_def mqtt_types)
  have loop: "length_loop p m 1 0 = Inr (4, 65532)" "skip_length p m 1 = Inr 4" if "4 \<le> m" for m
    using that unfolding p
    by (subst length_loop.simps skip_length.simps, simp, subst length_loop.simps skip_length.simps, simp,
        subst length_loop.simps skip_length.simps, simp)+
  have "length topic < 65536" using assms(3) by (simp add: looping_segment_def)
  then have "get_u16 p (length [0x30, 0xFC, 0xFF, 0x03 :: u8]) = Inr (length topic)" unfolding p by (rule get_u16_at)
  then have u16: "get_u16 p 4 = Inr (length topic)" by (simp add: numeral_eq_Suc)
  have l: "length_loop p (unat n) 1 0 = Inr (4, 65532)" using len by (intro loop) simp
  show "mqtt_get_total_length p n = Inr 65536" unfolding mqtt_get_total_length_def l by simp
  show "mqtt_get_publish_topic p n = Inr (Some 6, of_nat (length topic))"
    unfolding mqtt_get_publish_topic_def l using u16 len pos by simp
  show "mqtt_get_publish_data p n = Inr (Some (6 + length topic), of_nat (length data))"
    unfolding mqtt_get_publish_data_def l using u16 len pos qos assms(3) by (simp add: Let_def looping_segment_def)
  show "mqtt_get_id p 1024 = Inr 0"
    using loop(2) [of 1024] u16 type qos assms(3) by (simp add: mqtt_get_id_def Let_def)
qed

lemma looping_round:
  assumes "topic \<noteq> []" "data \<noteq> []" "length (looping_segment topic data) \<le> 1024" "receiving f a w"
  obtains w1 where "read_packets (Suc k) silent a (looping_segment topic data) w = read_packets k silent a (looping_segment topic data) w1"
    "receiving f a w1" "mqtt_log w1 = mqtt_log w @ [LuaCallback f [self_value, LString topic, LString data]]"
proof -
  let ?s = "looping_segment topic data"
  let ?rest = "drop (length ?s) (in_buffer w)"
  note pk = looping_packet [OF assms(1-3)]
  have w: "connState w = MQTT_DATA" "length (in_buffer w) = 1024" "in_buffer_length w = 1024" "self_ref w" "cb_message_ref w = Some f"
    using assms(4) by (simp_all add: receiving_def)
  have buf: "refilled ?s w = ?s @ ?rest" by (simp add: refilled_def)
  let ?u = "w\<lparr>in_buffer := refilled ?s w, outbound_message := False, message_length_read := of_nat (length ?s), message_length := of_nat 65536\<rparr>"
  let ?v = "?u\<lparr>mqtt_log := mqtt_log w @ [LuaCallback f [self_value, LString topic, LString data]]\<rparr>"
  have small: "unat (of_nat (length topic) :: u16) = length topic" "unat (of_nat (length data) :: u16) = length data"
    by (rule unat_of_nat_small, use assms(3) in \<open>simp add: looping_segment_def\<close>)+
  then have "(of_nat (length data) :: u16) \<noteq> 0" using assms(2) by (metis length_0_conv unat_0)
  then have "0 < (of_nat (length data) :: u16)" by (simp add: word_neq_0_conv)
  moreover have behind: "drop (6 + length topic) xs = drop (length topic) (drop 6 xs)" for xs :: bytes
    by (simp add: add.commute)
  moreover have "push_slice (refilled ?s w) (Some 6, of_nat (length topic)) = Inr topic"
    "push_slice (refilled ?s w) (Some (6 + length topic), of_nat (length data)) = Inr data"
    unfolding buf using small by (simp_all add: push_slice_def looping_segment_def be16_def behind)
  ultimately have "data_packet silent MQTT_MSG_TYPE_PUBLISH 0 0 ?u = (Inr (), ?v)"
    using pk(4,5) [where rest = ?rest, folded buf] w
    by (simp add: data_packet_def deliver_publish_def lua_call_def mqtt_emit_def silent_def mqtt_types)
  then have run: "read_packets (Suc k) silent a ?s w = (if message_length ?v < message_length_read ?v
      then read_packets k silent a (drop (unat (message_length ?v)) ?s) ?v else mbind (send_outbound a) (\<lambda>_. mret True) ?v)"
    using read_data [OF w(1) _ pk(3,1,2) [where rest = ?rest, folded buf], of 0 silent ?v k a] w(2,3) assms(3)
      pk(6) [of ?rest, folded buf] by simp
  have zero: "(of_nat 65536 :: u16) = 0" by (simp add: word_of_nat_eq_0_iff del: of_nat_numeral)
  have ml: "message_length ?v = 0" "message_length_read ?v = of_nat (length ?s)"
    using zero by simp_all
  have "(0 :: u16) < of_nat (length ?s)"
    unfolding word_less_nat_alt by (subst unat_of_nat_small) (use assms(3) in \<open>simp_all add: looping_segment_def\<close>)
  then have "read_packets (Suc k) silent a ?s w = read_packets k silent a ?s ?v"
    using run unfolding ml by simp
  moreover have "receiving f a ?v" using assms(3,4) by (simp add: receiving_def refilled_def)
  ultimately show ?thesis by (rule that) simp
qed

text \<open>C36: A publication whose announced length is a multiple of 65536 is never left: the length is kept in 16 bits,
  so the loop goes on at the same packet, and calls the script with the same publication each time.\<close>

theorem mqtt_receive_hangs:
  assumes "receiving f a w" "conns w a = Some c" "reverse c" "topic \<noteq> []" "data \<noteq> []"
    "length (looping_segment topic data) \<le> MQTT_BUF_SIZE"
  shows "\<exists>w'. mqtt_socket_received fuel silent (Some a) (looping_segment topic data) w = (Inr False, w')
    \<and> mqtt_log w' = mqtt_log w @ replicate fuel (LuaCallback f [self_value, LString topic, LString data])"
proof -
  have len: "length (looping_segment topic data) \<le> 1024" using assms(6) by (simp add: MQTT_BUF_SIZE_def)
  have "\<exists>w'. read_packets fuel silent a (looping_segment topic data) w = (Inr False, w')
    \<and> mqtt_log w' = mqtt_log w @ replicate fuel (LuaCallback f [self_value, LString topic, LString data])"
    using assms(1)
  proof (induction fuel arbitrary: w)
    case (Suc fuel)
    obtain w1 where "read_packets (Suc fuel) silent a (looping_segment topic data) w = read_packets fuel silent a (looping_segment topic data) w1"
      "receiving f a w1" "mqtt_log w1 = mqtt_log w @ [LuaCallback f [self_value, LString topic, LString data]]"
      using looping_round [OF assms(4,5) len Suc.prems] by blast
    with Suc.IH [of w1] show ?case by simp
  qed (simp add: read_packets.simps)
  then show ?thesis
    using assms(2,3) by (simp add: mqtt_socket_received_def with_client_def get_conn_def mbind_def mget_def mlift_def)
qed

theorem mqtt_receive_hangs_witness:
  "\<exists>w'. mqtt_socket_received 1000 silent (Some 0) (looping_segment [116] [104]) listening = (Inr False, w')"
  using mqtt_receive_hangs [OF listening_receives, of "[116]" "[104]" 1000] by (auto simp: looping_segment_def be16_def MQTT_BUF_SIZE_def)

end
