(* ===== verification/Mqtt_Safety.thy ===== *)
theory Mqtt_Safety
  imports Mqtt_Delivery
begin

text \<open>
  What the MQTT client does under every sequence of calls, network events and timer ticks: nothing
  undefined, as long as the received segments hold complete publications, the scripts that are
  called back do not replace the connection and \<open>subscribe\<close> gets a topic, not a table. The lemmas follow the functions of \<open>Mqtt_Session\<close>.
\<close>

section \<open>Invariant\<close>

definition conn_blank :: "mqtt_connection \<Rightarrow> bool" where
  "conn_blank c \<longleftrightarrow> buffer c = [] \<and> buffer_length c = 0"

definition live :: "(nat \<Rightarrow> espconn option) \<Rightarrow> nat \<Rightarrow> bool" where
  "live h a \<longleftrightarrow> h a \<noteq> None"

lemma live_put [simp]: "live h a \<Longrightarrow> live (h(a \<mapsto> c)) = live h"
  by (auto simp: live_def fun_eq_iff)

text \<open>
  Before the first connection the codec has no buffer; no state that uses it is entered then. The client
  holds on to exactly one connection block or none, so none is lost.
\<close>

definition client_inv :: "mqtt_client \<Rightarrow> bool" where
  "client_inv w \<longleftrightarrow> length (in_buffer w) = 1024 \<and> in_buffer_length w = 1024
     \<and> length (out_buffer w) = 1024 \<and> out_buffer_length w = 1024
     \<and> (conn_ready (mqtt_conn w) \<or>
        conn_blank (mqtt_conn w) \<and> \<not> connected w \<and> connState w \<noteq> MQTT_CONNECT_SENDING \<and> connState w \<noteq> MQTT_DATA)
     \<and> (given (will_topic (connect_info w)) \<longrightarrow> will_message (connect_info w) \<noteq> None)
     \<and> (\<forall>b. live (conns w) b \<longleftrightarrow> pesp_conn w = Some b)
     \<and> (\<forall>b c. conns w b = Some c \<longrightarrow> b < next_conn w \<and> reverse c \<and> tcp c \<noteq> None)"

lemma client_inv_frame [simp]:
  "client_inv (w\<lparr>self_ref := b1\<rparr>) = client_inv w"
  "client_inv (w\<lparr>cb_connect_ref := r1\<rparr>) = client_inv w"
  "client_inv (w\<lparr>cb_disconnect_ref := r2\<rparr>) = client_inv w"
  "client_inv (w\<lparr>cb_message_ref := r3\<rparr>) = client_inv w"
  "client_inv (w\<lparr>cb_suback_ref := r4\<rparr>) = client_inv w"
  "client_inv (w\<lparr>cb_puback_ref := r5\<rparr>) = client_inv w"
  "client_inv (w\<lparr>message_length := n1\<rparr>) = client_inv w"
  "client_inv (w\<lparr>message_length_read := n2\<rparr>) = client_inv w"
  "client_inv (w\<lparr>outbound_message := b2\<rparr>) = client_inv w"
  "client_inv (w\<lparr>pending_msg_id := n3\<rparr>) = client_inv w"
  "client_inv (w\<lparr>pending_msg_type := n4\<rparr>) = client_inv w"
  "client_inv (w\<lparr>pending_publish_qos := n5\<rparr>) = client_inv w"
  "client_inv (w\<lparr>keep_alive_tick := n6\<rparr>) = client_inv w"
  "client_inv (w\<lparr>send_timeout := n7\<rparr>) = client_inv w"
  "client_inv (w\<lparr>secure := b3\<rparr>) = client_inv w"
  "client_inv (w\<lparr>timer_armed := b4\<rparr>) = client_inv w"
  "client_inv (w\<lparr>dns_reconn_count := i1\<rparr>) = client_inv w"
  "client_inv (w\<lparr>mqtt_log := l1\<rparr>) = client_inv w"
  by (simp_all add: client_inv_def)

lemma client_inv_conn: "client_inv w \<Longrightarrow> conn_ready c \<Longrightarrow> client_inv (w\<lparr>mqtt_conn := c\<rparr>)"
  by (simp add: client_inv_def)

lemma client_inv_ready:
  "client_inv w \<Longrightarrow> connState w = MQTT_DATA \<or> connected w \<Longrightarrow> conn_ready (mqtt_conn w)"
  by (auto simp: client_inv_def)

section \<open>Composition\<close>

text \<open>What scripts and most functions leave alone.\<close>

definition core :: "mqtt_client \<Rightarrow> (nat \<Rightarrow> bool) \<times> nat option \<times> bool \<times> u16 \<times> u16" where
  "core w = (live (conns w), pesp_conn w, connected w, message_length w, message_length_read w)"

text \<open>A step from one state: clean, and it keeps the invariant and the core.\<close>

definition decent :: "'a mqtt_handler \<Rightarrow> mqtt_client \<Rightarrow> bool" where
  "decent m w \<longleftrightarrow> clean (fst (m w)) \<and> client_inv (snd (m w)) \<and> core (snd (m w)) = core w"

definition polite :: "lua_run \<Rightarrow> bool" where
  "polite run \<longleftrightarrow> (\<forall>f args w. client_inv w \<longrightarrow> decent (run f args) w)"

lemma decent_mbind:
  assumes "decent m w" "\<And>x w'. m w = (Inr x, w') \<Longrightarrow> client_inv w' \<Longrightarrow> core w' = core w \<Longrightarrow> decent (f x) w'"
  shows "decent (mbind m f) w"
proof (cases "m w")
  case (Pair r w')
  show ?thesis
  proof (cases r)
    case (Inl e)
    with Pair assms(1) show ?thesis by (simp add: decent_def clean_Inl_iff)
  next
    case (Inr x)
    with Pair assms(1) have "client_inv w'" "core w' = core w" by (simp_all add: decent_def)
    with Pair Inr assms(2) show ?thesis by (simp add: decent_def)
  qed
qed

lemma decent_mret [simp]: "client_inv w \<Longrightarrow> decent (mret x) w"
  by (simp add: decent_def)

lemma decent_mret_mbind [simp]: "decent (mbind (mret x) f) w = decent (f x) w"
  by (simp add: decent_def)

lemma decent_mfail [simp]: "client_inv w \<Longrightarrow> decent (mfail (LuaError s)) w"
  by (simp add: decent_def)

lemma decent_mget: "decent (f (g w)) w \<Longrightarrow> decent (mbind (mget g) f) w"
  by (simp add: decent_def)

lemma decent_mupd: "client_inv (h w) \<Longrightarrow> core (h w) = core w \<Longrightarrow> decent (mupd h) w"
  by (simp add: decent_def)

lemma decent_mupd_mbind: "core (h w) = core w \<Longrightarrow> decent (f ()) (h w) \<Longrightarrow> decent (mbind (mupd h) f) w"
  by (simp add: decent_def)

lemma decent_mlift:
  "client_inv w \<Longrightarrow> clean r \<Longrightarrow> (\<And>x. r = Inr x \<Longrightarrow> decent (f x) w) \<Longrightarrow> decent (mbind (mlift r) f) w"
  by (cases r) (auto simp: decent_def clean_Inl_iff)

lemma emit_decent: "client_inv w \<Longrightarrow> decent (mqtt_emit evs) w"
  by (simp add: mqtt_emit_def decent_def core_def)

lemma lua_call_decent: "polite run \<Longrightarrow> client_inv w \<Longrightarrow> decent (lua_call run f args) w"
  unfolding lua_call_def by (rule decent_mbind [OF emit_decent]) (simp_all add: polite_def)

lemma call_back_decent:
  assumes "polite run" "client_inv w"
  shows "decent (call_back run ref args) w"
  using lua_call_decent [OF assms] assms(2)
  by (auto simp: call_back_def decent_def mbind_def mget_def split: option.splits)

lemma live_conn:
  assumes "conns w a = Some c"
  shows "get_conn a w = (Inr c, w)"
  using assms by (simp add: get_conn_def)

lemma esp_send_decent:
  assumes "client_inv w" "\<forall>a. p = Some a \<longrightarrow> live (conns w) a"
  shows "decent (esp_send p) w"
  using assms by (cases p) (auto simp: live_def esp_send_def esp_call_def get_conn_def mqtt_emit_def decent_def core_def)

lemma esp_call_decent:
  assumes "client_inv w" "live (conns w) a"
  shows "decent (esp_call a ev) w"
  using assms by (auto simp: live_def esp_call_def get_conn_def mqtt_emit_def decent_def core_def)

lemma send_outbound_decent:
  assumes "client_inv w" "live (conns w) a"
  shows "decent (send_outbound a) w"
proof (cases "outbound_message w")
  case True
  have "decent (mbind (esp_send (Some a)) (\<lambda>_. mupd (\<lambda>w. w\<lparr>outbound_message := False\<rparr>))) w"
    using assms by (intro decent_mbind esp_send_decent) (auto simp: decent_def core_def)
  with True show ?thesis by (simp add: send_outbound_def decent_def)
qed (use assms in \<open>simp add: send_outbound_def decent_def\<close>)

lemma answer_decent:
  assumes "client_inv w" "conn_ready (mqtt_conn w)" "finished (mqtt_conn w) (build (mqtt_conn w))"
  shows "decent (answer build) w"
proof -
  obtain c' where "build (mqtt_conn w) = Inr c'" "conn_ready c'"
    using assms(3) by (rule conn_ready_finished [OF assms(2)])
  with assms(1) show ?thesis by (simp add: answer_def decent_def core_def client_inv_conn)
qed


section \<open>Received segments\<close>

text \<open>A publication whose topic and payload can be handed to the script.\<close>

definition publish_fine :: "bytes \<Rightarrow> u16 \<Rightarrow> bool" where
  "publish_fine buf len =
     (case mqtt_get_publish_topic buf len of
        Inl _ \<Rightarrow> False
      | Inr t \<Rightarrow>
          (case mqtt_get_publish_data buf len of
             Inl _ \<Rightarrow> False
           | Inr d \<Rightarrow> is_ok (push_slice buf t) \<and> (0 < snd d \<longrightarrow> is_ok (push_slice buf d))))"

text \<open>The segments for which \<open>fuel\<close> rounds of the loop are defined.\<close>

fun segment_ok :: "nat \<Rightarrow> bytes \<Rightarrow> bool" where
  "segment_ok 0 pdata = True"
| "segment_ok (Suc fuel) pdata =
     (pdata \<noteq> [] \<and> length pdata \<le> 1024 \<and>
      (case mqtt_get_total_length pdata (of_nat (length pdata)) of
         Inl _ \<Rightarrow> False
       | Inr n \<Rightarrow> mqtt_get_type pdata = Inr MQTT_MSG_TYPE_PUBLISH \<longrightarrow>
           publish_fine pdata (of_nat (length pdata)) \<and>
           (unat (of_nat n :: u16) < length pdata \<longrightarrow> segment_ok fuel (drop (unat (of_nat n :: u16)) pdata))))"

lemma get_u16_prefix: "i + 1 < length p \<Longrightarrow> get_u16 (p @ r) i = get_u16 p i"
  by (simp add: get_u16_def nth_append)

lemma accessors_prefix:
  assumes "unat len \<le> length p" "p \<noteq> []"
  shows "mqtt_get_publish_topic (p @ r) len = mqtt_get_publish_topic p len"
    "mqtt_get_publish_data (p @ r) len = mqtt_get_publish_data p len"
    "mqtt_get_type (p @ r) = mqtt_get_type p"
proof -
  have u16: "get_u16 (p @ r) i = get_u16 p i" if "i + 2 < unat len" for i
    using that assms(1) by (intro get_u16_prefix) simp
  have head: "arr_get (p @ r) 0 = arr_get p 0" using assms(2) by (simp add: nth_append)
  show "mqtt_get_type (p @ r) = mqtt_get_type p" by (simp only: mqtt_get_type_def head)
  show "mqtt_get_publish_topic (p @ r) len = mqtt_get_publish_topic p len"
    unfolding mqtt_get_publish_topic_def length_loop_prefix [OF assms(1)]
    by (rule rbind_cong [OF refl]) (auto simp: u16)
  show "mqtt_get_publish_data (p @ r) len = mqtt_get_publish_data p len"
    unfolding mqtt_get_publish_data_def length_loop_prefix [OF assms(1)] mqtt_get_qos_def head
    by (rule rbind_cong [OF refl]) (auto simp: u16 Let_def)
qed

lemma push_slice_prefix: "is_ok (push_slice p s) \<Longrightarrow> push_slice (p @ r) s = push_slice p s"
  by (cases s) (auto simp: push_slice_def split: option.splits if_splits)

lemma publish_fine_prefix:
  assumes "publish_fine p len" "unat len \<le> length p" "p \<noteq> []"
  shows "publish_fine (p @ r) len"
  using assms(1) push_slice_prefix [of p _ r] unfolding publish_fine_def accessors_prefix [OF assms(2,3)]
  by (auto split: sum.splits)

lemma skip_length_safe: "len \<le> length p \<Longrightarrow> \<exists>j. skip_length p len i = Inr j"
proof (induction p len i rule: skip_length.induct)
  case (1 p len i)
  show ?case
  proof (cases "i < len")
    case True
    then have "arr_get p i = Inr (p ! i)" using 1(2) by simp
    moreover have "\<exists>j. skip_length p len (i + 1) = Inr j" if "p ! i AND 0x80 \<noteq> 0"
      by (rule 1(1) [OF True]) (use that calculation 1(2) in simp_all)
    ultimately show ?thesis using True by (subst skip_length.simps) auto
  next
    case False
    then show ?thesis by (subst skip_length.simps) simp
  qed
qed

lemma clean_ok: "is_ok r \<Longrightarrow> is_ok (f (case r of Inr x \<Rightarrow> x | Inl _ \<Rightarrow> undefined)) \<Longrightarrow> is_ok (rbind r f)"
  by (cases r) simp_all

lemma get_id_safe:
  assumes "unat len \<le> length p"
  shows "\<exists>mid. mqtt_get_id p len = Inr mid"
proof (cases "unat len = 0")
  case False
  have u16: "is_ok (get_u16 p i)" if "i + 1 < unat len" for i
    using that assms get_u16_in [of i p] by auto
  have skip: "is_ok (skip_length p (unat len) 1)" using skip_length_safe [OF assms] by (auto simp: is_ok_iff)
  have "0 < length p" using False assms by linarith
  then have head: "is_ok (mqtt_get_type p)" "is_ok (mqtt_get_qos p)" by (simp_all add: mqtt_get_type_def mqtt_get_qos_def)
  have one: "is_ok (arr_get p 1)" if "4 \<le> unat len" using that assms by simp
  have "is_ok (mqtt_get_id p len)"
    unfolding mqtt_get_id_def Let_def
    by (auto intro!: clean_ok head skip [simplified] u16 one [simplified] simp: not_le)
  then show ?thesis by (simp add: is_ok_iff)
qed (simp add: mqtt_get_id_def)

lemma deliver_decent:
  assumes "polite run" "client_inv w" "publish_fine (in_buffer w) len"
  shows "decent (deliver_publish run len) w"
proof -
  obtain t d where acc: "mqtt_get_publish_topic (in_buffer w) len = Inr t" "mqtt_get_publish_data (in_buffer w) len = Inr d"
      "is_ok (push_slice (in_buffer w) t)" "0 < snd d \<longrightarrow> is_ok (push_slice (in_buffer w) d)"
    using assms(3) by (auto simp: publish_fine_def split: sum.splits)
  show ?thesis
    using acc lua_call_decent [OF assms(1,2)] assms(2) by (auto simp: deliver_publish_def decent_def is_ok_iff mbind_def mget_def mlift_def split: option.splits)
qed

lemma data_packet_decent:
  assumes "polite run" "client_inv w" "conn_ready (mqtt_conn w)"
    "type = MQTT_MSG_TYPE_PUBLISH \<longrightarrow> publish_fine (in_buffer w) (message_length_read w)"
  shows "decent (data_packet run type qos mid) w"
proof -
  have ok: "conn_ok (mqtt_conn w)" using assms(3) by (simp add: conn_ready_def)
  have ack: "decent (answer (\<lambda>c. id_message c mid t q)) w" for t q
    using ok by (intro answer_decent assms finished_id_message)
  have ping: "decent (answer mqtt_msg_pingresp) w"
    unfolding mqtt_msg_pingresp_def using ok by (intro answer_decent assms finished_fini init_partial)
  have calls: "decent (call_back run ref []) w" for ref by (rule call_back_decent [OF assms(1,2)])
  have "decent (mbind (if qos = 1 then answer (\<lambda>c. mqtt_msg_puback c mid)
      else if qos = 2 then answer (\<lambda>c. mqtt_msg_pubrec c mid) else mret ()) (\<lambda>_.
       mbind (mget message_length_read) (\<lambda>len. deliver_publish run len))) w" if "type = MQTT_MSG_TYPE_PUBLISH"
  proof (rule decent_mbind, goal_cases)
    case 1
    then show ?case using ack assms(2) by (simp add: mqtt_msg_puback_def mqtt_msg_pubrec_def)
  next
    case (2 x w')
    then have "in_buffer w' = in_buffer w" "message_length_read w' = message_length_read w"
      by (auto simp: answer_def mbind_def mget_def mlift_def mupd_def mret_def split: if_splits sum.splits)
    with 2 deliver_decent [OF assms(1) 2(2)] assms(4) that show ?case by (simp add: decent_def)
  qed
  then show ?thesis
    using ack ping calls assms(2)
    by (auto simp: data_packet_def decent_def mqtt_msg_pubrel_def mqtt_msg_pubcomp_def)
qed

lemma copied: "length pdata \<le> length (in_buffer w) \<Longrightarrow> arr_copy (in_buffer w) 0 pdata = Inr (refilled pdata w)"
  by (simp add: refilled_def)

lemma read_packets_decent:
  assumes "polite run" "client_inv w" "live (conns w) a" "segment_ok fuel pdata"
  shows "clean (fst (read_packets fuel run a pdata w)) \<and> client_inv (snd (read_packets fuel run a pdata w))"
  using assms(2-4)
proof (induction fuel arbitrary: pdata w)
  case (Suc fuel)
  have p: "pdata \<noteq> []" "length pdata \<le> 1024" using Suc.prems(3) by auto
  have len: "length (in_buffer w) = 1024" "in_buffer_length w = 1024" using Suc.prems(1) by (simp_all add: client_inv_def)
  have n16: "unat (of_nat (length pdata) :: u16) = length pdata" using p(2) by (intro unat_of_nat_small) simp
  let ?buf = "refilled pdata w"
  have buf: "?buf = pdata @ drop (length pdata) (in_buffer w)" "length ?buf = 1024" using p(2) len(1) by (simp_all add: refilled_def)
  let ?w = "w\<lparr>in_buffer := ?buf, outbound_message := False\<rparr>"
  have inv: "client_inv ?w" "live (conns ?w) a" using Suc.prems(1,2) buf(2) by (simp_all add: client_inv_def)
  have type: "mqtt_get_type ?buf = mqtt_get_type pdata"
    unfolding buf(1) using n16 p(1) by (intro accessors_prefix(3) [of "of_nat (length pdata)"]) simp_all
  have decent_ends: "clean (fst (mbind m (\<lambda>_. mret True) u)) \<and> client_inv (snd (mbind m (\<lambda>_. mret True) u))"
    if "decent m u" for m :: "unit mqtt_handler" and u
    using decent_mbind [OF that, of "\<lambda>_. mret True"] by (simp add: decent_def)
  show ?case
  proof (cases "connState w")
    case MQTT_CONNECT_SENDING
    obtain ty where ty: "mqtt_get_type ?buf = Inr ty" using buf(2) by (cases ?buf) (simp_all add: mqtt_get_type_def)
    have ready: "conn_ready (mqtt_conn w)" using Suc.prems(1) MQTT_CONNECT_SENDING by (simp add: client_inv_def)
    let ?u = "?w\<lparr>connState := MQTT_INIT\<rparr>" and ?v = "?w\<lparr>connState := MQTT_DATA\<rparr>"
    have inv': "client_inv ?u" "client_inv ?v" "live (conns ?u) a" using inv ready by (simp_all add: client_inv_def)
    have "decent (mbind (esp_call a (\<lambda>sec. EspDisconnect sec a)) (\<lambda>_. send_outbound a)) ?u"
      using inv' by (intro decent_mbind esp_call_decent send_outbound_decent) (auto simp: core_def)
    from decent_ends [OF this] decent_ends [OF call_back_decent [OF assms(1) inv'(2), of cb_connect_ref "[]"]]
    show ?thesis
      using MQTT_CONNECT_SENDING ty copied [of pdata w] p(2) len(1) by (simp add: read_packets.simps mbind_assoc)
  next
    case MQTT_DATA
    obtain n where n: "mqtt_get_total_length pdata (of_nat (length pdata)) = Inr n"
        "mqtt_get_type pdata = Inr MQTT_MSG_TYPE_PUBLISH \<Longrightarrow> publish_fine pdata (of_nat (length pdata)) \<and>
           (unat (of_nat n :: u16) < length pdata \<longrightarrow> segment_ok fuel (drop (unat (of_nat n :: u16)) pdata))"
      using Suc.prems(3) by (auto split: sum.splits)
    obtain ty q where head: "mqtt_get_type ?buf = Inr ty" "mqtt_get_qos ?buf = Inr q"
      using buf(2) by (cases ?buf) (simp_all add: mqtt_get_type_def mqtt_get_qos_def)
    obtain mid where mid: "mqtt_get_id ?buf (in_buffer_length w) = Inr mid" using get_id_safe [of 1024 ?buf] buf(2) len(2) by auto
    have total: "mqtt_get_total_length ?buf (of_nat (length pdata)) = Inr n"
      unfolding buf(1) using total_length_prefix [of pdata] p(2) n(1) by simp
    let ?u = "w\<lparr>in_buffer := ?buf, outbound_message := False, message_length_read := of_nat (length pdata), message_length := of_nat n\<rparr>"
    have inv': "client_inv ?u" "conn_ready (mqtt_conn ?u)"
      using inv client_inv_ready [OF Suc.prems(1)] MQTT_DATA by simp_all
    have fine: "ty = MQTT_MSG_TYPE_PUBLISH \<longrightarrow> publish_fine (in_buffer ?u) (message_length_read ?u)"
      using n(2) type head(1) publish_fine_prefix [of pdata "of_nat (length pdata)"] n16 p(1) buf(1) by simp
    have dec: "decent (data_packet run ty q mid) ?u" by (rule data_packet_decent [OF assms(1) inv' fine])
    have step: "read_packets (Suc fuel) run a pdata w = mbind (data_packet run ty q mid) (\<lambda>_.
         mbind (mget (\<lambda>w. (message_length w, message_length_read w))) (\<lambda>(ml, mlr).
         if ty = MQTT_MSG_TYPE_PUBLISH \<and> ml < mlr
         then read_packets fuel run a (drop (unat ml) pdata)
         else mbind (send_outbound a) (\<lambda>_. mret True))) ?u"
      by (rule read_data_step [OF MQTT_DATA _ total head mid]) (use p(2) len(1) in simp)
    obtain r w1 where w1: "data_packet run ty q mid ?u = (r, w1)" by fastforce
    show ?thesis
    proof (cases r)
      case (Inl e)
      with w1 dec step show ?thesis by (simp add: decent_def clean_Inl_iff)
    next
      case (Inr x)
      have c1: "client_inv w1" "live (conns w1) = live (conns w)" "message_length w1 = of_nat n" "message_length_read w1 = of_nat (length pdata)"
        using dec w1 by (simp_all add: decent_def core_def)
      have "clean (fst (read_packets fuel run a (drop (unat (of_nat n :: u16)) pdata) w1))
          \<and> client_inv (snd (read_packets fuel run a (drop (unat (of_nat n :: u16)) pdata) w1))"
        if "ty = MQTT_MSG_TYPE_PUBLISH" "unat (of_nat n :: u16) < length pdata"
        by (rule Suc.IH) (use c1 Suc.prems(2) n(2) that type head(1) in simp_all)
      moreover have "clean (fst (mbind (send_outbound a) (\<lambda>_. mret True) w1))
          \<and> client_inv (snd (mbind (send_outbound a) (\<lambda>_. mret True) w1))"
        by (rule decent_ends [OF send_outbound_decent [OF c1(1)]]) (use c1(2) Suc.prems(2) in simp)
      moreover have "read_packets (Suc fuel) run a pdata w = (if ty = MQTT_MSG_TYPE_PUBLISH \<and> unat (of_nat n :: u16) < length pdata
          then read_packets fuel run a (drop (unat (of_nat n :: u16)) pdata) w1 else mbind (send_outbound a) (\<lambda>_. mret True) w1)"
        using step w1 Inr c1(3,4) n16 by (simp add: word_less_nat_alt)
      ultimately show ?thesis by simp
    qed
  qed (use decent_ends [OF send_outbound_decent [OF inv]] copied [of pdata w] p(2) len(1) in \<open>simp_all add: read_packets.simps\<close>)
qed (simp add: read_packets.simps)


section \<open>Calls from scripts\<close>

lemma compose_decent:
  assumes "client_inv w" "build (mqtt_conn w) = Inr (mid, c)"
    "conn_ready c \<or> conn_blank c \<and> conn_blank (mqtt_conn w)"
  shows "decent (compose build) w"
  using assms by (auto simp: compose_def decent_def core_def client_inv_def conn_ready_def conn_blank_def conn_ok_def)

lemma compose_ready_decent:
  assumes "client_inv w" "conn_ready (mqtt_conn w)" "finished (mqtt_conn w) (map_sum id snd (build (mqtt_conn w)))"
  shows "decent (compose build) w"
proof -
  obtain c where c: "map_sum id snd (build (mqtt_conn w)) = Inr c" "conn_ready c"
    using assms(3) by (rule conn_ready_finished [OF assms(2)])
  then obtain mid where "build (mqtt_conn w) = Inr (mid, c)" by (cases "build (mqtt_conn w)") auto
  with assms(1) c(2) show ?thesis by (intro compose_decent) auto
qed

lemma publish_blank:
  assumes "conn_blank c"
  shows "mqtt_msg_publish c (Some t) d q r = Inr (None, fail_message (init_message c))"
  using assms
  by (simp add: mqtt_msg_publish_def append_string_def Let_def conn_blank_def init_message_def MQTT_MAX_FIXED_HEADER_SIZE_def)

lemma compose_publish_decent:
  assumes "client_inv w"
  shows "decent (compose (\<lambda>c. mqtt_msg_publish c (Some t) d q r)) w"
proof (cases "conn_ready (mqtt_conn w)")
  case True
  then show ?thesis using assms
    by (intro compose_ready_decent finished_publish) (simp_all add: conn_ready_def)
next
  case False
  then have blank: "conn_blank (mqtt_conn w)" using assms by (simp add: client_inv_def)
  show ?thesis
    using assms publish_blank [OF blank] by (rule compose_decent) (use blank in \<open>simp add: conn_blank_def fail_message_def init_message_def\<close>)
qed

lemma compose_subscribe_decent:
  assumes "client_inv w" "connected w"
  shows "decent (compose (\<lambda>c. mqtt_msg_subscribe c t q)) w"
proof (rule compose_ready_decent [OF assms(1)])
  show ready: "conn_ready (mqtt_conn w)" using assms by (simp add: client_inv_ready)
  then show "finished (mqtt_conn w) (map_sum id snd (mqtt_msg_subscribe (mqtt_conn w) t q))"
    unfolding mqtt_msg_subscribe_def
    by (intro finished_topic_message finished_subscribe_tail) (simp_all add: conn_ready_def)
qed

lemma check_client_clean: "clean (check_client args)"
  by (auto simp: check_client_def luaL_checkudata_def split: lua_value.splits if_splits)

lemma live_pesp: "client_inv w \<Longrightarrow> \<forall>a. pesp_conn w = Some a \<longrightarrow> live (conns w) a"
  by (simp add: client_inv_def)

lemma live_only: "client_inv w \<Longrightarrow> live (conns w) b \<longleftrightarrow> pesp_conn w = Some b"
  by (simp add: client_inv_def)

lemma live_block:
  assumes "client_inv w" "live (conns w) a"
  obtains c t where "conns w a = Some c" "reverse c" "tcp c = Some t" "pesp_conn w = Some a"
proof -
  have "pesp_conn w = Some a" "\<forall>c. conns w a = Some c \<longrightarrow> reverse c \<and> tcp c \<noteq> None"
    using assms by (simp_all add: client_inv_def)
  with that assms(2) show ?thesis by (auto simp: live_def)
qed

lemma core_connected: "core w' = core w \<Longrightarrow> connected w \<Longrightarrow> connected w'"
  by (simp add: core_def)

text \<open>The values of a call convert to integers without leaving the range of the machine.\<close>

definition plain_args :: "lua_conv \<Rightarrow> lua_value list \<Rightarrow> bool" where
  "plain_args cv args \<longleftrightarrow> (\<forall>v\<in>set args. clean (lua_tointeger cv v))"

lemma plain_int: "plain_args cv args \<Longrightarrow> clean (luaL_checkinteger cv (index2adr args i))"
  by (intro checkinteger_clean index2adr_clean) (auto simp: plain_args_def)

lemma publish_decent:
  assumes "client_inv w" "plain_args cv args"
  shows "decent (mqtt_socket_publish cv args) w"
  unfolding mqtt_socket_publish_def Let_def
  using assms live_pesp [OF assms(1)]
  by (auto intro!: decent_mlift check_client_clean decent_mget checklstring_clean plain_int decent_mbind [OF compose_publish_decent]
      decent_mupd_mbind decent_mbind [OF esp_send_decent] simp: core_def)

text \<open>The table form of \<open>subscribe\<close> reads freed memory as soon as one of its messages could be composed.\<close>

lemma pack_messages_freed:
  "length buf = limit \<Longrightarrow> \<exists>m\<in>set ms. m \<noteq> [] \<Longrightarrow> pack_messages limit ms ptr buf = Inl UseAfterFree"
  by (induction limit ms ptr buf rule: pack_messages.induct) auto

lemma subscribe_table_freed:
  assumes "table_pairs cv v = (ps, False)" "subscribe_all cv ps w = (Inr ms, u)" "\<exists>m\<in>set ms. m \<noteq> []"
    and "client_inv u" "connected u"
  shows "fst (subscribe_table cv v w) = Inl UseAfterFree"
proof -
  have "length (buffer (mqtt_conn u)) = unat (out_buffer_length u)"
    using client_inv_ready [of u] assms(4,5) by (simp add: client_inv_def conn_ready_def conn_ok_def)
  from pack_messages_freed [OF this assms(3)] show ?thesis
    using assms(1,2) by (simp add: subscribe_table_def)
qed

lemma subscribe_decent:
  assumes "client_inv w" "plain_args cv args" "\<not> lua_istable (index2adr args 2)"
  shows "decent (mqtt_socket_subscribe cv args) w"
proof -
  have tail: "decent (mbind (mupd (\<lambda>w. w\<lparr>send_timeout := MQTT_SEND_TIMEOUT, pending_msg_type := MQTT_MSG_TYPE_SUBSCRIBE\<rparr>)) (\<lambda>_.
     mbind (mget mqtt_conn) (\<lambda>c.
     mbind (mlift (mqtt_get_qos (drop (msg_data c) (buffer c)))) (\<lambda>qos.
     mbind (mupd (\<lambda>w. w\<lparr>pending_publish_qos := qos,
       cb_suback_ref := (if is_function (index2adr args stack) then Some (index2adr args stack) else cb_suback_ref w)\<rparr>)) (\<lambda>_.
     mbind (mget pesp_conn) (\<lambda>p.
     mbind (esp_send p) (\<lambda>_. mret []))))))) u" if u: "client_inv u" "connected u" for stack u
  proof -
    have "msg_data (mqtt_conn u) < length (buffer (mqtt_conn u))"
      using u by (auto simp: client_inv_def conn_ready_def conn_ok_def)
    then have "clean (mqtt_get_qos (drop (msg_data (mqtt_conn u)) (buffer (mqtt_conn u))))" by (simp add: mqtt_get_qos_def)
    with u live_pesp [OF u(1)] show ?thesis
      by (auto intro!: decent_mupd_mbind decent_mget decent_mlift decent_mbind [OF esp_send_decent] simp: core_def)
  qed
  show ?thesis
    unfolding mqtt_socket_subscribe_def
    using assms(1,3) plain_int [OF assms(2)]
    by (auto intro!: decent_mlift check_client_clean decent_mget decent_mbind [OF _ tail]
      decent_mbind [OF compose_subscribe_decent] checklstring_clean simp: core_def)
qed

lemma on_decent:
  assumes "client_inv w"
  shows "decent (mqtt_socket_on cv args) w"
  unfolding mqtt_socket_on_def Let_def using assms
  by (auto intro!: decent_mlift check_client_clean checklstring_clean decent_mupd_mbind simp: core_def luaL_checkanyfunction_def)

lemma lwt_decent:
  assumes "client_inv w" "plain_args cv args"
  shows "decent (mqtt_socket_lwt cv args) w"
proof -
  have "client_inv (u\<lparr>connect_info := i\<rparr>)" if "client_inv u" "will_message i \<noteq> None" for u i
    using that by (simp add: client_inv_def)
  then show ?thesis
    unfolding mqtt_socket_lwt_def using assms(1) plain_int [OF assms(2)]
    by (auto intro!: decent_mlift check_client_clean checklstring_clean decent_mupd_mbind simp: core_def)
qed

lemma close_decent:
  assumes "client_inv w"
  shows "decent (mqtt_socket_close args) w"
proof (cases "pesp_conn w")
  case None
  with assms show ?thesis
    unfolding mqtt_socket_close_def by (auto intro!: decent_mlift check_client_clean decent_mget)
next
  case (Some a)
  with live_pesp [OF assms] have live: "live (conns w) a" by simp
  then obtain c t where "conns w a = Some c" "tcp c = Some t" using live_block [OF assms] by metis
  then have tcp: "decent (f t) w \<Longrightarrow> decent (mbind (get_tcp a) f) w" for f :: "_ \<Rightarrow> lua_value list mqtt_handler"
    by (simp add: get_tcp_def get_conn_def decent_def mbind_assoc)
  show ?thesis
    unfolding mqtt_socket_close_def using assms Some live
    by (auto intro!: decent_mlift check_client_clean decent_mget tcp decent_mbind [OF esp_call_decent])
qed


section \<open>Events of the network and the timer\<close>

lemma with_client_live:
  assumes "client_inv w" "live (conns w) a"
  shows "with_client (Some a) x k w = k a w"
proof -
  obtain c t where "conns w a = Some c" "reverse c" "tcp c = Some t" "pesp_conn w = Some a"
    using assms by (rule live_block)
  then show ?thesis by (simp add: with_client_def get_conn_def mbind_assoc)
qed

lemma with_client_decent:
  assumes "client_inv w" "\<And>a. arg = Some a \<Longrightarrow> live (conns w) a" "\<And>a. arg = Some a \<Longrightarrow> decent (k a) w"
  shows "decent (with_client arg x k) w"
proof (cases arg)
  case None
  with assms(1) show ?thesis by (simp add: with_client_def decent_def)
next
  case (Some a)
  with assms(3) with_client_live [OF assms(1) assms(2) [OF Some], of x k] show ?thesis by (simp add: decent_def)
qed

lemma sent_decent:
  assumes "polite run" "client_inv w" "\<And>a. arg = Some a \<Longrightarrow> live (conns w) a"
  shows "decent (mqtt_socket_sent run arg) w"
  unfolding mqtt_socket_sent_def using assms
  by (auto intro!: with_client_decent decent_mget decent_mupd_mbind call_back_decent simp: core_def)

lemma timer_decent:
  assumes "client_inv w"
  shows "decent mqtt_socket_timer w"
proof -
  have ping: "decent (answer mqtt_msg_pingreq) u" if "client_inv u" "connState u = MQTT_DATA" for u
  proof -
    have ready: "conn_ready (mqtt_conn u)" using that by (simp add: client_inv_ready)
    with that(1) show ?thesis
      unfolding mqtt_msg_pingreq_def by (intro answer_decent finished_fini init_partial) (simp_all add: conn_ready_def)
  qed
  have last: "decent (mupd (\<lambda>w. if 0 < send_timeout w then w\<lparr>send_timeout := send_timeout w - 1\<rparr> else w)) u"
    if "client_inv u" for u
    using that by (intro decent_mupd) (simp_all add: core_def)
  show ?thesis
    unfolding mqtt_socket_timer_def using assms live_pesp [OF assms]
    by (auto intro!: decent_mget decent_mbind [OF _ last] decent_mupd_mbind decent_mbind [OF ping] decent_mbind [OF esp_send_decent]
      decent_mupd simp: core_def)
qed

lemma socket_connect_decent:
  assumes "client_inv w" "\<And>a. arg = Some a \<Longrightarrow> live (conns w) a"
  shows "decent (socket_connect arg) w"
  unfolding socket_connect_def using assms by (intro with_client_decent esp_call_decent)

lemma set_tcp_decent:
  assumes "client_inv w" "live (conns w) a"
  shows "decent (set_tcp a f) w"
proof -
  obtain c t where c: "conns w a = Some c" "reverse c" "tcp c = Some t" "pesp_conn w = Some a"
    using assms by (rule live_block)
  then have "set_tcp a f w = (Inr (), w\<lparr>conns := (conns w)(a \<mapsto> c\<lparr>tcp := Some (f t)\<rparr>)\<rparr>)"
    by (simp add: set_tcp_def get_conn_def put_conn_def mbind_assoc)
  moreover have "client_inv (w\<lparr>conns := (conns w)(a \<mapsto> c\<lparr>tcp := Some (f t)\<rparr>)\<rparr>)"
    using assms c by (simp add: client_inv_def)
  ultimately show ?thesis using assms(2) by (simp add: decent_def core_def)
qed

lemma free_conn_live:
  assumes "live (conns w) a"
  shows "free_conn a w = (Inr (), w\<lparr>conns := (conns w)(a := None)\<rparr>)"
  using assms by (auto simp: free_conn_def get_conn_def live_def mbind_assoc)

text \<open>Dropping the block the client holds.\<close>

lemma dropped_inv:
  assumes "client_inv w" "pesp_conn w = Some a"
  shows "client_inv (w\<lparr>conns := (conns w)(a := None), pesp_conn := None\<rparr>)"
  using assms by (auto simp: client_inv_def live_def)

definition sound :: "'a mqtt_handler \<Rightarrow> mqtt_client \<Rightarrow> bool" where
  "sound m w \<longleftrightarrow> clean (fst (m w)) \<and> client_inv (snd (m w))"

lemma decent_sound: "decent m w \<Longrightarrow> sound m w"
  by (simp add: decent_def sound_def)

lemma sound_mbind:
  assumes "decent m w" "\<And>x w'. m w = (Inr x, w') \<Longrightarrow> client_inv w' \<Longrightarrow> core w' = core w \<Longrightarrow> sound (f x) w'"
  shows "sound (mbind m f) w"
proof (cases "m w")
  case (Pair r w')
  with assms show ?thesis by (cases r) (auto simp: decent_def sound_def clean_Inl_iff)
qed

lemma disconnected_sound:
  assumes "polite run" "client_inv w" "\<And>a. arg = Some a \<Longrightarrow> live (conns w) a"
  shows "sound (mqtt_socket_disconnected run arg) w"
proof (cases arg)
  case None
  with assms(2) show ?thesis by (simp add: sound_def mqtt_socket_disconnected_def with_client_def)
next
  case (Some a)
  have live: "live (conns w) a" using assms(3) Some by simp
  obtain r w1 where cb: "call_back run cb_disconnect_ref [] w = (r, w1)" by fastforce
  have w1: "clean r" "client_inv w1" "live (conns w1) a"
    using call_back_decent [OF assms(1,2), of cb_disconnect_ref "[]"] cb live by (auto simp: decent_def core_def)
  obtain c where c: "conns w1 a = Some c" "pesp_conn w1 = Some a" using w1(2,3) by (elim live_block)
  show ?thesis
  proof (cases r)
    case (Inl e)
    with cb w1 show ?thesis
      unfolding sound_def mqtt_socket_disconnected_def Some with_client_live [OF assms(2) live] by (simp add: clean_Inl_iff)
  next
    case (Inr x)
    let ?w = "w1\<lparr>connected := False, timer_armed := False, mqtt_log := mqtt_log w1 @ [TimerDisarm],
      conns := (conns w1)(a := None), pesp_conn := None, self_ref := False\<rparr>"
    have "mqtt_socket_disconnected run arg w = (Inr (), ?w)"
      unfolding mqtt_socket_disconnected_def Some with_client_live [OF assms(2) live]
      using cb c Inr by (simp add: mqtt_emit_def get_conn_def put_conn_def free_conn_live live_def mbind_assoc)
    moreover have "client_inv ?w"
      using w1(2) c by (auto simp: client_inv_def live_def)
    ultimately show ?thesis by (simp add: sound_def)
  qed
qed

lemma connected_sound:
  assumes "client_inv w" "\<And>a. arg = Some a \<Longrightarrow> live (conns w) a"
  shows "sound (mqtt_socket_connected arg) w"
proof (cases arg)
  case None
  with assms(1) show ?thesis by (simp add: mqtt_socket_connected_def with_client_def sound_def)
next
  case (Some a)
  have live: "live (conns w) a" using assms(2) Some by simp
  let ?c = "mqtt_msg_init (mqtt_conn w) (if buffer (mqtt_conn w) = [] then out_buffer w else buffer (mqtt_conn w)) (out_buffer_length w)"
  let ?w = "w\<lparr>connected := True, mqtt_conn := ?c\<rparr>"
  have ready: "conn_ready ?c"
    using assms(1) by (auto simp: client_inv_def mqtt_msg_init_def conn_ready_def conn_ok_def conn_blank_def)
  then have inv: "client_inv ?w" using assms(1) by (simp add: client_inv_def)
  have build: "decent (answer (\<lambda>c. mqtt_msg_connect c (connect_info ?w))) ?w"
    using inv ready by (intro answer_decent mqtt_msg_connect_finished) (auto simp: client_inv_def conn_ready_def)
  have last: "sound (mupd (\<lambda>w. w\<lparr>outbound_message := False, connState := MQTT_CONNECT_SENDING\<rparr>)) u"
    if "client_inv u" "connected u" for u
    using that client_inv_ready [OF that(1)] by (simp add: sound_def client_inv_def)
  have "sound (mbind (answer (\<lambda>c. mqtt_msg_connect c (connect_info ?w))) (\<lambda>_.
     mbind (esp_send (Some a)) (\<lambda>_.
     mupd (\<lambda>w. w\<lparr>outbound_message := False, connState := MQTT_CONNECT_SENDING\<rparr>)))) ?w"
    using live by (intro sound_mbind [OF build] sound_mbind [OF esp_send_decent] last) (auto simp: core_def)
  then show ?thesis
    unfolding Some by (cases "buffer (mqtt_conn w) = []")
      (simp_all add: sound_def mqtt_socket_connected_def with_client_live [OF assms(1) live])
qed

lemma found_decent:
  assumes "client_inv w" "\<And>a. arg = Some a \<Longrightarrow> live (conns w) a"
  shows "decent (socket_dns_found run name (Some ip) arg) w"
  unfolding socket_dns_found_def using assms
  by (auto intro!: decent_mupd_mbind decent_mbind [OF set_tcp_decent] socket_connect_decent simp: core_def split: option.splits)

lemma dns_found_sound:
  assumes "polite run" "client_inv w" "\<And>a. arg = Some a \<Longrightarrow> live (conns w) a"
  shows "sound (socket_dns_found run name ip arg) w"
proof (cases ip)
  case (Some i)
  with found_decent [OF assms(2,3)] show ?thesis by (simp add: decent_sound)
next
  case None
  let ?w = "w\<lparr>dns_reconn_count := dns_reconn_count w + 1\<rparr>"
  have "sound (mqtt_socket_disconnected run arg) ?w"
    using assms by (intro disconnected_sound) simp_all
  moreover have "get_conn a w = (Inr (the (conns w a)), w)" if "arg = Some a" for a
    using assms(3) [OF that] by (auto simp: get_conn_def live_def)
  ultimately show ?thesis
    using None assms(2,3) by (cases arg) (auto simp: socket_dns_found_def sound_def mqtt_emit_def get_conn_def live_def)
qed

text \<open>Without a host, the address that is looked at is whatever the stack held.\<close>

definition host_given :: "net_env \<Rightarrow> lua_value list \<Rightarrow> bool" where
  "host_given env args \<longleftrightarrow> lua_isstring (index2adr args 2) \<or> stack_word env \<noteq> IPADDR_NONE"

lemma number_arg_clean: "plain_args cv args \<Longrightarrow> clean (number_arg cv args i)"
  unfolding number_arg_def by (auto intro!: clean_rbind index2adr_clean simp: plain_args_def)

lemma look_up_decent:
  assumes "client_inv w" "live (conns w) a" "ip = IPADDR_NONE \<longrightarrow> domain \<noteq> None"
  shows "decent (look_up env run domain ip a) w"
proof -
  have found: "decent (case gethostbyname env name of None \<Rightarrow> mret ()
      | Some ip \<Rightarrow> socket_dns_found run name (Some ip) (Some a)) u" if "client_inv u" "live (conns u) a" for u name
    using that by (auto intro!: found_decent split: option.split)
  show ?thesis
    unfolding look_up_def using assms
    by (auto intro!: socket_connect_decent decent_mlift decent_mupd_mbind decent_mbind [OF emit_decent] found simp: core_def)
qed

text \<open>The old block is freed before a new one is allocated.\<close>

lemma renewed:
  assumes "client_inv w"
  obtains w' where "mbind drop_conn (\<lambda>_. mbind new_conn f) w = f (next_conn w) w'" "client_inv w'" "live (conns w') (next_conn w)"
proof -
  let ?a = "next_conn w" and ?h = "case pesp_conn w of None \<Rightarrow> conns w | Some b \<Rightarrow> (conns w)(b := None)"
  let ?w = "w\<lparr>next_conn := Suc ?a, pesp_conn := Some ?a,
    conns := ?h(?a \<mapsto> \<lparr>reverse = True, tcp = Some \<lparr>remote_ip = 0, remote_port = 0, local_port = 0\<rparr>\<rparr>), connected := False\<rparr>"
  have none: "?h b = None" for b
    using live_only [OF assms, of b] by (auto simp: live_def split: option.split)
  have "mbind drop_conn (\<lambda>_. mbind new_conn f) w = f ?a ?w"
    using live_pesp [OF assms] by (auto simp: drop_conn_def new_conn_def mbind_assoc free_conn_live split: option.split)
  moreover have "client_inv ?w" using assms by (auto simp: client_inv_def live_def none)
  ultimately show ?thesis by (rule that) (simp add: live_def)
qed

text \<open>A sound step after which the client holds a block that is new.\<close>

definition renews :: "'a mqtt_handler \<Rightarrow> mqtt_client \<Rightarrow> bool" where
  "renews m w \<longleftrightarrow> sound m w \<and> (is_ok (fst (m w)) \<longrightarrow> pesp_conn (snd (m w)) = Some (next_conn w))"

lemma renews_mlift:
  "client_inv w \<Longrightarrow> clean r \<Longrightarrow> (\<And>x. r = Inr x \<Longrightarrow> renews (f x) w) \<Longrightarrow> renews (mbind (mlift r) f) w"
  by (cases r) (auto simp: renews_def sound_def clean_Inl_iff)

lemma renews_drop:
  assumes "client_inv w" "\<And>a w'. client_inv w' \<Longrightarrow> live (conns w') a \<Longrightarrow> decent (f a) w'"
  shows "renews (mbind drop_conn (\<lambda>_. mbind new_conn f)) w"
proof -
  obtain w' where w': "mbind drop_conn (\<lambda>_. mbind new_conn f) w = f (next_conn w) w'" "client_inv w'" "live (conns w') (next_conn w)"
    using assms(1) by (rule renewed)
  have "decent (f (next_conn w)) w'" using w'(2,3) by (rule assms(2))
  moreover have "pesp_conn w' = Some (next_conn w)" using live_only [OF w'(2)] w'(3) by simp
  ultimately show ?thesis using w'(1) by (simp add: renews_def sound_def decent_def core_def)
qed

lemma decent_mlift2:
  "client_inv w \<Longrightarrow> clean r \<Longrightarrow> (\<And>x y. r = Inr (x, y) \<Longrightarrow> decent (f x y) w) \<Longrightarrow> decent (mbind (mlift r) (\<lambda>(x, y). f x y)) w"
  by (rule decent_mlift) auto

lemma connect_renews:
  assumes "client_inv w" "plain_args cv args" "host_given env args"
  shows "renews (mqtt_socket_connect env cv run args) w"
proof -
  have arg: "clean (if 2 \<le> length args then string_arg cv args 2 else Inr (None, 2))"
    unfolding string_arg_def by (auto intro!: clean_rbind checklstring_clean)
  have host: "(case domain of None \<Rightarrow> stack_word env | Some s \<Rightarrow> ipaddr_addr env (cstr s)) = IPADDR_NONE \<longrightarrow> map_option cstr domain \<noteq> None"
    if "(if 2 \<le> length args then string_arg cv args 2 else Inr (None, 2)) = Inr (domain, stack)" for domain stack
    using that assms(3)
    by (auto simp: host_given_def string_arg_def rbind_eq_Inr index2adr_def lua_isstring_def split: if_splits)
  have set: "decent (if b then mret () else set_tcp a f) u" if "client_inv u" "live (conns u) a" for b a f u
    using that by (simp add: set_tcp_decent)
  have call: "decent (if b then mupd (\<lambda>w. w\<lparr>cb_connect_ref := r\<rparr>) else mret ()) u" if "client_inv u" for b r u
    using that by (simp add: decent_mupd core_def)
  show ?thesis
    unfolding mqtt_socket_connect_def Let_def
    by (intro renews_mlift [OF assms(1) check_client_clean] renews_drop [OF assms(1)] decent_mlift2 arg number_arg_clean assms(2)
        decent_mbind [OF set] decent_mbind [OF set_tcp_decent] decent_mupd_mbind decent_mbind [OF call]
        decent_mbind [OF look_up_decent] host decent_mbind [OF emit_decent] decent_mret)
      (simp_all add: core_def)
qed

lemmas connect_sound = connect_renews [unfolded renews_def, THEN conjunct1]

lemma delete_sound:
  assumes "client_inv w"
  shows "clean (fst (mqtt_delete args w))"
    and "live (conns (snd (mqtt_delete args w))) b \<longleftrightarrow> pesp_conn (snd (mqtt_delete args w)) = Some b"
    and "in_buffer (snd (mqtt_delete args w)) \<noteq> [] \<longrightarrow> client_inv (snd (mqtt_delete args w))"
proof -
  note check = check_client_clean [of args]
  have free: "live (conns w) a" if "pesp_conn w = Some a" for a using live_only [OF assms, of a] that by simp
  show "clean (fst (mqtt_delete args w))"
    using check free by (cases "pesp_conn w")
      (auto simp: mqtt_delete_def mqtt_emit_def free_conn_live clean_Inl_iff split: sum.split)
  show "live (conns (snd (mqtt_delete args w))) b \<longleftrightarrow> pesp_conn (snd (mqtt_delete args w)) = Some b"
    using live_only [OF assms, of b] free by (cases "pesp_conn w")
      (auto simp: mqtt_delete_def mqtt_emit_def free_conn_live split: sum.split, simp_all add: live_def)
  show "in_buffer (snd (mqtt_delete args w)) \<noteq> [] \<longrightarrow> client_inv (snd (mqtt_delete args w))"
    using assms free by (cases "pesp_conn w")
      (auto simp: mqtt_delete_def mqtt_emit_def free_conn_live split: sum.split)
qed


section \<open>All sequences\<close>

text \<open>The calls a script may make from a callback as well, and scripts that make them.\<close>

datatype mqtt_call =
    Publish "lua_value list"
  | Subscribe "lua_value list"
  | On "lua_value list"
  | Lwt "lua_value list"
  | Close "lua_value list"

fun mqtt_do :: "lua_conv \<Rightarrow> mqtt_call \<Rightarrow> lua_value list mqtt_handler" where
  "mqtt_do cv (Publish args) = mqtt_socket_publish cv args"
| "mqtt_do cv (Subscribe args) = mqtt_socket_subscribe cv args"
| "mqtt_do cv (On args) = mqtt_socket_on cv args"
| "mqtt_do cv (Lwt args) = mqtt_socket_lwt cv args"
| "mqtt_do cv (Close args) = mqtt_socket_close args"

fun call_args :: "mqtt_call \<Rightarrow> lua_value list" where
  "call_args (Publish args) = args"
| "call_args (Subscribe args) = args"
| "call_args (On args) = args"
| "call_args (Lwt args) = args"
| "call_args (Close args) = args"

definition scripted :: "lua_conv \<Rightarrow> (lua_value \<Rightarrow> lua_value list \<Rightarrow> mqtt_call list) \<Rightarrow> lua_run" where
  "scripted cv prog f args = mfor (prog f args) (\<lambda>c. mbind (mqtt_do cv c) (\<lambda>_. mret ()))"

text \<open>The arguments convert, and \<open>subscribe\<close> is not used with a table.\<close>

definition call_ok :: "lua_conv \<Rightarrow> mqtt_call \<Rightarrow> bool" where
  "call_ok cv c \<longleftrightarrow> plain_args cv (call_args c) \<and>
     (case c of Subscribe args \<Rightarrow> \<not> lua_istable (index2adr args 2) | _ \<Rightarrow> True)"

lemma call_decent: "client_inv w \<Longrightarrow> call_ok cv c \<Longrightarrow> decent (mqtt_do cv c) w"
  by (cases c) (simp_all add: call_ok_def publish_decent subscribe_decent on_decent lwt_decent close_decent)

lemma scripted_polite:
  assumes "\<forall>f args. \<forall>c\<in>set (prog f args). call_ok cv c"
  shows "polite (scripted cv prog)"
proof -
  have "decent (mfor cs (\<lambda>c. mbind (mqtt_do cv c) (\<lambda>_. mret ()))) w"
    if "client_inv w" "\<forall>c\<in>set cs. call_ok cv c" for cs w
    using that by (induction cs arbitrary: w) (auto intro!: decent_mbind call_decent)
  with assms show ?thesis by (simp add: polite_def scripted_def)
qed

text \<open>No call writes the lengths that the receive loop works with.\<close>

lemma parts_leave_lengths [leaves_intro]:
  "leaves read_lengths (mqtt_emit evs)" "leaves read_lengths (get_conn a)" "leaves read_lengths (get_tcp a)"
  "leaves read_lengths (esp_call a ev)" "leaves read_lengths (esp_send p)" "leaves read_lengths (compose build)"
  unfolding mqtt_emit_def get_conn_def get_tcp_def esp_call_def esp_send_def compose_def
  by (intro leaves_intro; simp add: read_lengths_def)+

lemma subscribe_leaves_lengths [leaves_intro]:
  "leaves read_lengths (subscribe_all cv ps)" "leaves read_lengths (subscribe_table cv v)"
proof -
  show all: "leaves read_lengths (subscribe_all cv ps)" for ps
    by (induction cv ps rule: subscribe_all.induct) (simp_all only: subscribe_all.simps, (intro leaves_intro; assumption?)+)
  show "leaves read_lengths (subscribe_table cv v)"
    unfolding subscribe_table_def Let_def by (intro leaves_intro all; simp add: read_lengths_def)
qed

lemma call_leaves_lengths [leaves_intro]: "leaves read_lengths (mqtt_do cv c)"
  by (cases c) (simp only: mqtt_do.simps mqtt_socket_publish_def mqtt_socket_subscribe_def mqtt_socket_on_def
    mqtt_socket_lwt_def mqtt_socket_close_def Let_def, intro leaves_intro; simp add: read_lengths_def)+

lemma scripted_leaves_lengths: "leaves read_lengths (scripted cv prog f args)"
  unfolding scripted_def by (intro leaves_intro)

datatype mqtt_event =
    Call mqtt_call
  | ConnectTo "lua_value list"
  | Delete "lua_value list"
  | NetConnected "nat option"
  | NetReceived "nat option" bytes
  | NetSent "nat option"
  | NetDisconnected "nat option"
  | NetReconnected "nat option"
  | DnsFound bytes "u32 option" "nat option"
  | Tick

fun mqtt_handle :: "nat \<Rightarrow> net_env \<Rightarrow> lua_conv \<Rightarrow> lua_run \<Rightarrow> mqtt_event \<Rightarrow> unit mqtt_handler" where
  "mqtt_handle fuel env cv run (Call c) = mbind (mqtt_do cv c) (\<lambda>_. mret ())"
| "mqtt_handle fuel env cv run (ConnectTo args) = mbind (mqtt_socket_connect env cv run args) (\<lambda>_. mret ())"
| "mqtt_handle fuel env cv run (Delete args) = mbind (mqtt_delete args) (\<lambda>_. mret ())"
| "mqtt_handle fuel env cv run (NetConnected arg) = mqtt_socket_connected arg"
| "mqtt_handle fuel env cv run (NetReceived arg pdata) = mbind (mqtt_socket_received fuel run arg pdata) (\<lambda>_. mret ())"
| "mqtt_handle fuel env cv run (NetSent arg) = mqtt_socket_sent run arg"
| "mqtt_handle fuel env cv run (NetDisconnected arg) = mqtt_socket_disconnected run arg"
| "mqtt_handle fuel env cv run (NetReconnected arg) = mqtt_socket_reconnected run arg"
| "mqtt_handle fuel env cv run (DnsFound name ip arg) = socket_dns_found run name ip arg"
| "mqtt_handle fuel env cv run Tick = mqtt_socket_timer"

text \<open>
  What the environment promises: the client is not used after it was collected, the stack calls back
  with a block that has not been freed, arguments convert to integers, a host is given to \<open>connect\<close>,
  \<open>subscribe\<close> gets a topic, and segments hold complete packets.
\<close>

definition conn_arg :: "mqtt_client \<Rightarrow> nat option \<Rightarrow> bool" where
  "conn_arg w arg = (case arg of None \<Rightarrow> True | Some a \<Rightarrow> live (conns w) a)"

fun event_ok :: "nat \<Rightarrow> net_env \<Rightarrow> lua_conv \<Rightarrow> mqtt_client \<Rightarrow> mqtt_event \<Rightarrow> bool" where
  "event_ok fuel env cv w (Call c) = call_ok cv c"
| "event_ok fuel env cv w (ConnectTo args) = (plain_args cv args \<and> host_given env args)"
| "event_ok fuel env cv w (NetConnected arg) = conn_arg w arg"
| "event_ok fuel env cv w (NetReceived arg pdata) = (conn_arg w arg \<and> segment_ok fuel pdata)"
| "event_ok fuel env cv w (NetSent arg) = conn_arg w arg"
| "event_ok fuel env cv w (NetDisconnected arg) = conn_arg w arg"
| "event_ok fuel env cv w (NetReconnected arg) = conn_arg w arg"
| "event_ok fuel env cv w (DnsFound name ip arg) = conn_arg w arg"
| "event_ok fuel env cv w _ = True"

definition mqtt_ok :: "nat \<Rightarrow> net_env \<Rightarrow> lua_conv \<Rightarrow> mqtt_client \<Rightarrow> mqtt_event \<Rightarrow> bool" where
  "mqtt_ok fuel env cv w e \<longleftrightarrow> in_buffer w \<noteq> [] \<and> event_ok fuel env cv w e"

definition session_inv :: "mqtt_client \<Rightarrow> bool" where
  "session_inv w \<longleftrightarrow> (in_buffer w \<noteq> [] \<longrightarrow> client_inv w) \<and> (\<forall>b. live (conns w) b \<longleftrightarrow> pesp_conn w = Some b)"

lemma sound_unit: "sound m w \<Longrightarrow> sound (mbind m (\<lambda>_. mret ())) w"
  by (cases "m w"; cases "fst (m w)") (auto simp: sound_def clean_Inl_iff)

lemma received_sound:
  assumes "polite run" "client_inv w" "conn_arg w arg" "segment_ok fuel pdata"
  shows "sound (mqtt_socket_received fuel run arg pdata) w"
proof (cases arg)
  case None
  with assms(2) show ?thesis by (simp add: sound_def mqtt_socket_received_def with_client_def)
next
  case (Some a)
  then have live: "live (conns w) a" using assms(3) by (simp add: conn_arg_def)
  from read_packets_decent [OF assms(1,2) live assms(4)] show ?thesis
    unfolding sound_def mqtt_socket_received_def Some with_client_live [OF assms(2) live] .
qed

lemma event_sound:
  assumes "polite run" "client_inv w" "event_ok fuel env cv w e" "\<And>args. e \<noteq> Delete args"
  shows "sound (mqtt_handle fuel env cv run e) w"
proof -
  have arg: "live (conns w) a" if "conn_arg w (Some a)" for a using that by (simp add: conn_arg_def)
  note rules = sound_unit received_sound connect_sound connected_sound dns_found_sound disconnected_sound
  show ?thesis
  proof (cases e)
    case (Call c)
    then show ?thesis unfolding Call mqtt_handle.simps
      by (intro sound_unit decent_sound call_decent assms(2)) (use assms(3) Call in simp)
  next
    case (NetSent a)
    then show ?thesis unfolding NetSent mqtt_handle.simps
      by (intro decent_sound sent_decent assms(1,2)) (use assms(3) NetSent arg in auto)
  next
    case Tick
    then show ?thesis by (simp add: decent_sound timer_decent assms(2))
  qed (use assms arg in \<open>simp only: mqtt_handle.simps event_ok.simps mqtt_socket_reconnected_def; intro rules; auto\<close>)+
qed

lemma sound_session:
  assumes "sound m w"
  shows "clean (fst (m w)) \<and> session_inv (snd (m w))"
  using assms live_only by (auto simp: sound_def session_inv_def)

lemma mqtt_handle_sound:
  assumes "polite run" "session_inv w" "mqtt_ok fuel env cv w e"
  shows "clean (fst (mqtt_handle fuel env cv run e w)) \<and> session_inv (snd (mqtt_handle fuel env cv run e w))"
proof -
  have inv: "client_inv w" using assms(2,3) by (simp add: session_inv_def mqtt_ok_def)
  show ?thesis
  proof (cases "\<exists>args. e = Delete args")
    case True
    then obtain args where "e = Delete args" by blast
    then show ?thesis using delete_sound [OF inv, of args]
      by (cases "mqtt_delete args w"; cases "fst (mqtt_delete args w)") (auto simp: session_inv_def clean_Inl_iff)
  next
    case False
    then show ?thesis using assms(3) by (intro sound_session event_sound assms(1) inv) (auto simp: mqtt_ok_def)
  qed
qed

lemma new_client_inv: "client_inv (new_client ident False)"
  by (simp add: client_inv_def new_client_def MQTT_BUF_SIZE_def live_def conn_blank_def empty_info_def given_def)

lemma new_client_will: "will_topic (connect_info (new_client ident g)) = None"
  by (simp add: new_client_def empty_info_def)

text \<open>What holds of the value of every branch holds of the result.\<close>

definition yields :: "('a \<Rightarrow> bool) \<Rightarrow> 'a result \<Rightarrow> bool" where
  "yields P r \<longleftrightarrow> (\<forall>x. r = Inr x \<longrightarrow> P x)"

lemma yields_rbind: "(\<And>x. yields P (f x)) \<Longrightarrow> yields P (rbind m f)"
  by (auto simp: yields_def rbind_eq_Inr)

lemma yields_pair: "(\<And>x y. yields P (f x y)) \<Longrightarrow> yields P (case p of (x, y) \<Rightarrow> f x y)"
  by (cases p) simp

lemma yields_if: "yields P a \<Longrightarrow> yields P b \<Longrightarrow> yields P (if c then a else b)"
  by simp

lemma yields_Inr: "P x \<Longrightarrow> yields P (Inr x)"
  by (simp add: yields_def)

lemma client_sound:
  assumes "mqtt_socket_client cv ident False args = Inr w"
  shows "session_inv w"
proof -
  have info: "client_inv (u\<lparr>connect_info := i\<rparr>)" if "client_inv u" "will_topic i = None" for u i
    using that by (simp add: client_inv_def given_def)
  have "yields client_inv (mqtt_socket_client cv ident False args)"
    unfolding mqtt_socket_client_def Let_def
    by (intro yields_rbind yields_pair yields_if yields_Inr info new_client_inv) (simp_all add: new_client_will)
  with assms have "client_inv w" by (simp add: yields_def)
  with live_only show ?thesis by (simp add: session_inv_def)
qed

interpretation mqtt: handled "mqtt_handle fuel env cv (scripted cv prog)"
    "\<lambda>w. session_inv w \<and> (\<forall>f args. \<forall>c\<in>set (prog f args). call_ok cv c)" "mqtt_ok fuel env cv"
  for fuel env cv prog
  by unfold_locales (blast dest: mqtt_handle_sound [OF scripted_polite])

text \<open>An example: a script that answers every callback by a publication, and a server that is reached at once.\<close>

definition echo_script :: "lua_value \<Rightarrow> lua_value list \<Rightarrow> mqtt_call list" where
  "echo_script f args = [Publish [self_value, LString [116], LString [104], LNumber (Fin 0 0), LNumber (Fin 0 0)]]"

definition demo_env :: net_env where
  "demo_env = \<lparr>ipaddr_addr = (\<lambda>_. 1), gethostbyname = (\<lambda>_. None), espconn_port = 2, stack_word = 0\<rparr>"

abbreviation demo_client :: mqtt_client where
  "demo_client \<equiv> (new_client [105] False)\<lparr>connect_info := (connect_info (new_client [105] False))\<lparr>keepalive := 60\<rparr>\<rparr>"

abbreviation demo_step :: "mqtt_event \<Rightarrow> unit mqtt_handler" where
  "demo_step \<equiv> mqtt_handle (Suc 4) demo_env plain_conv (scripted plain_conv echo_script)"

lemmas demo_defs = plain_args_def plain_conv_def index2adr_def table_pairs_def lua_tointeger_def tonumber_def host_given_def
  lua_isstring_def luaL_checklstring_def lua_tolstring_def

lemma demo_new: "mqtt_socket_client plain_conv [105] False [] = Inr demo_client"
  by (simp add: mqtt_socket_client_def string_arg_def demo_defs lua_isnumber_def MQTT_DEFAULT_KEEPALIVE_def Let_def)

lemmas demo_connect_defs = mqtt_socket_connect_def check_client_def luaL_checkudata_def demo_defs is_function_def Let_def
  drop_conn_def new_conn_def string_arg_def number_arg_def lua_isnumber_def set_tcp_def get_conn_def put_conn_def free_conn_def
  demo_env_def look_up_def mbind_assoc socket_connect_def with_client_def esp_call_def mqtt_emit_def IPADDR_NONE_def

lemma demo_connect: "pesp_conn (snd (demo_step (ConnectTo [self_value, LString [104]]) demo_client)) = Some 0"
  by (simp add: demo_connect_defs new_client_def)

lemma connected_block:
  "leaves pesp_conn (mqtt_socket_connected arg)" "leaves (\<lambda>w. length (in_buffer w)) (mqtt_socket_connected arg)"
  unfolding mqtt_socket_connected_def with_client_def answer_def esp_send_def esp_call_def get_conn_def mqtt_emit_def
  by (intro leaves_intro; simp)+

lemma demo_script: "\<forall>f args. \<forall>c\<in>set (echo_script f args). call_ok plain_conv c"
proof -
  have "clean (cfloat_to_int (Fin 0 0))" by code_simp
  then show ?thesis by (simp add: echo_script_def call_ok_def demo_defs)
qed

lemma demo_admissible:
  "admissible demo_step (mqtt_ok (Suc 4) demo_env plain_conv) demo_client
     ([ConnectTo [self_value, LString [104]]] @ NetConnected (Some 0) # [NetReceived (Some 0) [0x30, 4, 0, 1, 116, 104]])"
proof -
  let ?c = "ConnectTo [self_value, LString [104]]"
  have fine: "plain_args plain_conv [self_value, LString [104]]" by (simp add: demo_defs)
  have ok: "mqtt_ok (Suc 4) demo_env plain_conv demo_client ?c"
    using fine by (simp add: mqtt_ok_def demo_defs new_client_def MQTT_BUF_SIZE_def)
  obtain w1 where w1: "w1 = snd (demo_step ?c demo_client)" by simp
  have "client_inv demo_client" using new_client_inv [of "[105]"] by (simp add: client_inv_def new_client_def empty_info_def)
  then have "sound (demo_step ?c) demo_client"
    by (rule event_sound [OF scripted_polite [OF demo_script]]) (use ok in \<open>simp_all add: mqtt_ok_def\<close>)
  then have inv1: "client_inv w1" unfolding w1 by (simp only: sound_def)
  have p1: "pesp_conn w1 = Some 0" unfolding w1 by (rule demo_connect)
  then have l1: "live (conns w1) 0" using live_only [OF inv1] by simp
  let ?w2 = "snd (mqtt_socket_connected (Some 0) w1)"
  have inv2: "client_inv ?w2" using connected_sound [OF inv1, of "Some 0"] l1 by (simp add: sound_def)
  have "pesp_conn ?w2 = Some 0" using p1 leavesD [OF connected_block(1)] by metis
  then have l2: "live (conns ?w2) 0" using live_only [OF inv2] by simp
  have buf: "in_buffer w1 \<noteq> []" "in_buffer ?w2 \<noteq> []" using inv1 inv2 by (auto simp: client_inv_def)
  have "length_loop [0x30, 4, 0, 1, 116, 104] 6 1 0 = Inr (2, 4)" by (subst length_loop.simps) simp
  then have "segment_ok (Suc 4) [0x30, 4, 0, 1, 116, 104]"
    unfolding segment_ok.simps by (simp add: publish_fine_def mqtt_get_total_length_def mqtt_get_publish_topic_def mqtt_get_publish_data_def
      mqtt_get_type_def mqtt_get_qos_def get_u16_def Let_def push_slice_def mqtt_types)
  with l1 l2 buf have "mqtt_ok (Suc 4) demo_env plain_conv w1 (NetConnected (Some 0))"
    "mqtt_ok (Suc 4) demo_env plain_conv ?w2 (NetReceived (Some 0) [0x30, 4, 0, 1, 116, 104])"
    by (simp_all add: mqtt_ok_def conn_arg_def)
  with ok show ?thesis
    unfolding append.simps admissible.simps w1 [symmetric] mqtt_handle.simps(4) by blast
qed




section \<open>Reconnecting\<close>

text \<open>A script that answers every callback by connecting again.\<close>

definition reconnecting :: "net_env \<Rightarrow> lua_conv \<Rightarrow> lua_value list \<Rightarrow> lua_run" where
  "reconnecting env cv cargs f args = mbind (mqtt_socket_connect env cv silent cargs) (\<lambda>_. mret ())"

text \<open>C37: A script that connects again from its \<open>offline\<close> callback makes the client use freed memory: the call frees
  the connection block that the network stack passed, and the function that called the script then writes to it.\<close>

theorem mqtt_offline_reconnect:
  assumes "client_inv w" "conns w a \<noteq> None" "self_ref w" "cb_disconnect_ref w = Some f"
    and "plain_args cv cargs" "host_given env cargs"
    and "call_back (reconnecting env cv cargs) cb_disconnect_ref [] w = (Inr (), u)"
  shows "fst (mqtt_socket_disconnected (reconnecting env cv cargs) (Some a) w) = Inl UseAfterFree"
proof -
  have live: "live (conns w) a" using assms(2) by (simp add: live_def)
  then have old: "a < next_conn w" using assms(1,2) by (auto simp: client_inv_def)
  let ?w = "w\<lparr>mqtt_log := mqtt_log w @ [LuaCallback f [self_value]]\<rparr>"
  obtain r where "mqtt_socket_connect env cv silent cargs ?w = (Inr r, u)"
    using assms(3,4,7)
    by (cases "mqtt_socket_connect env cv silent cargs ?w"; cases "fst (mqtt_socket_connect env cv silent cargs ?w)")
      (auto simp: call_back_def lua_call_def mqtt_emit_def reconnecting_def)
  moreover have "renews (mqtt_socket_connect env cv silent cargs) ?w"
    using assms(1,5,6) by (intro connect_renews) simp_all
  ultimately have "client_inv u" "pesp_conn u = Some (next_conn w)"
    by (simp_all add: renews_def sound_def)
  then have "conns u a = None" using live_only [of u a] old by (auto simp: live_def)
  then show ?thesis
    unfolding mqtt_socket_disconnected_def with_client_live [OF assms(1) live]
    using assms(7) by (simp add: mqtt_emit_def get_conn_def mbind_assoc)
qed

abbreviation demo_online :: mqtt_client where
  "demo_online \<equiv> (new_client [105] False)\<lparr>conns := [0 \<mapsto> \<lparr>reverse = True, tcp = Some \<lparr>remote_ip = 0, remote_port = 0, local_port = 0\<rparr>\<rparr>],
     next_conn := 1, pesp_conn := Some 0, self_ref := True, cb_disconnect_ref := Some (LFunction 1)\<rparr>"

theorem mqtt_offline_reconnect_witness:
  "fst (mqtt_socket_disconnected (reconnecting demo_env plain_conv [self_value, LString [104]]) (Some 0) demo_online) = Inl UseAfterFree"
proof (rule mqtt_offline_reconnect)
  show "client_inv demo_online" using new_client_inv [of "[105]"] by (simp add: client_inv_def live_def new_client_def)
  show "call_back (reconnecting demo_env plain_conv [self_value, LString [104]]) cb_disconnect_ref [] demo_online
      = (Inr (), snd (call_back (reconnecting demo_env plain_conv [self_value, LString [104]]) cb_disconnect_ref [] demo_online))"
    by (simp add: call_back_def lua_call_def reconnecting_def demo_connect_defs)
qed (simp_all add: demo_defs)


section \<open>Keeping the connection alive\<close>

lemma tick_waits:
  assumes "connState w = MQTT_DATA" "keep_alive_tick w < keepalive (connect_info w)"
  shows "\<exists>s. snd (mqtt_socket_timer w) = w\<lparr>keep_alive_tick := keep_alive_tick w + 1, send_timeout := s\<rparr>"
proof -
  have "\<not> keepalive (connect_info w) < keep_alive_tick w + 1"
    using assms(2) inc_le [of "keep_alive_tick w" "keepalive (connect_info w)"] by (simp add: not_less)
  with assms(1) have "snd (mqtt_socket_timer w) = (let v = w\<lparr>keep_alive_tick := keep_alive_tick w + 1\<rparr> in
      if 0 < send_timeout v then v\<lparr>send_timeout := send_timeout v - 1\<rparr> else v\<lparr>send_timeout := send_timeout v\<rparr>)"
    by (simp add: mqtt_socket_timer_def mbind_assoc Let_def)
  then show ?thesis
    by (intro exI [of _ "if 0 < send_timeout w then send_timeout w - 1 else send_timeout w"]) (simp add: Let_def)
qed

lemma ticks_wait:
  assumes "connState w = MQTT_DATA" "unat (keep_alive_tick w) + k \<le> unat (keepalive (connect_info w))"
  shows "\<exists>s. ((\<lambda>w. snd (mqtt_socket_timer w)) ^^ k) w = w\<lparr>keep_alive_tick := keep_alive_tick w + of_nat k, send_timeout := s\<rparr>"
  using assms(2)
proof (induction k)
  case 0
  have "w = w\<lparr>keep_alive_tick := keep_alive_tick w + of_nat 0, send_timeout := send_timeout w\<rparr>" by simp
  then show ?case by (metis funpow_0)
next
  case (Suc k)
  then obtain s where s: "((\<lambda>w. snd (mqtt_socket_timer w)) ^^ k) w = w\<lparr>keep_alive_tick := keep_alive_tick w + of_nat k, send_timeout := s\<rparr>"
    (is "_ = ?v") by auto
  have "k < 2 ^ LENGTH(32)" "unat (keep_alive_tick w) + k < 2 ^ LENGTH(32)"
    using Suc.prems u32_bound [of "keepalive (connect_info w)"] by simp_all
  then have "unat (keep_alive_tick w + of_nat k) = unat (keep_alive_tick w) + k"
    by (simp add: unat_add_no_wrap unat_of_nat_small)
  then have "keep_alive_tick ?v < keepalive (connect_info ?v)" using Suc.prems by (simp add: word_less_nat_alt)
  from tick_waits [OF _ this] assms(1) obtain s' where
    "snd (mqtt_socket_timer ?v) = ?v\<lparr>keep_alive_tick := keep_alive_tick ?v + 1, send_timeout := s'\<rparr>" by auto
  with s show ?case by (auto simp: ac_simps)
qed

lemma tick_pings:
  assumes "connState w = MQTT_DATA" "conn_ready (mqtt_conn w)" "pesp_conn w = Some a" "conns w a = Some c"
    and "keep_alive_tick w = keepalive (connect_info w)" "keepalive (connect_info w) < 0xFFFFFFFF"
  shows "mqtt_log (snd (mqtt_socket_timer w)) = mqtt_log w @ [EspSent (secure w) a [0xC0, 0]]
    \<and> keep_alive_tick (snd (mqtt_socket_timer w)) = 0"
proof -
  have "keepalive (connect_info w) < keep_alive_tick w + 1"
  proof -
    have "unat (keepalive (connect_info w)) < 4294967295" using assms(6) by (simp add: word_less_nat_alt)
    then have "unat (keepalive (connect_info w) + 1) = unat (keepalive (connect_info w)) + 1"
      by (simp add: unat_add_no_wrap)
    with assms(5) show ?thesis by (simp add: word_less_nat_alt)
  qed
  moreover obtain c' where "mqtt_msg_pingreq (mqtt_conn w) = Inr c'" "wire c' = [0xC0, 0]"
    using empty_wire [OF assms(2), of MQTT_MSG_TYPE_PINGREQ] by (auto simp: mqtt_msg_pingreq_def fixed_header_def mqtt_types)
  ultimately show ?thesis
    using assms(1,3,4) by (simp add: mqtt_socket_timer_def answer_def esp_send_def esp_call_def get_conn_def mqtt_emit_def mbind_assoc)
qed

text \<open>C35: While packets are exchanged, the client sends a ping whenever the timer has run one second longer than the
  keepalive interval since the last one, and nothing before.\<close>

theorem mqtt_keepalive:
  assumes "connState w = MQTT_DATA" "conn_ready (mqtt_conn w)" "pesp_conn w = Some a" "conns w a \<noteq> None"
    and "keep_alive_tick w \<le> keepalive (connect_info w)" "keepalive (connect_info w) < 0xFFFFFFFF"
    and "k = unat (keepalive (connect_info w)) - unat (keep_alive_tick w)"
  shows "(\<forall>j\<le>k. mqtt_log (((\<lambda>w. snd (mqtt_socket_timer w)) ^^ j) w) = mqtt_log w)
    \<and> mqtt_log (((\<lambda>w. snd (mqtt_socket_timer w)) ^^ Suc k) w) = mqtt_log w @ [EspSent (secure w) a [0xC0, 0]]
    \<and> keep_alive_tick (((\<lambda>w. snd (mqtt_socket_timer w)) ^^ Suc k) w) = 0"
proof -
  have le: "unat (keep_alive_tick w) \<le> unat (keepalive (connect_info w))" using assms(5) by (simp add: word_le_nat_alt)
  have wait: "\<exists>s. ((\<lambda>w. snd (mqtt_socket_timer w)) ^^ j) w = w\<lparr>keep_alive_tick := keep_alive_tick w + of_nat j, send_timeout := s\<rparr>"
    if "j \<le> k" for j
    using that le assms(7) by (intro ticks_wait assms(1)) simp
  then obtain s where s: "((\<lambda>w. snd (mqtt_socket_timer w)) ^^ k) w = w\<lparr>keep_alive_tick := keep_alive_tick w + of_nat k, send_timeout := s\<rparr>"
    (is "_ = ?v") by blast
  have "keep_alive_tick w + of_nat k = keepalive (connect_info w)"
    using le by (simp add: assms(7) of_nat_diff)
  with assms(1-4,6) have "mqtt_log (snd (mqtt_socket_timer ?v)) = mqtt_log ?v @ [EspSent (secure ?v) a [0xC0, 0]]
    \<and> keep_alive_tick (snd (mqtt_socket_timer ?v)) = 0"
    by (intro tick_pings [where c = "the (conns w a)"]) auto
  moreover have "mqtt_log (((\<lambda>w. snd (mqtt_socket_timer w)) ^^ j) w) = mqtt_log w" if "j \<le> k" for j
    using wait [OF that] by auto
  ultimately show ?thesis by (simp add: s)
qed

theorem mqtt_keepalive_witness:
  "mqtt_log (((\<lambda>w. snd (mqtt_socket_timer w)) ^^ 61) (listening\<lparr>connect_info := empty_info\<lparr>keepalive := 60\<rparr>\<rparr>)) = [EspSent False 0 [0xC0, 0]]"
  using mqtt_keepalive [of "listening\<lparr>connect_info := empty_info\<lparr>keepalive := 60\<rparr>\<rparr>" 0 60] listening_receives
  by (simp add: receiving_def) (simp add: listening_def new_client_def)

end
