(* ===== verification/File_Server.thy ===== *)
theory File_Server
  imports Lua_Api
begin

text \<open>
  The upload server (\<open>modules/file_server.c\<close>): one TCP client sends packets of the form
  \<open>command, separator, decimal size, '|', payload\<close> that open, write and close a file or run a line of
  Lua; a packet is answered by \<open>Y|\<close> or \<open>N|\<close> and an echo. The server collects a packet in a buffer of
  64 bytes, in whatever chunks the network delivers it. The lemmas show that the receive function
  terminates, which memory it can touch, and that packets are taken apart independently of
  the chunks.

  The file system (SPIFFS) is a record of operations over an abstract file store, the network side is a
  list of the calls made to it.
\<close>

section \<open>State\<close>

datatype fs_state = NO_COMMAND | NO_SIZE | NO_DATA

datatype fs_command = IDLE | OPEN | WRITE | CLOSE | RUN

text \<open>\<open>m_pConnection\<close>: none, or a connection whose TCP block is allocated or not.\<close>

record fs_userdata =
  m_pConnection :: "bool option"
  m_DataBuffer :: bytes
  m_DataLength :: u32
  m_ReadPoint :: u32
  m_Payload :: u32
  m_State :: fs_state
  m_Command :: fs_command
  m_pClient :: "nat option"

record 'f fs_ops =
  op_open :: "bytes \<Rightarrow> string \<Rightarrow> 'f \<Rightarrow> int \<times> 'f"
  op_close :: "int \<Rightarrow> 'f \<Rightarrow> int \<times> 'f"
  op_write :: "int \<Rightarrow> bytes \<Rightarrow> 'f \<Rightarrow> int \<times> 'f"
  op_flush :: "int \<Rightarrow> 'f \<Rightarrow> int \<times> 'f"
  op_remove :: "bytes \<Rightarrow> 'f \<Rightarrow> int \<times> 'f"

datatype net_event =
    Sent nat bytes
  | Disconnect nat
  | Accept u16 u16

text \<open>
  Servers are userdata on a heap; \<open>reverse\<close> is the server a client connection points back to. The
  line buffer belongs to the terminal input (\<open>gLoad\<close>).
\<close>

record 'f fs_world =
  servers :: "nat \<Rightarrow> fs_userdata option"
  next_server :: nat
  g_pServer :: "nat option"
  reverse :: "nat \<Rightarrow> nat option"
  file_fd :: int
  files :: 'f
  line :: bytes
  line_position :: u32
  line_done :: bool
  jobs :: "bytes list"
  net :: "net_event list"

type_synonym ('f, 'a) fs_handler = "('f fs_world, 'a) handler"

definition MAX_BUFFER_SIZE :: u32 where "MAX_BUFFER_SIZE = 64"
definition FS_OPEN_OK :: int where "FS_OPEN_OK = 1"
definition FS_INVALID_FILE :: int where "FS_INVALID_FILE = FS_OPEN_OK - 1"
definition FS_NAME_MAX_LENGTH :: nat where "FS_NAME_MAX_LENGTH = 32"
definition LUA_MAXINPUT :: nat where "LUA_MAXINPUT = 256"

definition get_server :: "nat \<Rightarrow> ('f, fs_userdata) fs_handler" where
  "get_server s = mbind (mget servers) (\<lambda>h. mlift (deref (h s)))"

definition upd_server :: "nat \<Rightarrow> (fs_userdata \<Rightarrow> fs_userdata) \<Rightarrow> ('f, unit) fs_handler" where
  "upd_server s f =
     mbind (get_server s) (\<lambda>sv. mupd (\<lambda>w. w\<lparr>servers := (servers w)(s \<mapsto> f sv)\<rparr>))"

definition net_call :: "net_event \<Rightarrow> ('f, unit) fs_handler" where
  "net_call e = mupd (\<lambda>w. w\<lparr>net := net w @ [e]\<rparr>)"

definition file_call :: "('f \<Rightarrow> int \<times> 'f) \<Rightarrow> ('f, int) fs_handler" where
  "file_call op =
     mbind (mget (\<lambda>w. op (files w))) (\<lambda>(r, fs). mbind (mupd (\<lambda>w. w\<lparr>files := fs\<rparr>)) (\<lambda>_. mret r))"

definition set_fd :: "int \<Rightarrow> ('f, unit) fs_handler" where
  "set_fd fd = mupd (\<lambda>w. w\<lparr>file_fd := fd\<rparr>)"

section \<open>Strings in buffers\<close>

text \<open>The C string that starts at an offset; without a terminator inside the array \<open>strlen\<close> leaves it.\<close>

definition c_string_at :: "bytes \<Rightarrow> nat \<Rightarrow> bytes result" where
  "c_string_at buf i =
     (if i \<le> length buf \<and> 0 \<in> set (drop i buf) then Inr (takeWhile (\<lambda>b. b \<noteq> 0) (drop i buf))
      else Inl (OutOfBounds (length buf)))"

fun atoi_loop :: "bytes \<Rightarrow> u32 \<Rightarrow> u32" where
  "atoi_loop [] result = result"
| "atoi_loop (c # cs) result =
     (if 0x30 \<le> c \<and> c \<le> 0x39 then atoi_loop cs (result * 10 + ucast (c - 0x30)) else 0)"

definition atoi :: "bytes \<Rightarrow> u32" where
  "atoi str = atoi_loop str 0"

function find_bar :: "bytes \<Rightarrow> u32 \<Rightarrow> u32 \<Rightarrow> u32 option result" where
  "find_bar buf i n =
     (if i = n then Inr None
      else rbind (arr_get buf (unat i)) (\<lambda>b.
           if b = 0x7C then Inr (Some i) else find_bar buf (i + 1) n))"
  by pat_completeness auto
termination
proof (relation "measure (\<lambda>(buf, i, n). unat (n - i))", simp, goal_cases)
  case (1 buf i n b)
  then have "n - i \<noteq> 0" by simp
  then have "unat (n - i - 1) < unat (n - i)"
    by (metis unat_gt_0 unat_minus_one diff_less zero_less_one)
  then show ?case by (simp add: diff_diff_eq)
qed

declare find_bar.simps [simp del]

section \<open>Callbacks\<close>

definition close_file :: "'f fs_ops \<Rightarrow> ('f, unit) fs_handler" where
  "close_file fs =
     mbind (mget file_fd) (\<lambda>fd.
     if fd \<noteq> FS_INVALID_FILE then
       mbind (file_call (op_flush fs fd)) (\<lambda>_.
       mbind (file_call (op_close fs fd)) (\<lambda>_.
       set_fd FS_INVALID_FILE))
     else mret ())"

definition reset_server :: "fs_userdata \<Rightarrow> fs_userdata" where
  "reset_server sv =
     sv\<lparr>m_pClient := None, m_DataLength := 0, m_ReadPoint := 0, m_Payload := 0,
        m_State := NO_COMMAND, m_Command := IDLE\<rparr>"

definition fs_client_disconnected :: "'f fs_ops \<Rightarrow> nat option \<Rightarrow> ('f, unit) fs_handler" where
  "fs_client_disconnected fs pClient =
     (case pClient of
        None \<Rightarrow> mret ()
      | Some c \<Rightarrow>
          mbind (mget (\<lambda>w. reverse w c)) (\<lambda>pServer.
          case pServer of
            None \<Rightarrow> mret ()
          | Some s \<Rightarrow>
              mbind (mupd (\<lambda>w. w\<lparr>reverse := (reverse w)(c := None)\<rparr>)) (\<lambda>_.
              mbind (upd_server s reset_server) (\<lambda>_.
              close_file fs))))"

definition fs_server_reconnected :: "'f fs_ops \<Rightarrow> nat option \<Rightarrow> ('f, unit) fs_handler" where
  "fs_server_reconnected fs pClient = fs_client_disconnected fs pClient"

definition command_of :: "u8 \<Rightarrow> fs_command" where
  "command_of b =
     (if b = 0x4F then OPEN else if b = 0x57 then WRITE else if b = 0x43 then CLOSE
      else if b = 0x47 then RUN else IDLE)"

text \<open>The loop of at most ten flushes of the close command.\<close>

fun flush_loop :: "'f fs_ops \<Rightarrow> int \<Rightarrow> nat \<Rightarrow> ('f, bool) fs_handler" where
  "flush_loop fs fd 0 = mret False"
| "flush_loop fs fd (Suc n) =
     mbind (file_call (op_flush fs fd)) (\<lambda>r. if r = 0 then mret True else flush_loop fs fd n)"

text \<open>
  The end of the interpreter's \<open>dojob\<close>, the part that this module depends on: the line buffer is left empty and
  ready for the next line. What the interpreter does with the line before (it strips a newline, joins
  it with an incomplete line, compiles and runs it) is not modelled; the line it is given is recorded as a job. The
  timer that polls the terminal is armed again, which does not concern this module.
\<close>

definition dojob :: "('f, unit) fs_handler" where
  "dojob =
     mbind (mget line) (\<lambda>l.
     mbind (mlift (c_string_at l 0)) (\<lambda>script.
     mupd (\<lambda>w. w\<lparr>jobs := jobs w @ [script], line_done := False, line_position := 0,
                  line := replicate (length l) 0\<rparr>)))"

definition run_line :: "bytes \<Rightarrow> ('f, bool) fs_handler" where
  "run_line payload =
     mbind (mget line_position) (\<lambda>p.
     if p = 0 then
       mbind (mget line) (\<lambda>l.
       mbind (mlift (arr_copy l 0 payload)) (\<lambda>l.
       mbind (mlift (arr_set l (length payload + 1) 0)) (\<lambda>l.
       mbind (mlift (c_string_at l 0)) (\<lambda>str.
       mbind (mupd (\<lambda>w. w\<lparr>line := l, line_position := of_nat (length str + 1), line_done := True\<rparr>)) (\<lambda>_.
       mbind dojob (\<lambda>_. mret True))))))
     else mret False)"

definition open_file :: "'f fs_ops \<Rightarrow> bytes \<Rightarrow> ('f, bool) fs_handler" where
  "open_file fs payload =
     mbind (close_file fs) (\<lambda>_.
     if length payload \<le> FS_NAME_MAX_LENGTH then
       mbind (file_call (op_open fs payload ''w'')) (\<lambda>fd.
       mbind (set_fd fd) (\<lambda>_.
       mbind (file_call (op_close fs fd)) (\<lambda>_.
       mbind (file_call (op_remove fs payload)) (\<lambda>_.
       mbind (file_call (op_open fs payload ''w+'')) (\<lambda>fd.
       mbind (set_fd fd) (\<lambda>_.
       if fd < FS_OPEN_OK then mbind (set_fd FS_INVALID_FILE) (\<lambda>_. mret False)
       else mret True))))))
     else mret False)"

text \<open>The \<open>switch\<close> over the command of a complete packet.\<close>

definition exec_command :: "'f fs_ops \<Rightarrow> fs_command \<Rightarrow> bytes \<Rightarrow> ('f, bool) fs_handler" where
  "exec_command fs cmd payload =
     (case cmd of
        OPEN \<Rightarrow> open_file fs payload
      | WRITE \<Rightarrow>
          mbind (mget file_fd) (\<lambda>fd.
          if fd \<noteq> FS_INVALID_FILE then
            mbind (file_call (op_write fs fd payload)) (\<lambda>r. mret (r = int (length payload)))
          else mret False)
      | CLOSE \<Rightarrow>
          mbind (mget file_fd) (\<lambda>fd.
          if fd \<noteq> FS_INVALID_FILE then
            mbind (flush_loop fs fd 10) (\<lambda>ok.
            mbind (file_call (op_close fs fd)) (\<lambda>_.
            mbind (set_fd FS_INVALID_FILE) (\<lambda>_. mret ok)))
          else mret False)
      | RUN \<Rightarrow> run_line payload
      | IDLE \<Rightarrow> mret False)"

section \<open>Receiving data\<close>

text \<open>Command and size recognition on the server object: true when the function goes on.\<close>

definition take_command :: "fs_userdata \<Rightarrow> (bool \<times> fs_userdata) result" where
  "take_command sv =
     (if m_State sv = NO_COMMAND then
        if 2 \<le> m_DataLength sv then
          rbind (arr_get (m_DataBuffer sv) 0) (\<lambda>b.
          let sv = sv\<lparr>m_ReadPoint := 2, m_Command := command_of b\<rparr> in
          Inr (True, if m_Command sv \<noteq> IDLE then sv\<lparr>m_State := NO_SIZE\<rparr> else sv))
        else Inr (False, sv)
      else Inr (True, sv))"

definition take_size :: "fs_userdata \<Rightarrow> (bool \<times> fs_userdata) result" where
  "take_size sv =
     (if m_State sv = NO_SIZE then
        rbind (find_bar (m_DataBuffer sv) (m_ReadPoint sv) (m_DataLength sv)) (\<lambda>index.
        case index of
          Some i \<Rightarrow>
            Inr (True, sv\<lparr>m_Payload := atoi (take (unat (i - m_ReadPoint sv)) (drop (unat (m_ReadPoint sv)) (m_DataBuffer sv))),
                          m_ReadPoint := i + 1, m_State := NO_DATA\<rparr>)
        | None \<Rightarrow> Inr (False, sv))
      else Inr (True, sv))"

text \<open>A complete packet: execute it, answer, move what follows it to the front.\<close>

definition mem_move :: "bytes \<Rightarrow> nat \<Rightarrow> nat \<Rightarrow> bytes result" where
  "mem_move buf from n =
     rfold (\<lambda>i b. rbind (arr_get b (from + i)) (\<lambda>x. arr_set b i x)) [0..<n] buf"

definition packet_done :: "'f fs_ops \<Rightarrow> nat \<Rightarrow> nat \<Rightarrow> ('f, unit) fs_handler" where
  "packet_done fs c s =
     mbind (get_server s) (\<lambda>sv.
     let packet_len = ucast (m_ReadPoint sv + m_Payload sv) :: u16 in
     mbind (mlift (arr_get (m_DataBuffer sv) (unat packet_len))) (\<lambda>backup.
     mbind (mlift (arr_set (m_DataBuffer sv) (unat packet_len) 0)) (\<lambda>buf.
     mbind (upd_server s (\<lambda>sv. sv\<lparr>m_DataBuffer := buf\<rparr>)) (\<lambda>_.
     mbind (mlift (c_string_at buf (unat (m_ReadPoint sv)))) (\<lambda>payload.
     mbind (exec_command fs (m_Command sv) payload) (\<lambda>success.
     mbind (upd_server s (\<lambda>sv. sv\<lparr>m_DataBuffer := (m_DataBuffer sv)[unat packet_len := backup]\<rparr>)) (\<lambda>_.
     mbind (net_call (Sent c (if success then [0x59, 0x7C] else [0x4E, 0x7C]))) (\<lambda>_.
     mbind (get_server s) (\<lambda>sv.
     mbind (net_call (Sent c (take (unat packet_len) (m_DataBuffer sv)))) (\<lambda>_.
     mbind (if \<not> success then net_call (Disconnect c) else mret ()) (\<lambda>_.
     mbind (upd_server s (\<lambda>sv. sv\<lparr>m_DataLength := m_DataLength sv - ucast packet_len\<rparr>)) (\<lambda>_.
     mbind (get_server s) (\<lambda>sv.
     mbind (if 0 < m_DataLength sv
            then mbind (mlift (mem_move (m_DataBuffer sv) (unat packet_len) (unat (m_DataLength sv)))) (\<lambda>buf.
                 upd_server s (\<lambda>sv. sv\<lparr>m_DataBuffer := buf\<rparr>))
            else mret ()) (\<lambda>_.
     upd_server s (\<lambda>sv. sv\<lparr>m_Payload := 0, m_ReadPoint := 0, m_Command := IDLE, m_State := NO_COMMAND\<rparr>)))))))))))))))"

text \<open>
  One activation of \<open>fs_data_received\<close> up to its recursive call: the number of bytes it took, or 0 when
  it returned early.
\<close>

definition fs_receive_step :: "'f fs_ops \<Rightarrow> nat \<Rightarrow> bytes \<Rightarrow> ('f, nat) fs_handler" where
  "fs_receive_step fs c pData =
     mbind (mget (\<lambda>w. reverse w c)) (\<lambda>pServer.
     case pServer of
       None \<Rightarrow> mret 0
     | Some s \<Rightarrow>
         mbind (get_server s) (\<lambda>sv.
         let available = MAX_BUFFER_SIZE - m_DataLength sv;
             copied = min (length pData) (unat available) in
         if copied = 0 then mbind (net_call (Disconnect c)) (\<lambda>_. mret 0)
         else
           mbind (mlift (arr_copy (m_DataBuffer sv) (unat (m_DataLength sv)) (take copied pData))) (\<lambda>buf.
           mbind (upd_server s (\<lambda>sv. sv\<lparr>m_DataBuffer := buf, m_DataLength := m_DataLength sv + of_nat copied\<rparr>)) (\<lambda>_.
           mbind (get_server s) (\<lambda>sv.
           mbind (mlift (take_command sv)) (\<lambda>(go, sv).
           mbind (upd_server s (\<lambda>_. sv)) (\<lambda>_.
           if \<not> go then mret 0
           else
             mbind (mlift (take_size sv)) (\<lambda>(go, sv).
             mbind (upd_server s (\<lambda>_. sv)) (\<lambda>_.
             if \<not> go then mret 0
             else
               mbind (if m_Payload sv \<le> m_DataLength sv - m_ReadPoint sv then packet_done fs c s else mret ()) (\<lambda>_.
               mret copied))))))))))"

function fs_data_received :: "'f fs_ops \<Rightarrow> nat option \<Rightarrow> bytes \<Rightarrow> ('f, unit) fs_handler" where
  "fs_data_received fs pClient pData w =
     (case pClient of
        None \<Rightarrow> (Inr (), w)
      | Some c \<Rightarrow>
          (case fs_receive_step fs c pData w of
             (Inl e, w') \<Rightarrow> (Inl e, w')
           | (Inr k, w') \<Rightarrow>
               if 0 < k \<and> k < length pData then fs_data_received fs pClient (drop k pData) w'
               else (Inr (), w')))"
  by pat_completeness auto
termination
  by (relation "measure (\<lambda>(fs, pClient, pData, w). length pData)") auto

declare fs_data_received.simps [simp del]

text \<open>\<open>tcp_ports c\<close>: whether the client's connection has a remote or local port set.\<close>

definition fs_client_connected :: "(nat \<Rightarrow> bool) \<Rightarrow> nat option \<Rightarrow> ('f, unit) fs_handler" where
  "fs_client_connected tcp_ports pClient =
     (case pClient of
        None \<Rightarrow> mret ()
      | Some c \<Rightarrow>
          mbind (mget g_pServer) (\<lambda>g.
          mbind (mlift (deref g)) (\<lambda>s.
          mbind (get_server s) (\<lambda>sv.
          if m_pClient sv \<noteq> None then
            mbind (mupd (\<lambda>w. w\<lparr>reverse := (reverse w)(c := None)\<rparr>)) (\<lambda>_.
            if tcp_ports c then net_call (Disconnect c) else mret ())
          else
            mbind (upd_server s (\<lambda>sv. sv\<lparr>m_pClient := Some c\<rparr>)) (\<lambda>_.
            mupd (\<lambda>w. w\<lparr>reverse := (reverse w)(c := Some s)\<rparr>))))))"

text \<open>
  \<open>alloc_conn\<close> and \<open>alloc_tcp\<close> say whether the two allocations succeed; the buffer of a new userdata
  holds arbitrary bytes, given as \<open>junk\<close>.
\<close>

definition file_server_start ::
  "bytes \<Rightarrow> bool \<Rightarrow> bool \<Rightarrow> lua_conv \<Rightarrow> lua_value list \<Rightarrow> ('f, nat) fs_handler" where
  "file_server_start junk alloc_conn alloc_tcp cv args =
     mbind (mlift (luaL_checkinteger cv (index2adr args 1))) (\<lambda>port.
     mbind (if lua_isnumber cv (index2adr args 3)
            then mbind (mlift (lua_tointeger cv (index2adr args 2))) (\<lambda>t.
                 let timeout = ucast t :: u16 in
                 if timeout < 1 \<or> 28800 < timeout then mfail (LuaError ''wrong arg type'') else mret timeout)
            else mret 30) (\<lambda>timeout.
     mbind (mget next_server) (\<lambda>s.
     mbind (mupd (\<lambda>w. w\<lparr>next_server := Suc s, g_pServer := Some s,
        servers := (servers w)(s \<mapsto> \<lparr>m_pConnection = (if alloc_conn then Some False else None),
          m_DataBuffer = junk, m_DataLength = 0, m_ReadPoint = 0, m_Payload = 0,
          m_State = NO_COMMAND, m_Command = IDLE, m_pClient = None\<rparr>)\<rparr>)) (\<lambda>_.
     if \<not> alloc_conn then mfail (LuaError ''not enough memory'')
     else if \<not> alloc_tcp then
       mbind (upd_server s (\<lambda>sv. sv\<lparr>m_pConnection := None\<rparr>)) (\<lambda>_.
       mfail (LuaError ''not enough memory''))
     else
       mbind (upd_server s (\<lambda>sv. sv\<lparr>m_pConnection := Some True\<rparr>)) (\<lambda>_.
       mbind (net_call (Accept (ucast port) timeout)) (\<lambda>_.
       mret s))))))"

definition stop :: "nat \<Rightarrow> ('f, unit) fs_handler" where
  "stop s =
     mbind (upd_server s (\<lambda>sv. sv\<lparr>m_pConnection := map_option (\<lambda>_. False) (m_pConnection sv)\<rparr>)) (\<lambda>_.
     mupd (\<lambda>w. w\<lparr>g_pServer := None\<rparr>))"

definition file_server_stop :: "lua_value list \<Rightarrow> ('f, unit) fs_handler" where
  "file_server_stop args =
     mbind (mlift (luaL_checkudata (index2adr args 1) ''file_server.fs'')) stop"


section \<open>Helper facts\<close>

lemma mem_move_eq:
  assumes "from + n \<le> length buf"
  shows "mem_move buf from n = Inr (take n (drop from buf) @ drop n buf)"
  using assms
proof (induction n)
  case 0
  then show ?case by (simp add: mem_move_def)
next
  case (Suc n)
  let ?b = "take n (drop from buf) @ drop n buf"
  have ih: "mem_move buf from n = Inr ?b" using Suc by simp
  have l: "length (take n (drop from buf)) = n" using Suc.prems by simp
  have get: "?b ! (from + n) = buf ! (from + n)"
    using Suc.prems l by (simp add: nth_append add.commute)
  have "?b[n := buf ! (from + n)] = take (Suc n) (drop from buf) @ drop (Suc n) buf"
  proof -
    have "drop n buf = buf ! n # drop (Suc n) buf"
      using Suc.prems by (simp add: Cons_nth_drop_Suc)
    then have "?b[n := buf ! (from + n)] = take n (drop from buf) @ buf ! (from + n) # drop (Suc n) buf"
      using l by (simp add: list_update_append)
    then show ?thesis using Suc.prems by (simp add: take_Suc_conv_app_nth)
  qed
  moreover have "length ?b = length buf" using Suc.prems by simp
  ultimately show ?case
    using ih get Suc.prems unfolding mem_move_def by (simp add: rfold_upt_Suc del: upt_Suc)
qed

lemma find_bar_in:
  assumes "unat n \<le> length buf" "unat i \<le> unat n"
  shows "(find_bar buf i n = Inr None \<and> 0x7C \<notin> set (take (unat n - unat i) (drop (unat i) buf))) \<or>
    (\<exists>j. find_bar buf i n = Inr (Some j) \<and> unat i \<le> unat j \<and> unat j < unat n \<and> buf ! unat j = 0x7C \<and>
      0x7C \<notin> set (take (unat j - unat i) (drop (unat i) buf)))"
  using assms
proof (induction buf i n rule: find_bar.induct)
  case (1 buf i n)
  show ?case
  proof (cases "i = n")
    case True
    then show ?thesis by (subst find_bar.simps) simp
  next
    case False
    with 1(3) have lt: "unat i < unat n" by (simp add: word_unat_eq_iff)
    then have ib: "unat i < length buf" using 1(2) by simp
    have i1: "unat (i + 1) = unat i + 1"
      using lt u32_bound [of n] by (subst unat_add_no_wrap) simp_all
    show ?thesis
    proof (cases "buf ! unat i = 0x7C")
      case True
      then have "find_bar buf i n = Inr (Some i)"
        using False ib by (subst find_bar.simps) simp
      with lt True show ?thesis by simp
    next
      case nb: False
      then have step: "find_bar buf i n = find_bar buf (i + 1) n"
        using False ib by (subst find_bar.simps) simp
      have "drop (unat i) buf = buf ! unat i # drop (unat i + 1) buf"
        using ib by (simp add: Cons_nth_drop_Suc)
      moreover have "m - unat i = Suc (m - (unat i + 1))" if "unat i < m" for m using that by simp
      ultimately have tk: "set (take (m - unat i) (drop (unat i) buf)) =
          insert (buf ! unat i) (set (take (m - (unat i + 1)) (drop (unat i + 1) buf)))" if "unat i < m" for m
        using that by simp
      have "(find_bar buf (i + 1) n = Inr None \<and> 0x7C \<notin> set (take (unat n - unat (i + 1)) (drop (unat (i + 1)) buf))) \<or>
        (\<exists>j. find_bar buf (i + 1) n = Inr (Some j) \<and> unat (i + 1) \<le> unat j \<and> unat j < unat n \<and>
          buf ! unat j = 0x7C \<and> 0x7C \<notin> set (take (unat j - unat (i + 1)) (drop (unat (i + 1)) buf)))"
        by (rule 1(1) [OF False, of "buf ! unat i"]) (use nb ib lt i1 1(2) in simp_all)
      then show ?thesis
        unfolding step i1 using tk [of "unat n"] tk nb lt by (elim disjE) (simp, fastforce)
    qed
  qed
qed

text \<open>A command touches files, the terminal line and the file descriptor only.\<close>

definition same_server_state :: "'f fs_world \<Rightarrow> 'f fs_world \<Rightarrow> bool" where
  "same_server_state w w' \<longleftrightarrow>
     servers w' = servers w \<and> next_server w' = next_server w \<and> g_pServer w' = g_pServer w \<and>
     reverse w' = reverse w \<and> net w' = net w \<and> length (line w') = length (line w)"

definition returns_frame :: "('f, 'a) fs_handler \<Rightarrow> bool" where
  "returns_frame m \<longleftrightarrow> (\<forall>w. \<exists>x w'. m w = (Inr x, w') \<and> same_server_state w w')"

lemma returns_frame_mbind:
  assumes "returns_frame m" "\<And>x. returns_frame (f x)"
  shows "returns_frame (mbind m f)"
  unfolding returns_frame_def
proof
  fix w
  obtain x w1 where 1: "m w = (Inr x, w1)" "same_server_state w w1"
    using assms(1) unfolding returns_frame_def by blast
  obtain y w2 where 2: "f x w1 = (Inr y, w2)" "same_server_state w1 w2"
    using assms(2) unfolding returns_frame_def by blast
  from 1 2 show "\<exists>x w'. mbind m f w = (Inr x, w') \<and> same_server_state w w'"
    by (simp add: same_server_state_def)
qed

lemma returns_frame_basic:
  "returns_frame (mret x)" "returns_frame (mget f)" "returns_frame (set_fd fd)"
  "returns_frame (file_call op)"
  by (auto simp: returns_frame_def same_server_state_def set_fd_def file_call_def split_def)

lemma returns_frame_if:
  "(b \<Longrightarrow> returns_frame m) \<Longrightarrow> (\<not> b \<Longrightarrow> returns_frame n) \<Longrightarrow> returns_frame (if b then m else n)"
  by simp

lemmas frame_intros = returns_frame_mbind returns_frame_basic returns_frame_if

lemma close_file_frame: "returns_frame (close_file fs)"
  unfolding close_file_def by (intro frame_intros)

lemma flush_loop_frame: "returns_frame (flush_loop fs fd n)"
proof (induction n)
  case 0
  show ?case unfolding flush_loop.simps by (rule returns_frame_basic)
next
  case (Suc n)
  then show ?case unfolding flush_loop.simps by (intro frame_intros)
qed

lemma open_file_frame: "returns_frame (open_file fs payload)"
  unfolding open_file_def by (intro frame_intros close_file_frame)

lemma run_line_frame:
  assumes "length (line w) = LUA_MAXINPUT" "length payload + 1 < LUA_MAXINPUT"
  shows "\<exists>x w'. run_line payload w = (Inr x, w') \<and> same_server_state w w'"
proof (cases "line_position w = 0")
  case False
  then show ?thesis by (auto simp: run_line_def same_server_state_def)
next
  case True
  let ?l = "(payload @ drop (length payload) (line w))[length payload + 1 := 0]"
  have len: "length ?l = length (line w)" using assms by simp
  have "?l ! (length payload + 1) = 0" using assms by simp
  then have z: "0 \<in> set ?l" using assms by (metis len nth_mem)
  then have "c_string_at ?l 0 = Inr (takeWhile (\<lambda>b. b \<noteq> 0) ?l)" by (simp add: c_string_at_def)
  then show ?thesis
    using True assms len by (auto simp: run_line_def dojob_def same_server_state_def LUA_MAXINPUT_def)
qed

lemma exec_command_frame:
  assumes "length (line w) = LUA_MAXINPUT" "length payload + 1 < LUA_MAXINPUT"
  shows "\<exists>x w'. exec_command fs cmd payload w = (Inr x, w') \<and> same_server_state w w'"
proof (cases "cmd = RUN")
  case True
  with run_line_frame [OF assms] show ?thesis by (simp add: exec_command_def)
next
  case False
  then have "returns_frame (exec_command fs cmd payload)"
    unfolding exec_command_def
    by (cases cmd) (auto intro!: frame_intros flush_loop_frame open_file_frame)
  then show ?thesis by (simp add: returns_frame_def)
qed


section \<open>A complete packet\<close>

lemma server_exec:
  assumes "servers w s = Some sv"
  shows "mbind (get_server s) f w = f sv w"
    and "upd_server s g w = (Inr (), w\<lparr>servers := (servers w)(s \<mapsto> g sv)\<rparr>)"
  using assms by (simp_all add: get_server_def upd_server_def)

definition packet_length :: "fs_userdata \<Rightarrow> nat" where
  "packet_length sv = unat (m_ReadPoint sv) + unat (m_Payload sv)"

text \<open>The payload as the commands see it: up to its first zero byte.\<close>

definition payload_of :: "fs_userdata \<Rightarrow> bytes" where
  "payload_of sv =
     takeWhile (\<lambda>b. b \<noteq> 0) (take (unat (m_Payload sv)) (drop (unat (m_ReadPoint sv)) (m_DataBuffer sv)))"

definition complete :: "fs_userdata \<Rightarrow> bool" where
  "complete sv \<longleftrightarrow>
     length (m_DataBuffer sv) = 64 \<and> unat (m_DataLength sv) \<le> 64 \<and>
     packet_length sv \<le> unat (m_DataLength sv)"

lemma packet_length_word:
  assumes "complete sv"
  shows "unat (ucast (m_ReadPoint sv + m_Payload sv) :: u16) = packet_length sv"
proof -
  have "unat (m_ReadPoint sv + m_Payload sv) = packet_length sv"
    using assms by (subst unat_add_no_wrap) (auto simp: complete_def packet_length_def)
  then show ?thesis
    using assms by (simp add: unat_ucast_mod complete_def)
qed

lemma takeWhile_terminated:
  assumes "i \<le> p" "p < length buf"
  shows "0 \<in> set (drop i (buf[p := 0]))"
    and "takeWhile (\<lambda>b. b \<noteq> 0) (drop i (buf[p := 0])) = takeWhile (\<lambda>b. b \<noteq> (0 :: u8)) (take (p - i) (drop i buf))"
proof -
  have d: "drop i (buf[p := 0]) = take (p - i) (drop i buf) @ 0 # drop (Suc p) buf"
    using assms by (simp add: list_update_as_append drop_take)
  show "0 \<in> set (drop i (buf[p := 0]))" unfolding d by simp
  show "takeWhile (\<lambda>b. b \<noteq> 0) (drop i (buf[p := 0])) = takeWhile (\<lambda>b. b \<noteq> 0) (take (p - i) (drop i buf))"
    unfolding d by (simp add: takeWhile_tail)
qed

text \<open>The one access the guards do not cover: a packet that fills the buffer exactly.\<close>

lemma packet_done_full:
  assumes "servers w s = Some sv" "complete sv" "packet_length sv = 64"
  shows "packet_done fs c s w = (Inl (OutOfBounds 64), w)"
  using assms packet_length_word [OF assms(2)]
  by (simp add: packet_done_def server_exec(1) Let_def complete_def)

lemma packet_done_eq:
  assumes sv: "servers w s = Some sv" "complete sv" "packet_length sv < 64"
    and line: "length (line w) = LUA_MAXINPUT"
  defines "p \<equiv> packet_length sv" and "n \<equiv> unat (m_DataLength sv) - packet_length sv"
  defines "wt \<equiv> w\<lparr>servers := (servers w)(s \<mapsto> sv\<lparr>m_DataBuffer := (m_DataBuffer sv)[p := 0]\<rparr>)\<rparr>"
  obtains b w1 where "exec_command fs (m_Command sv) (payload_of sv) wt = (Inr b, w1)"
    "same_server_state wt w1"
    "packet_done fs c s w = (Inr (), w1\<lparr>
       net := net w @ [Sent c (if b then [0x59, 0x7C] else [0x4E, 0x7C]), Sent c (take p (m_DataBuffer sv))] @
              (if b then [] else [Disconnect c]),
       servers := (servers w)(s \<mapsto> sv\<lparr>m_DataLength := of_nat n,
         m_DataBuffer := take n (drop p (m_DataBuffer sv)) @ drop n (m_DataBuffer sv), m_Payload := 0, m_ReadPoint := 0, m_Command := IDLE,
         m_State := NO_COMMAND\<rparr>)\<rparr>)"
proof -
  let ?pl = "ucast (m_ReadPoint sv + m_Payload sv) :: u16" and ?buf = "m_DataBuffer sv"
  have pl: "unat ?pl = p" using packet_length_word [OF sv(2)] by (simp add: p_def)
  have c: "length ?buf = 64" "unat (m_DataLength sv) \<le> 64" "p \<le> unat (m_DataLength sv)"
    "unat (m_ReadPoint sv) \<le> p" "p < 64" "p - unat (m_ReadPoint sv) = unat (m_Payload sv)"
    using sv(2,3) by (auto simp: complete_def p_def packet_length_def)
  have str: "c_string_at (?buf[p := 0]) (unat (m_ReadPoint sv)) = Inr (payload_of sv)"
    using takeWhile_terminated [of "unat (m_ReadPoint sv)" p ?buf] c
    by (simp add: c_string_at_def payload_of_def)
  have "length (payload_of sv) \<le> 64"
    unfolding payload_of_def using c(1)
    by (intro order_trans [OF length_takeWhile_le]) simp
  then obtain b w1 where w1: "exec_command fs (m_Command sv) (payload_of sv) wt = (Inr b, w1)"
    "same_server_state wt w1"
    using exec_command_frame [of wt "payload_of sv" fs "m_Command sv"] line
    by (auto simp: wt_def LUA_MAXINPUT_def)
  have s1: "servers w1 s = Some (sv\<lparr>m_DataBuffer := ?buf[p := 0]\<rparr>)" "net w1 = net w"
    "\<And>x. (servers w1)(s \<mapsto> x) = (servers w)(s \<mapsto> x)"
    using w1(2) by (simp_all add: same_server_state_def wt_def)
  have restore: "(?buf[p := 0])[p := ?buf ! p] = ?buf" by simp
  have "ucast ?pl = (of_nat p :: u32)" using pl by (intro unat_eq_of_nat) (simp add: unat_ucast_mod)
  moreover have "of_nat p \<le> m_DataLength sv" "unat (of_nat p :: u32) = p"
    using c by (simp_all add: word_le_nat_alt unat_of_nat_small)
  ultimately have dl: "m_DataLength sv - ucast ?pl = of_nat n" "unat (m_DataLength sv - ucast ?pl) = n"
    by (auto simp: n_def p_def unat_sub_no_wrap intro!: unat_eq_of_nat)
  have n64: "unat (of_nat n :: u32) = n" "n \<le> 64" using dl c(2) by (simp_all add: n_def)
  have mv: "mem_move ?buf p n = Inr (take n (drop p ?buf) @ drop n ?buf)"
    using c by (intro mem_move_eq) (simp add: n_def p_def)
  have pos: "0 < (of_nat n :: u32) \<longleftrightarrow> n \<noteq> 0"
    using n64(1) by (cases "n = 0") (simp_all add: word_gt_0 flip: unat_gt_0)
  have tail: "mbind (upd_server s (\<lambda>sv. sv\<lparr>m_DataBuffer := (m_DataBuffer sv)[p := ?buf ! p]\<rparr>)) (\<lambda>_.
     mbind (net_call (Sent c (if b then [0x59, 0x7C] else [0x4E, 0x7C]))) (\<lambda>_.
     mbind (get_server s) (\<lambda>sv.
     mbind (net_call (Sent c (take p (m_DataBuffer sv)))) (\<lambda>_.
     mbind (if \<not> b then net_call (Disconnect c) else mret ()) (\<lambda>_.
     mbind (upd_server s (\<lambda>sv. sv\<lparr>m_DataLength := m_DataLength sv - ucast ?pl\<rparr>)) (\<lambda>_.
     mbind (get_server s) (\<lambda>sv.
     mbind (if 0 < m_DataLength sv
            then mbind (mlift (mem_move (m_DataBuffer sv) p (unat (m_DataLength sv)))) (\<lambda>buf.
                 upd_server s (\<lambda>sv. sv\<lparr>m_DataBuffer := buf\<rparr>))
            else mret ()) (\<lambda>_.
     upd_server s (\<lambda>sv. sv\<lparr>m_Payload := 0, m_ReadPoint := 0, m_Command := IDLE, m_State := NO_COMMAND\<rparr>))))))))) w1 =
     (Inr (), w1\<lparr>
       net := net w @ [Sent c (if b then [0x59, 0x7C] else [0x4E, 0x7C]), Sent c (take p ?buf)] @
              (if b then [] else [Disconnect c]),
       servers := (servers w)(s \<mapsto> sv\<lparr>m_DataLength := of_nat n,
         m_DataBuffer := take n (drop p ?buf) @ drop n ?buf, m_Payload := 0, m_ReadPoint := 0, m_Command := IDLE,
         m_State := NO_COMMAND\<rparr>)\<rparr>)"
    using mv n64(1)
    by (cases "n = 0"; cases b)
      (simp_all add: server_exec s1 dl(1) pos net_call_def mbind_split [of "mbind _ _"])
  have "packet_done fs c s w = (Inr (), w1\<lparr>
       net := net w @ [Sent c (if b then [0x59, 0x7C] else [0x4E, 0x7C]), Sent c (take p ?buf)] @
              (if b then [] else [Disconnect c]),
       servers := (servers w)(s \<mapsto> sv\<lparr>m_DataLength := of_nat n,
         m_DataBuffer := take n (drop p ?buf) @ drop n ?buf, m_Payload := 0, m_ReadPoint := 0, m_Command := IDLE,
         m_State := NO_COMMAND\<rparr>)\<rparr>)"
    unfolding packet_done_def Let_def server_exec(1) [OF sv(1)] pl
    by (simp add: c(1,5) server_exec(2) [OF sv(1)] str w1(1) tail flip: wt_def)
  with that w1 show ?thesis by blast
qed


section \<open>The invariant\<close>

definition server_ok :: "fs_userdata \<Rightarrow> bool" where
  "server_ok sv \<longleftrightarrow>
     length (m_DataBuffer sv) = 64 \<and> unat (m_DataLength sv) \<le> 64 \<and>
     (m_State sv = NO_SIZE \<longrightarrow> m_ReadPoint sv = 2 \<and> 2 \<le> unat (m_DataLength sv)) \<and>
     (m_State sv = NO_DATA \<longrightarrow> unat (m_ReadPoint sv) \<le> unat (m_DataLength sv)) \<and>
     (m_State sv = NO_COMMAND \<longrightarrow> m_Payload sv = 0)"

definition fs_inv :: "'f fs_world \<Rightarrow> bool" where
  "fs_inv w \<longleftrightarrow>
     (\<forall>s sv. servers w s = Some sv \<longrightarrow> s < next_server w \<and> server_ok sv) \<and>
     (\<forall>c s. reverse w c = Some s \<longrightarrow> servers w s \<noteq> None) \<and>
     (\<forall>s. g_pServer w = Some s \<longrightarrow> servers w s \<noteq> None) \<and>
     length (line w) = LUA_MAXINPUT"

lemma fs_inv_put:
  assumes "fs_inv w" "servers w s \<noteq> None" "server_ok sv"
    and "servers w' = (servers w)(s \<mapsto> sv)" "next_server w' = next_server w" "g_pServer w' = g_pServer w"
      "reverse w' = reverse w" "length (line w') = length (line w)"
  shows "fs_inv w'"
  using assms by (auto simp: fs_inv_def)

text \<open>Taking command and size leaves a well-formed server, complete or waiting.\<close>

lemma take_command_ok:
  assumes "server_ok sv"
  shows "\<exists>go sv'. take_command sv = Inr (go, sv') \<and> server_ok sv' \<and>
    (go \<longrightarrow> m_State sv' \<noteq> NO_COMMAND \<or>
       m_Command sv' = IDLE \<and> m_ReadPoint sv' = 2 \<and> 2 \<le> unat (m_DataLength sv')) \<and>
    (\<not> go \<longrightarrow> sv' = sv \<and> m_State sv = NO_COMMAND \<and> unat (m_DataLength sv) < 2)"
proof (cases "m_State sv = NO_COMMAND \<and> 2 \<le> m_DataLength sv")
  case True
  then have "2 \<le> unat (m_DataLength sv)" by (simp add: word_le_nat_alt)
  with True assms show ?thesis
    by (auto simp: take_command_def server_ok_def Let_def)
next
  case False
  show ?thesis
  proof (cases "m_State sv = NO_COMMAND")
    case True
    with False have "\<not> 2 \<le> m_DataLength sv" by simp
    moreover from this have "unat (m_DataLength sv) < 2" by (simp add: word_le_nat_alt)
    ultimately have "take_command sv = Inr (False, sv)" "unat (m_DataLength sv) < 2"
      using True by (simp_all add: take_command_def)
    with True assms show ?thesis by blast
  next
    case False
    then have "take_command sv = Inr (True, sv)" by (simp add: take_command_def)
    with False assms show ?thesis by blast
  qed
qed

lemma take_size_ok:
  assumes "server_ok sv"
  shows "\<exists>go sv'. take_size sv = Inr (go, sv') \<and> server_ok sv' \<and>
    (m_State sv \<noteq> NO_SIZE \<longrightarrow> go \<and> sv' = sv) \<and> (m_State sv = NO_SIZE \<longrightarrow> go \<longrightarrow> m_State sv' = NO_DATA) \<and>
    (\<not> go \<longrightarrow> sv' = sv)"
proof (cases "m_State sv = NO_SIZE")
  case False
  with assms show ?thesis by (auto simp: take_size_def)
next
  case True
  with assms have r: "m_ReadPoint sv = 2" "2 \<le> unat (m_DataLength sv)" "unat (m_DataLength sv) \<le> 64"
    "length (m_DataBuffer sv) = 64"
    by (auto simp: server_ok_def)
  consider "find_bar (m_DataBuffer sv) 2 (m_DataLength sv) = Inr None"
    | j where "find_bar (m_DataBuffer sv) 2 (m_DataLength sv) = Inr (Some j)" "unat j < unat (m_DataLength sv)"
    using find_bar_in [of "m_DataLength sv" "m_DataBuffer sv" 2] r by auto
  then show ?thesis
  proof cases
    case 1
    with True r(1) assms show ?thesis by (auto simp: take_size_def)
  next
    case 2
    then have "unat (j + 1) \<le> unat (m_DataLength sv)"
      using r(3) by (subst unat_add_no_wrap) simp_all
    with 2 True r assms show ?thesis
      by (auto simp: take_size_def server_ok_def)
  qed
qed


definition ingest :: "fs_userdata \<Rightarrow> bytes \<Rightarrow> fs_userdata" where
  "ingest sv data =
     sv\<lparr>m_DataBuffer := take (unat (m_DataLength sv)) (m_DataBuffer sv) @ data @
          drop (unat (m_DataLength sv) + length data) (m_DataBuffer sv),
        m_DataLength := m_DataLength sv + of_nat (length data)\<rparr>"

abbreviation put_server :: "nat \<Rightarrow> fs_userdata \<Rightarrow> 'f fs_world \<Rightarrow> 'f fs_world" where
  "put_server s sv w \<equiv> w\<lparr>servers := (servers w)(s \<mapsto> sv)\<rparr>"

lemma ingest_length:
  assumes "server_ok sv" "unat (m_DataLength sv) + length data \<le> 64"
  shows "unat (m_DataLength (ingest sv data)) = unat (m_DataLength sv) + length data"
    "length (m_DataBuffer (ingest sv data)) = 64"
proof -
  have "unat (of_nat (length data) :: u32) = length data"
    using assms(2) by (intro unat_of_nat_small) simp
  then show "unat (m_DataLength (ingest sv data)) = unat (m_DataLength sv) + length data"
    using assms(2) by (simp add: ingest_def unat_add_no_wrap)
  show "length (m_DataBuffer (ingest sv data)) = 64"
    using assms by (auto simp: ingest_def server_ok_def)
qed

lemma ingest_ok:
  assumes "server_ok sv" "unat (m_DataLength sv) + length data \<le> 64"
  shows "server_ok (ingest sv data)"
  using assms(1) ingest_length [OF assms] by (auto simp: server_ok_def ingest_def)

lemma room_word:
  assumes "server_ok sv"
  shows "unat (MAX_BUFFER_SIZE - m_DataLength sv) = 64 - unat (m_DataLength sv)"
proof -
  have "m_DataLength sv \<le> MAX_BUFFER_SIZE"
    using assms by (simp add: server_ok_def word_le_nat_alt MAX_BUFFER_SIZE_def)
  then show ?thesis by (simp add: unat_sub_no_wrap MAX_BUFFER_SIZE_def)
qed

text \<open>One activation, on a server that has room.\<close>

lemma receive_step_eq:
  assumes rev: "reverse w c = Some s" "servers w s = Some sv" "server_ok sv"
    and k: "k = min (length pData) (64 - unat (m_DataLength sv))" "k \<noteq> 0"
    and cmd: "take_command (ingest sv (take k pData)) = Inr (go1, sv2)"
    and size: "take_size sv2 = Inr (go2, sv3)"
  shows "fs_receive_step fs c pData w =
    (if \<not> go1 then (Inr 0, put_server s sv2 w)
     else if \<not> go2 then (Inr 0, put_server s sv3 w)
     else if m_Payload sv3 \<le> m_DataLength sv3 - m_ReadPoint sv3
     then mbind (packet_done fs c s) (\<lambda>_. mret k) (put_server s sv3 w)
     else (Inr k, put_server s sv3 w))"
proof -
  have fit: "unat (m_DataLength sv) + length (take k pData) \<le> length (m_DataBuffer sv)"
    using rev(3) k by (auto simp: server_ok_def)
  have copied: "min (length pData) (unat (MAX_BUFFER_SIZE - m_DataLength sv)) = k"
    using k(1) room_word [OF rev(3)] by simp
  have lk: "length (take k pData) = k" using k(1) by simp
  have copy: "arr_copy (m_DataBuffer sv) (unat (m_DataLength sv)) (take k pData) =
      Inr (m_DataBuffer (ingest sv (take k pData)))"
    using fit by (simp add: ingest_def)
  have sv1: "sv\<lparr>m_DataBuffer := m_DataBuffer (ingest sv (take k pData)),
      m_DataLength := m_DataLength sv + of_nat k\<rparr> = ingest sv (take k pData)"
    unfolding ingest_def lk by simp
  show ?thesis
    unfolding fs_receive_step_def Let_def mbind_mget rev(1) option.case server_exec(1) [OF rev(2)] copied
    using k(2) cmd size
    by (simp add: copy server_exec sv1 rev(2) mbind_split [of "if _ then _ else _"]
        mbind_split [of "packet_done _ _ _"])
qed

lemma complete_word:
  assumes "unat (m_ReadPoint sv) \<le> unat (m_DataLength sv)"
  shows "m_Payload sv \<le> m_DataLength sv - m_ReadPoint sv \<longleftrightarrow> packet_length sv \<le> unat (m_DataLength sv)"
proof -
  have "m_ReadPoint sv \<le> m_DataLength sv" using assms by (simp add: word_le_nat_alt)
  then have "unat (m_DataLength sv - m_ReadPoint sv) = unat (m_DataLength sv) - unat (m_ReadPoint sv)"
    by (rule unat_sub_no_wrap)
  with assms show ?thesis by (auto simp: word_le_nat_alt packet_length_def)
qed

text \<open>
  Every activation either keeps the invariant and takes at most the data it was given, or stops at
  the write behind the buffer, before it has changed anything else.
\<close>

definition outcome_ok :: "'a result \<times> 'f fs_world \<Rightarrow> bool" where
  "outcome_ok rw \<longleftrightarrow> fs_inv (snd rw) \<and> (case fst rw of Inr _ \<Rightarrow> True | Inl e \<Rightarrow> e = OutOfBounds 64)"

lemma packet_done_outcome:
  assumes inv: "fs_inv w" and sv: "servers w s = Some sv" "complete sv"
  shows "outcome_ok (mbind (packet_done fs c s) (\<lambda>_. mret (k :: nat)) w)"
proof (cases "packet_length sv = 64")
  case True
  with packet_done_full [OF sv True, of fs c] inv show ?thesis by (simp add: outcome_ok_def)
next
  case False
  then have lt: "packet_length sv < 64" using sv(2) by (auto simp: complete_def)
  let ?p = "packet_length sv" and ?n = "unat (m_DataLength sv) - packet_length sv"
  have line: "length (line w) = LUA_MAXINPUT" using inv by (simp add: fs_inv_def)
  obtain b w1 where w1: "same_server_state (put_server s (sv\<lparr>m_DataBuffer := (m_DataBuffer sv)[?p := 0]\<rparr>) w) w1"
    and run: "packet_done fs c s w = (Inr (), w1\<lparr>
       net := net w @ [Sent c (if b then [0x59, 0x7C] else [0x4E, 0x7C]), Sent c (take ?p (m_DataBuffer sv))] @
              (if b then [] else [Disconnect c]),
       servers := (servers w)(s \<mapsto> sv\<lparr>m_DataLength := of_nat ?n,
         m_DataBuffer := take ?n (drop ?p (m_DataBuffer sv)) @ drop ?n (m_DataBuffer sv),
         m_Payload := 0, m_ReadPoint := 0, m_Command := IDLE, m_State := NO_COMMAND\<rparr>)\<rparr>)"
    using packet_done_eq [OF sv lt line] by metis
  have n: "?n \<le> 64" "?p + ?n \<le> 64" "length (m_DataBuffer sv) = 64"
    using sv(2) by (auto simp: complete_def)
  have "unat (of_nat m :: u32) = m" if "m \<le> 64" for m
    using that by (intro unat_of_nat_small) simp
  note n = this [OF n(1)] n
  have "server_ok (sv\<lparr>m_DataLength := of_nat ?n,
         m_DataBuffer := take ?n (drop ?p (m_DataBuffer sv)) @ drop ?n (m_DataBuffer sv),
         m_Payload := 0, m_ReadPoint := 0, m_Command := IDLE, m_State := NO_COMMAND\<rparr>)"
    using n by (simp add: server_ok_def)
  then have "fs_inv (snd (packet_done fs c s w))"
    unfolding run snd_conv
    by (rule fs_inv_put [OF inv, of s, rotated]) (use sv(1) w1 in \<open>simp_all add: same_server_state_def\<close>)
  with run show ?thesis by (simp add: outcome_ok_def)
qed

lemma receive_step_outcome:
  assumes inv: "fs_inv w"
  shows "outcome_ok (fs_receive_step fs c pData w)"
proof (cases "reverse w c")
  case None
  with inv show ?thesis by (simp add: fs_receive_step_def outcome_ok_def)
next
  case (Some s)
  then obtain sv where sv: "servers w s = Some sv" "server_ok sv"
    using inv by (fastforce simp: fs_inv_def)
  define k where "k = min (length pData) (64 - unat (m_DataLength sv))"
  show ?thesis
  proof (cases "k = 0")
    case True
    then have "fs_receive_step fs c pData w = (Inr 0, w\<lparr>net := net w @ [Disconnect c]\<rparr>)"
      using Some sv(1) room_word [OF sv(2)]
      by (simp add: fs_receive_step_def server_exec Let_def k_def net_call_def)
    with inv show ?thesis by (simp add: outcome_ok_def fs_inv_def)
  next
    case False
    have fit: "unat (m_DataLength sv) + length (take k pData) \<le> 64"
      using sv(2) by (auto simp: k_def server_ok_def)
    obtain go1 sv2 where c: "take_command (ingest sv (take k pData)) = Inr (go1, sv2)" "server_ok sv2"
      "go1 \<longrightarrow> m_State sv2 \<noteq> NO_COMMAND \<or> m_Command sv2 = IDLE \<and> m_ReadPoint sv2 = 2 \<and> 2 \<le> unat (m_DataLength sv2)"
      using take_command_ok [OF ingest_ok [OF sv(2) fit]] by metis
    obtain go2 sv3 where z: "take_size sv2 = Inr (go2, sv3)" "server_ok sv3"
      "m_State sv2 \<noteq> NO_SIZE \<longrightarrow> go2 \<and> sv3 = sv2" "m_State sv2 = NO_SIZE \<longrightarrow> go2 \<longrightarrow> m_State sv3 = NO_DATA"
      using take_size_ok [OF c(2)] by metis
    have put: "fs_inv (put_server s x w)" if "server_ok x" for x
      by (rule fs_inv_put [OF inv _ that, of s]) (simp_all add: sv(1))
    have rp: "unat (m_ReadPoint sv3) \<le> unat (m_DataLength sv3)" if "go1" "go2"
    proof (cases "m_State sv3 = NO_DATA")
      case True
      with z(2) show ?thesis by (simp add: server_ok_def)
    next
      case False
      with that z c(2,3) show ?thesis by (cases "m_State sv2") (auto simp: server_ok_def)
    qed
    show ?thesis
    proof (cases "go1 \<and> go2 \<and> m_Payload sv3 \<le> m_DataLength sv3 - m_ReadPoint sv3")
      case True
      then have "complete sv3"
        using complete_word [OF rp] z(2) by (simp add: complete_def server_ok_def)
      from packet_done_outcome [OF put [OF z(2)] _ this, of s fs c k] show ?thesis
        using receive_step_eq [OF Some sv k_def False c(1) z(1), of fs] True by simp
    next
      case wait: False
      have "fs_receive_step fs c pData w \<in> {(Inr 0, put_server s sv2 w), (Inr 0, put_server s sv3 w),
          (Inr k, put_server s sv3 w)}"
        using receive_step_eq [OF Some sv k_def False c(1) z(1), of fs] wait by auto
      with put [OF c(2)] put [OF z(2)] show ?thesis by (auto simp: outcome_ok_def)
    qed
  qed
qed

lemma data_received_outcome:
  "fs_inv w \<Longrightarrow> outcome_ok (fs_data_received fs pClient pData w)"
proof (induction fs pClient pData w rule: fs_data_received.induct)
  case (1 fs pClient pData w)
  show ?case
  proof (cases pClient)
    case None
    with 1(2) show ?thesis by (subst fs_data_received.simps) (simp add: outcome_ok_def)
  next
    case (Some c)
    obtain r w1 where step: "fs_receive_step fs c pData w = (r, w1)" by fastforce
    have ok: "outcome_ok (r, w1)" using receive_step_outcome [OF 1(2), of fs c pData] step by simp
    show ?thesis
    proof (cases "\<exists>k. r = Inr k \<and> 0 < k \<and> k < length pData")
      case True
      then obtain k where k: "r = Inr k" "0 < k" "k < length pData" by blast
      have "outcome_ok (fs_data_received fs pClient (drop k pData) w1)"
        using 1(1) [OF Some step [symmetric] k(1)] k ok by (simp add: outcome_ok_def)
      with Some step k show ?thesis by (subst fs_data_received.simps) simp
    next
      case False
      with Some step ok show ?thesis
        by (subst fs_data_received.simps) (auto simp: outcome_ok_def split: sum.splits)
    qed
  qed
qed


section \<open>Recognising a packet that arrives in pieces\<close>

abbreviation is_bar :: "u8 \<Rightarrow> bool" where "is_bar b \<equiv> b = 0x7C"

definition size_field :: "bytes \<Rightarrow> bytes" where
  "size_field xs = takeWhile (\<lambda>b. \<not> is_bar b) (drop 2 xs)"

definition fresh :: "fs_userdata \<Rightarrow> bool" where
  "fresh sv \<longleftrightarrow> server_ok sv \<and> m_State sv = NO_COMMAND \<and> m_DataLength sv = 0"

text \<open>What a fresh server knows after the bytes \<open>xs\<close>, however they were cut.\<close>

definition scan :: "fs_userdata \<Rightarrow> bytes \<Rightarrow> fs_userdata" where
  "scan sv xs =
     (let sv = ingest sv xs in
      if length xs < 2 then sv
      else if command_of (xs ! 0) = IDLE then sv\<lparr>m_ReadPoint := 2, m_Command := IDLE\<rparr>
      else if 0x7C \<notin> set (drop 2 xs) then sv\<lparr>m_ReadPoint := 2, m_Command := command_of (xs ! 0), m_State := NO_SIZE\<rparr>
      else sv\<lparr>m_Command := command_of (xs ! 0), m_Payload := atoi (size_field xs),
              m_ReadPoint := of_nat (length (size_field xs) + 3), m_State := NO_DATA\<rparr>)"

text \<open>More bytes are needed: no size yet, or fewer bytes than the packet has.\<close>

definition waiting :: "fs_userdata \<Rightarrow> bytes \<Rightarrow> bool" where
  "waiting sv xs \<longleftrightarrow>
     length xs < 2 \<or>
     command_of (xs ! 0) \<noteq> IDLE \<and>
       (0x7C \<notin> set (drop 2 xs) \<or> length xs < packet_length (scan sv xs))"

lemma find_bar_eq:
  assumes "2 \<le> length xs" "length xs \<le> 64"
  shows "find_bar (xs @ r) 2 (of_nat (length xs)) =
    Inr (if 0x7C \<in> set (drop 2 xs) then Some (of_nat (length (size_field xs) + 2)) else None)"
proof -
  let ?n = "of_nat (length xs) :: u32"
  have n: "unat ?n = length xs" using assms by (intro unat_of_nat_small) simp
  have two: "unat (2 :: u32) = 2" by simp
  consider "find_bar (xs @ r) 2 ?n = Inr None" "0x7C \<notin> set (drop 2 xs)"
    | j where "find_bar (xs @ r) 2 ?n = Inr (Some j)" "2 \<le> unat j" "unat j < length xs" "xs ! unat j = 0x7C"
      "0x7C \<notin> set (take (unat j - 2) (drop 2 xs))"
    using find_bar_in [of ?n "xs @ r" 2] assms unfolding n two by (auto simp: nth_append)
  then show ?thesis
  proof cases
    case 1
    then show ?thesis by simp
  next
    case 2
    have bar: "drop 2 xs ! (unat j - 2) = 0x7C"
      using 2(2-4) nth_drop [of 2 xs "unat j - 2"] by (simp only: le_add_diff_inverse)
    have "size_field xs = take (unat j - 2) (drop 2 xs)"
      unfolding size_field_def
    proof (rule takeWhile_eq_take_P_nth)
      fix i
      assume "i < unat j - 2" "i < length (drop 2 xs)"
      then have "drop 2 xs ! i \<in> set (take (unat j - 2) (drop 2 xs))"
        by (auto simp: in_set_conv_nth)
      with 2(5) show "\<not> is_bar (drop 2 xs ! i)" by auto
    next
      show "\<not> \<not> is_bar (drop 2 xs ! (unat j - 2))" using bar by simp
    qed
    then have "length (size_field xs) + 2 = unat j" using 2 by simp
    moreover have "0x7C \<in> set (drop 2 xs)"
      using 2(2,3) bar nth_mem [of "unat j - 2" "drop 2 xs"] by simp
    ultimately show ?thesis using 2(1) by simp
  qed
qed

lemma fresh_ingest:
  assumes "fresh sv" "length xs \<le> 64"
  shows "m_DataBuffer (ingest sv xs) = xs @ drop (length xs) (m_DataBuffer sv)"
    "m_DataLength (ingest sv xs) = of_nat (length xs)"
    "unat (m_DataLength (ingest sv xs)) = length xs"
    "m_State (ingest sv xs) = NO_COMMAND" "m_Payload (ingest sv xs) = 0"
  using assms ingest_length [of sv xs] by (auto simp: fresh_def ingest_def server_ok_def)

lemma scan_fields [simp]:
  "m_DataBuffer (scan sv xs) = m_DataBuffer (ingest sv xs)"
  "m_DataLength (scan sv xs) = m_DataLength (ingest sv xs)"
  by (simp_all add: scan_def Let_def)

lemma size_field_append:
  "0x7C \<in> set (drop 2 xs) \<Longrightarrow> size_field (xs @ ys) = size_field xs"
  by (cases "2 \<le> length xs") (auto simp: size_field_def)

lemma takeWhile_shorter: "x \<in> set xs \<Longrightarrow> \<not> P x \<Longrightarrow> length (takeWhile P xs) < length xs"
  by (induction xs) auto

lemma size_field_bound:
  "0x7C \<in> set (drop 2 xs) \<Longrightarrow> length (size_field xs) + 3 \<le> length xs"
  using takeWhile_shorter [of "0x7C" "drop 2 xs" "\<lambda>b. \<not> is_bar b"] by (auto simp: size_field_def)

lemma read_point_bound:
  assumes "0x7C \<in> set (drop 2 xs)" "length xs \<le> 64"
  shows "unat (of_nat (length (size_field xs) + 3) :: u32) \<le> length xs"
  using size_field_bound [OF assms(1)] assms(2) by (subst unat_of_nat_small) simp_all

lemma ingest_twice:
  assumes "fresh sv" "length (xs @ ys) \<le> 64"
  shows "ingest (ingest sv xs) ys = ingest sv (xs @ ys)"
  using assms(1) assms(2) fresh_ingest(1,3) [OF assms(1), of xs]
  by (simp add: ingest_def fresh_def add.commute add.left_commute)

lemma ingest_update:
  "ingest (sv\<lparr>m_ReadPoint := a, m_Command := c, m_State := d\<rparr>) ys =
     (ingest sv ys)\<lparr>m_ReadPoint := a, m_Command := c, m_State := d\<rparr>"
  "ingest (sv\<lparr>m_Command := c, m_Payload := b, m_ReadPoint := a, m_State := d\<rparr>) ys =
     (ingest sv ys)\<lparr>m_Command := c, m_Payload := b, m_ReadPoint := a, m_State := d\<rparr>"
  by (simp_all add: ingest_def)

lemma scan_cases [case_names short unknown no_size sized]:
  obtains "length xs < 2" "scan sv xs = ingest sv xs"
  | "2 \<le> length xs" "command_of (xs ! 0) = IDLE"
    "scan sv xs = (ingest sv xs)\<lparr>m_ReadPoint := 2, m_Command := IDLE\<rparr>"
  | "2 \<le> length xs" "command_of (xs ! 0) \<noteq> IDLE" "0x7C \<notin> set (drop 2 xs)"
    "scan sv xs = (ingest sv xs)\<lparr>m_ReadPoint := 2, m_Command := command_of (xs ! 0), m_State := NO_SIZE\<rparr>"
  | "2 \<le> length xs" "command_of (xs ! 0) \<noteq> IDLE" "0x7C \<in> set (drop 2 xs)"
    "scan sv xs = (ingest sv xs)\<lparr>m_Command := command_of (xs ! 0), m_Payload := atoi (size_field xs),
       m_ReadPoint := of_nat (length (size_field xs) + 3), m_State := NO_DATA\<rparr>"
  by (cases "length xs < 2"; cases "command_of (xs ! 0) = IDLE"; cases "0x7C \<in> set (drop 2 xs)")
    (simp_all add: scan_def Let_def)

text \<open>Recognition in one piece.\<close>

definition header_taken :: "fs_userdata \<Rightarrow> fs_userdata \<Rightarrow> bytes \<Rightarrow> bool" where
  "header_taken sv' sv xs \<longleftrightarrow>
     (\<exists>sv2. take_command sv' = Inr (2 \<le> length xs, sv2) \<and> (length xs < 2 \<longrightarrow> sv2 = scan sv xs) \<and>
        take_size sv2 = Inr (m_State (scan sv xs) \<noteq> NO_SIZE, scan sv xs))"

lemma header_taken_fresh:
  assumes "fresh sv" "length xs \<le> 64"
  shows "header_taken (ingest sv xs) sv xs"
proof (cases "2 \<le> length xs")
  case False
  then show ?thesis
    using fresh_ingest [OF assms]
    by (simp add: header_taken_def take_command_def take_size_def scan_def word_le_nat_alt)
next
  case True
  note f = fresh_ingest [OF assms]
  define sv2 where "sv2 = (ingest sv xs)\<lparr>m_ReadPoint := 2, m_Command := command_of (xs ! 0),
      m_State := (if command_of (xs ! 0) = IDLE then NO_COMMAND else NO_SIZE)\<rparr>"
  have two: "2 \<le> m_DataLength (ingest sv xs)" using True f(3) by (simp add: word_le_nat_alt)
  have "arr_get (m_DataBuffer (ingest sv xs)) 0 = Inr (xs ! 0)"
    using True f(1) by (cases xs) (simp_all add: arr_get_def)
  then have c: "take_command (ingest sv xs) = Inr (True, sv2)"
    using two f(4) by (simp add: take_command_def sv2_def)
  have fb: "find_bar (m_DataBuffer sv2) (m_ReadPoint sv2) (m_DataLength sv2) =
      Inr (if 0x7C \<in> set (drop 2 xs) then Some (of_nat (length (size_field xs) + 2)) else None)"
    using find_bar_eq [OF True assms(2)] f(1,2) by (simp add: sv2_def)
  have "take_size sv2 = Inr (m_State (scan sv xs) \<noteq> NO_SIZE, scan sv xs)"
  proof (cases rule: scan_cases [of xs sv])
    case short
    with True show ?thesis by simp
  next
    case unknown
    then show ?thesis using f(4) by (simp add: take_size_def sv2_def)
  next
    case no_size
    then show ?thesis using fb by (simp add: take_size_def sv2_def)
  next
    case sized
    let ?j = "of_nat (length (size_field xs) + 2) :: u32"
    have "unat (?j - 2) = length (size_field xs)"
      using size_field_bound [OF sized(3)] assms(2) by (simp add: unat_of_nat_small)
    moreover have "take (length (size_field xs)) (drop 2 (xs @ r)) = size_field xs" for r
      using True size_field_bound [OF sized(3)] by (simp add: size_field_def takeWhile_eq_take [symmetric])
    ultimately have "take (unat (?j - m_ReadPoint sv2)) (drop (unat (m_ReadPoint sv2)) (m_DataBuffer sv2)) = size_field xs"
      using f(1) by (simp add: sv2_def del: drop_append take_append)
    moreover have "take_size sv2 = Inr (True, sv2\<lparr>m_Payload :=
        atoi (take (unat (?j - m_ReadPoint sv2)) (drop (unat (m_ReadPoint sv2)) (m_DataBuffer sv2))),
        m_ReadPoint := ?j + 1, m_State := NO_DATA\<rparr>)"
      using fb sized(2,3) unfolding take_size_def by (simp add: sv2_def)
    ultimately show ?thesis using sized by (simp add: sv2_def)
  qed
  with True c show ?thesis by (simp add: header_taken_def)
qed

text \<open>Recognition goes on where an earlier piece left it.\<close>

lemma header_taken_more:
  assumes "fresh sv" "length (xs @ ys) \<le> 64" "waiting sv xs"
  shows "header_taken (ingest (scan sv xs) ys) sv (xs @ ys)"
proof (cases rule: scan_cases [of xs sv])
  case short
  then show ?thesis
    using header_taken_fresh [OF assms(1,2)] ingest_twice [OF assms(1,2)] by simp
next
  case unknown
  with assms(3) show ?thesis by (simp add: waiting_def)
next
  case no_size
  then have hd: "(xs @ ys) ! 0 = xs ! 0" by (cases xs) auto
  obtain sv2 where c: "take_command (ingest sv (xs @ ys)) = Inr (True, sv2)"
    "take_size sv2 = Inr (m_State (scan sv (xs @ ys)) \<noteq> NO_SIZE, scan sv (xs @ ys))"
    using header_taken_fresh [OF assms(1,2)] no_size(1) by (auto simp: header_taken_def)
  have i: "ingest (scan sv xs) ys = (ingest sv (xs @ ys))\<lparr>m_ReadPoint := 2, m_Command := command_of (xs ! 0), m_State := NO_SIZE\<rparr>"
    using ingest_twice [OF assms(1,2)] by (simp add: no_size(4) ingest_update)
  have "arr_get (m_DataBuffer (ingest sv (xs @ ys))) 0 = Inr (xs ! 0)"
    using no_size(1) fresh_ingest(1) [OF assms(1,2)] by (cases xs) (simp_all add: arr_get_def)
  then have "sv2 = ingest (scan sv xs) ys"
    using c(1) no_size(1,2) fresh_ingest [OF assms(1,2)]
    by (simp add: i take_command_def split: if_splits)
  with c(2) no_size(1) show ?thesis
    by (simp add: header_taken_def take_command_def i)
next
  case sized
  then have hd: "(xs @ ys) ! 0 = xs ! 0" "2 \<le> length (xs @ ys)" "0x7C \<in> set (drop 2 (xs @ ys))"
    by (cases xs; auto)+
  have "scan sv (xs @ ys) = ingest (scan sv xs) ys"
    using sized hd size_field_append [OF sized(3), of ys] ingest_twice [OF assms(1,2)]
    by (simp add: ingest_update scan_def [of _ "xs @ ys"] del: nth_append)
  moreover have "m_State (ingest (scan sv xs) ys) = NO_DATA"
    by (simp add: sized(4) ingest_update)
  ultimately show ?thesis
    using hd(2) by (simp add: header_taken_def take_command_def take_size_def)
qed

text \<open>One activation on a server that has collected \<open>xs\<close> and now gets \<open>ys\<close>.\<close>

lemma step_more:
  assumes w: "reverse w c = Some s" "servers w s = Some (scan sv xs)" "server_ok (scan sv xs)"
    and sv: "fresh sv" "length (xs @ ys) \<le> 64" "waiting sv xs" "ys \<noteq> []"
  shows "fs_receive_step fs c ys w =
    (if length (xs @ ys) < 2 \<or> m_State (scan sv (xs @ ys)) = NO_SIZE then (Inr 0, put_server s (scan sv (xs @ ys)) w)
     else if m_Payload (scan sv (xs @ ys)) \<le> m_DataLength (scan sv (xs @ ys)) - m_ReadPoint (scan sv (xs @ ys))
     then mbind (packet_done fs c s) (\<lambda>_. mret (length ys)) (put_server s (scan sv (xs @ ys)) w)
     else (Inr (length ys), put_server s (scan sv (xs @ ys)) w))"
proof -
  obtain sv2 where h: "take_command (ingest (scan sv xs) ys) = Inr (2 \<le> length (xs @ ys), sv2)"
    "length (xs @ ys) < 2 \<longrightarrow> sv2 = scan sv (xs @ ys)"
    "take_size sv2 = Inr (m_State (scan sv (xs @ ys)) \<noteq> NO_SIZE, scan sv (xs @ ys))"
    using header_taken_more [OF sv(1-3)] by (auto simp: header_taken_def)
  have "unat (m_DataLength (scan sv xs)) = length xs"
    using fresh_ingest(3) [OF sv(1), of xs] sv(2) by simp
  then have k: "length ys = min (length ys) (64 - unat (m_DataLength (scan sv xs)))" "length ys \<noteq> 0"
    using sv(2,4) by simp_all
  from receive_step_eq [OF w k, simplified, OF h(1,3), of fs] h(2) show ?thesis by simp
qed

lemma scan_ok:
  assumes "fresh sv" "length xs \<le> 64"
  shows "server_ok (scan sv xs)"
proof -
  have 0: "server_ok (ingest sv xs)"
    using assms ingest_ok [of sv xs] by (simp add: fresh_def)
  show ?thesis
  proof (cases rule: scan_cases [of xs sv])
    case sized
    show ?thesis
      using 0 read_point_bound [OF sized(3) assms(2)] fresh_ingest [OF assms]
      unfolding sized(4) by (simp add: server_ok_def)
  qed (use 0 fresh_ingest [OF assms] in \<open>auto simp: server_ok_def\<close>)
qed

lemma scan_complete_word:
  assumes "fresh sv" "length xs \<le> 64" "2 \<le> length xs" "m_State (scan sv xs) \<noteq> NO_SIZE"
  shows "m_Payload (scan sv xs) \<le> m_DataLength (scan sv xs) - m_ReadPoint (scan sv xs) \<longleftrightarrow>
    packet_length (scan sv xs) \<le> length xs"
proof -
  have "unat (m_ReadPoint (scan sv xs)) \<le> length xs"
  proof (cases rule: scan_cases [of xs sv])
    case sized
    then show ?thesis
      using read_point_bound [OF sized(3) assms(2)] by simp
  qed (use assms(3,4) in auto)
  then show ?thesis
    using complete_word [of "scan sv xs"] fresh_ingest(3) [OF assms(1,2)] by simp
qed

text \<open>The whole function: what was collected before and what comes now act as one piece.\<close>

definition all_received :: "'f fs_ops \<Rightarrow> nat \<Rightarrow> nat \<Rightarrow> fs_userdata \<Rightarrow> bytes \<Rightarrow> ('f, unit) fs_handler" where
  "all_received fs c s sv xs w =
     (if length xs < 2 \<or> m_State (scan sv xs) = NO_SIZE \<or> length xs < packet_length (scan sv xs)
      then (Inr (), put_server s (scan sv xs) w)
      else packet_done fs c s (put_server s (scan sv xs) w))"

lemma receive_more:
  assumes w: "reverse w c = Some s" "servers w s = Some (scan sv xs)"
    and sv: "fresh sv" "length (xs @ ys) \<le> 64" "waiting sv xs" "ys \<noteq> []"
  shows "fs_data_received fs (Some c) ys w = all_received fs c s sv (xs @ ys) w"
proof -
  have "length xs \<le> 64" using sv(2) by simp
  note step = step_more [OF w scan_ok [OF sv(1) this] sv, of fs]
  show ?thesis
  proof (cases "length (xs @ ys) < 2 \<or> m_State (scan sv (xs @ ys)) = NO_SIZE")
    case True
    with step show ?thesis by (subst fs_data_received.simps) (auto simp: all_received_def)
  next
    case False
    then have "m_Payload (scan sv (xs @ ys)) \<le> m_DataLength (scan sv (xs @ ys)) - m_ReadPoint (scan sv (xs @ ys)) \<longleftrightarrow>
        packet_length (scan sv (xs @ ys)) \<le> length (xs @ ys)"
      using scan_complete_word [OF sv(1,2)] by simp
    with False step show ?thesis
      by (subst fs_data_received.simps)
        (auto simp: all_received_def mbind_def not_le split: prod.split sum.split)
  qed
qed

lemma waiting_state:
  assumes "waiting sv xs"
  shows "length xs < 2 \<or> m_State (scan sv xs) = NO_SIZE \<or> length xs < packet_length (scan sv xs)"
  using assms by (auto simp: waiting_def scan_def Let_def)

lemma receive_pieces:
  assumes "reverse w c = Some s" "servers w s = Some (scan sv xs)" "fresh sv"
    and "length (xs @ concat ds) \<le> 64" "[] \<notin> set ds" "ds \<noteq> []"
    and "\<And>n. n < length (xs @ concat ds) \<Longrightarrow> waiting sv (take n (xs @ concat ds))"
  shows "fold (\<lambda>d w. snd (fs_data_received fs (Some c) d w)) ds w =
    snd (all_received fs c s sv (xs @ concat ds) w)"
  using assms
proof (induction ds arbitrary: xs w)
  case Nil
  then show ?case by simp
next
  case (Cons d ds)
  have xs: "waiting sv xs" "length (xs @ d) \<le> 64" "d \<noteq> []"
    using Cons.prems(4,5) Cons.prems(7) [of "length xs"] by auto
  note now = receive_more [OF Cons.prems(1-3) xs(2,1,3), of fs]
  show ?case
  proof (cases "ds = []")
    case True
    with now show ?thesis by simp
  next
    case False
    let ?w = "put_server s (scan sv (xs @ d)) w"
    have "concat ds \<noteq> []" using False Cons.prems(5) by (cases ds) auto
    then have "waiting sv (xs @ d)" using Cons.prems(7) [of "length (xs @ d)"] by simp
    from waiting_state [OF this] now have here: "snd (fs_data_received fs (Some c) d w) = ?w"
      by (auto simp: all_received_def)
    have "fold (\<lambda>d w. snd (fs_data_received fs (Some c) d w)) ds ?w =
        snd (all_received fs c s sv ((xs @ d) @ concat ds) ?w)"
      by (rule Cons.IH) (use Cons.prems False in auto)
    moreover have "all_received fs c s sv ((xs @ d) @ concat ds) ?w = all_received fs c s sv ((xs @ d) @ concat ds) w"
      by (simp add: all_received_def)
    ultimately show ?thesis using here by simp
  qed
qed

section \<open>Packets\<close>

definition packet :: "u8 \<Rightarrow> u8 \<Rightarrow> bytes \<Rightarrow> bytes \<Rightarrow> bytes" where
  "packet cmd sep digits payload = [cmd, sep] @ digits @ [0x7C] @ payload"

lemma takeWhile_up_to [simp]: "x \<notin> set ds \<Longrightarrow> takeWhile (\<lambda>b. b \<noteq> x) (ds @ x # r) = ds"
  by (induction ds) auto

lemma packet_scan:
  assumes "fresh sv" "command_of cmd \<noteq> IDLE" "0x7C \<notin> set digits" "atoi digits = of_nat (length payload)"
    and P: "P = packet cmd sep digits payload" "length (P @ Q) \<le> 64"
  shows "scan sv (P @ Q) = (ingest sv (P @ Q))\<lparr>m_Command := command_of cmd, m_Payload := of_nat (length payload),
      m_ReadPoint := of_nat (length digits + 3), m_State := NO_DATA\<rparr>"
    and "packet_length (scan sv (P @ Q)) = length P"
    and "payload_of (scan sv (P @ Q)) = takeWhile (\<lambda>b. b \<noteq> 0) payload"
    and "n < length P \<Longrightarrow> waiting sv (take n P)"
proof -
  have sf: "size_field (P @ Q') = digits" "0x7C \<in> set (drop 2 (P @ Q'))" for Q'
    using assms(3) by (simp_all add: P(1) packet_def size_field_def)
  show sc: "scan sv (P @ Q) = (ingest sv (P @ Q))\<lparr>m_Command := command_of cmd, m_Payload := of_nat (length payload),
      m_ReadPoint := of_nat (length digits + 3), m_State := NO_DATA\<rparr>"
    using assms(2,4) sf [of Q] by (simp add: scan_def Let_def P(1) packet_def)
  have u: "unat (of_nat (length payload) :: u32) = length payload"
    "unat (of_nat (length digits + 3) :: u32) = length digits + 3"
    using P(2) by (intro unat_of_nat_small; simp add: P(1) packet_def)+
  show "packet_length (scan sv (P @ Q)) = length P"
    unfolding sc packet_length_def using u by (simp add: P(1) packet_def)
  have "take (length payload) (drop (length digits + 3) (P @ Q @ r)) = payload" for r
    by (simp add: P(1) packet_def numeral_3_eq_3)
  then show "payload_of (scan sv (P @ Q)) = takeWhile (\<lambda>b. b \<noteq> 0) payload"
    unfolding sc payload_of_def using u fresh_ingest(1) [OF assms(1) P(2)]
    by (simp del: take_append drop_append of_nat_add)
  show "waiting sv (take n P)" if n: "n < length P"
  proof (cases "n < length digits + 3")
    case True
    then have "set (drop 2 (take n P)) \<subseteq> set digits"
      by (cases n; cases "n - 1") (auto simp: P(1) packet_def dest: in_set_takeD)
    then show ?thesis using assms(2,3) n by (cases n) (auto simp: waiting_def P(1) packet_def)
  next
    case False
    then have tk: "take n P = packet cmd sep digits (take (n - (length digits + 3)) payload)"
      by (simp add: P(1) packet_def numeral_3_eq_3 take_Cons' Suc_diff_le)
    have "size_field (take n P) = digits" "0x7C \<in> set (drop 2 (take n P))" "take n P ! 0 = cmd" "2 \<le> length (take n P)"
      using assms(3) n False by (simp_all add: tk packet_def size_field_def)
    then have "packet_length (scan sv (take n P)) = length P"
      using u assms(2,4) by (simp add: scan_def Let_def packet_length_def) (auto simp: P(1) packet_def min_def)
    then show ?thesis
      using n assms(2) \<open>take n P ! 0 = cmd\<close> by (simp add: waiting_def)
  qed
qed

text \<open>A packet at the head of what a fresh server has received.\<close>

lemma packet_received:
  assumes inv: "fs_inv w" and w: "servers w s = Some sv'"
    and sv: "fresh sv" "command_of cmd \<noteq> IDLE" "0x7C \<notin> set digits" "atoi digits = of_nat (length payload)"
    and P: "P = packet cmd sep digits payload" "length (P @ Q) \<le> 64" "length P < 64"
  obtains b w1 sv1 sv2 where
    "exec_command fs (command_of cmd) (takeWhile (\<lambda>b. b \<noteq> 0) payload) (put_server s sv1 w) = (Inr b, w1)"
    "all_received fs c s sv (P @ Q) w = (Inr (), w1\<lparr>
       net := net w @ [Sent c (if b then [0x59, 0x7C] else [0x4E, 0x7C]), Sent c P] @ (if b then [] else [Disconnect c]),
       servers := (servers w)(s \<mapsto> sv2)\<rparr>)"
    "server_ok sv2" "m_State sv2 = NO_COMMAND" "unat (m_DataLength sv2) = length Q" "take (length Q) (m_DataBuffer sv2) = Q"
proof -
  note ps = packet_scan [OF sv P(1,2)]
  let ?sv = "scan sv (P @ Q)" and ?w = "put_server s (scan sv (P @ Q)) w"
  have buf: "m_DataBuffer ?sv = P @ Q @ drop (length (P @ Q)) (m_DataBuffer sv)" "unat (m_DataLength ?sv) = length (P @ Q)"
    using fresh_ingest(1,3) [OF sv(1) P(2)] by simp_all
  have l64: "length (m_DataBuffer ?sv) = 64"
    using scan_ok [OF sv(1) P(2)] by (simp add: server_ok_def)
  have cs: "complete ?sv" using ps(2) buf(2) l64 P(2) by (simp add: complete_def)
  have dl: "unat (m_DataLength ?sv) - packet_length ?sv = length Q" using ps(2) buf(2) by simp
  have sw: "servers ?w s = Some ?sv" "packet_length ?sv < 64" "length (line ?w) = LUA_MAXINPUT"
    using inv ps(2) P(3) by (simp_all add: fs_inv_def)
  obtain b w1 where x: "exec_command fs (m_Command ?sv) (payload_of ?sv)
        (put_server s (?sv\<lparr>m_DataBuffer := (m_DataBuffer ?sv)[length P := 0]\<rparr>) ?w) = (Inr b, w1)"
    and d: "packet_done fs c s ?w = (Inr (), w1\<lparr>
       net := net ?w @ [Sent c (if b then [0x59, 0x7C] else [0x4E, 0x7C]), Sent c (take (length P) (m_DataBuffer ?sv))] @
              (if b then [] else [Disconnect c]),
       servers := (servers ?w)(s \<mapsto> ?sv\<lparr>m_DataLength := of_nat (length Q),
         m_DataBuffer := take (length Q) (drop (length P) (m_DataBuffer ?sv)) @ drop (length Q) (m_DataBuffer ?sv),
         m_Payload := 0, m_ReadPoint := 0, m_Command := IDLE, m_State := NO_COMMAND\<rparr>)\<rparr>)"
    by (rule packet_done_eq [OF sw(1) cs sw(2,3), of fs c, unfolded dl, unfolded ps(2)])
  let ?sv2 = "?sv\<lparr>m_DataLength := of_nat (length Q),
         m_DataBuffer := take (length Q) (drop (length P) (m_DataBuffer ?sv)) @ drop (length Q) (m_DataBuffer ?sv),
         m_Payload := 0, m_ReadPoint := 0, m_Command := IDLE, m_State := NO_COMMAND\<rparr>"
  have "unat (of_nat (length Q) :: u32) = length Q"
    using P(2) by (intro unat_of_nat_small) simp
  then have s2: "server_ok ?sv2" "m_State ?sv2 = NO_COMMAND" "unat (m_DataLength ?sv2) = length Q"
    "take (length Q) (m_DataBuffer ?sv2) = Q"
    using buf l64 P(2) by (auto simp: server_ok_def)
  have "2 \<le> length (P @ Q)" by (simp add: P(1) packet_def)
  then have ar: "all_received fs c s sv (P @ Q) w = packet_done fs c s ?w"
    using ps(1,2) by (auto simp: all_received_def)
  have cmd: "m_Command ?sv = command_of cmd" by (simp add: ps(1))
  show ?thesis
    by (rule that [OF _ _ s2]) (use x d ar cmd ps(3) buf(1) in \<open>simp_all\<close>)
qed

text \<open>C4: A packet of fewer than 64 bytes with a known command and a size field equal to its payload's
  length is executed exactly as sent, however the network cuts it into non-empty pieces: the
  command runs once, on the payload up to its first zero byte, the client gets \<open>Y|\<close> or \<open>N|\<close> by its result
  followed by an echo of the whole packet, a failed command also closes the connection, and the server is
  ready for the next packet.\<close>

theorem upload_packet:
  assumes "fs_inv w" "reverse w c = Some s" "servers w s = Some sv" "fresh sv"
    and "command_of cmd \<noteq> IDLE" "0x7C \<notin> set digits" "atoi digits = of_nat (length payload)"
    and "concat pieces = packet cmd sep digits payload" "[] \<notin> set pieces"
    and "length (packet cmd sep digits payload) < 64"
  shows "\<exists>b w1 sv1 sv2.
    exec_command fs (command_of cmd) (takeWhile (\<lambda>b. b \<noteq> 0) payload) (put_server s sv1 w) = (Inr b, w1) \<and>
    fold (\<lambda>d w. snd (fs_data_received fs (Some c) d w)) pieces w = w1\<lparr>
       net := net w @ [Sent c (if b then [0x59, 0x7C] else [0x4E, 0x7C]), Sent c (packet cmd sep digits payload)] @
              (if b then [] else [Disconnect c]),
       servers := (servers w)(s \<mapsto> sv2)\<rparr> \<and> fresh sv2"
proof -
  let ?P = "packet cmd sep digits payload"
  have le: "length (?P @ []) \<le> 64" using assms(10) by simp
  obtain b w1 sv1 sv2 where p:
    "exec_command fs (command_of cmd) (takeWhile (\<lambda>b. b \<noteq> 0) payload) (put_server s sv1 w) = (Inr b, w1)"
    "all_received fs c s sv (?P @ []) w = (Inr (), w1\<lparr>
       net := net w @ [Sent c (if b then [0x59, 0x7C] else [0x4E, 0x7C]), Sent c ?P] @ (if b then [] else [Disconnect c]),
       servers := (servers w)(s \<mapsto> sv2)\<rparr>)"
    "server_ok sv2" "m_State sv2 = NO_COMMAND" "unat (m_DataLength sv2) = length []"
    by (rule packet_received [OF assms(1,3-7) refl le assms(10), of fs c]) auto
  have "scan sv [] = sv" by (simp add: scan_def ingest_def)
  then have at: "servers w s = Some (scan sv [])" using assms(3) by simp
  have "pieces \<noteq> []" using assms(8) by (auto simp: packet_def)
  then have "fold (\<lambda>d w. snd (fs_data_received fs (Some c) d w)) pieces w = snd (all_received fs c s sv ([] @ concat pieces) w)"
    using assms(10) packet_scan(4) [OF assms(4-7) refl le]
    by (intro receive_pieces assms(2,4,9) at) (simp_all add: assms(8))
  moreover have "fresh sv2" using p(3-5) by (simp add: fresh_def unat_eq_zero)
  ultimately show ?thesis
    using p(1) unfolding assms(8) append_Nil p(2) [unfolded append_Nil2] snd_conv by blast
qed

section \<open>Every event of the module\<close>

datatype fs_event =
    Connected nat
  | Disconnected nat
  | Reconnected nat
  | Received nat bytes
  | Start bytes bool bool "lua_value list"
  | Stop "lua_value list"

fun fs_handle :: "'f fs_ops \<Rightarrow> (nat \<Rightarrow> bool) \<Rightarrow> lua_conv \<Rightarrow> fs_event \<Rightarrow> ('f, unit) fs_handler" where
  "fs_handle fs ports cv (Connected c) = fs_client_connected ports (Some c)"
| "fs_handle fs ports cv (Disconnected c) = fs_client_disconnected fs (Some c)"
| "fs_handle fs ports cv (Reconnected c) = fs_server_reconnected fs (Some c)"
| "fs_handle fs ports cv (Received c data) = fs_data_received fs (Some c) data"
| "fs_handle fs ports cv (Start junk conn tcp args) =
     mbind (file_server_start junk conn tcp cv args) (\<lambda>_. mret ())"
| "fs_handle fs ports cv (Stop args) = file_server_stop args"

text \<open>Numbers from Lua fit an integer; a userdata value points to an allocated server. Clients connect at any time.\<close>

fun fs_event_ok :: "lua_conv \<Rightarrow> 'f fs_world \<Rightarrow> fs_event \<Rightarrow> bool" where
  "fs_event_ok cv w (Start junk conn tcp args) =
     (length junk = 64 \<and> clean (luaL_checkinteger cv (index2adr args 1)) \<and>
      clean (lua_tointeger cv (index2adr args 2)))"
| "fs_event_ok cv w (Stop args) =
     (\<forall>s. index2adr args 1 = LUserdata ''file_server.fs'' s \<longrightarrow> servers w s \<noteq> None)"
| "fs_event_ok cv w e = True"

text \<open>
  What a handler may end with: cleanly, with the access to byte 64 of the packet buffer, or, when a client connects
  after the server was stopped, with the null pointer left in \<open>g_pServer\<close>.
\<close>

definition fs_fine :: "'a result \<Rightarrow> bool" where
  "fs_fine r \<longleftrightarrow> clean r \<or> r = Inl (OutOfBounds 64)"

fun after_stop :: "'f fs_world \<Rightarrow> fs_event \<Rightarrow> bool" where
  "after_stop w (Connected c) = (g_pServer w = None)"
| "after_stop w e = False"

lemma fs_inv_server: "fs_inv w \<Longrightarrow> servers w s = Some sv \<Longrightarrow> server_ok sv"
  by (simp add: fs_inv_def)

lemma connected_ok:
  assumes "fs_inv w" "g_pServer w \<noteq> None"
  shows "fs_fine (fst (fs_client_connected ports (Some c) w)) \<and> fs_inv (snd (fs_client_connected ports (Some c) w))"
proof -
  obtain s sv where s: "g_pServer w = Some s" "servers w s = Some sv"
    using assms by (auto simp: fs_inv_def)
  with fs_inv_server [OF assms(1)] have "server_ok (sv\<lparr>m_pClient := Some c\<rparr>)"
    by (auto simp: server_ok_def)
  with s assms(1) show ?thesis
    by (auto simp: fs_client_connected_def server_exec fs_fine_def net_call_def fs_inv_def)
qed

lemma disconnected_ok:
  assumes "fs_inv w"
  shows "fs_fine (fst (fs_client_disconnected fs (Some c) w)) \<and> fs_inv (snd (fs_client_disconnected fs (Some c) w))"
proof (cases "reverse w c")
  case None
  with assms show ?thesis by (simp add: fs_client_disconnected_def fs_fine_def)
next
  case (Some s)
  then obtain sv where sv: "servers w s = Some sv" using assms by (fastforce simp: fs_inv_def)
  let ?w = "w\<lparr>reverse := (reverse w)(c := None), servers := (servers w)(s \<mapsto> reset_server sv)\<rparr>"
  have "server_ok (reset_server sv)"
    using fs_inv_server [OF assms sv] by (simp add: server_ok_def reset_server_def)
  then have inv: "fs_inv ?w" using assms sv by (auto simp: fs_inv_def)
  obtain w' where w': "close_file fs ?w = (Inr (), w')" "same_server_state ?w w'"
    using close_file_frame [of fs] unfolding returns_frame_def by (metis old.unit.exhaust)
  then have "fs_client_disconnected fs (Some c) w = (Inr (), w')"
    using Some sv by (simp add: fs_client_disconnected_def server_exec(2) [of _ s sv])
  moreover have "fs_inv w'" using inv w'(2) by (simp add: fs_inv_def same_server_state_def)
  ultimately show ?thesis by (simp add: fs_fine_def)
qed

lemma fs_inv_new:
  assumes "fs_inv w" "server_ok sv" "next_server w' = Suc (next_server w)" "g_pServer w' = Some (next_server w)"
    "servers w' = (servers w)(next_server w \<mapsto> sv)" "reverse w' = reverse w" "line w' = line w"
  shows "fs_inv w'"
  using assms by (auto simp: fs_inv_def less_Suc_eq)

lemma paired: "P (fst p) \<and> snd p = w \<Longrightarrow> \<exists>r. p = (r, w) \<and> P r"
  by (cases p) simp

lemma start_ok:
  assumes "fs_inv w" "length junk = 64" "clean (luaL_checkinteger cv (index2adr args 1))"
    "clean (lua_tointeger cv (index2adr args 2))"
  shows "fs_fine (fst (file_server_start junk conn tcp cv args w)) \<and>
    fs_inv (snd (file_server_start junk conn tcp cv args w))"
proof (cases "luaL_checkinteger cv (index2adr args 1)")
  case (Inl e)
  with assms show ?thesis by (simp add: file_server_start_def fs_fine_def clean_Inl_iff)
next
  case (Inr port)
  let ?tm = "if lua_isnumber cv (index2adr args 3)
      then mbind (mlift (lua_tointeger cv (index2adr args 2))) (\<lambda>t.
           let timeout = ucast t :: u16 in
           if timeout < 1 \<or> 28800 < timeout then mfail (LuaError ''wrong arg type'') else mret timeout)
      else mret 30"
  have "clean (fst (?tm w)) \<and> snd (?tm w) = w"
    using assms(4) by (cases "lua_tointeger cv (index2adr args 2)") (simp_all add: Let_def clean_Inl_iff)
  from paired [where P = clean, OF this] obtain r where r: "?tm w = (r, w)" "clean r" by blast
  have ok: "server_ok \<lparr>m_pConnection = x, m_DataBuffer = junk, m_DataLength = 0, m_ReadPoint = 0, m_Payload = 0,
      m_State = NO_COMMAND, m_Command = IDLE, m_pClient = None\<rparr>" for x
    using assms(2) by (simp add: server_ok_def)
  show ?thesis
  proof (cases r)
    case (Inl e)
    with Inr r assms(1) show ?thesis by (auto simp: file_server_start_def fs_fine_def clean_Inl_iff)
  next
    case (Inr t)
    with r have tm: "?tm w = (Inr t, w)" by simp
    show ?thesis
      unfolding file_server_start_def \<open>luaL_checkinteger cv (index2adr args 1) = Inr port\<close> mbind_mlift sum.case
        mbind_Inr [where m = ?tm, OF tm] mbind_mget mbind_mupd
      by (cases conn; cases tcp)
        (auto simp: upd_server_def get_server_def net_call_def fs_fine_def
          intro!: fs_inv_new [OF assms(1) ok [of "if conn \<and> tcp then Some True else None"]])
  qed
qed

lemma stop_ok:
  assumes "fs_inv w" "\<forall>s. index2adr args 1 = LUserdata ''file_server.fs'' s \<longrightarrow> servers w s \<noteq> None"
  shows "fs_fine (fst (file_server_stop args w)) \<and> fs_inv (snd (file_server_stop args w))"
proof (cases "luaL_checkudata (index2adr args 1) ''file_server.fs''")
  case (Inl e)
  then have "\<exists>t. e = LuaError t" by (auto simp: luaL_checkudata_def split: lua_value.splits if_splits)
  with Inl assms(1) show ?thesis by (auto simp: file_server_stop_def fs_fine_def)
next
  case (Inr s)
  with assms(2) obtain sv where "servers w s = Some sv" by auto
  moreover from this have "server_ok (sv\<lparr>m_pConnection := map_option (\<lambda>_. False) (m_pConnection sv)\<rparr>)"
    using fs_inv_server [OF assms(1)] by (auto simp: server_ok_def)
  moreover have "file_server_stop args w = (Inr (),
      w\<lparr>servers := (servers w)(s \<mapsto> sv\<lparr>m_pConnection := map_option (\<lambda>_. False) (m_pConnection sv)\<rparr>), g_pServer := None\<rparr>)"
    if "servers w s = Some sv"
    using that Inr by (simp add: file_server_stop_def stop_def server_exec(2) del: luaL_checkudata_Inr)
  ultimately show ?thesis
    using assms(1) by (auto simp: fs_fine_def fs_inv_def)
qed

lemma connected_stopped:
  assumes "g_pServer w = None"
  shows "fs_client_connected ports (Some c) w = (Inl NullPointer, w)"
  using assms by (simp add: fs_client_connected_def)

lemma fs_handle_outcome:
  assumes "fs_inv w" "fs_event_ok cv w e"
  shows "(if after_stop w e then fst (fs_handle fs ports cv e w) = Inl NullPointer else fs_fine (fst (fs_handle fs ports cv e w))) \<and>
    fs_inv (snd (fs_handle fs ports cv e w))"
proof (cases e)
  case (Connected c)
  with assms(1) show ?thesis
    by (cases "g_pServer w = None") (simp_all add: connected_stopped connected_ok)
next
  case (Received c data)
  then show ?thesis
    using data_received_outcome [OF assms(1), of fs "Some c" data]
    by (auto simp: outcome_ok_def fs_fine_def split: sum.splits)
next
  case (Start junk conn tcp args)
  then show ?thesis
    using start_ok [OF assms(1), of junk cv args conn tcp] assms(2)
    by (auto simp: mbind_def fs_fine_def clean_Inl_iff split: prod.split sum.split)
qed (use assms in \<open>simp_all add: disconnected_ok stop_ok fs_server_reconnected_def\<close>)

interpretation file_server: handled_up_to "fs_handle fs ports cv" fs_inv "fs_event_ok cv" "\<lambda>r. fs_fine r \<or> r = Inl NullPointer"
proof (unfold_locales, goal_cases)
  case (1 w e)
  from fs_handle_outcome [OF this, of fs ports] show ?case by (cases "after_stop w e") simp_all
qed

section \<open>Properties\<close>


text \<open>C25: A packet of exactly 64 bytes makes the server read and write the byte behind its buffer.\<close>

theorem full_packet_overflows:
  assumes "fs_inv w" "reverse w c = Some s" "servers w s = Some sv" "fresh sv"
    and "command_of cmd \<noteq> IDLE" "0x7C \<notin> set digits" "atoi digits = of_nat (length payload)"
    and "length (packet cmd sep digits payload) = 64"
  shows "fst (fs_data_received fs (Some c) (packet cmd sep digits payload) w) = Inl (OutOfBounds 64)"
proof -
  let ?P = "packet cmd sep digits payload"
  have le: "length (?P @ []) \<le> 64" using assms(8) by simp
  note ps = packet_scan [OF assms(4-7) refl le, unfolded append_Nil2]
  have c: "complete (scan sv ?P)"
    using scan_ok [OF assms(4), of ?P] ps(2) assms(8) fresh_ingest(3) [OF assms(4), of ?P]
    by (simp add: complete_def server_ok_def)
  have "servers w s = Some (scan sv [])" using assms(3) by (simp add: scan_def ingest_def)
  moreover have "?P \<noteq> []" by (simp add: packet_def)
  ultimately have "fs_data_received fs (Some c) ?P w = all_received fs c s sv ?P w"
    using receive_more [OF assms(2) _ assms(4), of "[]" ?P fs] assms(8) by (simp add: waiting_def)
  also have "\<dots> = packet_done fs c s (put_server s (scan sv ?P) w)"
    using ps(1,2) assms(8) by (simp add: all_received_def)
  also have "\<dots> = (Inl (OutOfBounds 64), put_server s (scan sv ?P) w)"
    using ps(2) assms(8) by (intro packet_done_full [OF _ c]) simp_all
  finally show ?thesis by simp
qed

text \<open>Bytes that follow a packet in the same network segment are kept in order at the front of the
  buffer, but a complete second packet among them is not executed: only one reply goes out, and the
  second packet waits until the client sends something more.\<close>

theorem pipelined_packet_waits:
  assumes "fs_inv w" "reverse w c = Some s" "servers w s = Some sv" "fresh sv"
    and "command_of cmd \<noteq> IDLE" "0x7C \<notin> set digits" "atoi digits = of_nat (length payload)"
    and "length (packet cmd sep digits payload @ next_packet) < 64"
  shows "\<exists>b sv2. let w' = snd (fs_data_received fs (Some c) (packet cmd sep digits payload @ next_packet) w) in
    net w' = net w @ [Sent c (if b then [0x59, 0x7C] else [0x4E, 0x7C]), Sent c (packet cmd sep digits payload)] @
             (if b then [] else [Disconnect c]) \<and>
    servers w' s = Some sv2 \<and> m_State sv2 = NO_COMMAND \<and> unat (m_DataLength sv2) = length next_packet \<and>
    take (length next_packet) (m_DataBuffer sv2) = next_packet"
proof -
  let ?P = "packet cmd sep digits payload"
  have le: "length (?P @ next_packet) \<le> 64" "length ?P < 64" using assms(8) by simp_all
  obtain b w1 sv1 sv2 where p: "all_received fs c s sv (?P @ next_packet) w = (Inr (), w1\<lparr>
       net := net w @ [Sent c (if b then [0x59, 0x7C] else [0x4E, 0x7C]), Sent c ?P] @ (if b then [] else [Disconnect c]),
       servers := (servers w)(s \<mapsto> sv2)\<rparr>)"
    "m_State sv2 = NO_COMMAND" "unat (m_DataLength sv2) = length next_packet"
    "take (length next_packet) (m_DataBuffer sv2) = next_packet"
    by (rule packet_received [OF assms(1,3-7) refl le, of fs c]) auto
  have "servers w s = Some (scan sv [])" using assms(3) by (simp add: scan_def ingest_def)
  from receive_more [OF assms(2) this assms(4), of "?P @ next_packet" fs] le(1)
  have "fs_data_received fs (Some c) (?P @ next_packet) w = all_received fs c s sv (?P @ next_packet) w"
    by (auto simp: waiting_def packet_def)
  with p show ?thesis by (intro exI [of _ b] exI [of _ sv2]) (simp add: Let_def)
qed

text \<open>While a client is connected, a second connection is refused and the server ignores its data.\<close>

theorem second_client_ignored:
  assumes "g_pServer w = Some s" "servers w s = Some sv" "m_pClient sv = Some c"
  shows "let w' = snd (fs_client_connected ports (Some d) w) in servers w' = servers w \<and> net w' = net w @ (if ports d then [Disconnect d] else []) \<and>
    fs_data_received fs (Some d) data w' = (Inr (), w')"
proof -
  have "snd (fs_client_connected ports (Some d) w) =
      w\<lparr>reverse := (reverse w)(d := None), net := net w @ (if ports d then [Disconnect d] else [])\<rparr>"
    using assms by (simp add: fs_client_connected_def server_exec net_call_def)
  moreover have "fs_data_received fs (Some d) data v = (Inr (), v)" if "reverse v d = None" for v
    using that by (subst fs_data_received.simps) (simp add: fs_receive_step_def)
  ultimately show ?thesis by (simp add: Let_def)
qed

text \<open>Stopping a server does not take back its listening connection: a client that connects afterwards
  makes the connect callback follow the null pointer left in \<open>g_pServer\<close>.\<close>

theorem connect_after_stop:
  assumes "servers w s \<noteq> None"
  shows "fst (fs_client_connected ports (Some c) (snd (stop s w))) = Inl NullPointer"
  using assms by (auto simp: stop_def server_exec fs_client_connected_def deref_def)

section \<open>Witnesses\<close>

text \<open>A file store that is one growing byte string.\<close>

definition demo_ops :: "bytes fs_ops" where
  "demo_ops = \<lparr>op_open = (\<lambda>name mode f. (1, [])), op_close = (\<lambda>fd f. (0, f)),
     op_write = (\<lambda>fd d f. (int (length d), f @ d)), op_flush = (\<lambda>fd f. (0, f)), op_remove = (\<lambda>name f. (0, f))\<rparr>"

definition demo_server :: fs_userdata where
  "demo_server = \<lparr>m_pConnection = Some True, m_DataBuffer = replicate 64 0, m_DataLength = 0, m_ReadPoint = 0,
     m_Payload = 0, m_State = NO_COMMAND, m_Command = IDLE, m_pClient = Some 7\<rparr>"

definition demo_world :: "bytes fs_world" where
  "demo_world = \<lparr>servers = [0 \<mapsto> demo_server], next_server = 1, g_pServer = Some 0, reverse = [7 \<mapsto> 0],
     file_fd = 1, files = [], line = replicate 256 0, line_position = 0, line_done = False, jobs = [], net = []\<rparr>"

lemma demo_facts:
  "fs_inv demo_world" "fresh demo_server" "reverse demo_world 7 = Some 0" "servers demo_world 0 = Some demo_server"
  "g_pServer demo_world = Some 0" "net demo_world = []"
  by (auto simp: fs_inv_def demo_world_def server_ok_def demo_server_def LUA_MAXINPUT_def fresh_def split: if_splits)

lemma command_of_write: "command_of 0x57 = WRITE" by (simp add: command_of_def)

theorem upload_packet_witness:
  "\<exists>b w1 sv1 sv2.
    exec_command demo_ops WRITE [0x68, 0x69] (put_server 0 sv1 demo_world) = (Inr b, w1) \<and>
    fold (\<lambda>d w. snd (fs_data_received demo_ops (Some 7) d w)) [[0x57], [0x7C, 0x32, 0x7C, 0x68], [0x69]] demo_world = w1\<lparr>
       net := [Sent 7 (if b then [0x59, 0x7C] else [0x4E, 0x7C]), Sent 7 [0x57, 0x7C, 0x32, 0x7C, 0x68, 0x69]] @
              (if b then [] else [Disconnect 7]),
       servers := (servers demo_world)(0 \<mapsto> sv2)\<rparr> \<and> fresh sv2"
  using upload_packet [OF demo_facts(1,3,4,2), of "0x57" "[0x32]" "[0x68, 0x69]"
      "[[0x57], [0x7C, 0x32, 0x7C, 0x68], [0x69]]" "0x7C" demo_ops]
  by (simp add: command_of_write packet_def atoi_def demo_facts(6) del: fold.simps)

abbreviation demo_handle :: "fs_event \<Rightarrow> (bytes, unit) fs_handler" where
  "demo_handle \<equiv> fs_handle demo_ops (\<lambda>_. True) \<lparr>str2d = (\<lambda>_. None), num2str = (\<lambda>_. [])\<rparr>"


theorem full_packet_overflows_witness:
  "fst (fs_data_received demo_ops (Some 7) ([0x57, 0x7C, 0x35, 0x39, 0x7C] @ replicate 59 0x61) demo_world) =
     Inl (OutOfBounds 64)"
  using full_packet_overflows [OF demo_facts(1,3,4,2), of "0x57" "[0x35, 0x39]" "replicate 59 0x61" "0x7C" demo_ops]
  by (simp add: command_of_write packet_def atoi_def)

theorem pipelined_packet_waits_witness:
  "\<exists>b sv2. let w' = snd (fs_data_received demo_ops (Some 7)
      (packet 0x57 0x7C [0x31] [0x68] @ [0x43, 0x7C, 0x30, 0x7C]) demo_world) in
    net w' = net demo_world @ [Sent 7 (if b then [0x59, 0x7C] else [0x4E, 0x7C]), Sent 7 (packet 0x57 0x7C [0x31] [0x68])] @
             (if b then [] else [Disconnect 7]) \<and>
    servers w' 0 = Some sv2 \<and> m_State sv2 = NO_COMMAND \<and> unat (m_DataLength sv2) = length [0x43, 0x7C, 0x30, 0x7C :: u8] \<and>
    take (length [0x43, 0x7C, 0x30, 0x7C :: u8]) (m_DataBuffer sv2) = [0x43, 0x7C, 0x30, 0x7C]"
  by (rule pipelined_packet_waits [OF demo_facts(1,3,4,2)]) (simp_all add: command_of_write packet_def atoi_def)

theorem second_client_ignored_witness:
  "fs_data_received demo_ops (Some 8) [0x57] (snd (fs_client_connected (\<lambda>_. True) (Some 8) demo_world)) =
     (Inr (), snd (fs_client_connected (\<lambda>_. True) (Some 8) demo_world))"
  using second_client_ignored [OF demo_facts(5,4), of 7 "\<lambda>_. True" 8 demo_ops "[0x57]"]
  by (simp add: demo_server_def Let_def)

theorem connect_after_stop_witness:
  "fst (fs_client_connected (\<lambda>_. True) (Some 8) (snd (stop 0 demo_world))) = Inl NullPointer"
  using connect_after_stop [of demo_world 0] by (simp add: demo_facts)

end
