(* ===== verification/Dht.thy ===== *)
theory Dht
  imports Lua_Api Gpio
begin

text \<open>
  The DHT temperature and humidity sensors (\<open>modules/dht.c\<close>). The sensor answers a request with a
  train of pulses whose lengths encode 40 bits; \<open>read\<close> counts samples of the pin between two
  level changes. The samples and the clock are functions of the number of readings made so far,
  arguments of every operation: theorems hold for every behaviour of the line, and the
  decoding theorem for the pulse trains a sensor sends.
\<close>

section \<open>State\<close>

record dht_userdata =
  m_Data :: bytes
  m_Pin :: u8
  m_Type :: u8
  m_Count :: u8
  m_FirstReading :: bool
  m_LastReadTime :: u32

text \<open>
  \<open>pin_log\<close> holds the hardware calls made; \<open>samples_taken\<close> and \<open>clock_reads\<close> count the
  readings of the pin and of the clock.
\<close>

record dht_world =
  sensors :: "nat \<Rightarrow> dht_userdata option"
  next_sensor :: nat
  pin_log :: "pin_event list"
  samples_taken :: nat
  clock_reads :: nat

type_synonym 'a dht_handler = "(dht_world, 'a) handler"

record dht_env =
  sample :: "nat \<Rightarrow> nat \<Rightarrow> bool"
  clock :: "nat \<Rightarrow> u32"

definition DHT11 :: u8 where "DHT11 = 11"
definition DHT22 :: u8 where "DHT22 = 22"
definition DHT21 :: u8 where "DHT21 = 21"
definition MAXTIMINGS :: nat where "MAXTIMINGS = 85"

definition log_pins :: "pin_event list \<Rightarrow> unit dht_handler" where
  "log_pins evs = mupd (\<lambda>w. w\<lparr>pin_log := pin_log w @ evs\<rparr>)"

definition get_sensor :: "nat \<Rightarrow> dht_userdata dht_handler" where
  "get_sensor a = mbind (mget sensors) (\<lambda>h. mlift (deref (h a)))"

definition put_sensor :: "nat \<Rightarrow> dht_userdata \<Rightarrow> unit dht_handler" where
  "put_sensor a pd = mupd (\<lambda>w. w\<lparr>sensors := (sensors w)(a \<mapsto> pd)\<rparr>)"

section \<open>Reading the pulses\<close>

text \<open>The inner loop: samples while the level stays, at most 255; the counter and the next sample.\<close>

function count_same :: "(nat \<Rightarrow> bool) \<Rightarrow> bool \<Rightarrow> nat \<Rightarrow> u8 \<Rightarrow> u8 \<times> nat" where
  "count_same level last_state pos counter =
     (if level pos = last_state then
        if counter + 1 = 255 then (255, pos + 1)
        else count_same level last_state (pos + 1) (counter + 1)
      else (counter, pos + 1))"
  by pat_completeness auto
termination
proof (relation "measure (\<lambda>(level, last_state, pos, counter). unat (254 - counter))", simp, goal_cases)
  case (1 level last_state pos counter)
  then have "254 - counter \<noteq> 0" by auto
  moreover have "254 - (counter + 1) = 254 - counter - 1" by simp
  ultimately show ?case
    by (simp only: in_measure split_conv) (metis unat_gt_0 unat_minus_one diff_less zero_less_one)
qed

declare count_same.simps [simp del]

text \<open>One bit is shifted into the current data byte.\<close>

definition shift_in :: "u8 \<Rightarrow> bool \<Rightarrow> u8" where
  "shift_in b x = (let b = push_bit 1 b in if x then b OR 1 else b)"

text \<open>The outer loop, with the level, the sample position, the bit index, the data and the delays made.\<close>

fun timing_loop ::
  "(nat \<Rightarrow> bool) \<Rightarrow> u8 \<Rightarrow> nat list \<Rightarrow> bool \<times> nat \<times> u8 \<times> bytes \<times> pin_event list \<Rightarrow>
   (bool \<times> nat \<times> u8 \<times> bytes \<times> pin_event list) result" where
  "timing_loop level step [] st = Inr st"
| "timing_loop level step (i # is) (last_state, pos, j, data, evs) =
     (let (counter, pos) = count_same level last_state pos 0;
          evs = evs @ replicate (unat counter) (DelayUs 1);
          last_state = level pos; pos = pos + 1 in
      if counter = 255 then Inr (last_state, pos, j, data, evs)
      else if 4 \<le> i \<and> i mod 2 = 0 then
        rbind (arr_get data (unat (j div 8))) (\<lambda>b.
        rbind (arr_set data (unat (j div 8)) (shift_in b (step < counter))) (\<lambda>data.
        timing_loop level step is (last_state, pos, j + 1, data, evs)))
      else timing_loop level step is (last_state, pos, j, data, evs))"

definition checksum_ok :: "bytes \<Rightarrow> bool result" where
  "checksum_ok data =
     rbind (arr_get data 4) (\<lambda>c.
     rbind (arr_get data 0) (\<lambda>a. rbind (arr_get data 1) (\<lambda>b.
     rbind (arr_get data 2) (\<lambda>d. rbind (arr_get data 3) (\<lambda>e.
     Inr (c = a + b + d + e))))))"

text \<open>The calls that request a measurement.\<close>

definition request_pulse :: "u32 \<Rightarrow> pin_event list" where
  "request_pulse pin =
     [gpio_dis_output (phys pin), gpio_output_set (phys pin) 1, DelayUs 250000,
      gpio_output_set (phys pin) 0, DelayUs 20000, IntrLock, gpio_output_set (phys pin) 1,
      DelayUs 40, gpio_dis_output (phys pin)]"

text \<open>The measurement proper, from the request to the checksum.\<close>

definition take_frame :: "dht_env \<Rightarrow> nat \<Rightarrow> dht_userdata \<Rightarrow> bool dht_handler" where
  "take_frame env a pData =
     mbind (mlift (arr_get pin_num (unat (m_Pin pData)))) (\<lambda>_.
     mbind (log_pins (request_pulse (ucast (m_Pin pData)))) (\<lambda>_.
     mbind (mget samples_taken) (\<lambda>n.
     mbind (mlift (timing_loop (sample env (phys (ucast (m_Pin pData)))) (m_Count pData) [0..<MAXTIMINGS]
              (True, n, 0, m_Data pData, []))) (\<lambda>(last_state, n, j, data, evs).
     mbind (mupd (\<lambda>w. w\<lparr>samples_taken := n\<rparr>)) (\<lambda>_.
     mbind (log_pins (evs @ [IntrUnlock])) (\<lambda>_.
     mbind (put_sensor a (pData\<lparr>m_Data := data\<rparr>)) (\<lambda>_.
     mbind (mlift (checksum_ok data)) (\<lambda>ok.
     mret (40 \<le> j \<and> ok)))))))))"

definition read :: "dht_env \<Rightarrow> nat \<Rightarrow> bool dht_handler" where
  "read env a =
     mbind (get_sensor a) (\<lambda>pData.
     mbind (mget clock_reads) (\<lambda>k.
     mbind (mupd (\<lambda>w. w\<lparr>clock_reads := Suc k\<rparr>)) (\<lambda>_.
     let current_time = 0x7FFFFFFF AND clock env k;
         pData = (if current_time < m_LastReadTime pData then pData\<lparr>m_LastReadTime := 0\<rparr> else pData) in
     mbind (put_sensor a pData) (\<lambda>_.
     if \<not> m_FirstReading pData \<and> current_time - m_LastReadTime pData < 2000000 then mret True
     else
       let pData = pData\<lparr>m_FirstReading := False, m_LastReadTime := current_time,
                         m_Data := replicate (length (m_Data pData)) 0\<rparr> in
       mbind (put_sensor a pData) (\<lambda>_.
       take_frame env a pData)))))"

section \<open>Values\<close>

text \<open>\<open>float\<close> arithmetic: the integer part is exact, the quotient is rounded to 24 bits.\<close>

definition tenth :: "int \<Rightarrow> cfloat" where
  "tenth n = fl_quot 24 n 10"

definition read_temperature :: "dht_env \<Rightarrow> nat \<Rightarrow> cfloat option dht_handler" where
  "read_temperature env a =
     mbind (read env a) (\<lambda>ok.
     if ok then
       mbind (get_sensor a) (\<lambda>pData.
       mbind (mlift (arr_get (m_Data pData) 2)) (\<lambda>d2.
       mbind (mlift (arr_get (m_Data pData) 3)) (\<lambda>d3.
       if m_Type pData = DHT11 then mret (Some (Fin (uint d2) 0))
       else if m_Type pData = DHT22 \<or> m_Type pData = DHT21 then
         let t = tenth (uint (d2 AND 0x7F) * 256 + uint d3) in
         mret (Some (if d2 AND 0x80 \<noteq> 0 then cf_neg t else t))
       else mret None)))
     else mret None)"

definition read_humidity :: "dht_env \<Rightarrow> nat \<Rightarrow> cfloat option dht_handler" where
  "read_humidity env a =
     mbind (read env a) (\<lambda>ok.
     if ok then
       mbind (get_sensor a) (\<lambda>pData.
       mbind (mlift (arr_get (m_Data pData) 0)) (\<lambda>d0.
       mbind (mlift (arr_get (m_Data pData) 1)) (\<lambda>d1.
       if m_Type pData = DHT11 then mret (Some (Fin (uint d0) 0))
       else if m_Type pData = DHT22 \<or> m_Type pData = DHT21 then mret (Some (tenth (uint d0 * 256 + uint d1)))
       else mret None)))
     else mret None)"

section \<open>Lua functions\<close>

definition dht_setup :: "lua_conv \<Rightarrow> lua_value list \<Rightarrow> nat dht_handler" where
  "dht_setup cv args =
     mbind (mlift (luaL_checkinteger cv (index2adr args 1))) (\<lambda>pin.
     mbind (mlift (luaL_checkinteger cv (index2adr args 2))) (\<lambda>type.
     mbind (if lua_isnumber cv (index2adr args 3)
            then mlift (lua_tointeger cv (index2adr args 3)) else mret 20) (\<lambda>count.
     if \<not> platform_gpio_exists pin then mfail (LuaError ''gpio does not exist'')
     else
     (let (result, evs) = platform_gpio_mode pin PLATFORM_GPIO_INPUT PLATFORM_GPIO_PULLUP in
     mbind (log_pins evs) (\<lambda>_.
     if result < 0 then mfail (LuaError ''Invalid DHT pin.'')
     else
     mbind (log_pins (platform_gpio_write pin 1)) (\<lambda>_.
     if type \<noteq> ucast DHT11 \<and> type \<noteq> ucast DHT22 \<and> type \<noteq> ucast DHT21 then mfail (LuaError ''Invalid sensor type.'')
     else
     mbind (mget next_sensor) (\<lambda>a.
     mbind (mupd (\<lambda>w. w\<lparr>next_sensor := Suc a\<rparr>)) (\<lambda>_.
     mbind (put_sensor a \<lparr>m_Data = replicate 6 0, m_Pin = ucast pin, m_Type = ucast type,
       m_Count = ucast count, m_FirstReading = True, m_LastReadTime = 0\<rparr>) (\<lambda>_.
     mret a)))))))))"

text \<open>The values returned to Lua; the failing branch pushes two nils and returns none of them.\<close>

definition dht_read :: "dht_env \<Rightarrow> lua_value list \<Rightarrow> lua_value list dht_handler" where
  "dht_read env args =
     mbind (mlift (luaL_checkudata (index2adr args 1) ''dht.dht'')) (\<lambda>a.
     mbind (read_temperature env a) (\<lambda>t.
     case t of
       None \<Rightarrow> mret []
     | Some t \<Rightarrow>
         mbind (read_humidity env a) (\<lambda>h.
         case h of None \<Rightarrow> mret [] | Some h \<Rightarrow> mret [LNumber t, LNumber h])))"

section \<open>Packing bits\<close>

definition data_after :: "bool list \<Rightarrow> bytes" where
  "data_after bs = map (\<lambda>q. foldl shift_in 0 (take 8 (drop (8 * q) bs))) [0..<6]"

lemma data_after_length [simp]: "length (data_after bs) = 6"
  by (simp add: data_after_def)

lemma data_after_Nil: "data_after [] = replicate 6 0"
  by (simp add: data_after_def map_replicate_trivial)

lemma data_after_snoc:
  assumes "length bs < 48"
  shows "data_after (bs @ [x]) =
    (data_after bs)[length bs div 8 := shift_in (data_after bs ! (length bs div 8)) x]"
proof (rule nth_equalityI)
  fix q
  assume "q < length (data_after (bs @ [x]))"
  then have q: "q < 6" by simp
  have "take 8 (drop (8 * q) (bs @ [x])) =
      (if q = length bs div 8 then take 8 (drop (8 * q) bs) @ [x] else take 8 (drop (8 * q) bs))"
  proof (cases q "length bs div 8" rule: linorder_cases)
    case less
    then have "8 * q + 8 \<le> length bs" by linarith
    then show ?thesis using less by simp
  next
    case equal
    then have "8 * q \<le> length bs" "length bs < 8 * q + 8" by linarith+
    then show ?thesis using equal by simp
  next
    case greater
    then have "length bs < 8 * q" by linarith
    then show ?thesis using greater by simp
  qed
  with q assms show "data_after (bs @ [x]) ! q =
      (data_after bs)[length bs div 8 := shift_in (data_after bs ! (length bs div 8)) x] ! q"
    by (simp add: data_after_def nth_list_update del: take_append drop_append)
qed simp

text \<open>A byte as the eight bits the sensor sends, highest first.\<close>

definition byte_bits :: "u8 \<Rightarrow> bool list" where
  "byte_bits b = map (bit b) [7, 6, 5, 4, 3, 2, 1, 0]"

lemma byte_bits_length [simp]: "length (byte_bits b) = 8"
  by (simp add: byte_bits_def)

lemma bit_shift_in: "bit (shift_in b x) n \<longleftrightarrow> (if n = 0 then x else n < 8 \<and> bit b (n - 1))"
proof -
  have "bit (push_bit 1 b) n \<longleftrightarrow> 1 \<le> n \<and> n < 8 \<and> bit b (n - 1)"
    by (simp only: bit_push_bit_iff possible_bit_word) simp
  then show ?thesis
    by (auto simp: shift_in_def Let_def bit_or_iff bit_1_iff simp del: push_bit_Suc)
qed

lemma shift_in_byte: "foldl shift_in 0 (byte_bits b) = b"
proof (rule bit_word_eqI)
  fix n
  assume "n < LENGTH(8)"
  then have "n \<in> {0, 1, 2, 3, 4, 5, 6, 7}" by auto
  then show "bit (foldl shift_in 0 (byte_bits b)) n = bit b n"
    by (auto simp: byte_bits_def bit_shift_in)
qed

lemma take_drop_concat_bits:
  "q < length xs \<Longrightarrow> take 8 (drop (8 * q) (concat (map byte_bits xs))) = byte_bits (xs ! q)"
proof (induction xs arbitrary: q)
  case Nil
  then show ?case by simp
next
  case (Cons x xs)
  then show ?case by (cases q) simp_all
qed

lemma data_after_bytes:
  assumes "length xs = 5"
  shows "data_after (concat (map byte_bits xs)) = xs @ [0]"
proof (rule nth_equalityI)
  fix q
  assume "q < length (data_after (concat (map byte_bits xs)))"
  then have "q < 6" by simp
  moreover have "length (concat (map byte_bits xs)) = 40"
    using assms by (simp add: length_concat comp_def sum_list_triv)
  ultimately show "data_after (concat (map byte_bits xs)) ! q = (xs @ [0]) ! q"
    using take_drop_concat_bits [of q xs] assms
    by (cases "q = 5") (auto simp: data_after_def shift_in_byte nth_append)
qed (use assms in simp)

section \<open>Counting samples\<close>

lemma count_same_run:
  assumes "\<And>k. k < n \<Longrightarrow> level (pos + k) = l" "level (pos + n) \<noteq> l" "unat c + n < 255"
  shows "count_same level l pos c = (c + of_nat n, pos + n + 1)"
  using assms
proof (induction n arbitrary: pos c)
  case 0
  then show ?case by (subst count_same.simps) simp
next
  case (Suc n)
  have c1: "unat (c + 1) = unat c + 1"
    using Suc.prems(3) by (subst unat_add_no_wrap) simp_all
  then have "c + 1 \<noteq> 255" using Suc.prems(3) by (auto simp: word_unat_eq_iff)
  moreover have "level pos = l" using Suc.prems(1) [of 0] by simp
  moreover have "count_same level l (pos + 1) (c + 1) = (c + 1 + of_nat n, pos + 1 + n + 1)"
    by (rule Suc.IH) (use Suc.prems(1) [of "Suc _"] Suc.prems(2,3) c1 in simp_all)
  ultimately show ?case by (subst count_same.simps) (simp add: algebra_simps)
qed

lemma count_same_idle:
  assumes "\<And>k. k < n \<Longrightarrow> level (pos + k) = l" "unat c + n = 255" "0 < n"
  shows "count_same level l pos c = (255, pos + n)"
  using assms
proof (induction n arbitrary: pos c)
  case 0
  then show ?case by simp
next
  case (Suc n)
  have c1: "unat (c + 1) = unat c + 1"
    using Suc.prems(2) by (subst unat_add_no_wrap) simp_all
  have l: "level pos = l" using Suc.prems(1) [of 0] by simp
  show ?case
  proof (cases "n = 0")
    case True
    then have "c + 1 = 255" using c1 Suc.prems(2) by (simp add: word_unat_eq_iff)
    with l True show ?thesis by (subst count_same.simps) simp
  next
    case False
    then have "c + 1 \<noteq> 255" using c1 Suc.prems(2) by (auto simp: word_unat_eq_iff)
    moreover have "count_same level l (pos + 1) (c + 1) = (255, pos + 1 + n)"
      by (rule Suc.IH) (use Suc.prems(1) [of "Suc _"] Suc.prems(2) c1 False in simp_all)
    ultimately show ?thesis using l by (subst count_same.simps) simp
  qed
qed

section \<open>Pulse trains\<close>

text \<open>Runs of alternating levels, after which the line stays for at least 257 samples.\<close>

fun train :: "nat list \<Rightarrow> bool \<Rightarrow> bool list" where
  "train [] l = replicate 257 l"
| "train (n # ns) l = replicate n l @ train ns (\<not> l)"

definition carries :: "(nat \<Rightarrow> bool) \<Rightarrow> nat \<Rightarrow> bool list \<Rightarrow> bool" where
  "carries level pos xs \<longleftrightarrow> (\<forall>k < length xs. level (pos + k) = xs ! k)"

lemma carries_append:
  "carries level pos (xs @ ys) \<longleftrightarrow> carries level pos xs \<and> carries level (pos + length xs) ys"
proof
  assume a: "carries level pos (xs @ ys)"
  show "carries level pos xs \<and> carries level (pos + length xs) ys"
    unfolding carries_def
  proof (intro conjI allI impI)
    fix k assume "k < length xs"
    then show "level (pos + k) = xs ! k" using a by (auto simp: carries_def nth_append dest: spec [of _ k])
  next
    fix k assume "k < length ys"
    then show "level (pos + length xs + k) = ys ! k"
      using a by (auto simp: carries_def nth_append add.assoc dest: spec [of _ "length xs + k"])
  qed
next
  assume a: "carries level pos xs \<and> carries level (pos + length xs) ys"
  show "carries level pos (xs @ ys)"
    unfolding carries_def
  proof (intro allI impI)
    fix k assume k: "k < length (xs @ ys)"
    show "level (pos + k) = (xs @ ys) ! k"
    proof (cases "k < length xs")
      case True
      with a show ?thesis by (simp add: carries_def nth_append)
    next
      case False
      with k a show ?thesis
        by (auto simp: carries_def nth_append dest: spec [of _ "k - length xs"])
    qed
  qed
qed

lemma carries_replicate: "carries level pos (replicate n l) \<longleftrightarrow> (\<forall>k < n. level (pos + k) = l)"
  by (simp add: carries_def)

lemma replicate_two: "2 \<le> n \<Longrightarrow> replicate n x = [x, x] @ replicate (n - 2) x"
  by (cases n; cases "n - 1") auto

fun train_bits :: "u8 \<Rightarrow> nat \<Rightarrow> nat list \<Rightarrow> bool list" where
  "train_bits step i [] = []"
| "train_bits step i (c # cs) =
     (if 4 \<le> i \<and> i mod 2 = 0 then [unat step < c] else []) @ train_bits step (Suc i) cs"

text \<open>One pass of the outer loop over a run that still has \<open>c\<close> samples.\<close>

lemma timing_step:
  assumes "carries level pos (replicate c l @ [\<not> l, \<not> l])" "c < 255" "length bs < 48"
    and "bs' = bs @ (if 4 \<le> i \<and> i mod 2 = 0 then [unat step < c] else [])"
  shows "\<exists>evs'. timing_loop level step (i # is) (l, pos, of_nat (length bs), data_after bs, evs) =
    timing_loop level step is (\<not> l, pos + c + 2, of_nat (length bs'), data_after bs', evs')"
proof -
  have run: "\<And>k. k < c \<Longrightarrow> level (pos + k) = l" and two: "level (pos + c) = (\<not> l)" "level (pos + c + 1) = (\<not> l)"
    using assms(1) unfolding carries_append carries_replicate by (auto simp: carries_def nth_Cons' less_Suc_eq)
  have cnt: "count_same level l pos 0 = (of_nat c, pos + c + 1)"
    using count_same_run [of c level pos l 0] run two assms(2) by simp
  have u: "unat (of_nat c :: u8) = c" "unat (of_nat (length bs) :: u8) = length bs"
    using assms(2,3) by (auto intro!: unat_of_nat_small)
  then have ne: "of_nat c \<noteq> (255 :: u8)" using assms(2) by (auto simp: word_unat_eq_iff)
  have d: "unat (of_nat (length bs) div 8 :: u8) = length bs div 8"
    using u(2) by (simp add: unat_div)
  have lt: "length bs div 8 < 6" using assms(3) by simp
  have gt: "step < of_nat c \<longleftrightarrow> unat step < c" using u(1) by (simp add: word_less_nat_alt)
  show ?thesis
    using cnt ne two d lt gt data_after_snoc [OF assms(3)]
    by (auto simp: assms(4) Let_def add.assoc)
qed

lemma timing_train:
  assumes "carries level pos (train (c # ns) l)" "c < 255" "\<forall>n \<in> set ns. 2 \<le> n \<and> n \<le> 256"
    and "i + length ns = 83" "bs = [] \<or> 2 * length bs + 3 \<le> i"
  shows "\<exists>last_state pos' evs'.
    timing_loop level step [i..<85] (l, pos, of_nat (length bs), data_after bs, evs) =
      Inr (last_state, pos', of_nat (length (bs @ train_bits step i (c # map (\<lambda>n. n - 2) ns))),
        data_after (bs @ train_bits step i (c # map (\<lambda>n. n - 2) ns)), evs')"
  using assms
proof (induction ns arbitrary: c l pos i bs evs)
  case Nil
  then have i: "[i..<85] = [83, 84]" "i = 83" by (simp_all add: upt_conv_Cons)
  have "carries level pos ((replicate c l @ [\<not> l, \<not> l]) @ replicate 255 (\<not> l))"
    using Nil.prems(1) replicate_two [of 257 "\<not> l"] by simp
  then have c: "carries level pos (replicate c l @ [\<not> l, \<not> l])"
    and c2: "carries level (pos + length (replicate c l @ [\<not> l, \<not> l])) (replicate 255 (\<not> l))"
    by (simp_all only: carries_append [of level pos "replicate c l @ [\<not> l, \<not> l]" "replicate 255 (\<not> l)"])
  have idle: "level (pos + c + 2 + k) = (\<not> l)" if "k < 255" for k
    using c2 that unfolding carries_replicate by (auto simp: add.assoc dest!: spec [of _ k])
  obtain evs' where "timing_loop level step [83, 84] (l, pos, of_nat (length bs), data_after bs, evs) =
    timing_loop level step [84] (\<not> l, pos + c + 2, of_nat (length bs), data_after bs, evs')"
    using timing_step [OF c Nil.prems(2) _ refl, of bs step 83 "[84]" evs] Nil.prems(5) i(2) by auto
  moreover have "count_same level (\<not> l) (pos + c + 2) 0 = (255, pos + c + 2 + 255)"
    by (rule count_same_idle) (use idle in simp_all)
  ultimately show ?case unfolding i by simp
next
  case (Cons n ns)
  let ?b = "if 4 \<le> i \<and> i mod 2 = 0 then [unat step < c] else []"
  have i: "[i..<85] = i # [Suc i..<85]" using Cons.prems(4) by (simp add: upt_conv_Cons)
  have n: "2 \<le> n" "n \<le> 256" using Cons.prems(3) by simp_all
  have "carries level pos ((replicate c l @ [\<not> l, \<not> l]) @ train ((n - 2) # ns) (\<not> l))"
    using Cons.prems(1) replicate_two [OF n(1), of "\<not> l"] by simp
  then have c: "carries level pos (replicate c l @ [\<not> l, \<not> l])" "carries level (pos + c + 2) (train ((n - 2) # ns) (\<not> l))"
    using carries_append [of level pos "replicate c l @ [\<not> l, \<not> l]" "train ((n - 2) # ns) (\<not> l)"]
    by (simp_all only: length_append length_replicate) (simp_all add: add.assoc)
  have "length bs < 48" using Cons.prems(4,5) by auto
  then obtain evs' where s: "timing_loop level step (i # [Suc i..<85]) (l, pos, of_nat (length bs), data_after bs, evs) =
    timing_loop level step [Suc i..<85] (\<not> l, pos + c + 2, of_nat (length (bs @ ?b)), data_after (bs @ ?b), evs')"
    using timing_step [OF c(1) Cons.prems(2) _ refl, of bs step i "[Suc i..<85]" evs] by blast
  have "bs @ ?b = [] \<or> 2 * length (bs @ ?b) + 3 \<le> Suc i"
    using Cons.prems(5) by auto presburger
  then have "\<exists>last_state pos' evs''.
    timing_loop level step [Suc i..<85] (\<not> l, pos + c + 2, of_nat (length (bs @ ?b)), data_after (bs @ ?b), evs') =
      Inr (last_state, pos', of_nat (length ((bs @ ?b) @ train_bits step (Suc i) ((n - 2) # map (\<lambda>n. n - 2) ns))),
        data_after ((bs @ ?b) @ train_bits step (Suc i) ((n - 2) # map (\<lambda>n. n - 2) ns)), evs'')"
    by (intro Cons.IH c(2)) (use n Cons.prems in auto)
  then show ?case unfolding i s by simp
qed

section \<open>The loop stays inside the data\<close>

text \<open>At most 41 bits are stored: 85 transitions, every second one from the fifth on.\<close>

lemma timing_loop_safe:
  assumes "length data = 6" "unat j = 0 \<or> 2 * unat j + 3 \<le> i" "i \<le> 85"
  shows "\<exists>last_state pos' j' data' evs'. timing_loop level step [i..<85] (last_state0, pos, j, data, evs) =
    Inr (last_state, pos', j', data', evs') \<and> length data' = 6"
  using assms
proof (induction "85 - i" arbitrary: i last_state0 pos j data evs)
  case 0
  then show ?case by simp
next
  case (Suc n)
  then have i: "[i..<85] = i # [Suc i..<85]" by (simp add: upt_conv_Cons)
  obtain counter p where c: "count_same level last_state0 pos 0 = (counter, p)" by fastforce
  have n: "n = 85 - Suc i" "Suc i \<le> 85" using Suc.hyps(2) by simp_all
  show ?case
  proof (cases "counter \<noteq> 255 \<and> 4 \<le> i \<and> i mod 2 = 0")
    case True
    have j40: "unat j \<le> 40" using Suc.prems(2) Suc.hyps(2) by auto
    then have j1: "unat (j + 1) = unat j + 1" by (subst unat_add_no_wrap) simp_all
    have "unat (j div 8) < 6" using j40 by (simp add: unat_div)
    moreover have "2 * unat (j + 1) + 3 \<le> Suc i" using Suc.prems(2) True j1 by auto presburger
    ultimately show ?thesis
      unfolding i using c True Suc.prems(1) Suc.hyps(1) [OF n(1) _ _ n(2)] by (simp add: Let_def)
  next
    case False
    have "unat j = 0 \<or> 2 * unat j + 3 \<le> Suc i" using Suc.prems(2) by auto
    then show ?thesis
      unfolding i using c False Suc.prems(1) Suc.hyps(1) [OF n(1) Suc.prems(1) _ n(2)] by (auto simp: Let_def)
  qed
qed

section \<open>The invariant of the module\<close>

definition sensor_ok :: "dht_userdata \<Rightarrow> bool" where
  "sensor_ok pd \<longleftrightarrow> length (m_Data pd) = 6 \<and> unat (m_Pin pd) < length pin_num \<and>
     m_Type pd \<in> {DHT11, DHT22, DHT21}"

definition dht_inv :: "dht_world \<Rightarrow> bool" where
  "dht_inv w \<longleftrightarrow> (\<forall>a pd. sensors w a = Some pd \<longrightarrow> sensor_ok pd)"

lemma dht_inv_fields [simp]:
  "dht_inv (w\<lparr>pin_log := x\<rparr>) = dht_inv w" "dht_inv (w\<lparr>samples_taken := y\<rparr>) = dht_inv w"
  "dht_inv (w\<lparr>clock_reads := y\<rparr>) = dht_inv w" "dht_inv (w\<lparr>next_sensor := y\<rparr>) = dht_inv w"
  by (simp_all add: dht_inv_def)

lemma keeps_log_pins [keeps_intro]: "keeps dht_inv (log_pins evs)"
  unfolding log_pins_def by (intro keeps_mupd) simp

lemma keeps_put_sensor [keeps_intro]: "sensor_ok pd \<Longrightarrow> keeps dht_inv (put_sensor a pd)"
  unfolding put_sensor_def by (intro keeps_mupd) (auto simp: dht_inv_def)

text \<open>With a live sensor object, what follows its lookup may rely on its being well formed.\<close>

definition live :: "nat \<Rightarrow> dht_world \<Rightarrow> bool" where
  "live a w \<longleftrightarrow> dht_inv w \<and> sensors w a \<noteq> None"

lemma live_fields [simp]:
  "live a (w\<lparr>pin_log := x\<rparr>) = live a w" "live a (w\<lparr>samples_taken := y\<rparr>) = live a w"
  "live a (w\<lparr>clock_reads := y\<rparr>) = live a w"
  by (simp_all add: live_def)

lemma keeps_get_sensor:
  assumes "\<And>pd. sensor_ok pd \<Longrightarrow> keeps (live a) (f pd)"
  shows "keeps (live a) (mbind (get_sensor a) f)"
proof (rule keepsI)
  fix w
  assume w: "live a w"
  then obtain pd where pd: "sensors w a = Some pd" "sensor_ok pd" by (auto simp: live_def dht_inv_def)
  then have "mbind (get_sensor a) f w = f pd w" by (simp add: get_sensor_def)
  with keepsD [OF assms [OF pd(2)] w] show "clean (fst (mbind (get_sensor a) f w)) \<and> live a (snd (mbind (get_sensor a) f w))"
    by simp
qed

lemma live_log_pins [keeps_intro]: "keeps (live a) (log_pins evs)"
  unfolding log_pins_def by (intro keeps_mupd) simp

lemma live_put_sensor [keeps_intro]: "sensor_ok pd \<Longrightarrow> keeps (live a) (put_sensor a pd)"
  unfolding put_sensor_def by (intro keeps_mupd) (auto simp: live_def dht_inv_def)

lemma checksum_clean: "length data = 6 \<Longrightarrow> clean (checksum_ok data)"
  by (simp add: checksum_ok_def)

lemma timing_clean:
  assumes "length data = 6"
  shows "clean (timing_loop level step [0..<MAXTIMINGS] (True, n, 0, data, []))"
    and "timing_loop level step [0..<MAXTIMINGS] (True, n, 0, data, []) = Inr (l, p, j, data', evs) \<Longrightarrow> length data' = 6"
  using timing_loop_safe [OF assms, of 0 0 level step True n "[]"] by (auto simp: MAXTIMINGS_def)

lemma take_frame_keeps:
  assumes "sensor_ok pd"
  shows "keeps (live a) (take_frame env a pd)"
  unfolding take_frame_def
proof (intro keeps_mlift_mbind keeps_mbind keeps_mget live_log_pins, goal_cases)
  case 1
  then show ?case using assms by (simp add: sensor_ok_def)
next
  case (2 _ _ n)
  then show ?case using assms by (simp add: sensor_ok_def timing_clean)
next
  case (3 _ _ n x)
  obtain l p j data evs where x: "x = (l, p, j, data, evs)" by (cases x)
  with 3 assms have d: "length data = 6" using timing_clean(2) by (auto simp: sensor_ok_def)
  have "sensor_ok (pd\<lparr>m_Data := data\<rparr>)" using assms d by (simp add: sensor_ok_def)
  then show ?case
    unfolding x split_conv
    by (intro keeps_mlift_mbind keeps_mbind keeps_mupd live_log_pins live_put_sensor keeps_mret checksum_clean d) simp
qed

lemma read_keeps: "keeps (live a) (read env a)"
  unfolding read_def Let_def
  by (intro keeps_get_sensor keeps_mbind keeps_if keeps_mret keeps_mget keeps_mupd live_put_sensor take_frame_keeps)
    (simp_all add: sensor_ok_def)

lemma sensor_data_clean:
  "sensor_ok pd \<Longrightarrow> i < 6 \<Longrightarrow> clean (arr_get (m_Data pd) i)"
  by (simp add: sensor_ok_def)

lemma read_temperature_keeps: "keeps (live a) (read_temperature env a)"
  unfolding read_temperature_def Let_def
  by (intro keeps_get_sensor keeps_mlift_mbind keeps_mbind [OF read_keeps] keeps_if keeps_mret sensor_data_clean)
    simp_all

lemma read_humidity_keeps: "keeps (live a) (read_humidity env a)"
  unfolding read_humidity_def Let_def
  by (intro keeps_get_sensor keeps_mlift_mbind keeps_mbind [OF read_keeps] keeps_if keeps_mret sensor_data_clean)
    simp_all

datatype dht_call = DhtSetup "lua_value list" | DhtRead dht_env "lua_value list"

fun dht_handle :: "lua_conv \<Rightarrow> dht_call \<Rightarrow> lua_value list dht_handler" where
  "dht_handle cv (DhtSetup args) = mbind (dht_setup cv args) (\<lambda>a. mret [LUserdata ''dht.dht'' a])"
| "dht_handle cv (DhtRead env args) = dht_read env args"

fun dht_call_ok :: "lua_conv \<Rightarrow> dht_world \<Rightarrow> dht_call \<Rightarrow> bool" where
  "dht_call_ok cv w (DhtSetup args) =
     (clean (luaL_checkinteger cv (index2adr args 1)) \<and> clean (luaL_checkinteger cv (index2adr args 2)) \<and>
      clean (lua_tointeger cv (index2adr args 3)))"
| "dht_call_ok cv w (DhtRead env args) =
     (\<forall>a. index2adr args 1 = LUserdata ''dht.dht'' a \<longrightarrow> sensors w a \<noteq> None)"

lemma ucast_type:
  "(ucast (ucast DHT11 :: u32) :: u8) = DHT11" "(ucast (ucast DHT22 :: u32) :: u8) = DHT22"
  "(ucast (ucast DHT21 :: u32) :: u8) = DHT21"
  by (simp_all add: DHT11_def DHT22_def DHT21_def)

lemma new_sensor_ok:
  assumes "platform_gpio_exists pin" "type \<in> {ucast DHT11, ucast DHT22, ucast DHT21 :: u32}"
  shows "sensor_ok \<lparr>m_Data = replicate 6 0, m_Pin = ucast pin, m_Type = ucast type,
       m_Count = c, m_FirstReading = True, m_LastReadTime = 0\<rparr>"
proof -
  have "unat pin < 13" using assms(1) by (simp add: platform_gpio_exists_def NUM_GPIO_def word_less_nat_alt)
  then have "unat (ucast pin :: u8) < length pin_num" by (simp add: unat_ucast_mod pin_num_def)
  with assms(2) ucast_type show ?thesis by (auto simp: sensor_ok_def)
qed

lemma dht_setup_keeps:
  assumes "clean (luaL_checkinteger cv (index2adr args 1))" "clean (luaL_checkinteger cv (index2adr args 2))"
    "clean (lua_tointeger cv (index2adr args 3))"
  shows "keeps dht_inv (dht_setup cv args)"
  unfolding dht_setup_def Let_def split_def
  by (intro keeps_mlift_mbind keeps_mbind keeps_if keeps_mret keeps_mget keeps_mupd keeps_mlift keeps_log_pins
      keeps_put_sensor keeps_mfail assms new_sensor_ok) auto

lemma dht_read_keeps:
  assumes "dht_inv w" "\<forall>a. index2adr args 1 = LUserdata ''dht.dht'' a \<longrightarrow> sensors w a \<noteq> None"
  shows "clean (fst (dht_read env args w)) \<and> dht_inv (snd (dht_read env args w))"
proof (cases "luaL_checkudata (index2adr args 1) ''dht.dht''")
  case (Inl e)
  then have "\<exists>t. e = LuaError t" by (auto simp: luaL_checkudata_def split: lua_value.splits if_splits)
  with Inl assms(1) show ?thesis by (auto simp: dht_read_def)
next
  case (Inr a)
  then have live: "live a w" using assms by (simp add: live_def)
  have "keeps (live a) (mbind (read_temperature env a) (\<lambda>t. case t of None \<Rightarrow> mret [] | Some t \<Rightarrow>
      mbind (read_humidity env a) (\<lambda>h. case h of None \<Rightarrow> mret [] | Some h \<Rightarrow> mret [LNumber t, LNumber h])))"
    by (intro keeps_mbind read_temperature_keeps) (auto split: option.split intro!: keeps_mbind keeps_mret read_humidity_keeps)
  from keepsD [OF this live] Inr show ?thesis
    by (simp add: dht_read_def live_def del: luaL_checkudata_Inr)
qed

interpretation dht: handled "dht_handle cv" dht_inv "dht_call_ok cv"
proof (unfold_locales, goal_cases)
  case (1 w e)
  show ?case
  proof (cases e)
    case (DhtSetup args)
    then have "keeps dht_inv (dht_handle cv e)"
      using 1(2) dht_setup_keeps by (auto intro!: keeps_mbind keeps_mret)
    from keepsD [OF this 1(1)] show ?thesis .
  next
    case (DhtRead env args)
    with 1 dht_read_keeps show ?thesis by simp
  qed
qed

section \<open>Decoding a frame\<close>

text \<open>
  The transmission of a list of bits: the idle line and the three runs of the answer, then for
  every bit a high pulse and a low gap, given as pairs of lengths.
\<close>

definition frame_runs :: "nat \<Rightarrow> nat \<Rightarrow> nat \<Rightarrow> nat \<Rightarrow> (nat \<times> nat) list \<Rightarrow> nat list" where
  "frame_runs n0 n1 n2 n3 hg = n0 # n1 # n2 # n3 # concat (map (\<lambda>(h, g). [h, g]) hg)"

definition pulse_range :: "nat \<Rightarrow> bool" where
  "pulse_range n \<longleftrightarrow> 2 \<le> n \<and> n \<le> 256"

definition sends :: "u8 \<Rightarrow> (nat \<times> nat) list \<Rightarrow> bytes \<Rightarrow> bool" where
  "sends step hg xs \<longleftrightarrow> map (\<lambda>(h, g). unat step < h - 2) hg = concat (map byte_bits xs) \<and>
     (\<forall>(h, g) \<in> set hg. pulse_range h \<and> pulse_range g)"

lemma train_bits_pulses:
  assumes "4 \<le> i" "i mod 2 = 0"
  shows "train_bits step i (map (\<lambda>n. n - 2) (concat (map (\<lambda>(h, g). [h, g]) hg))) =
    map (\<lambda>(h, g). unat step < h - 2) hg"
  using assms
proof (induction hg arbitrary: i)
  case Nil
  then show ?case by simp
next
  case (Cons p hg)
  have "train_bits step (Suc (Suc i)) (map (\<lambda>n. n - 2) (concat (map (\<lambda>(h, g). [h, g]) hg))) =
      map (\<lambda>(h, g). unat step < h - 2) hg"
    by (rule Cons.IH) (use Cons.prems in \<open>simp_all add: mod_Suc\<close>)
  moreover have "Suc i mod 2 \<noteq> 0" using Cons.prems by presburger
  ultimately show ?case using Cons.prems by (cases p) simp
qed

lemma timing_frame:
  assumes "carries level pos (train (frame_runs n0 n1 n2 n3 hg) True)" "n0 < 255"
    "pulse_range n1" "pulse_range n2" "pulse_range n3" "sends step hg xs" "length xs = 5"
  shows "\<exists>l p evs. timing_loop level step [0..<85] (True, pos, 0, replicate 6 0, []) = Inr (l, p, 40, xs @ [0], evs)"
proof -
  let ?bits = "concat (map byte_bits xs)"
  let ?ns = "n1 # n2 # n3 # concat (map (\<lambda>(h, g). [h, g]) hg)"
  have l40: "length ?bits = 40" using assms(7) by (simp add: length_concat comp_def sum_list_triv)
  have hg: "map (\<lambda>(h, g). unat step < h - 2) hg = ?bits" using assms(6) by (simp add: sends_def)
  then have "length hg = 40" using l40 by (metis length_map)
  then have len: "0 + length ?ns = 83" by (simp add: length_concat comp_def split_def sum_list_triv)
  have rng: "\<forall>n \<in> set ?ns. 2 \<le> n \<and> n \<le> 256"
    using assms(3-6) by (auto simp: sends_def pulse_range_def)
  have "train_bits step 0 (n0 # map (\<lambda>n. n - 2) ?ns) = ?bits"
  proof -
    have four: "(4 :: nat) = Suc (Suc (Suc (Suc 0)))" by simp
    show ?thesis using hg train_bits_pulses [of 4 step hg, unfolded hg, simplified, unfolded four] by simp
  qed
  then show ?thesis
    using timing_train [OF _ assms(2) rng len, of level pos True "[]" step "[]"] assms(1) l40
    by (simp add: frame_runs_def data_after_bytes [OF assms(7)] data_after_Nil)
qed

text \<open>
  A measurement is made at the first reading after set-up and from two seconds after the last one on, by a clock of 31
  bits whose wrap-around counts as an interval from zero.
\<close>

definition reading_due :: "dht_env \<Rightarrow> dht_world \<Rightarrow> dht_userdata \<Rightarrow> bool" where
  "reading_due env w pd \<longleftrightarrow>
     (let t = 0x7FFFFFFF AND clock env (clock_reads w) in
      m_FirstReading pd \<or> 2000000 \<le> t - (if t < m_LastReadTime pd then 0 else m_LastReadTime pd))"

text \<open>C26: Whenever a reading is due (the first after set-up, or at least two seconds after the last one) and the sensor
  answers the request with a pulse train for five bytes (long pulses for ones, short ones for zeros, relative to the
  configured threshold), \<open>read\<close> stores exactly these bytes and accepts them if and only if the fifth is the sum of
  the other four modulo 256, whatever the exact pulse lengths.\<close>

theorem dht_frame_decoded:
  assumes "dht_inv w" "sensors w a = Some pd" "reading_due env w pd"
    and "carries (sample env (phys (ucast (m_Pin pd)))) (samples_taken w) (train (frame_runs n0 n1 n2 n3 hg) True)"
    and "n0 < 255" "pulse_range n1" "pulse_range n2" "pulse_range n3"
    and "sends (m_Count pd) hg xs" "length xs = 5"
  shows "fst (read env a w) = Inr (xs ! 4 = xs ! 0 + xs ! 1 + xs ! 2 + xs ! 3) \<and>
    (\<exists>pd'. sensors (snd (read env a w)) a = Some pd' \<and> m_Data pd' = xs @ [0])"
proof -
  have ok: "sensor_ok pd" using assms(1,2) by (simp add: dht_inv_def)
  then have six: "length (m_Data pd) = 6" "unat (m_Pin pd) < length pin_num" by (simp_all add: sensor_ok_def)
  obtain l p evs where t: "timing_loop (sample env (phys (ucast (m_Pin pd)))) (m_Count pd) [0..<85]
      (True, samples_taken w, 0, replicate 6 0, []) = Inr (l, p, 40, xs @ [0], evs)"
    using timing_frame [OF assms(4-10)] by blast
  have c: "checksum_ok (xs @ [0]) = Inr (xs ! 4 = xs ! 0 + xs ! 1 + xs ! 2 + xs ! 3)"
    using assms(10) by (simp add: checksum_ok_def nth_append)
  let ?t = "0x7FFFFFFF AND clock env (clock_reads w)"
  have "m_FirstReading pd \<or> \<not> ?t - (if ?t < m_LastReadTime pd then 0 else m_LastReadTime pd) < 2000000"
    using assms(3) by (simp add: reading_due_def Let_def not_less)
  then show ?thesis
    using assms(2) six t c
    by (cases "?t < m_LastReadTime pd"; cases "m_FirstReading pd")
      (simp_all add: read_def get_sensor_def put_sensor_def take_frame_def log_pins_def Let_def MAXTIMINGS_def)
qed

text \<open>A measurement that failed is served as good data for the next two seconds: the time of the attempt is
  recorded before it is made, so a second call within the interval reports success and the bytes of the
  failed transmission.\<close>

theorem dht_failed_read_served:
  assumes "dht_inv w" "sensors w a = Some pd" "m_FirstReading pd" "fst (read env a w) = Inr False"
    and "0x7FFFFFFF AND clock env (clock_reads w) \<le> 0x7FFFFFFF AND clock env (Suc (clock_reads w))"
    and "(0x7FFFFFFF AND clock env (Suc (clock_reads w))) - (0x7FFFFFFF AND clock env (clock_reads w)) < 2000000"
  shows "fst (read env a (snd (read env a w))) = Inr True"
proof -
  have six: "length (m_Data pd) = 6" "unat (m_Pin pd) < length pin_num"
    using assms(1,2) by (simp_all add: dht_inv_def sensor_ok_def)
  let ?t = "0x7FFFFFFF AND clock env (clock_reads w)" and ?u = "0x7FFFFFFF AND clock env (Suc (clock_reads w))"
  have near: "\<not> ?u < ?t" "?u - ?t < 2000000" using assms(5,6) by simp_all
  obtain pd' where after: "sensors (snd (read env a w)) a = Some pd'" "\<not> m_FirstReading pd'" "m_LastReadTime pd' = ?t"
    "clock_reads (snd (read env a w)) = Suc (clock_reads w)"
  proof -
    obtain l p j data evs where t: "timing_loop (sample env (phys (ucast (m_Pin pd)))) (m_Count pd) [0..<MAXTIMINGS]
        (True, samples_taken w, 0, replicate 6 0, []) = Inr (l, p, j, data, evs)" "length data = 6"
      using timing_loop_safe [of "replicate 6 0" 0 0 "sample env (phys (ucast (m_Pin pd)))" "m_Count pd" True
          "samples_taken w" "[]"]
      by (auto simp: MAXTIMINGS_def)
    obtain ok where c: "checksum_ok data = Inr ok" using t(2) by (simp add: checksum_ok_def)
    show ?thesis
      by (rule that [of "pd\<lparr>m_FirstReading := False, m_LastReadTime := ?t, m_Data := data\<rparr>"]) (use assms(2,3) six t(1) c in
        \<open>simp_all add: read_def get_sensor_def put_sensor_def take_frame_def log_pins_def Let_def\<close>)
  qed
  from near after show ?thesis
    by (simp add: read_def [of env a] get_sensor_def put_sensor_def Let_def)
qed

text \<open>C27: Any sequence of set-up and read calls, whatever the sensor lines and the clock do, runs without anything
  undefined; in particular the loop over 85 transitions never leaves the six data bytes.\<close>

theorem dht_module_safe:
  assumes "dht_inv w" "admissible (dht_handle cv) (dht_call_ok cv) w (es @ e # es')"
  shows "clean (fst (dht_handle cv e (after (dht_handle cv) es w)))"
  using assms by (rule dht.runs_clean)

section \<open>Witnesses\<close>

definition demo_sensor :: dht_userdata where
  "demo_sensor = \<lparr>m_Data = replicate 6 0, m_Pin = 1, m_Type = DHT22, m_Count = 20, m_FirstReading = True, m_LastReadTime = 0\<rparr>"

text \<open>The same sensor one second after the start of the clock, having been read.\<close>

definition later_sensor :: dht_userdata where
  "later_sensor = demo_sensor\<lparr>m_Data := [9, 9, 9, 9, 36, 0], m_FirstReading := False, m_LastReadTime := 1000000\<rparr>"

definition demo_dht :: dht_world where
  "demo_dht = \<lparr>sensors = [0 \<mapsto> demo_sensor], next_sensor = 1, pin_log = [], samples_taken = 0, clock_reads = 0\<rparr>"

lemma demo_dht_ok: "dht_inv demo_dht" "sensors demo_dht 0 = Some demo_sensor"
  by (auto simp: dht_inv_def demo_dht_def demo_sensor_def sensor_ok_def pin_num_def split: if_splits)

definition later_dht :: dht_world where
  "later_dht = demo_dht\<lparr>sensors := [0 \<mapsto> later_sensor]\<rparr>"

lemma later_dht_ok: "dht_inv later_dht" "sensors later_dht 0 = Some later_sensor"
  by (auto simp: dht_inv_def later_dht_def later_sensor_def demo_dht_def demo_sensor_def sensor_ok_def pin_num_def split: if_splits)

definition demo_bytes :: bytes where
  "demo_bytes = [2, 15, 1, 4, 22]"

definition demo_pulses :: "(nat \<times> nat) list" where
  "demo_pulses = map (\<lambda>b. (if b then 70 else 22, 50)) (concat (map byte_bits demo_bytes))"

definition demo_env :: dht_env where
  "demo_env = \<lparr>sample = (\<lambda>p k. train (frame_runs 30 80 80 50 demo_pulses) True ! k), clock = (\<lambda>_. 3000000)\<rparr>"

lemma demo_sends: "sends 20 demo_pulses demo_bytes"
  by (auto simp: sends_def demo_pulses_def comp_def pulse_range_def)

theorem dht_frame_decoded_witness:
  "fst (read demo_env 0 later_dht) = Inr True \<and>
   (\<exists>pd'. sensors (snd (read demo_env 0 later_dht)) 0 = Some pd' \<and> m_Data pd' = [2, 15, 1, 4, 22, 0])"
proof -
  have "carries (sample demo_env (phys (ucast (m_Pin later_sensor)))) (samples_taken later_dht)
      (train (frame_runs 30 80 80 50 demo_pulses) True)"
    by (simp add: carries_def demo_env_def later_dht_def demo_dht_def)
  moreover have "reading_due demo_env later_dht later_sensor"
    by (simp add: reading_due_def demo_env_def later_sensor_def)
  ultimately show ?thesis
    using dht_frame_decoded [OF later_dht_ok, of demo_env 30 80 80 50 demo_pulses demo_bytes] demo_sends
    by (simp add: later_sensor_def demo_sensor_def pulse_range_def demo_bytes_def)
qed

text \<open>A line that is stuck high.\<close>

definition stuck_env :: dht_env where
  "stuck_env = \<lparr>sample = (\<lambda>p k. True), clock = (\<lambda>_. 5)\<rparr>"

theorem dht_failed_read_served_witness:
  "fst (read stuck_env 0 demo_dht) = Inr False \<and> fst (read stuck_env 0 (snd (read stuck_env 0 demo_dht))) = Inr True"
proof -
  have "count_same (\<lambda>k. True) True 0 0 = (255, 255)"
    using count_same_idle [of 255 "\<lambda>k. True" 0 True 0] by simp
  then have "timing_loop (\<lambda>k. True) 20 [0..<85] (True, 0, 0, replicate 6 0, []) =
      Inr (True, 256, 0, replicate 6 0, replicate 255 (DelayUs 1))"
    by (simp add: upt_conv_Cons Let_def)
  then have f: "fst (read stuck_env 0 demo_dht) = Inr False"
    by (simp add: read_def get_sensor_def put_sensor_def take_frame_def log_pins_def Let_def MAXTIMINGS_def
        stuck_env_def demo_dht_def demo_sensor_def pin_num_def checksum_ok_def)
  moreover have "fst (read stuck_env 0 (snd (read stuck_env 0 demo_dht))) = Inr True"
    by (rule dht_failed_read_served [OF demo_dht_ok _ f]) (simp_all add: demo_sensor_def stuck_env_def)
  ultimately show ?thesis ..
qed

definition demo_conv :: lua_conv where
  "demo_conv = \<lparr>str2d = (\<lambda>_. None), num2str = (\<lambda>_. [])\<rparr>"

theorem dht_module_safe_witness:
  "clean (fst (dht_handle demo_conv (DhtRead stuck_env [LUserdata ''dht.dht'' 0])
     (after (dht_handle demo_conv) [DhtSetup [LNil]] demo_dht)))"
  by (rule dht_module_safe [OF demo_dht_ok(1), where es' = "[]"])
    (simp add: lua_tointeger_def tonumber_def demo_dht_ok dht_setup_def index2adr_def)

end
