(* ===== verification/Flash.thy ===== *)
theory Flash
  imports Prelude
begin

text \<open>
  Access to the SPI flash (\<open>platform/common.c\<close>, \<open>platform/platform.c\<close>, \<open>platform/flash_api.c\<close>). The
  chip itself is reached through four SDK calls, the fields of \<open>flash_chip\<close>; they work on whole
  words and take pointers to words. \<open>platform_flash_write\<close> and \<open>platform_flash_read\<close> make byte-granular access out of
  them, which the interface \<open>byte_flash\<close> states and the interpretation at the end discharges. The
  configuration word at the start of the flash is read and set by the functions of
  \<open>flash_api.c\<close>.
\<close>

section \<open>The chip\<close>

record 'm flash_chip =
  spi_flash_read :: "u32 \<Rightarrow> u32 \<Rightarrow> 'm \<Rightarrow> bytes option"
  spi_flash_write :: "u32 \<Rightarrow> bytes \<Rightarrow> 'm \<Rightarrow> bool \<times> 'm"
  spi_flash_erase_sector :: "u32 \<Rightarrow> 'm \<Rightarrow> bool \<times> 'm"
  SPIEraseChip :: "'m \<Rightarrow> 'm"

text \<open>
  What else decides the outcome of a call: the address that the allocator returns, 0 for none, and the address and
  contents of the one-word buffer on the stack.
\<close>

record flash_env =
  c_malloc :: "u32 \<Rightarrow> u32"
  tmp_addr :: u32
  tmp_junk :: bytes

text \<open>
  The SDK calls take a \<open>uint32 *\<close>. The conversion of a byte pointer is undefined in C, and the access an exception of the
  processor, when the address is not that of a word. (The arrays in \<open>flash_api.c\<close> are declared with the alignment of a
  word.)
\<close>

definition word_pointer :: "u32 \<Rightarrow> unit result" where
  "word_pointer p = guard_or Misaligned (p AND 3 = 0)"

definition INTERNAL_FLASH_START_ADDRESS :: u32 where "INTERNAL_FLASH_START_ADDRESS = 0x40200000"
definition INTERNAL_FLASH_SECTOR_SIZE :: u32 where "INTERNAL_FLASH_SECTOR_SIZE = 4096"

definition platform_s_flash_write ::
  "'m flash_chip \<Rightarrow> flash_env \<Rightarrow> u32 \<Rightarrow> bytes \<Rightarrow> u32 \<Rightarrow> 'm \<Rightarrow> (u32 \<times> 'm) result" where
  "platform_s_flash_write chip env from_addr data toaddr m =
     (let toaddr = toaddr - INTERNAL_FLASH_START_ADDRESS; sz = of_nat (length data);
          apbuf = (if from_addr AND 3 \<noteq> 0 then c_malloc env sz else 0) in
      if from_addr AND 3 \<noteq> 0 \<and> apbuf = 0 then Inr (0, m)
      else
      rbind (word_pointer (if apbuf \<noteq> 0 then apbuf else from_addr)) (\<lambda>_.
      case spi_flash_write chip toaddr data m of (ok, m) \<Rightarrow> Inr (if ok then sz else 0, m)))"

definition platform_s_flash_read ::
  "'m flash_chip \<Rightarrow> u32 \<Rightarrow> u32 \<Rightarrow> u32 \<Rightarrow> 'm \<Rightarrow> (u32 \<times> bytes option) result" where
  "platform_s_flash_read chip to_addr fromaddr sz m =
     rbind (word_pointer to_addr) (\<lambda>_.
     case spi_flash_read chip (fromaddr - INTERNAL_FLASH_START_ADDRESS) sz m of
       Some d \<Rightarrow> Inr (sz, Some d) | None \<Rightarrow> Inr (0, None))"

definition platform_flash_erase_sector :: "'m flash_chip \<Rightarrow> u32 \<Rightarrow> 'm \<Rightarrow> bool \<times> 'm" where
  "platform_flash_erase_sector chip sector_id m = spi_flash_erase_sector chip sector_id m"

section \<open>Sectors\<close>

definition flashh_find_sector :: "u32 \<Rightarrow> u32 \<times> u32 \<times> u32" where
  "flashh_find_sector address =
     (let address = address - INTERNAL_FLASH_START_ADDRESS;
          sect_id = address div INTERNAL_FLASH_SECTOR_SIZE in
      (sect_id,
       sect_id * INTERNAL_FLASH_SECTOR_SIZE + INTERNAL_FLASH_START_ADDRESS,
       (sect_id + 1) * INTERNAL_FLASH_SECTOR_SIZE + INTERNAL_FLASH_START_ADDRESS - 1))"

definition platform_flash_get_sector_of_address :: "u32 \<Rightarrow> u32" where
  "platform_flash_get_sector_of_address addr = fst (flashh_find_sector addr)"

definition platform_flash_get_num_sectors :: "u32 \<Rightarrow> u32" where
  "platform_flash_get_num_sectors internal_flash_size = internal_flash_size div INTERNAL_FLASH_SECTOR_SIZE"

text \<open>The linker symbol \<open>_flash_used_end\<close> is an argument; the sector and the address are returned.\<close>

definition platform_flash_get_first_free_block_address :: "u32 \<Rightarrow> u32 \<times> u32" where
  "platform_flash_get_first_free_block_address flash_used_end =
     (if 0 < flash_used_end then
        (let (sect, start, stop) = flashh_find_sector (flash_used_end - 1) in (sect + 1, stop + 1))
      else
        (let (sect, start, stop) = flashh_find_sector INTERNAL_FLASH_START_ADDRESS in (sect, start)))"

section \<open>Byte-granular access\<close>

text \<open>
  The copy loops through the one-word buffer: at most \<open>k\<close> bytes from \<open>src\<close> to \<open>dst\<close>, stopping when
  \<open>sz\<close> is used up; the remaining size is returned with the destination.
\<close>

fun copy_unit :: "bytes \<Rightarrow> nat \<Rightarrow> bytes \<Rightarrow> nat \<Rightarrow> nat \<Rightarrow> u32 \<Rightarrow> (bytes \<times> u32) result" where
  "copy_unit src si dst di 0 sz = Inr (dst, sz)"
| "copy_unit src si dst di (Suc k) sz =
     (if sz = 0 then Inr (dst, sz)
      else rbind (arr_get src si) (\<lambda>b. rbind (arr_set dst di b) (\<lambda>dst.
           copy_unit src (Suc si) dst (Suc di) k (sz - 1))))"

definition arr_slice :: "bytes \<Rightarrow> nat \<Rightarrow> nat \<Rightarrow> bytes result" where
  "arr_slice src pos n = (if pos + n \<le> length src then Inr (take n (drop pos src)) else Inl (OutOfBounds (length src)))"

text \<open>\<open>tmpdata\<close> after a word was read into it; a failed read leaves what was there.\<close>

definition read_word :: "'m flash_chip \<Rightarrow> flash_env \<Rightarrow> bytes \<Rightarrow> u32 \<Rightarrow> 'm \<Rightarrow> bytes result" where
  "read_word chip env tmpdata addr m =
     rbind (platform_s_flash_read chip (tmp_addr env) addr 4 m) (\<lambda>(_, d).
     Inr (case d of Some d \<Rightarrow> d | None \<Rightarrow> tmpdata))"

text \<open>Writing from an address that is a multiple of the word size: the whole words, then the rest.\<close>

definition write_aligned ::
  "'m flash_chip \<Rightarrow> flash_env \<Rightarrow> bytes \<Rightarrow> bytes \<Rightarrow> u32 \<Rightarrow> nat \<Rightarrow> u32 \<Rightarrow> u32 \<Rightarrow> 'm \<Rightarrow> 'm result" where
  "write_aligned chip env tmpdata src from_addr pos toaddr sz m =
     (let rest = sz AND 3; temp = sz AND NOT 3 in
      rbind (if temp \<noteq> 0
             then rbind (arr_slice src pos (unat temp)) (\<lambda>data.
                  rbind (platform_s_flash_write chip env (from_addr + of_nat pos) data toaddr m) (\<lambda>(_, m).
                  Inr (toaddr + temp, pos + unat temp, m)))
             else Inr (toaddr, pos, m)) (\<lambda>(toaddr, pos, m).
      if rest \<noteq> 0
      then rbind (read_word chip env tmpdata toaddr m) (\<lambda>tmpdata.
           rbind (copy_unit src pos tmpdata 0 (unat rest) sz) (\<lambda>(tmpdata, sz).
           rbind (platform_s_flash_write chip env (tmp_addr env) tmpdata toaddr m) (\<lambda>(_, m).
           Inr m)))
      else Inr m))"

definition platform_flash_write ::
  "'m flash_chip \<Rightarrow> flash_env \<Rightarrow> bytes \<Rightarrow> u32 \<Rightarrow> u32 \<Rightarrow> u32 \<Rightarrow> 'm \<Rightarrow> (u32 \<times> 'm) result" where
  "platform_flash_write chip env src from_addr toaddr sz m =
     (let ssize = sz in
      if toaddr AND 3 \<noteq> 0 then
        let rest = toaddr AND 3; temp = toaddr AND NOT 3 in
        rbind (read_word chip env (tmp_junk env) temp m) (\<lambda>tmpdata.
        rbind (copy_unit src 0 tmpdata (unat rest) (4 - unat rest) sz) (\<lambda>(tmpdata, sz).
        rbind (platform_s_flash_write chip env (tmp_addr env) tmpdata temp m) (\<lambda>(_, m).
        if sz = 0 then Inr (ssize, m)
        else rbind (write_aligned chip env tmpdata src from_addr (unat (ssize - sz)) (temp + 4) sz m) (\<lambda>m.
             Inr (ssize, m)))))
      else rbind (write_aligned chip env (tmp_junk env) src from_addr 0 toaddr sz m) (\<lambda>m. Inr (ssize, m)))"

text \<open>\<open>to_addr\<close> is the address of the caller's buffer \<open>buf\<close>.\<close>

definition read_aligned ::
  "'m flash_chip \<Rightarrow> flash_env \<Rightarrow> bytes \<Rightarrow> u32 \<Rightarrow> bytes \<Rightarrow> nat \<Rightarrow> u32 \<Rightarrow> u32 \<Rightarrow> 'm \<Rightarrow> bytes result" where
  "read_aligned chip env tmpdata to_addr buf pos fromaddr sz m =
     (let rest = sz AND 3; temp = sz AND NOT 3 in
      rbind (if temp \<noteq> 0
             then rbind (platform_s_flash_read chip (to_addr + of_nat pos) fromaddr temp m) (\<lambda>(_, d).
                  rbind (case d of Some d \<Rightarrow> arr_copy buf pos d | None \<Rightarrow> Inr buf) (\<lambda>buf.
                  Inr (fromaddr + temp, pos + unat temp, buf)))
             else Inr (fromaddr, pos, buf)) (\<lambda>(fromaddr, pos, buf).
      if rest \<noteq> 0
      then rbind (read_word chip env tmpdata fromaddr m) (\<lambda>tmpdata.
           rbind (copy_unit tmpdata 0 buf pos (unat rest) sz) (\<lambda>(buf, sz). Inr buf))
      else Inr buf))"

definition platform_flash_read ::
  "'m flash_chip \<Rightarrow> flash_env \<Rightarrow> u32 \<Rightarrow> bytes \<Rightarrow> u32 \<Rightarrow> u32 \<Rightarrow> 'm \<Rightarrow> (u32 \<times> bytes) result" where
  "platform_flash_read chip env to_addr buf fromaddr sz m =
     (let ssize = sz in
      if fromaddr AND 3 \<noteq> 0 then
        let rest = fromaddr AND 3; temp = fromaddr AND NOT 3 in
        rbind (read_word chip env (tmp_junk env) temp m) (\<lambda>tmpdata.
        rbind (copy_unit tmpdata (unat rest) buf 0 (4 - unat rest) sz) (\<lambda>(buf, sz).
        if sz = 0 then Inr (ssize, buf)
        else rbind (read_aligned chip env tmpdata to_addr buf (unat (ssize - sz)) (temp + 4) sz m) (\<lambda>buf. Inr (ssize, buf))))
      else rbind (read_aligned chip env (tmp_junk env) to_addr buf 0 fromaddr sz m) (\<lambda>buf. Inr (ssize, buf)))"

section \<open>Configuration of the chip\<close>

text \<open>
  The fourth byte of the flash holds the speed in its lower and the size in its upper four bits
  (\<open>SPIFlashInfo\<close>). It is read through the memory map, given as the function \<open>mapped\<close>.
\<close>

record SPIFlashInfo =
  i_unknown0 :: u8
  i_unknown1 :: u8
  i_mode :: u8
  i_speed :: u8
  i_size :: u8

definition flash_get_info :: "('m \<Rightarrow> nat \<Rightarrow> u8) \<Rightarrow> 'm \<Rightarrow> SPIFlashInfo" where
  "flash_get_info mapped m =
     \<lparr>i_unknown0 = mapped m 0, i_unknown1 = mapped m 1, i_mode = mapped m 2,
      i_speed = mapped m 3 AND 0xF, i_size = drop_bit 4 (mapped m 3)\<rparr>"

definition flash_get_size :: "('m \<Rightarrow> nat \<Rightarrow> u8) \<Rightarrow> 'm \<Rightarrow> u8" where
  "flash_get_size mapped m = i_size (flash_get_info mapped m)"

definition SIZE_4MBIT :: u8 where "SIZE_4MBIT = 0"
definition SIZE_2MBIT :: u8 where "SIZE_2MBIT = 1"
definition SIZE_8MBIT :: u8 where "SIZE_8MBIT = 2"
definition SIZE_16MBIT :: u8 where "SIZE_16MBIT = 3"
definition SIZE_32MBIT :: u8 where "SIZE_32MBIT = 4"
definition SIZE_64MBIT :: u8 where "SIZE_64MBIT = 5"
definition SIZE_128MBIT :: u8 where "SIZE_128MBIT = 6"

text \<open>The cases of 32 and 64 Mbit have no \<open>break\<close>: the assignment of the 128 Mbit case wins.\<close>

definition flash_get_size_byte :: "('m \<Rightarrow> nat \<Rightarrow> u8) \<Rightarrow> 'm \<Rightarrow> u32" where
  "flash_get_size_byte mapped m =
     (let sz = i_size (flash_get_info mapped m) in
      if sz = SIZE_2MBIT then 256 * 1024
      else if sz = SIZE_4MBIT then 512 * 1024
      else if sz = SIZE_8MBIT then 1 * 1024 * 1024
      else if sz = SIZE_16MBIT then 2 * 1024 * 1024
      else if sz = SIZE_32MBIT \<or> sz = SIZE_64MBIT \<or> sz = SIZE_128MBIT then 16 * 1024 * 1024
      else 512 * 1024)"

text \<open>Results of the SDK calls are not looked at; a failed read leaves the local array as it was.\<close>

definition flash_set_size :: "'m flash_chip \<Rightarrow> bytes \<Rightarrow> u8 \<Rightarrow> 'm \<Rightarrow> 'm result" where
  "flash_set_size chip junk sz m =
     (let data = (case spi_flash_read chip 0 4096 m of Some d \<Rightarrow> d | None \<Rightarrow> junk) in
      rbind (arr_get data 3) (\<lambda>b.
      rbind (arr_set data 3 ((b AND 0xF) OR push_bit 4 (sz AND 0xF))) (\<lambda>data.
      let m = snd (spi_flash_erase_sector chip 0 m) in
      Inr (snd (spi_flash_write chip 0 data m)))))"

definition flash_size_code :: "u32 \<Rightarrow> u8 option" where
  "flash_size_code sz =
     (if sz = 256 * 1024 then Some SIZE_2MBIT
      else if sz = 512 * 1024 then Some SIZE_4MBIT
      else if sz = 1 * 1024 * 1024 then Some SIZE_8MBIT
      else if sz = 2 * 1024 * 1024 then Some SIZE_16MBIT
      else if sz = 4 * 1024 * 1024 then Some SIZE_32MBIT
      else None)"

definition flash_set_size_byte :: "'m flash_chip \<Rightarrow> bytes \<Rightarrow> u32 \<Rightarrow> 'm \<Rightarrow> (bool \<times> 'm) result" where
  "flash_set_size_byte chip junk sz m =
     (case flash_size_code sz of
        Some code \<Rightarrow> rbind (flash_set_size chip junk code m) (\<lambda>m. Inr (True, m))
      | None \<Rightarrow> Inr (False, m))"

definition flash_get_sec_num :: "('m \<Rightarrow> nat \<Rightarrow> u8) \<Rightarrow> 'm \<Rightarrow> u16" where
  "flash_get_sec_num mapped m = ucast (flash_get_size_byte mapped m div INTERNAL_FLASH_SECTOR_SIZE)"

definition flash_get_mode :: "('m \<Rightarrow> nat \<Rightarrow> u8) \<Rightarrow> 'm \<Rightarrow> u8" where
  "flash_get_mode mapped m = i_mode (flash_get_info mapped m)"

definition flash_get_speed :: "('m \<Rightarrow> nat \<Rightarrow> u8) \<Rightarrow> 'm \<Rightarrow> u32" where
  "flash_get_speed mapped m =
     (let speed = i_speed (flash_get_info mapped m) in
      if speed = 0 then 40000000 else if speed = 1 then 26700000
      else if speed = 2 then 20000000 else if speed = 15 then 80000000 else 0)"

text \<open>The system parameters live in the last four sectors.\<close>

definition param_sector :: "('m \<Rightarrow> nat \<Rightarrow> u8) \<Rightarrow> 'm \<Rightarrow> u32 \<Rightarrow> u32" where
  "param_sector mapped m k = ucast (flash_get_sec_num mapped m) - k"

definition flash_init_data_written :: "'m flash_chip \<Rightarrow> ('m \<Rightarrow> nat \<Rightarrow> u8) \<Rightarrow> 'm \<Rightarrow> bool" where
  "flash_init_data_written chip mapped m =
     (case spi_flash_read chip (param_sector mapped m 4 * INTERNAL_FLASH_SECTOR_SIZE) 8 m of
        Some d \<Rightarrow> d \<noteq> replicate 8 0xFF
      | None \<Rightarrow> True)"

definition flash_init_data :: bytes where
  "flash_init_data = [
    0x05, 0x00, 0x04, 0x02, 0x05, 0x05, 0x05, 0x02, 0x05, 0x00, 0x04, 0x05, 0x05, 0x04, 0x05, 0x05,
    0x04, 0xFE, 0xFD, 0xFF, 0xF0, 0xF0, 0xF0, 0xE0, 0xE0, 0xE0, 0xE1, 0x0A, 0xFF, 0xFF, 0xF8, 0x00,
    0xF8, 0xF8, 0x52, 0x4E, 0x4A, 0x44, 0x40, 0x38, 0x00, 0x00, 0x01, 0x01, 0x02, 0x03, 0x04, 0x05,
    0x01, 0x00, 0x00, 0x00, 0x00, 0x00, 0x02, 0x00, 0x00, 0x00, 0x00, 0x00, 0x00, 0x00, 0x00, 0x00,
    0xE1, 0x0A, 0x00, 0x00, 0x00, 0x00, 0x00, 0x00, 0x00, 0x00, 0x01, 0x93, 0x43, 0x00, 0x00, 0x00,
    0x00, 0x00, 0x00, 0x00, 0x00, 0x00, 0x00, 0x00, 0x00, 0x00, 0x00, 0x00, 0x00, 0x00, 0x00, 0x00,
    0x00, 0x00, 0x00, 0x00, 0x00, 0x00, 0x00, 0x00, 0x00, 0x00, 0x00, 0x00, 0x00, 0x00, 0x00, 0x00,
    0x00, 0x00, 0x00, 0x00, 0x00, 0x00, 0x00, 0x00, 0x00, 0x00, 0x00, 0x00, 0x00, 0x00, 0x00, 0x00]"

definition flash_init_data_default ::
  "'m flash_chip \<Rightarrow> ('m \<Rightarrow> nat \<Rightarrow> u8) \<Rightarrow> 'm \<Rightarrow> bool \<times> 'm" where
  "flash_init_data_default chip mapped m =
     (case spi_flash_erase_sector chip (param_sector mapped m 4) m of
        (ok, m') \<Rightarrow>
          if ok then spi_flash_write chip (param_sector mapped m' 4 * INTERNAL_FLASH_SECTOR_SIZE) flash_init_data m'
          else (False, m'))"

definition flash_init_data_blank :: "'m flash_chip \<Rightarrow> ('m \<Rightarrow> nat \<Rightarrow> u8) \<Rightarrow> 'm \<Rightarrow> bool \<times> 'm" where
  "flash_init_data_blank chip mapped m =
     (case spi_flash_erase_sector chip (param_sector mapped m 2) m of
        (ok, m') \<Rightarrow>
          if ok then spi_flash_erase_sector chip (param_sector mapped m' 1) m' else (False, m'))"

definition flash_self_destruct :: "'m flash_chip \<Rightarrow> 'm \<Rightarrow> bool \<times> 'm" where
  "flash_self_destruct chip m = (True, SPIEraseChip chip m)"

text \<open>A byte of constant data in flash, which can only be read as words.\<close>

definition byte_of_aligned_array :: "u32 \<Rightarrow> bytes \<Rightarrow> u32 \<Rightarrow> u8 result" where
  "byte_of_aligned_array addr aligned_array index =
     (if addr mod 4 \<noteq> 0 then Inr 0
      else rbind (arr_slice aligned_array (4 * unat (index div 4)) 4) (\<lambda>v. arr_get v (unat (index mod 4))))"

section \<open>What the SDK promises\<close>

text \<open>
  The documented behaviour of a NOR flash of \<open>n\<close> bytes, for pointers to words: whole words are read as they are,
  programming can only clear bits, erasing a sector sets all of its bits.
\<close>

definition programmed :: "(nat \<Rightarrow> u8) \<Rightarrow> nat \<Rightarrow> bytes \<Rightarrow> nat \<Rightarrow> u8" where
  "programmed f a d = (\<lambda>i. if a \<le> i \<and> i < a + length d then f i AND d ! (i - a) else f i)"

definition erased :: "(nat \<Rightarrow> u8) \<Rightarrow> nat \<Rightarrow> nat \<Rightarrow> u8" where
  "erased f s = (\<lambda>i. if i div 4096 = s then 0xFF else f i)"

definition nor_flash :: "'m flash_chip \<Rightarrow> ('m \<Rightarrow> nat \<Rightarrow> u8) \<Rightarrow> nat \<Rightarrow> bool" where
  "nor_flash chip content n \<longleftrightarrow>
     4096 dvd n \<and> n \<le> 2 ^ 24 \<and>
     (\<forall>m a k. 4 dvd a \<and> 4 dvd k \<and> a + k \<le> n \<longrightarrow>
        spi_flash_read chip (of_nat a) (of_nat k) m = Some (map (content m) [a..<a + k])) \<and>
     (\<forall>m a d. 4 dvd a \<and> 4 dvd length d \<and> a + length d \<le> n \<longrightarrow>
        fst (spi_flash_write chip (of_nat a) d m) \<and>
        content (snd (spi_flash_write chip (of_nat a) d m)) = programmed (content m) a d) \<and>
     (\<forall>m s. (s + 1) * 4096 \<le> n \<longrightarrow>
        fst (spi_flash_erase_sector chip (of_nat s) m) \<and>
        content (snd (spi_flash_erase_sector chip (of_nat s) m)) = erased (content m) s)"

section \<open>Facts about programming\<close>

lemma programmed_Nil [simp]: "programmed f a [] = f"
  by (rule ext) (auto simp: programmed_def)

lemma programmed_append:
  "programmed (programmed f a d) (a + length d) e = programmed f a (d @ e)"
  by (auto simp: programmed_def nth_append fun_eq_iff)

text \<open>Programming a word's own content changes nothing.\<close>

lemma programmed_pad:
  assumes "c = b + r + length d"
  shows "programmed f b (map f [b..<b + r] @ d @ map f [c..<c + s]) = programmed f (b + r) d"
  using assms by (auto simp: programmed_def nth_append fun_eq_iff algebra_simps)

lemma programmed_erased:
  assumes "\<And>i. a \<le> i \<Longrightarrow> i < a + length d \<Longrightarrow> f i = 0xFF" "i < length d"
  shows "programmed f a d (a + i) = d ! i"
proof -
  have "(0xFF :: u8) AND x = x" for x
    by (rule bit_word_eqI) (auto simp: bit_simps less_Suc_eq numeral_eq_Suc)
  with assms show ?thesis by (simp add: programmed_def)
qed

lemma copy_unit_eq:
  assumes "si + min k (unat sz) \<le> length src" "di + min k (unat sz) \<le> length dst"
  shows "copy_unit src si dst di k sz =
    Inr (take di dst @ take (min k (unat sz)) (drop si src) @ drop (di + min k (unat sz)) dst,
         sz - of_nat (min k (unat sz)))"
  using assms
proof (induction src si dst di k sz rule: copy_unit.induct)
  case (1 src si dst di sz)
  then show ?case by simp
next
  case (2 src si dst di k sz)
  show ?case
  proof (cases "sz = 0")
    case True
    then show ?thesis by simp
  next
    case False
    then have u: "unat sz = Suc (unat (sz - 1))"
      by (metis Suc_pred' unat_gt_0 unat_minus_one)
    let ?n = "min k (unat (sz - 1))"
    have si: "si < length src" "di < length dst" using 2(2,3) u by simp_all
    then have "copy_unit src (Suc si) (dst[di := src ! si]) (Suc di) k (sz - 1) =
      Inr (take (Suc di) (dst[di := src ! si]) @ take ?n (drop (Suc si) src) @
           drop (Suc di + ?n) (dst[di := src ! si]), sz - 1 - of_nat ?n)"
      using 2(1) [OF False, of "src ! si" "dst[di := src ! si]"] 2(2,3) u by simp
    moreover have "take (Suc di) (dst[di := src ! si]) = take di dst @ [src ! si]"
      using si by (simp add: take_Suc_conv_app_nth)
    moreover have "drop si src = src ! si # drop (Suc si) src"
      using si by (simp add: Cons_nth_drop_Suc)
    ultimately show ?thesis using False si u by simp
  qed
qed

lemma and_3: "unat ((x :: u32) AND 3) = unat x mod 4"
proof -
  have "x AND 3 = take_bit 2 x" by (simp only: take_bit_eq_mask mask_eq_exp_minus_1) simp
  then have "unat (x AND 3) = take_bit 2 (unat x)" by (simp only: unsigned_take_bit_eq)
  then show ?thesis by (simp add: take_bit_eq_mod)
qed

lemma and_not_split: "(x :: u32) AND NOT y = x - (x AND y)"
proof -
  have "(x AND NOT y) + (x AND y) = (x AND NOT y) OR (x AND y)"
    by (rule disjunctive_add_eq_or) (auto intro!: bit_word_eqI simp: bit_simps)
  also have "\<dots> = x" by (rule bit_word_eqI) (auto simp: bit_simps)
  finally show ?thesis by (simp add: algebra_simps)
qed

lemma and_not_3: "(x :: u32) AND - 4 = x - (x AND 3)"
  using and_not_split [of x 3] by simp

lemma unat_and_not_3: "unat ((x :: u32) AND - 4) = unat x - unat x mod 4"
proof -
  have "x AND 3 \<le> x" by (simp add: word_le_nat_alt and_3)
  then show ?thesis by (simp add: and_not_3 unat_sub_no_wrap and_3)
qed

section \<open>Addresses inside the chip\<close>

definition flash_addr :: "nat \<Rightarrow> u32" where
  "flash_addr a = INTERNAL_FLASH_START_ADDRESS + of_nat a"

lemma flash_addr_offset [simp]: "flash_addr a - INTERNAL_FLASH_START_ADDRESS = of_nat a"
  by (simp add: flash_addr_def)

lemma flash_addr_add: "flash_addr a + of_nat k = flash_addr (a + k)"
  by (simp add: flash_addr_def add.assoc)

lemma unat_flash_addr: "a \<le> 2 ^ 24 \<Longrightarrow> unat (flash_addr a) = 0x40200000 + a"
  unfolding flash_addr_def INTERNAL_FLASH_START_ADDRESS_def
  by (subst unat_add_no_wrap) (simp_all add: unat_of_nat_small)

lemma flash_addr_and_3:
  assumes "a \<le> 2 ^ 24"
  shows "unat (flash_addr a AND 3) = a mod 4"
proof -
  have "(0x40200000 + a) mod 4 = a mod 4" by presburger
  then show ?thesis using assms by (simp add: and_3 unat_flash_addr)
qed

lemma flash_addr_and_not_3:
  assumes "a \<le> 2 ^ 24"
  shows "flash_addr a AND - 4 = flash_addr (a - a mod 4)"
proof -
  have "flash_addr a AND 3 = of_nat (a mod 4)"
    using flash_addr_and_3 [OF assms] by (rule unat_eq_of_nat)
  then show ?thesis by (simp add: and_not_3 flash_addr_def of_nat_diff)
qed

section \<open>Whole words\<close>

lemma nor_flashD:
  assumes "nor_flash chip content n"
  shows "4 dvd n" "n \<le> 2 ^ 24"
    and "4 dvd a \<Longrightarrow> 4 dvd k \<Longrightarrow> a + k \<le> n \<Longrightarrow>
      spi_flash_read chip (of_nat a) (of_nat k) m = Some (map (content m) [a..<a + k])"
    and "4 dvd a \<Longrightarrow> 4 dvd length d \<Longrightarrow> a + length d \<le> n \<Longrightarrow>
      fst (spi_flash_write chip (of_nat a) d m) \<and>
      content (snd (spi_flash_write chip (of_nat a) d m)) = programmed (content m) a d"
    and "(s + 1) * 4096 \<le> n \<Longrightarrow>
      fst (spi_flash_erase_sector chip (of_nat s) m) \<and>
      content (snd (spi_flash_erase_sector chip (of_nat s) m)) = erased (content m) s"
proof -
  have "4096 dvd n" using assms by (simp add: nor_flash_def)
  moreover have "(4 :: nat) dvd 4096" by simp
  ultimately show "4 dvd n" by (rule dvd_trans [rotated])
qed (use assms in \<open>simp_all add: nor_flash_def\<close>)

text \<open>
  The allocator returns word-aligned memory, as \<open>malloc\<close> does, and never fails; the compiler has placed the one-word
  buffer, an array of \<open>char\<close>, at a word.
\<close>

definition env_ok :: "flash_env \<Rightarrow> bool" where
  "env_ok env \<longleftrightarrow> tmp_addr env AND 3 = 0 \<and> (\<forall>k. c_malloc env k \<noteq> 0 \<and> c_malloc env k AND 3 = 0)"

lemma word_pointer_simps [simp]:
  "p AND 3 = 0 \<Longrightarrow> word_pointer p = Inr ()" "p AND 3 \<noteq> 0 \<Longrightarrow> word_pointer p = Inl Misaligned"
  by (simp_all add: word_pointer_def)

lemma s_write_ok:
  assumes "nor_flash chip content n" "env_ok env" "4 dvd a" "4 dvd length d" "a + length d \<le> n"
  shows "\<exists>k m'. platform_s_flash_write chip env p d (flash_addr a) m = Inr (k, m') \<and> content m' = programmed (content m) a d"
  using nor_flashD(4) [OF assms(1,3-5), of m] assms(2)
  by (auto simp: platform_s_flash_write_def env_ok_def Let_def split_def)

lemma s_read_ok:
  assumes "nor_flash chip content n" "4 dvd a" "4 dvd k" "a + k \<le> n"
  shows "platform_s_flash_read chip p (flash_addr a) (of_nat k) m =
    (if p AND 3 = 0 then Inr (of_nat k, Some (map (content m) [a..<a + k])) else Inl Misaligned)"
  using nor_flashD(3) [OF assms, of m] by (simp add: platform_s_flash_read_def)

lemma read_word_ok:
  assumes "nor_flash chip content n" "env_ok env" "4 dvd a" "a + 4 \<le> n"
  shows "read_word chip env tmp (flash_addr a) m = Inr (map (content m) [a..<a + 4])"
  using s_read_ok [OF assms(1,3) _ assms(4), of "tmp_addr env" m] assms(2) by (simp add: read_word_def env_ok_def)

text \<open>A partly used word still lies inside the chip.\<close>

lemma word_inside: "4 dvd (n :: nat) \<Longrightarrow> 4 dvd a \<Longrightarrow> a < n \<Longrightarrow> a + 4 \<le> n"
  by (elim dvdE) simp

lemma map_upt_split: "a \<le> b \<Longrightarrow> b \<le> c \<Longrightarrow> map f [a..<b] @ map f [b..<c] = map f [a..<c]"
  using upt_add_eq_append [of a b "c - b"] by (simp flip: map_append)

lemma take_split: "take q (drop pos xs) @ take r (drop (pos + q) xs) = take (q + r) (drop pos xs)"
  by (simp add: take_add add.commute)

lemma write_aligned_ok:
  assumes nor: "nor_flash chip content n" "env_ok env"
    and a: "4 dvd a" "a + unat sz \<le> n" "pos + unat sz \<le> length src"
  shows "\<exists>m'. write_aligned chip env tmp src fa pos (flash_addr a) sz m = Inr m' \<and>
    content m' = programmed (content m) a (take (unat sz) (drop pos src))"
proof -
  define q r where "q = unat sz - unat sz mod 4" and "r = unat sz mod 4"
  have qr: "unat sz = q + r" "4 dvd q" "r < 4" by (simp_all add: q_def r_def dvd_minus_mod)
  have w: "unat (sz AND 3) = r" "unat (sz AND - 4) = q" by (simp_all add: and_3 unat_and_not_3 q_def r_def)
  then have z: "sz AND 3 = 0 \<longleftrightarrow> r = 0" "sz AND - 4 = 0 \<longleftrightarrow> q = 0" by (auto simp: word_unat_eq_iff)
  let ?d = "take q (drop pos src)" and ?e = "take r (drop (pos + q) src)"
  obtain k1 m1 where s1: "q \<noteq> 0 \<Longrightarrow> platform_s_flash_write chip env (fa + of_nat pos) ?d (flash_addr a) m = Inr (k1, m1)"
    and m1: "content m1 = programmed (content m) a ?d" and m1q: "q = 0 \<Longrightarrow> m1 = m"
    using s_write_ok [OF nor a(1), of ?d "fa + of_nat pos" m] a(2,3) qr by (cases "q = 0") auto
  have step: "write_aligned chip env tmp src fa pos (flash_addr a) sz m =
     (if r = 0 then Inr m1
      else rbind (read_word chip env tmp (flash_addr (a + q)) m1) (\<lambda>tmp.
           rbind (copy_unit src (pos + q) tmp 0 r sz) (\<lambda>(tmp, sz).
           rbind (platform_s_flash_write chip env (tmp_addr env) tmp (flash_addr (a + q)) m1) (\<lambda>(_, m). Inr m))))"
    using a(3) qr(1) z w s1 m1q
    by (cases "q = 0") (auto simp: write_aligned_def Let_def arr_slice_def flash_addr_add [symmetric] unat_eq_of_nat)
  show ?thesis
  proof (cases "r = 0")
    case True
    with step m1 qr(1) show ?thesis by simp
  next
    case False
    have in4: "a + q + 4 \<le> n"
      using word_inside [OF nor_flashD(1) [OF nor(1)], of "a + q"] a(1,2) qr False by simp
    have le: "length ?e = r" using a(3) qr(1) by simp
    let ?t = "?e @ map (content m1) [a + q + r..<a + q + 4]"
    have cp: "copy_unit src (pos + q) (map (content m1) [a + q..<a + q + 4]) 0 r sz = Inr (?t, sz - of_nat r)"
      using copy_unit_eq [of "pos + q" r sz src 0 "map (content m1) [a + q..<a + q + 4]"] a(3) qr
      by (simp add: drop_map min_def)
    have "4 dvd a + q" "4 dvd length ?t" "a + q + length ?t \<le> n" using a(1) qr le in4 by simp_all
    from s_write_ok [OF nor this] obtain k2 m2
      where m2: "platform_s_flash_write chip env (tmp_addr env) ?t (flash_addr (a + q)) m1 = Inr (k2, m2)"
        "content m2 = programmed (content m1) (a + q) ?t" by blast
    have run: "write_aligned chip env tmp src fa pos (flash_addr a) sz m = Inr m2"
      using step False cp m2(1) read_word_ok [OF nor _ in4, of tmp m1] a(1) qr(2) by simp
    note m2(2)
    also have "programmed (content m1) (a + q) ?t = programmed (content m1) (a + q) ?e"
      using programmed_pad [of "a + q + r" "a + q" 0 ?e "content m1" "4 - r"] le qr(3) by (simp add: add.assoc)
    also have "\<dots> = programmed (content m) a (take (q + r) (drop pos src))"
      using programmed_append [of "content m" a ?d ?e] m1 a(3) qr(1) take_split [of q pos src r] by simp
    finally show ?thesis using run qr(1) by simp
  qed
qed

text \<open>What the first part of an access does when it starts inside a word: a few bytes, then a word boundary.\<close>

lemma head_facts:
  fixes a :: nat and sz :: u32
  assumes "a mod 4 \<noteq> 0" "k = min (4 - a mod 4) (unat sz)"
  shows "k \<le> unat sz" "a mod 4 + k \<le> 4" "unat (sz - (sz - of_nat k)) = k" "unat (sz - of_nat k) = unat sz - k"
    and "sz - of_nat k = 0 \<longleftrightarrow> unat sz = k" "unat sz \<noteq> k \<Longrightarrow> k = 4 - a mod 4 \<and> a - a mod 4 + 4 = a + k \<and> 4 dvd a + k"
proof -
  show k: "k \<le> unat sz" "a mod 4 + k \<le> 4" using assms(2) by (auto simp: min_def)
  have "of_nat k \<le> sz" "unat (of_nat k :: u32) = k"
    using k by (simp_all add: word_le_nat_alt unat_of_nat_small)
  then show b: "unat (sz - (sz - of_nat k)) = k" "unat (sz - of_nat k) = unat sz - k"
    by (simp_all add: unat_sub_no_wrap)
  show "sz - of_nat k = 0 \<longleftrightarrow> unat sz = k" using b(2) k(1) by (auto simp: word_unat_eq_iff)
  show "k = 4 - a mod 4 \<and> a - a mod 4 + 4 = a + k \<and> 4 dvd a + k" if "unat sz \<noteq> k"
  proof -
    have e: "k = 4 - a mod 4" using that assms(2) by (simp add: min_def split: if_splits)
    then have "a + k = a - a mod 4 + 4" using mod_less_eq_dividend [of a 4] mod_less_divisor [of 4 a] by linarith
    moreover have "4 dvd a - a mod 4 + 4" by (intro dvd_add dvd_minus_mod) simp
    ultimately show ?thesis using e by simp
  qed
qed

lemma platform_flash_write_ok:
  assumes nor: "nor_flash chip content n" "env_ok env"
    and a: "a + unat sz \<le> n" "unat sz \<le> length src"
  shows "\<exists>m'. platform_flash_write chip env src fa (flash_addr a) sz m = Inr (sz, m') \<and>
    content m' = programmed (content m) a (take (unat sz) src)"
proof (cases "a mod 4 = 0")
  case True
  have "a \<le> 2 ^ 24" using a(1) nor_flashD(2) [OF nor(1)] by simp
  then have "flash_addr a AND 3 = 0" using flash_addr_and_3 [of a] True by (simp add: word_unat_eq_iff)
  with write_aligned_ok [OF nor, of a sz 0 src "tmp_junk env" fa m] a True show ?thesis
    by (auto simp: platform_flash_write_def Let_def)
next
  case False
  define r b k where "r = a mod 4" and "b = a - a mod 4" and "k = min (4 - a mod 4) (unat sz)"
  note h = head_facts [OF False k_def, folded r_def b_def]
  have r: "0 < r" "r < 4" "a = b + r" "4 dvd b" using False by (simp_all add: r_def b_def dvd_minus_mod)
  have le: "a \<le> 2 ^ 24" using a(1) nor_flashD(2) [OF nor(1)] by simp
  note ad = flash_addr_and_3 [OF le, folded r_def] flash_addr_and_not_3 [OF le, folded b_def]
  have ne: "flash_addr a AND 3 \<noteq> 0" using ad(1) r(1) by (auto simp: word_unat_eq_iff)
  have in4: "b + 4 \<le> n"
    using word_inside [OF nor_flashD(1) [OF nor(1)] r(4)] a(1) r by simp
  let ?f = "content m" and ?d = "take k src"
  let ?t = "map ?f [b..<b + r] @ ?d @ map ?f [b + r + k..<b + 4]"
  have ld: "length ?d = k" using a(2) h(1) by simp
  have "copy_unit src 0 (map ?f [b..<b + 4]) r (4 - r) sz = Inr (?t, sz - of_nat k)"
    using copy_unit_eq [of 0 "4 - r" sz src r "map ?f [b..<b + 4]"] a(2) r(2) h(2)
    by (simp add: k_def r_def take_map drop_map min_def add.assoc)
  moreover have "length ?t = 4" using h(1,2) ld by simp
  with s_write_ok [OF nor r(4), of ?t "tmp_addr env" m] in4 obtain k1 m1
    where s1: "platform_s_flash_write chip env (tmp_addr env) ?t (flash_addr b) m = Inr (k1, m1)"
      and c1: "content m1 = programmed ?f b ?t" by auto
  ultimately have run: "platform_flash_write chip env src fa (flash_addr a) sz m =
    (if unat sz = k then Inr (sz, m1)
     else rbind (write_aligned chip env ?t src fa k (flash_addr (b + 4)) (sz - of_nat k) m1) (\<lambda>m. Inr (sz, m)))"
    using ne ad read_word_ok [OF nor r(4) in4, of "tmp_junk env" m] flash_addr_add [of b 4] h(3,5)
    by (auto simp: platform_flash_write_def Let_def)
  have m1: "content m1 = programmed ?f a ?d"
    unfolding c1 using programmed_pad [of "b + r + k" b r ?d ?f "4 - (r + k)"] h(2) ld r(3) by (simp add: add.assoc)
  show ?thesis
  proof (cases "unat sz = k")
    case True
    with run m1 show ?thesis by simp
  next
    case False
    with h(6) have kr: "b + 4 = a + k" "4 dvd a + k" by blast+
    have "a + k + unat (sz - of_nat k) \<le> n" unfolding h(4) using a(1) h(1) by simp
    moreover have "k + unat (sz - of_nat k) \<le> length src" unfolding h(4) using a(2) h(1) by simp
    ultimately obtain m' where
      "write_aligned chip env ?t src fa k (flash_addr (b + 4)) (sz - of_nat k) m1 = Inr m'"
      "content m' = programmed (content m1) (b + 4) (take (unat (sz - of_nat k)) (drop k src))"
      using write_aligned_ok [OF nor kr(2), of "sz - of_nat k" k src ?t fa m1] unfolding kr(1) by blast
    moreover have "programmed (content m1) (b + 4) (take (unat (sz - of_nat k)) (drop k src)) =
        programmed ?f a (take (unat sz) src)"
      using programmed_append [of ?f a ?d] h(1,4) ld m1 kr(1) take_split [of k 0 src "unat sz - k"] by simp
    ultimately show ?thesis using run False by simp
  qed
qed

lemma read_aligned_ok:
  assumes nor: "nor_flash chip content n" "env_ok env"
    and a: "4 dvd a" "a + unat sz \<le> n" "pos + unat sz \<le> length buf"
  shows "read_aligned chip env tmp to_addr buf pos (flash_addr a) sz m =
    (if 4 \<le> unat sz \<and> (to_addr + of_nat pos) AND 3 \<noteq> 0 then Inl Misaligned
     else Inr (take pos buf @ map (content m) [a..<a + unat sz] @ drop (pos + unat sz) buf))"
proof -
  define q r where "q = unat sz - unat sz mod 4" and "r = unat sz mod 4"
  have qr: "unat sz = q + r" "4 dvd q" "r < 4" by (simp_all add: q_def r_def dvd_minus_mod)
  have q4: "q \<noteq> 0 \<longleftrightarrow> 4 \<le> unat sz" using qr by (auto elim!: dvdE)
  have w: "unat (sz AND 3) = r" "unat (sz AND - 4) = q" by (simp_all add: and_3 unat_and_not_3 q_def r_def)
  then have z: "sz AND 3 = 0 \<longleftrightarrow> r = 0" "sz AND - 4 = 0 \<longleftrightarrow> q = 0" "sz AND - 4 = of_nat q"
    by (auto simp: word_unat_eq_iff intro!: unat_eq_of_nat)
  let ?buf = "take pos buf @ map (content m) [a..<a + q] @ drop (pos + q) buf"
  have s: "platform_s_flash_read chip (to_addr + of_nat pos) (flash_addr a) (sz AND - 4) m =
    (if (to_addr + of_nat pos) AND 3 = 0 then Inr (of_nat q, Some (map (content m) [a..<a + q])) else Inl Misaligned)"
    unfolding z(3) using a(2) qr by (intro s_read_ok [OF nor(1) a(1)]) simp_all
  show ?thesis
  proof (cases "4 \<le> unat sz \<and> (to_addr + of_nat pos) AND 3 \<noteq> 0")
    case True
    with q4 s z(2) show ?thesis by (simp add: read_aligned_def Let_def)
  next
    case al: False
    then have step: "read_aligned chip env tmp to_addr buf pos (flash_addr a) sz m =
       (if r = 0 then Inr ?buf
        else rbind (read_word chip env tmp (flash_addr (a + q)) m) (\<lambda>tmp.
             rbind (copy_unit tmp 0 ?buf (pos + q) r sz) (\<lambda>(buf, sz). Inr buf)))"
      using a(3) qr(1) z w s q4 by (cases "q = 0") (auto simp: read_aligned_def Let_def flash_addr_add)
    show ?thesis
    proof (cases "r = 0")
      case True
      with step qr(1) al show ?thesis by simp
    next
      case False
      have in4: "a + q + 4 \<le> n"
        using word_inside [OF nor_flashD(1) [OF nor(1)], of "a + q"] a(1,2) qr False by simp
      have lb: "length ?buf = length buf" using a(3) qr(1) by simp
      have tk: "take (pos + q) ?buf = take pos buf @ map (content m) [a..<a + q]"
        "drop (pos + q + r) ?buf = drop (pos + q + r) buf"
        using a(3) qr(1) by (simp_all add: add.commute)
      have "copy_unit (map (content m) [a + q..<a + q + 4]) 0 ?buf (pos + q) r sz =
          Inr (take (pos + q) ?buf @ take r (map (content m) [a + q..<a + q + 4]) @ drop (pos + q + r) ?buf, sz - of_nat r)"
        using copy_unit_eq [of 0 r sz "map (content m) [a + q..<a + q + 4]" "pos + q" ?buf] a(3) qr lb
        by (simp add: min_def)
      moreover have "take r (map (content m) [a + q..<a + q + 4]) = map (content m) [a + q..<a + q + r]"
        using qr(3) by (simp add: take_map)
      moreover have "map (content m) [a..<a + q] @ map (content m) [a + q..<a + q + r] = map (content m) [a..<a + (q + r)]"
        by (simp add: map_upt_split add.assoc)
      ultimately show ?thesis
        using step False read_word_ok [OF nor _ in4, of tmp m] a(1) qr(1,2) al
        by (simp only: tk) (simp add: add.assoc)
    qed
  qed
qed

text \<open>
  Where the whole words of an access go: behind the bytes up to the next word boundary of the flash. A read is fine when
  it has no whole word, or when this is a word boundary of the buffer too.
\<close>

definition head_bytes :: "nat \<Rightarrow> nat" where
  "head_bytes a = (4 - a mod 4) mod 4"

definition read_fits :: "u32 \<Rightarrow> nat \<Rightarrow> nat \<Rightarrow> bool" where
  "read_fits to_addr a k \<longleftrightarrow> k < head_bytes a + 4 \<or> (to_addr + of_nat (head_bytes a)) AND 3 = 0"

lemma platform_flash_read_ok:
  assumes nor: "nor_flash chip content n" "env_ok env" and a: "a + unat sz \<le> n" "unat sz \<le> length buf"
  shows "platform_flash_read chip env to_addr buf (flash_addr a) sz m =
    (if read_fits to_addr a (unat sz) then Inr (sz, map (content m) [a..<a + unat sz] @ drop (unat sz) buf)
     else Inl Misaligned)"
proof (cases "a mod 4 = 0")
  case True
  have "a \<le> 2 ^ 24" using a(1) nor_flashD(2) [OF nor(1)] by simp
  then have "flash_addr a AND 3 = 0" using flash_addr_and_3 [of a] True by (simp add: word_unat_eq_iff)
  with read_aligned_ok [OF nor, of a sz 0 buf "tmp_junk env" to_addr m] a True show ?thesis
    by (auto simp: platform_flash_read_def Let_def read_fits_def head_bytes_def)
next
  case False
  define r b k where "r = a mod 4" and "b = a - a mod 4" and "k = min (4 - a mod 4) (unat sz)"
  note h = head_facts [OF False k_def, folded r_def b_def]
  have r: "0 < r" "r < 4" "a = b + r" "4 dvd b" using False by (simp_all add: r_def b_def dvd_minus_mod)
  have hb: "head_bytes a = 4 - r" using r(1,2) by (simp add: head_bytes_def flip: r_def)
  have le: "a \<le> 2 ^ 24" using a(1) nor_flashD(2) [OF nor(1)] by simp
  note ad = flash_addr_and_3 [OF le, folded r_def] flash_addr_and_not_3 [OF le, folded b_def]
  have ne: "flash_addr a AND 3 \<noteq> 0" using ad(1) r(1) by (auto simp: word_unat_eq_iff)
  have in4: "b + 4 \<le> n"
    using word_inside [OF nor_flashD(1) [OF nor(1)] r(4)] a(1) r by simp
  let ?f = "content m"
  let ?buf = "map ?f [a..<a + k] @ drop k buf"
  have "take k (drop r (map ?f [b..<b + 4])) = map ?f [a..<a + k]"
    using h(2) r(3) by (simp add: drop_map take_map)
  then have cp: "copy_unit (map ?f [b..<b + 4]) r buf 0 (4 - r) sz = Inr (?buf, sz - of_nat k)"
    using copy_unit_eq [of r "4 - r" sz "map ?f [b..<b + 4]" 0 buf] a(2) r(2) h(2) by (simp add: k_def r_def)
  have run: "platform_flash_read chip env to_addr buf (flash_addr a) sz m =
    (if unat sz = k then Inr (sz, ?buf)
     else rbind (read_aligned chip env (map ?f [b..<b + 4]) to_addr ?buf k (flash_addr (b + 4)) (sz - of_nat k) m) (\<lambda>b. Inr (sz, b)))"
    using cp ne ad read_word_ok [OF nor r(4) in4, of "tmp_junk env" m] flash_addr_add [of b 4] h(3,5)
    by (auto simp: platform_flash_read_def Let_def)
  show ?thesis
  proof (cases "unat sz = k")
    case True
    then have "read_fits to_addr a (unat sz)" using h(2) r(1,2) unfolding read_fits_def hb by linarith
    with True run show ?thesis by simp
  next
    case False
    with h(6) have kr: "k = 4 - r" "b + 4 = a + k" "4 dvd a + k" by blast+
    have fits: "read_fits to_addr a (unat sz) \<longleftrightarrow> \<not> (4 \<le> unat sz - k \<and> (to_addr + of_nat k) AND 3 \<noteq> 0)"
      unfolding read_fits_def hb kr(1) [symmetric] using h(1) by auto
    have "a + k + unat (sz - of_nat k) \<le> n" unfolding h(4) using a(1) h(1) by simp
    moreover have "k + unat (sz - of_nat k) \<le> length ?buf" unfolding h(4) using a(2) h(1) by simp
    ultimately have rest: "read_aligned chip env (map ?f [b..<b + 4]) to_addr ?buf k (flash_addr (b + 4)) (sz - of_nat k) m =
        (if read_fits to_addr a (unat sz) then Inr (take k ?buf @ map ?f [a + k..<a + k + (unat sz - k)] @ drop (k + (unat sz - k)) ?buf)
         else Inl Misaligned)"
      using read_aligned_ok [OF nor kr(3), of "sz - of_nat k" k ?buf "map ?f [b..<b + 4]" to_addr m]
      unfolding h(4) kr(2) fits by simp
    have "map ?f [a..<a + k] @ map ?f [a + k..<a + unat sz] = map ?f [a..<a + unat sz]"
      using h(1) by (intro map_upt_split) simp_all
    with run rest False h(1) a(2) show ?thesis by simp
  qed
qed

section \<open>Interface: flash as a byte store\<close>

text \<open>
  What the layers above rely on: reading any range gives its bytes, writing any range programs exactly
  that range. The client facts say what a reader sees after a write.
\<close>

locale byte_flash =
  fixes rd :: "nat \<Rightarrow> nat \<Rightarrow> 'm \<Rightarrow> bytes option"
    and wr :: "nat \<Rightarrow> bytes \<Rightarrow> 'm \<Rightarrow> 'm option"
    and content :: "'m \<Rightarrow> nat \<Rightarrow> u8"
    and valid :: "nat \<Rightarrow> nat \<Rightarrow> bool"
  assumes rd_content: "valid a k \<Longrightarrow> rd a k m = Some (map (content m) [a..<a + k])"
    and wr_content: "valid a (length d) \<Longrightarrow> \<exists>m'. wr a d m = Some m' \<and> content m' = programmed (content m) a d"
begin

lemma read_back:
  assumes "valid a (length d)" "\<And>i. a \<le> i \<Longrightarrow> i < a + length d \<Longrightarrow> content m i = 0xFF"
  shows "\<exists>m'. wr a d m = Some m' \<and> rd a (length d) m' = Some d"
proof -
  obtain m' where m': "wr a d m = Some m'" "content m' = programmed (content m) a d"
    using wr_content [OF assms(1)] by blast
  have "map (content m') [a..<a + length d] = d"
    using programmed_erased [of a d "content m", OF assms(2)] m'(2) by (intro nth_equalityI) simp_all
  with m'(1) rd_content [OF assms(1)] show ?thesis by simp
qed

lemma read_other:
  assumes "valid a (length d)" "valid b k" "b + k \<le> a \<or> a + length d \<le> b"
  shows "\<exists>m'. wr a d m = Some m' \<and> rd b k m' = rd b k m"
proof -
  obtain m' where m': "wr a d m = Some m'" "content m' = programmed (content m) a d"
    using wr_content [OF assms(1)] by blast
  have "map (content m') [b..<b + k] = map (content m) [b..<b + k]"
    using m'(2) assms(3) by (auto simp: programmed_def)
  with m'(1) rd_content [OF assms(2)] show ?thesis by simp
qed

end

text \<open>The platform functions with whole buffers, on a chip that keeps the documented behaviour.\<close>

definition flash_rd :: "'m flash_chip \<Rightarrow> flash_env \<Rightarrow> u32 \<Rightarrow> nat \<Rightarrow> nat \<Rightarrow> 'm \<Rightarrow> bytes option" where
  "flash_rd chip env to_addr a k m =
     (case platform_flash_read chip env to_addr (replicate k 0) (flash_addr a) (of_nat k) m of
        Inr (sz, buf) \<Rightarrow> Some buf | Inl _ \<Rightarrow> None)"

definition flash_wr :: "'m flash_chip \<Rightarrow> flash_env \<Rightarrow> u32 \<Rightarrow> nat \<Rightarrow> bytes \<Rightarrow> 'm \<Rightarrow> 'm option" where
  "flash_wr chip env from_addr a d m =
     (case platform_flash_write chip env d from_addr (flash_addr a) (of_nat (length d)) m of
        Inr (sz, m) \<Rightarrow> Some m | Inl _ \<Rightarrow> None)"

text \<open>A range that may be read: it lies on the chip, and the buffer at \<open>to_addr\<close> has room for its whole words at a word.\<close>

definition flash_range ::
  "'m flash_chip \<Rightarrow> flash_env \<Rightarrow> ('m \<Rightarrow> nat \<Rightarrow> u8) \<Rightarrow> nat \<Rightarrow> u32 \<Rightarrow> nat \<Rightarrow> nat \<Rightarrow> bool" where
  "flash_range chip env content n to_addr a k \<longleftrightarrow>
     nor_flash chip content n \<and> env_ok env \<and> a + k \<le> n \<and> read_fits to_addr a k"

lemma flash_range_small: "flash_range chip env content n to_addr a k \<Longrightarrow> unat (of_nat k :: u32) = k"
  using nor_flashD(2) [of chip content n] by (intro unat_of_nat_small) (simp add: flash_range_def)

interpretation flash: byte_flash "flash_rd chip env to_addr" "flash_wr chip env from_addr" content
  "flash_range chip env content n to_addr"
proof (unfold_locales, goal_cases)
  case (1 a k m)
  then show ?case
    using platform_flash_read_ok [of chip content n env a "of_nat k" "replicate k 0" to_addr m] flash_range_small [OF 1]
    by (simp add: flash_range_def flash_rd_def)
next
  case (2 a d m)
  then show ?case
    using platform_flash_write_ok [of chip content n env a "of_nat (length d)" d from_addr m] flash_range_small [OF 2]
    by (auto simp: flash_range_def flash_wr_def)
qed

section \<open>Setting and reading the size\<close>

lemma nibbles_of:
  assumes "\<And>n. bit (k :: u8) n \<longleftrightarrow> n < 4"
  shows "drop_bit 4 ((b AND k) OR push_bit 4 (c AND k)) = c AND k"
    and "((b AND k) OR push_bit 4 (c AND k)) AND k = b AND k"
  by (rule bit_word_eqI, auto simp: bit_simps assms)+

lemma bit_15: "bit (0xF :: u8) n \<longleftrightarrow> n < 4"
proof -
  have "(0xF :: u8) = mask 4" by (simp add: mask_eq_exp_minus_1)
  then show ?thesis by (simp only: bit_mask_iff possible_bit_word) auto
qed

lemmas nibbles = nibbles_of [OF bit_15]

lemma flash_set_size_ok:
  assumes nor: "nor_flash chip content n" "4096 \<le> n"
  shows "\<exists>m'. flash_set_size chip junk sz m = Inr m' \<and>
    content m' = (content m)(3 := (content m 3 AND 0xF) OR push_bit 4 (sz AND 0xF))"
proof -
  let ?f = "content m" and ?v = "(content m 3 AND 0xF) OR push_bit 4 (sz AND 0xF)"
  let ?d = "(map (content m) [0..<4096])[3 := ?v]"
  have rd: "spi_flash_read chip 0 4096 m = Some (map ?f [0..<4096])"
    using nor_flashD(3) [OF nor(1), of 0 4096 m] nor(2) by simp
  have er: "content (snd (spi_flash_erase_sector chip 0 m)) = erased ?f 0"
    using nor_flashD(5) [OF nor(1), of 0 m] nor(2) by simp
  let ?m = "snd (spi_flash_erase_sector chip 0 m)"
  have "content (snd (spi_flash_write chip 0 ?d ?m)) = programmed (erased ?f 0) 0 ?d"
    using nor_flashD(4) [OF nor(1), of 0 ?d ?m] nor(2) er by simp
  also have "\<dots> = ?f(3 := ?v)"
  proof
    fix i
    have "i < 4096 \<Longrightarrow> programmed (erased ?f 0) 0 ?d (0 + i) = ?d ! i"
      by (rule programmed_erased) (simp_all add: erased_def)
    then show "programmed (erased ?f 0) 0 ?d i = (?f(3 := ?v)) i"
      by (cases "i < 4096") (auto simp: nth_list_update programmed_def erased_def div_eq_0_iff)
  qed
  finally have "content (snd (spi_flash_write chip 0 ?d ?m)) = ?f(3 := ?v)" .
  moreover have "flash_set_size chip junk sz m = Inr (snd (spi_flash_write chip 0 ?d ?m))"
    by (simp add: flash_set_size_def rd Let_def)
  ultimately show ?thesis by blast
qed

section \<open>Properties\<close>

text \<open>C10: On a chip that keeps the documented behaviour of NOR flash, with an allocator that does not
  fail and returns word-aligned memory and the one-word buffer placed at a word, the byte-granular functions refine the chip at any flash address and
  length. A write, from a source at any address, programs exactly its range. A read delivers exactly the bytes of its
  range and leaves the rest of the caller's buffer alone, provided that the bytes up to the next word of the flash end
  at a word of the buffer or that no whole word follows them; a read of any other alignment passes a misaligned
  \<open>uint32 *\<close> to the SDK.\<close>

theorem flash_byte_access:
  assumes "nor_flash chip content n" "env_ok env" "a + unat sz \<le> n"
    and "unat sz \<le> length buf" "unat sz \<le> length src"
  shows "platform_flash_read chip env to_addr buf (flash_addr a) sz m =
      (if read_fits to_addr a (unat sz) then Inr (sz, map (content m) [a..<a + unat sz] @ drop (unat sz) buf)
       else Inl Misaligned) \<and>
    (\<exists>m'. platform_flash_write chip env src from_addr (flash_addr a) sz m = Inr (sz, m') \<and>
      content m' = programmed (content m) a (take (unat sz) src))"
  using platform_flash_read_ok [OF assms(1-4)] platform_flash_write_ok [OF assms(1-3,5)] by blast

text \<open>C28: Bytes written to an erased range, from a source at any address, are read back unchanged, and every range that
  does not overlap the written one reads as before; the reads are into buffers whose address suits the range (C10).\<close>

theorem flash_read_back:
  assumes "flash_range chip env content n to_addr a (length d)" "flash_range chip env content n to_addr b k"
    and "\<forall>i. a \<le> i \<and> i < a + length d \<longrightarrow> content m i = 0xFF" "b + k \<le> a \<or> a + length d \<le> b"
  shows "\<exists>m'. flash_wr chip env from_addr a d m = Some m' \<and> flash_rd chip env to_addr a (length d) m' = Some d \<and>
    flash_rd chip env to_addr b k m' = flash_rd chip env to_addr b k m"
proof -
  have "\<exists>m'. flash_wr chip env from_addr a d m = Some m' \<and> flash_rd chip env to_addr a (length d) m' = Some d"
    by (rule flash.read_back [OF assms(1)]) (use assms(3) in simp)
  with flash.read_other [OF assms(1,2,4), of from_addr m] show ?thesis by auto
qed

text \<open>C29: Setting the flash size and reading it back gives the size that was set for 256 kByte to 2 MByte; 4 MByte,
  which can be set, is read back as 16 MByte, because the cases for 4 and 8 MByte fall through. The
  rest of the configuration sector is unchanged.\<close>

theorem flash_size_round_trip:
  assumes "nor_flash chip content n" "4096 \<le> n" "flash_size_code sz \<noteq> None"
  shows "\<exists>m'. flash_set_size_byte chip junk sz m = Inr (True, m') \<and>
    flash_get_size_byte content m' = (if sz = 4 * 1024 * 1024 then 16 * 1024 * 1024 else sz) \<and>
    flash_get_speed content m' = flash_get_speed content m \<and> (\<forall>i. i \<noteq> 3 \<longrightarrow> content m' i = content m i)"
proof -
  obtain c where c: "flash_size_code sz = Some c" using assms(3) by auto
  obtain m' where m': "flash_set_size chip junk c m = Inr m'"
    "content m' = (content m)(3 := (content m 3 AND 0xF) OR push_bit 4 (c AND 0xF))"
    using flash_set_size_ok [OF assms(1,2)] by blast
  have i: "i_size (flash_get_info content m') = c AND 0xF" "i_speed (flash_get_info content m') = content m 3 AND 0xF"
    unfolding flash_get_info_def SPIFlashInfo.simps m'(2) fun_upd_same by (simp_all only: nibbles)
  have "flash_get_size_byte content m' = (if sz = 4 * 1024 * 1024 then 16 * 1024 * 1024 else sz)"
    unfolding flash_get_size_byte_def Let_def i(1)
    using c by (auto simp: flash_size_code_def SIZE_2MBIT_def SIZE_4MBIT_def SIZE_8MBIT_def SIZE_16MBIT_def
        SIZE_32MBIT_def SIZE_64MBIT_def SIZE_128MBIT_def split: if_splits)
  moreover have "flash_get_speed content m' = flash_get_speed content m"
    unfolding flash_get_speed_def Let_def i(2) by (simp add: flash_get_info_def)
  ultimately show ?thesis using m' c by (simp add: flash_set_size_byte_def)
qed

section \<open>Witnesses\<close>

text \<open>A chip of 8 kByte kept as a function from addresses to bytes.\<close>

definition sim_chip :: "(nat \<Rightarrow> u8) flash_chip" where
  "sim_chip = \<lparr>spi_flash_read = (\<lambda>a k m. Some (map m [unat a..<unat a + unat k])),
     spi_flash_write = (\<lambda>a d m. (True, programmed m (unat a) d)),
     spi_flash_erase_sector = (\<lambda>s m. (True, erased m (unat s))),
     SPIEraseChip = (\<lambda>m i. 0xFF)\<rparr>"

definition sim_env :: flash_env where
  "sim_env = \<lparr>c_malloc = (\<lambda>_. 0x3FFF8000), tmp_addr = 0x3FFFFF00, tmp_junk = [1, 2, 3, 4]\<rparr>"

lemma sim_nor: "nor_flash sim_chip (\<lambda>m. m) 8192"
  unfolding nor_flash_def
proof (intro conjI allI impI, goal_cases)
  case (3 m a k)
  then have "unat (of_nat a :: u32) = a" "unat (of_nat k :: u32) = k"
    by (auto intro!: unat_of_nat_small)
  then show ?case by (simp add: sim_chip_def)
next
  case (5 m a d)
  then have "unat (of_nat a :: u32) = a" by (auto intro!: unat_of_nat_small)
  then show ?case by (simp add: sim_chip_def)
next
  case (7 m s)
  then have "unat (of_nat s :: u32) = s" by (auto intro!: unat_of_nat_small)
  then show ?case by (simp add: sim_chip_def)
qed (simp_all add: sim_chip_def)

lemma sim_env_ok: "env_ok sim_env"
  by (simp add: env_ok_def sim_env_def)

theorem flash_byte_access_witness:
  "platform_flash_read sim_chip sim_env 0x3FFF9003 [0, 0, 0, 0, 0, 9] (flash_addr 3) 5 (\<lambda>_. 0xFF) =
     Inr (5, map (\<lambda>_. 0xFF) [3..<8] @ [9]) \<and>
   (\<exists>m'. platform_flash_write sim_chip sim_env [1, 2, 3, 4, 5] 0x3FFF9001 (flash_addr 3) 5 (\<lambda>_. 0xFF) = Inr (5, m') \<and>
     m' = programmed (\<lambda>_. 0xFF) 3 [1, 2, 3, 4, 5])"
  using flash_byte_access [OF sim_nor sim_env_ok, of 3 5 "[0, 0, 0, 0, 0, 9]" "[1, 2, 3, 4, 5]" "0x3FFF9003" "\<lambda>_. 0xFF" "0x3FFF9001"]
  by (simp add: read_fits_def head_bytes_def)

theorem flash_read_back_witness:
  "\<exists>m'. flash_wr sim_chip sim_env 0x3FFF9001 5 [7, 8, 9, 10, 11, 12, 13] (\<lambda>_. 0xFF) = Some m' \<and>
     flash_rd sim_chip sim_env 0x3FFF9001 5 (length [7 :: u8, 8, 9, 10, 11, 12, 13]) m' = Some [7, 8, 9, 10, 11, 12, 13] \<and>
     flash_rd sim_chip sim_env 0x3FFF9001 13 2 m' = flash_rd sim_chip sim_env 0x3FFF9001 13 2 (\<lambda>_. 0xFF)"
  using flash_read_back [of sim_chip sim_env "\<lambda>m. m" 8192 "0x3FFF9001" 5 "[7, 8, 9, 10, 11, 12, 13]" 13 2 "\<lambda>_. 0xFF" "0x3FFF9001"]
    sim_nor sim_env_ok
  by (simp add: flash_range_def read_fits_def head_bytes_def)

theorem flash_size_round_trip_witness:
  "\<exists>m'. flash_set_size_byte sim_chip [] (4 * 1024 * 1024) (\<lambda>_. 0) = Inr (True, m') \<and>
     flash_get_size_byte (\<lambda>m. m) m' = 16 * 1024 * 1024"
  using flash_size_round_trip [OF sim_nor, of "4 * 1024 * 1024" "[]" "\<lambda>_. 0"]
  by (auto simp: flash_size_code_def)

end
