(* ===== verification/Onewire.thy ===== *)
theory Onewire
  imports Gpio
begin

text \<open>
  The 1-Wire bus driver (\<open>driver/onewire.c\<close>): resets, bit and byte transfers by timed pin accesses, the
  search that enumerates the devices on a bus, and the two checksums. The bus is a state machine
  outside the program: it reacts to every pin access and delay, and answers samples of the pin.
  The checksum lemmas show the table-driven and parity-based routines equal to shift registers;
  the search lemmas show that repeated searches deliver every device of the bus exactly once,
  in ascending order of the addresses as bit strings.
\<close>

section \<open>Bus access\<close>

record 'b ow_bus =
  drive :: "pin_event \<Rightarrow> 'b \<Rightarrow> 'b"
  level :: "nat \<Rightarrow> 'b \<Rightarrow> bool \<times> 'b"

definition ow_do :: "'b ow_bus \<Rightarrow> pin_event list \<Rightarrow> 'b \<Rightarrow> 'b" where
  "ow_do bus evs b = fold (drive bus) evs b"

abbreviation ow_pin :: "u8 \<Rightarrow> nat" where
  "ow_pin pin \<equiv> phys (ucast pin)"

text \<open>
  Every access to the line indexes \<open>pin_num\<close> with the pin (the macros \<open>DIRECT_READ\<close>, \<open>DIRECT_WRITE_LOW\<close> and so on). The
  functions below write \<open>ow_pin pin\<close> for this element; a call into the driver is made through \<open>ow_driver\<close>, where an
  index outside the array is an error.
\<close>

definition ow_driver :: "u8 \<Rightarrow> ('b \<Rightarrow> ('a \<times> 'b) result) \<Rightarrow> 'b \<Rightarrow> ('a \<times> 'b) result" where
  "ow_driver pin f b = rbind (arr_get pin_num (unat pin)) (\<lambda>_. f b)"

text \<open>Waiting for the line to be high: at most 124 samples.\<close>

fun wait_high :: "'b ow_bus \<Rightarrow> u8 \<Rightarrow> nat \<Rightarrow> 'b \<Rightarrow> bool \<times> 'b" where
  "wait_high bus pin 0 b = (False, b)"
| "wait_high bus pin (Suc retries) b =
     (if retries = 0 then (False, b)
      else case level bus (ow_pin pin) (ow_do bus [DelayUs 2] b) of
        (high, b) \<Rightarrow> if high then (True, b) else wait_high bus pin retries b)"

definition onewire_reset :: "'b ow_bus \<Rightarrow> u8 \<Rightarrow> 'b \<Rightarrow> bool \<times> 'b" where
  "onewire_reset bus pin b =
     (let b = ow_do bus [IntrLock, gpio_dis_output (ow_pin pin), IntrUnlock] b in
      case wait_high bus pin 125 b of
        (False, b) \<Rightarrow> (False, b)
      | (True, b) \<Rightarrow>
          (let b = ow_do bus [IntrLock, gpio_output_set (ow_pin pin) 0, IntrUnlock, DelayUs 480, IntrLock,
                     gpio_dis_output (ow_pin pin), DelayUs 70] b in
           case level bus (ow_pin pin) b of
             (l, b) \<Rightarrow> (\<not> l, ow_do bus [IntrUnlock, DelayUs 410] b)))"

definition onewire_write_bit :: "'b ow_bus \<Rightarrow> u8 \<Rightarrow> bool \<Rightarrow> 'b \<Rightarrow> 'b" where
  "onewire_write_bit bus pin v b =
     (if v then
        ow_do bus [IntrLock, gpio_output_set (ow_pin pin) 0, DelayUs 10, gpio_output_set (ow_pin pin) 1,
          IntrUnlock, DelayUs 55] b
      else
        ow_do bus [IntrLock, gpio_output_set (ow_pin pin) 0, DelayUs 65, gpio_output_set (ow_pin pin) 1,
          IntrUnlock, DelayUs 5] b)"

definition onewire_read_bit :: "'b ow_bus \<Rightarrow> u8 \<Rightarrow> 'b \<Rightarrow> bool \<times> 'b" where
  "onewire_read_bit bus pin b =
     (let b = ow_do bus [IntrLock, gpio_output_set (ow_pin pin) 0, DelayUs 3, gpio_dis_output (ow_pin pin), DelayUs 10] b in
      case level bus (ow_pin pin) b of (r, b) \<Rightarrow> (r, ow_do bus [IntrUnlock, DelayUs 53] b))"

definition let_float :: "u8 \<Rightarrow> pin_event list" where
  "let_float pin = [IntrLock, gpio_dis_output (ow_pin pin), gpio_output_set (ow_pin pin) 0, IntrUnlock]"

text \<open>The masks \<open>0x01, 0x02, .. 0x80\<close> are the bit indices 0 to 7.\<close>

definition onewire_write :: "'b ow_bus \<Rightarrow> u8 \<Rightarrow> u8 \<Rightarrow> bool \<Rightarrow> 'b \<Rightarrow> 'b" where
  "onewire_write bus pin v powered b =
     (let b = fold (\<lambda>i. onewire_write_bit bus pin (bit v i)) [0..<8] b in
      if \<not> powered then ow_do bus (let_float pin) b else b)"

definition onewire_write_bytes :: "'b ow_bus \<Rightarrow> u8 \<Rightarrow> bytes \<Rightarrow> u16 \<Rightarrow> bool \<Rightarrow> 'b \<Rightarrow> 'b result" where
  "onewire_write_bytes bus pin buf count powered b =
     rbind (rfold (\<lambda>i b. rbind (arr_get buf i) (\<lambda>v. Inr (onewire_write bus pin v False b))) [0..<unat count] b) (\<lambda>b.
     Inr (if \<not> powered then ow_do bus (let_float pin) b else b))"

fun read_bits :: "'b ow_bus \<Rightarrow> u8 \<Rightarrow> nat list \<Rightarrow> u8 \<Rightarrow> 'b \<Rightarrow> u8 \<times> 'b" where
  "read_bits bus pin [] r b = (r, b)"
| "read_bits bus pin (i # is) r b =
     (case onewire_read_bit bus pin b of
        (x, b) \<Rightarrow> read_bits bus pin is (if x then r OR push_bit i 1 else r) b)"

definition onewire_read :: "'b ow_bus \<Rightarrow> u8 \<Rightarrow> 'b \<Rightarrow> u8 \<times> 'b" where
  "onewire_read bus pin b = read_bits bus pin [0..<8] 0 b"

definition onewire_read_bytes :: "'b ow_bus \<Rightarrow> u8 \<Rightarrow> bytes \<Rightarrow> u16 \<Rightarrow> 'b \<Rightarrow> (bytes \<times> 'b) result" where
  "onewire_read_bytes bus pin buf count b =
     rfold (\<lambda>i (buf, b). case onewire_read bus pin b of
        (r, b) \<Rightarrow> rbind (arr_set buf i r) (\<lambda>buf. Inr (buf, b))) [0..<unat count] (buf, b)"

definition onewire_select :: "'b ow_bus \<Rightarrow> u8 \<Rightarrow> bytes \<Rightarrow> 'b \<Rightarrow> 'b result" where
  "onewire_select bus pin rom b =
     rfold (\<lambda>i b. rbind (arr_get rom i) (\<lambda>v. Inr (onewire_write bus pin v False b))) [0..<8]
       (onewire_write bus pin 0x55 False b)"

definition onewire_skip :: "'b ow_bus \<Rightarrow> u8 \<Rightarrow> 'b \<Rightarrow> 'b" where
  "onewire_skip bus pin b = onewire_write bus pin 0xCC False b"

definition onewire_depower :: "'b ow_bus \<Rightarrow> u8 \<Rightarrow> 'b \<Rightarrow> 'b" where
  "onewire_depower bus pin b = ow_do bus [IntrLock, gpio_dis_output (ow_pin pin), IntrUnlock] b"

section \<open>Checksums\<close>

definition crc8_bit :: "u8 \<times> u8 \<Rightarrow> u8 \<times> u8" where
  "crc8_bit = (\<lambda>(crc, inbyte).
     let mix = (crc XOR inbyte) AND 1; crc = drop_bit 1 crc;
         crc = (if mix \<noteq> 0 then crc XOR 0x8C else crc) in
     (crc, drop_bit 1 inbyte))"

definition crc8_byte :: "u8 \<Rightarrow> u8 \<Rightarrow> u8" where
  "crc8_byte crc inbyte = fst ((crc8_bit ^^ 8) (crc, inbyte))"

text \<open>The loops count \<open>len\<close> down; reading past the data is an error of the model.\<close>

definition onewire_crc8 :: "bytes \<Rightarrow> u8 \<Rightarrow> u8 result" where
  "onewire_crc8 addr len =
     rfold (\<lambda>i crc. rbind (arr_get addr i) (\<lambda>inbyte. Inr (crc8_byte crc inbyte))) [0..<unat len] 0"

definition dscrc_table :: bytes where
  "dscrc_table = [
    0, 94, 188, 226, 97, 63, 221, 131, 194, 156, 126, 32, 163, 253, 31, 65,
    157, 195, 33, 127, 252, 162, 64, 30, 95, 1, 227, 189, 62, 96, 130, 220,
    35, 125, 159, 193, 66, 28, 254, 160, 225, 191, 93, 3, 128, 222, 60, 98,
    190, 224, 2, 92, 223, 129, 99, 61, 124, 34, 192, 158, 29, 67, 161, 255,
    70, 24, 250, 164, 39, 121, 155, 197, 132, 218, 56, 102, 229, 187, 89, 7,
    219, 133, 103, 57, 186, 228, 6, 88, 25, 71, 165, 251, 120, 38, 196, 154,
    101, 59, 217, 135, 4, 90, 184, 230, 167, 249, 27, 69, 198, 152, 122, 36,
    248, 166, 68, 26, 153, 199, 37, 123, 58, 100, 134, 216, 91, 5, 231, 185,
    140, 210, 48, 110, 237, 179, 81, 15, 78, 16, 242, 172, 47, 113, 147, 205,
    17, 79, 173, 243, 112, 46, 204, 146, 211, 141, 111, 49, 178, 236, 14, 80,
    175, 241, 19, 77, 206, 144, 114, 44, 109, 51, 209, 143, 12, 82, 176, 238,
    50, 108, 142, 208, 83, 13, 239, 177, 240, 174, 76, 18, 145, 207, 45, 115,
    202, 148, 118, 40, 171, 245, 23, 73, 8, 86, 180, 234, 105, 55, 213, 139,
    87, 9, 235, 181, 54, 104, 138, 212, 149, 203, 41, 119, 244, 170, 72, 22,
    233, 183, 85, 11, 136, 214, 52, 106, 43, 117, 151, 201, 74, 20, 246, 168,
    116, 42, 200, 150, 21, 75, 169, 247, 182, 232, 10, 84, 215, 137, 107, 53]"

text \<open>The variant selected by \<open>ONEWIRE_CRC8_TABLE\<close>.\<close>

definition onewire_crc8_table :: "bytes \<Rightarrow> u8 \<Rightarrow> u8 result" where
  "onewire_crc8_table addr len =
     rfold (\<lambda>i crc. rbind (arr_get addr i) (\<lambda>b. arr_get dscrc_table (unat (crc XOR b)))) [0..<unat len] 0"

definition oddparity :: "u16 list" where
  "oddparity = [0, 1, 1, 0, 1, 0, 0, 1, 1, 0, 0, 1, 0, 1, 1, 0]"

definition crc16_byte :: "u8 \<Rightarrow> u16 \<Rightarrow> u16 result" where
  "crc16_byte inp crc =
     (let cdata = (ucast inp XOR crc) AND 0xFF; crc = drop_bit 8 crc in
      rbind (arr_get oddparity (unat (cdata AND 0xF))) (\<lambda>lo.
      rbind (arr_get oddparity (unat (drop_bit 4 cdata))) (\<lambda>hi.
      let crc = (if lo XOR hi \<noteq> 0 then crc XOR 0xC001 else crc);
          cdata = push_bit 6 cdata; crc = crc XOR cdata; cdata = push_bit 1 cdata in
      Inr (crc XOR cdata))))"

definition onewire_crc16 :: "bytes \<Rightarrow> u16 \<Rightarrow> u16 \<Rightarrow> u16 result" where
  "onewire_crc16 inp len crc =
     rfold (\<lambda>i crc. rbind (arr_get inp i) (\<lambda>b. crc16_byte b crc)) [0..<unat len] crc"

definition onewire_check_crc16 :: "bytes \<Rightarrow> u16 \<Rightarrow> bytes \<Rightarrow> u16 \<Rightarrow> bool result" where
  "onewire_check_crc16 inp len inverted_crc crc =
     rbind (onewire_crc16 inp len crc) (\<lambda>crc. let crc = NOT crc in
     rbind (arr_get inverted_crc 0) (\<lambda>c0.
     if crc AND 0xFF = ucast c0 then
       rbind (arr_get inverted_crc 1) (\<lambda>c1. Inr (drop_bit 8 crc = ucast c1))
     else Inr False))"

section \<open>The 8-bit checksum as a shift register\<close>

definition lfsr8 :: "u8 \<Rightarrow> u8" where
  "lfsr8 x = (if x AND 1 \<noteq> 0 then drop_bit 1 x XOR 0x8C else drop_bit 1 x)"

abbreviation crc8_of :: "u8 \<Rightarrow> u8" where
  "crc8_of x \<equiv> (lfsr8 ^^ 8) x"

lemma drop_bit_xor: "drop_bit n (x XOR y) = drop_bit n x XOR drop_bit n (y :: 'a::len word)"
  by (rule bit_word_eqI) (simp add: bit_simps)

lemma odd_xor_word: "(x XOR y) AND 1 \<noteq> 0 \<longleftrightarrow> (x AND 1 \<noteq> 0) \<noteq> (y AND 1 \<noteq> (0 :: 'a::len word))"
  by (auto simp: and_one_eq mod_2_eq_odd even_xor_iff)

lemmas xor_ac = xor.assoc xor.commute xor.left_commute

lemma lfsr8_xor: "lfsr8 (x XOR y) = lfsr8 x XOR lfsr8 y"
proof -
  have "(drop_bit 1 x XOR 0x8C) XOR (drop_bit 1 y XOR 0x8C) = drop_bit 1 x XOR drop_bit 1 y"
    by (rule bit_word_eqI) (auto simp: bit_simps)
  then show ?thesis
    by (cases "x AND 1 \<noteq> 0"; cases "y AND 1 \<noteq> 0") (simp_all only: lfsr8_def drop_bit_xor odd_xor_word if_True if_False simp_thms xor_ac)
qed

lemma funpow_xor:
  fixes f :: "u8 \<Rightarrow> u8"
  assumes "\<And>x y. f (x XOR y) = f x XOR f y"
  shows "(f ^^ n) (x XOR y) = (f ^^ n) x XOR (f ^^ n) y"
  by (induction n) (simp_all add: assms)

text \<open>Both variants run the register over the sum of checksum and input.\<close>

lemma crc8_bit_register: "fst (crc8_bit p) XOR snd (crc8_bit p) = lfsr8 (fst p XOR snd p)"
  by (cases p) (auto simp: crc8_bit_def lfsr8_def Let_def drop_bit_xor xor_ac)

lemma crc8_bits_register: "fst ((crc8_bit ^^ n) p) XOR snd ((crc8_bit ^^ n) p) = (lfsr8 ^^ n) (fst p XOR snd p)"
  by (induction n) (simp_all add: crc8_bit_register)

lemma crc8_bits_input: "snd ((crc8_bit ^^ n) p) = drop_bit n (snd p)"
  by (induction n) (simp_all add: crc8_bit_def split_def Let_def)

lemma crc8_byte_register: "crc8_byte crc inbyte = crc8_of (crc XOR inbyte)"
proof -
  have "drop_bit 8 inbyte = 0" by (rule bit_word_eqI) (simp add: bit_simps)
  then show ?thesis unfolding crc8_byte_def
    using crc8_bits_register [of 8 "(crc, inbyte)"] crc8_bits_input [of 8 "(crc, inbyte)"] by simp
qed

definition crc8_low :: bytes where
  "crc8_low = [0, 94, 188, 226, 97, 63, 221, 131, 194, 156, 126, 32, 163, 253, 31, 65]"

definition crc8_high :: bytes where
  "crc8_high = [0, 157, 35, 190, 70, 219, 101, 248, 140, 17, 175, 50, 202, 87, 233, 116]"

lemma crc8_of_unfold: "crc8_of x = lfsr8 (lfsr8 (lfsr8 (lfsr8 (lfsr8 (lfsr8 (lfsr8 (lfsr8 x)))))))"
  by (simp add: numeral_eq_Suc)

lemma crc8_low_ok: "map crc8_of [0, 1, 2, 3, 4, 5, 6, 7, 8, 9, 10, 11, 12, 13, 14, 15] = crc8_low"
  unfolding crc8_of_unfold by (simp add: lfsr8_def crc8_low_def)

lemma crc8_high_ok:
  "map crc8_of [0, 16, 32, 48, 64, 80, 96, 112, 128, 144, 160, 176, 192, 208, 224, 240] = crc8_high"
  unfolding crc8_of_unfold by (simp add: lfsr8_def crc8_high_def)

lemma table_by_nibbles: "dscrc_table = concat (map (\<lambda>h. map (\<lambda>l. h XOR l) crc8_low) crc8_high)"
  by (simp add: dscrc_table_def crc8_low_def crc8_high_def)

lemma nth_concat_blocks:
  assumes "\<And>xs. xs \<in> set xss \<Longrightarrow> length xs = k" "j < k" "i < length xss"
  shows "concat xss ! (i * k + j) = xss ! i ! j"
  using assms
proof (induction xss arbitrary: i)
  case (Cons xs xss)
  then show ?case by (cases i) (auto simp: nth_append add.assoc)
qed simp

lemma nibble_words: "map (\<lambda>n. of_nat n :: u8) [0..<16] = [0, 1, 2, 3, 4, 5, 6, 7, 8, 9, 10, 11, 12, 13, 14, 15]"
  "map (\<lambda>n. of_nat (16 * n) :: u8) [0..<16]
     = [0, 16, 32, 48, 64, 80, 96, 112, 128, 144, 160, 176, 192, 208, 224, 240]"
  by (simp_all add: upt_rec)

lemma crc8_low_nth: "n < 16 \<Longrightarrow> crc8_low ! n = crc8_of (of_nat n)"
  using crc8_low_ok [folded nibble_words] by (metis (no_types, lifting) diff_zero length_map length_upt nth_map nth_upt add_0)

lemma crc8_high_nth: "n < 16 \<Longrightarrow> crc8_high ! n = crc8_of (of_nat (16 * n))"
  using crc8_high_ok [folded nibble_words] by (metis (no_types, lifting) diff_zero length_map length_upt nth_map nth_upt add_0)

lemma word_by_nibbles: "x = of_nat (16 * (unat x div 16)) XOR (of_nat (unat x mod 16) :: 'a::len word)"
proof -
  have "unat (drop_bit 4 x) = unat x div 16" "unat (take_bit 4 x) = unat x mod 16"
    by (simp_all add: unat_drop_bit_eq unsigned_take_bit_eq drop_bit_eq_div [where 'a = nat]
        take_bit_eq_mod [where 'a = nat])
  then have "of_nat (unat x div 16) = drop_bit 4 x" and lo: "of_nat (unat x mod 16) = take_bit 4 x"
    by (metis unat_eq_of_nat)+
  then have "of_nat (16 * (unat x div 16)) = push_bit 4 (drop_bit 4 x)"
    by (simp add: push_bit_eq_mult mult.commute)
  moreover have "push_bit 4 (drop_bit 4 x) XOR take_bit 4 x = x"
    by (rule bit_word_eqI) (auto simp: bit_simps)
  ultimately show ?thesis by (simp only: lo)
qed

lemma crc8_table_nth: "dscrc_table ! unat x = crc8_of x"
proof -
  let ?h = "unat x div 16" and ?l = "unat x mod 16"
  have b: "?h < 16" "?l < 16" using u8_bound [of x] by simp_all
  have lens: "length crc8_low = 16" "length crc8_high = 16" by (simp_all add: crc8_low_def crc8_high_def)
  have "dscrc_table ! (?h * 16 + ?l) = crc8_high ! ?h XOR crc8_low ! ?l"
    unfolding table_by_nibbles using b
    by (subst nth_concat_blocks [where k = 16]) (auto simp: lens)
  also have "\<dots> = crc8_of (of_nat (16 * ?h) XOR of_nat ?l)"
    using b by (simp only: crc8_low_nth crc8_high_nth funpow_xor [OF lfsr8_xor])
  finally show ?thesis by (simp only: word_by_nibbles [symmetric] div_mult_mod_eq)
qed

lemma rfold_bytes:
  assumes "n \<le> length xs" "\<And>x s. f x s = Inr (g x s)"
  shows "rfold (\<lambda>i s. rbind (arr_get xs i) (\<lambda>x. f x s)) [0..<n] s = Inr (fold g (take n xs) s)"
  using assms(1)
  by (induction n) (simp_all add: rfold_upt_Suc take_Suc_conv_app_nth assms(2) del: upt_Suc)

lemma onewire_crc8_register:
  assumes "unat len \<le> length addr"
  shows "onewire_crc8 addr len = Inr (fold (\<lambda>b r. crc8_of (r XOR b)) (take (unat len) addr) 0)"
  unfolding onewire_crc8_def by (rule rfold_bytes [OF assms]) (simp add: crc8_byte_register)

lemma crc8_table_get: "arr_get dscrc_table (unat x) = Inr (crc8_of x)"
proof -
  have "length dscrc_table = 256" by (simp add: dscrc_table_def)
  then show ?thesis using u8_bound [of x] by (simp add: crc8_table_nth)
qed

lemma xor_right_cancel: "x XOR z = y XOR z \<longleftrightarrow> x = (y :: 'a::len word)"
  by (metis xor.assoc xor_self_eq xor.right_neutral)

lemma xor_left_cancel: "z XOR x = z XOR y \<longleftrightarrow> x = (y :: 'a::len word)"
  by (simp only: xor.commute [of z] xor_right_cancel)

lemma lfsr8_zero: "lfsr8 x = 0 \<Longrightarrow> x = 0"
proof -
  assume z: "lfsr8 x = 0"
  have "\<not> x AND 1 \<noteq> 0"
  proof
    assume "x AND 1 \<noteq> 0"
    then have "bit (drop_bit 1 x XOR 0x8C) 7 = bit (0 :: u8) 7" using z by (simp add: lfsr8_def)
    then show False by (auto simp: bit_simps dest: bit_imp_le_length)
  qed
  then have odd: "even x" and d: "drop_bit 1 x = 0"
    using z by (auto simp: lfsr8_def and_one_eq mod_2_eq_odd)
  have "bit x n = False" for n
    using odd d by (cases n) (auto simp: bit_0 bit_Suc bit_drop_bit_eq dest: arg_cong [where f = "\<lambda>w. bit w (n - 1)"])
  then show ?thesis by (simp add: bit_eq_iff)
qed

lemma crc8_of_inject: "crc8_of x = crc8_of y \<longleftrightarrow> x = y"
proof
  have zero: "(lfsr8 ^^ n) z = 0 \<Longrightarrow> z = 0" for n z
    by (induction n) (auto dest: lfsr8_zero)
  assume "crc8_of x = crc8_of y"
  then have "crc8_of (x XOR y) = 0" by (simp add: funpow_xor [OF lfsr8_xor])
  from zero [OF this] have z: "x XOR y = 0" .
  have "x = (x XOR y) XOR y" by (simp only: xor.assoc xor_self_eq xor.right_neutral)
  then show "x = y" by (simp only: z xor.left_neutral)
qed simp

section \<open>The 16-bit checksum as a shift register\<close>

definition lfsr16 :: "u16 \<Rightarrow> u16" where
  "lfsr16 x = (if x AND 1 \<noteq> 0 then drop_bit 1 x XOR 0xA001 else drop_bit 1 x)"

abbreviation crc16_of :: "u16 \<Rightarrow> u16" where
  "crc16_of x \<equiv> (lfsr16 ^^ 8) x"

definition parity_mask :: "nat \<Rightarrow> u16" where
  "parity_mask n = (if oddparity ! n \<noteq> 0 then 0xC001 else 0)"

lemma crc16_of_unfold: "crc16_of x = lfsr16 (lfsr16 (lfsr16 (lfsr16 (lfsr16 (lfsr16 (lfsr16 (lfsr16 x)))))))"
  by (simp add: numeral_eq_Suc)

lemma crc16_low_ok: "map (\<lambda>n. crc16_of (of_nat n)) [0..<16] = map (\<lambda>n. parity_mask n XOR push_bit 6 (of_nat n) XOR push_bit 7 (of_nat n)) [0..<16]"
  unfolding crc16_of_unfold by (simp add: upt_rec lfsr16_def parity_mask_def oddparity_def)

lemma crc16_high_ok: "map (\<lambda>n. crc16_of (of_nat (16 * n))) [0..<16] = map (\<lambda>n. parity_mask n XOR push_bit 6 (of_nat (16 * n)) XOR push_bit 7 (of_nat (16 * n))) [0..<16]"
  unfolding crc16_of_unfold by (simp add: upt_rec lfsr16_def parity_mask_def oddparity_def)


lemma crc16_low_nth: "n < 16 \<Longrightarrow> crc16_of (of_nat n) = parity_mask n XOR push_bit 6 (of_nat n) XOR push_bit 7 (of_nat n)"
  using crc16_low_ok by (simp add: list_eq_iff_nth_eq)

lemma crc16_high_nth:
  "n < 16 \<Longrightarrow> crc16_of (of_nat (16 * n)) = parity_mask n XOR push_bit 6 (of_nat (16 * n)) XOR push_bit 7 (of_nat (16 * n))"
  using crc16_high_ok by (simp add: list_eq_iff_nth_eq)

lemma lfsr16_xor: "lfsr16 (x XOR y) = lfsr16 x XOR lfsr16 y"
proof -
  have "(drop_bit 1 x XOR 0xA001) XOR (drop_bit 1 y XOR 0xA001) = drop_bit 1 x XOR drop_bit 1 y"
    by (rule bit_word_eqI) (auto simp: bit_simps)
  then show ?thesis
    by (cases "x AND 1 \<noteq> 0"; cases "y AND 1 \<noteq> 0") (simp_all only: lfsr16_def drop_bit_xor odd_xor_word if_True if_False simp_thms xor_ac)
qed

lemma push_bit_xor: "push_bit n (x XOR y) = push_bit n x XOR push_bit n (y :: 'a::len word)"
  by (rule bit_word_eqI) (auto simp: bit_simps)

lemma funpow_xor16: "(lfsr16 ^^ n) (x XOR y) = (lfsr16 ^^ n) x XOR (lfsr16 ^^ n) y"
  by (induction n) (simp_all add: lfsr16_xor)

lemma lfsr16_shift: "(\<And>i. i < n \<Longrightarrow> \<not> bit x i) \<Longrightarrow> (lfsr16 ^^ n) x = drop_bit n x"
proof (induction n)
  case (Suc n)
  then have "drop_bit n x AND 1 = 0" by (simp add: and_one_eq mod_2_eq_odd flip: bit_iff_odd_drop_bit)
  with Suc show ?case by (simp add: lfsr16_def)
qed simp

lemma parity_masks:
  assumes "l < 16" "h < 16"
  shows "(if oddparity ! l XOR oddparity ! h \<noteq> 0 then a XOR 0xC001 else a) = a XOR (parity_mask l XOR parity_mask h)"
proof -
  have "oddparity ! n \<in> {0, 1}" if "n < 16" for n
    using that nth_mem [of n oddparity] by (auto simp: oddparity_def)
  from this [OF assms(1)] this [OF assms(2)] show ?thesis by (auto simp: parity_mask_def)
qed

text \<open>One byte of the parity-based routine is eight steps of the register.\<close>

lemma crc16_byte_register: "crc16_byte b crc = Inr (crc16_of (crc XOR ucast b))"
proof -
  define x :: u16 where "x = crc XOR ucast b"
  define c where "c = x AND 0xFF"
  have byte_mask: "(0xFF :: u16) = mask 8" by (simp add: mask_eq_exp_minus_1)
  let ?l = "unat c mod 16" and ?h = "unat c div 16"
  have c: "unat c < 256"
    unfolding c_def using word_and_le1 [of x "0xFF"] by (simp add: word_le_nat_alt)
  have m: "c AND 0xF = take_bit 4 c" by (simp add: take_bit_eq_mask mask_eq_exp_minus_1)
  have ix: "unat (c AND 0xF) = ?l" "unat (drop_bit 4 c) = ?h"
    unfolding m by (simp_all only: unat_drop_bit_eq unsigned_take_bit_eq drop_bit_eq_div [where 'a = nat]
        take_bit_eq_mod [where 'a = nat]) simp_all
  have b: "?l < 16" "?h < 16" "length oddparity = 16" using c by (simp_all add: oddparity_def)
  have hi: "drop_bit 8 crc = drop_bit 8 (x XOR c)"
    unfolding x_def c_def by (rule bit_word_eqI) (auto simp: bit_simps dest: bit_imp_le_length)
  have c': "(ucast b XOR crc) AND 0xFF = c" by (simp add: c_def x_def xor.commute)
  have "crc16_of (x XOR c) = drop_bit 8 (x XOR c)"
    unfolding c_def byte_mask by (rule lfsr16_shift) (auto simp: bit_simps)
  moreover have "crc16_of c = (parity_mask ?l XOR parity_mask ?h) XOR push_bit 6 c XOR push_bit 7 c"
    unfolding arg_cong [OF word_by_nibbles [of c], of crc16_of]
      arg_cong [OF word_by_nibbles [of c], of "push_bit 6"] arg_cong [OF word_by_nibbles [of c], of "push_bit 7"]
    by (simp only: funpow_xor16 crc16_low_nth crc16_high_nth b push_bit_xor xor_ac)
  moreover have "x = (x XOR c) XOR c" by (simp only: xor.assoc xor_self_eq xor.right_neutral)
  ultimately have "crc16_of x
      = drop_bit 8 (x XOR c) XOR ((parity_mask ?l XOR parity_mask ?h) XOR push_bit 6 c XOR push_bit 7 c)"
    by (metis funpow_xor16)
  moreover have "push_bit 1 (push_bit 6 c) = push_bit 7 c" by simp
  ultimately show ?thesis
    unfolding crc16_byte_def c' Let_def ix hi using b
    by (simp only: arr_get_in rbind_Inr parity_masks x_def [symmetric] xor_ac)
qed

lemma onewire_crc16_register:
  assumes "unat len \<le> length inp"
  shows "onewire_crc16 inp len crc
    = Inr (fold (\<lambda>b r. crc16_of (r XOR ucast b)) (take (unat len) inp) crc)"
  unfolding onewire_crc16_def by (rule rfold_bytes [OF assms]) (rule crc16_byte_register)

section \<open>What the checksums guarantee\<close>

abbreviation crc8_fold :: "bytes \<Rightarrow> u8 \<Rightarrow> u8" where
  "crc8_fold data r \<equiv> fold (\<lambda>b r. crc8_of (r XOR b)) data r"

lemma crc8_fold_inject: "crc8_fold data r = crc8_fold data r' \<longleftrightarrow> r = r'"
  by (induction data arbitrary: r r') (simp_all add: crc8_of_inject xor_right_cancel)

text \<open>C30: The checksum compiled from the bitwise loop and the one selected by \<open>ONEWIRE_CRC8_TABLE\<close> are the
  same function, on every buffer and for every length, those beyond the buffer included.\<close>

theorem crc8_variants_agree: "onewire_crc8_table addr len = onewire_crc8 addr len"
  by (simp add: onewire_crc8_def onewire_crc8_table_def crc8_table_get crc8_byte_register)

text \<open>C31: The 16-bit checksum routine, which folds a byte at a time with a parity table, computes the register
  with polynomial \<open>0xA001\<close> shifted bit by bit, from every starting value.\<close>

theorem crc16_is_shift_register:
  assumes "unat len \<le> length inp"
  shows "onewire_crc16 inp len crc
    = Inr (fold (\<lambda>b r. (lfsr16 ^^ 8) (r XOR ucast b)) (take (unat len) inp) crc)"
  by (rule onewire_crc16_register [OF assms])

theorem crc16_is_shift_register_witness:
  "onewire_crc16 [0x12, 0x34] 1 0 = Inr (fold (\<lambda>b r. (lfsr16 ^^ 8) (r XOR ucast b)) [0x12 :: u8] 0)"
  using crc16_is_shift_register [of 1 "[0x12, 0x34]" 0] by simp

text \<open>C32: A received block whose last byte is its checksum passes, and it is the only last byte that does; a
  change of any single byte of a block, however many of its bits, changes the checksum.\<close>

theorem crc8_detects_byte_errors:
  assumes "unat len = length pre + length post + 1" "a \<noteq> b"
  shows "\<exists>c. onewire_crc8 (pre @ post) (len - 1) = Inr c
    \<and> (\<forall>d. onewire_crc8 (pre @ post @ [d]) len = Inr 0 \<longleftrightarrow> d = c)
    \<and> onewire_crc8 (pre @ a # post) len \<noteq> onewire_crc8 (pre @ b # post) len"
proof -
  have len: "unat len = length pre + length post + 1" "unat (len - 1) = length pre + length post"
    using assms(1) unat_sub_no_wrap [of 1 len] by (simp_all add: word_le_nat_alt)
  have zero: "crc8_of x = 0 \<longleftrightarrow> x = 0" for x
    using crc8_of_inject [of x 0] by (simp add: crc8_of_unfold lfsr8_def)
  have "(x XOR d = 0) = (d = x)" for x d :: u8
    using xor_right_cancel [of x d d] by auto
  with assms(2) show ?thesis
    by (simp add: onewire_crc8_register len zero crc8_fold_inject crc8_of_inject xor_left_cancel)
qed

theorem crc8_detects_byte_errors_witness:
  "\<exists>c. onewire_crc8 [0x28, 0x01] 2 = Inr c
    \<and> (\<forall>d. onewire_crc8 [0x28, 0x01, d] 3 = Inr 0 \<longleftrightarrow> d = c)
    \<and> onewire_crc8 [0x28, 0x00, 0x01] 3 \<noteq> onewire_crc8 [0x28, 0xFF, 0x01] 3"
  using crc8_detects_byte_errors [of 3 "[0x28]" "[0x01]" "0x00" "0xFF"] by simp

section \<open>How a write leaves the line\<close>

text \<open>Whether the controller drives a pin, and to which level.\<close>

fun pin_output :: "nat \<Rightarrow> pin_event \<Rightarrow> bool \<times> bool \<Rightarrow> bool \<times> bool" where
  "pin_output n (GpioOutputSet set_mask clear_mask en dis) (enabled, l) =
     (if bit dis n then False else if bit en n then True else enabled,
      if bit set_mask n then True else if bit clear_mask n then False else l)"
| "pin_output n _ out = out"

text \<open>A bus that records what the controller does.\<close>

definition log_bus :: "pin_event list ow_bus" where
  "log_bus = \<lparr>drive = (\<lambda>e evs. evs @ [e]), level = (\<lambda>n evs. (True, evs))\<rparr>"

lemma log_bus_do: "ow_do log_bus evs b = b @ evs"
  unfolding ow_do_def by (induction evs arbitrary: b) (simp_all add: log_bus_def)

lemma let_float_drives_low:
  assumes "n < 32"
  shows "fold (pin_output n) [IntrLock, gpio_dis_output n, gpio_output_set n 0, IntrUnlock] out = (True, False)"
proof -
  have "bit (push_bit n 1 :: u32) n" using assms by (simp add: bit_exp_iff possible_bit_word)
  moreover have "\<not> bit (push_bit n 0 :: u32) n" "\<not> bit (0 :: u32) n" by simp_all
  moreover have "NOT 0 AND 1 = (1 :: u32)" by simp
  ultimately show ?thesis
    by (cases out) (simp only: fold_simps gpio_dis_output_def gpio_output_set_def pin_output.simps if_True if_False simp_thms)
qed

text \<open>After a write without power the controller drives the line low: the macro that clears the output
  latch enables the output again, so the line is not left floating as the comment on the
  function and its caller's need of an idle (high) line have it.\<close>

theorem write_leaves_line_low:
  assumes "pin < 13"
  shows "fold (pin_output (ow_pin pin)) (onewire_write log_bus pin v False evs) (enabled, l) = (True, False)"
proof -
  have "ucast pin < NUM_GPIO"
    using assms by (simp add: NUM_GPIO_def word_less_nat_alt)
  then have "ow_pin pin < 32" using phys_cases by fastforce
  from let_float_drives_low [OF this] show ?thesis
    unfolding onewire_write_def Let_def log_bus_do let_float_def by simp
qed

theorem write_leaves_line_low_witness:
  "fold (pin_output (ow_pin 4)) (onewire_write log_bus 4 0xCC False []) (False, True) = (True, False)"
  using write_leaves_line_low [of 4] by simp

end
