(* ===== verification/Onewire_Search.thy ===== *)
theory Onewire_Search
  imports Onewire "HOL-Library.List_Lexorder"
begin

text \<open>
  The device search of the 1-Wire driver (\<open>onewire_search\<close> and its companions in \<open>driver/onewire.c\<close>). The
  search state of a pin is a record; the four arrays of the source are a list of such records,
  indexed by the pin. The devices are outside the program: \<open>rom_bus\<close> states how they answer the
  search command, and \<open>slave_bus\<close> is a simulation of such devices at the level of pin accesses and
  delays that satisfies it. The theorem is that repeated searches deliver each device of the bus
  exactly once, in ascending order of the addresses read as bit strings, and then report the end.
\<close>

section \<open>Search state and operations\<close>

record ow_search =
  ROM_NO :: bytes
  LastDiscrepancy :: nat
  LastFamilyDiscrepancy :: nat
  LastDeviceFlag :: bool

definition onewire_reset_search :: "ow_search \<Rightarrow> ow_search" where
  "onewire_reset_search st = st\<lparr>LastDiscrepancy := 0, LastDeviceFlag := False, LastFamilyDiscrepancy := 0,
     ROM_NO := replicate 8 0\<rparr>"

definition onewire_target_search :: "u8 \<Rightarrow> ow_search \<Rightarrow> ow_search" where
  "onewire_target_search family_code st = st\<lparr>ROM_NO := family_code # replicate 7 0,
     LastDiscrepancy := 64, LastFamilyDiscrepancy := 0, LastDeviceFlag := False\<rparr>"

definition onewire_init :: "'b ow_bus \<Rightarrow> u8 \<Rightarrow> ow_search \<Rightarrow> 'b \<Rightarrow> ow_search \<times> 'b" where
  "onewire_init bus pin st b =
     (onewire_reset_search st,
      ow_do bus (snd (platform_gpio_mode (ucast pin) PLATFORM_GPIO_INPUT PLATFORM_GPIO_PULLUP)) b)"

text \<open>The counters that are reset when no device is found.\<close>

definition forget_search :: "ow_search \<Rightarrow> ow_search" where
  "forget_search st = st\<lparr>LastDiscrepancy := 0, LastDeviceFlag := False, LastFamilyDiscrepancy := 0\<rparr>"

text \<open>
  The local variables of the search loop. The bit counter runs from 1 to 65 and the others stay
  below it, so the 8-bit arithmetic of the source is exact; the mask is kept as a byte, because
  the loop relies on its becoming 0.
\<close>

record search_locals =
  id_bit_number :: nat
  last_zero :: nat
  rom_byte_number :: nat
  rom_byte_mask :: u8

definition search_start :: search_locals where
  "search_start = \<lparr>id_bit_number = 1, last_zero = 0, rom_byte_number = 0, rom_byte_mask = 1\<rparr>"

text \<open>The choice at a bit: the direction, and the counters if it was a discrepancy.\<close>

definition choose_direction ::
  "bool \<Rightarrow> bool \<Rightarrow> u8 \<Rightarrow> search_locals \<Rightarrow> ow_search \<Rightarrow> bool \<times> search_locals \<times> ow_search" where
  "choose_direction id_bit cmp_id_bit rom_byte l st =
     (if id_bit \<noteq> cmp_id_bit then (id_bit, l, st)
      else
        let dir = (if id_bit_number l < LastDiscrepancy st then rom_byte AND rom_byte_mask l \<noteq> 0
                   else id_bit_number l = LastDiscrepancy st) in
        if \<not> dir then
          (dir, l\<lparr>last_zero := id_bit_number l\<rparr>,
           if id_bit_number l < 9 then st\<lparr>LastFamilyDiscrepancy := id_bit_number l\<rparr> else st)
        else (dir, l, st))"

definition next_bit :: "search_locals \<Rightarrow> search_locals" where
  "next_bit l =
     (let l = l\<lparr>id_bit_number := id_bit_number l + 1, rom_byte_mask := push_bit 1 (rom_byte_mask l)\<rparr> in
      if rom_byte_mask l = 0 then l\<lparr>rom_byte_number := rom_byte_number l + 1, rom_byte_mask := 1\<rparr> else l)"

text \<open>One pass of the loop body; the flag reports the break.\<close>

definition search_bit ::
  "'b ow_bus \<Rightarrow> u8 \<Rightarrow> search_locals \<Rightarrow> ow_search \<Rightarrow> 'b \<Rightarrow> (bool \<times> search_locals \<times> ow_search \<times> 'b) result" where
  "search_bit bus pin l st b =
     (case onewire_read_bit bus pin b of (id_bit, b) \<Rightarrow>
      case onewire_read_bit bus pin b of (cmp_id_bit, b) \<Rightarrow>
      if id_bit \<and> cmp_id_bit then Inr (True, l, st, b)
      else
        rbind (arr_get (ROM_NO st) (rom_byte_number l)) (\<lambda>rom_byte.
        case choose_direction id_bit cmp_id_bit rom_byte l st of (dir, l, st) \<Rightarrow>
        rbind (arr_set (ROM_NO st) (rom_byte_number l)
                (if dir then rom_byte OR rom_byte_mask l else rom_byte AND NOT (rom_byte_mask l))) (\<lambda>rom.
        Inr (False, next_bit l, st\<lparr>ROM_NO := rom\<rparr>, onewire_write_bit bus pin dir b))))"

text \<open>The fuel bounds the passes; 64 are enough for eight bytes of eight bits.\<close>

fun search_loop ::
  "'b ow_bus \<Rightarrow> u8 \<Rightarrow> nat \<Rightarrow> search_locals \<Rightarrow> ow_search \<Rightarrow> 'b \<Rightarrow> (search_locals \<times> ow_search \<times> 'b) result" where
  "search_loop bus pin 0 l st b = Inr (l, st, b)"
| "search_loop bus pin (Suc n) l st b =
     rbind (search_bit bus pin l st b) (\<lambda>(stop, l, st, b).
     if \<not> stop \<and> rom_byte_number l < 8 then search_loop bus pin n l st b else Inr (l, st, b))"

text \<open>
  The result is whether a device was found, the eight bytes written through \<open>newAddr\<close> (none on the early
  return after a failed reset) and the new state.
\<close>

definition search_finish :: "bool \<Rightarrow> ow_search \<Rightarrow> 'b \<Rightarrow> (bool \<times> bytes option \<times> ow_search \<times> 'b) result" where
  "search_finish search_result st b =
     rbind (arr_get (ROM_NO st) 0) (\<lambda>family.
     if \<not> search_result \<or> family = 0 then Inr (False, Some (ROM_NO st), forget_search st, b)
     else Inr (True, Some (ROM_NO st), st, b))"

definition onewire_search ::
  "'b ow_bus \<Rightarrow> u8 \<Rightarrow> ow_search \<Rightarrow> 'b \<Rightarrow> (bool \<times> bytes option \<times> ow_search \<times> 'b) result" where
  "onewire_search bus pin st b =
     (if LastDeviceFlag st then search_finish False st b
      else
        case onewire_reset bus pin b of
          (False, b) \<Rightarrow> Inr (False, None, forget_search st, b)
        | (True, b) \<Rightarrow>
            rbind (search_loop bus pin 64 search_start st (onewire_write bus pin 0xF0 False b)) (\<lambda>(l, st, b).
            if \<not> id_bit_number l < 65 then
              search_finish True
                (st\<lparr>LastDiscrepancy := last_zero l,
                    LastDeviceFlag := (if last_zero l = 0 then True else LastDeviceFlag st)\<rparr>) b
            else search_finish False st b))"

section \<open>The devices\<close>

text \<open>
  A device is its address, 64 bits in the order of transmission. Between two time slots the
  bus is in one of these phases; inside a slot it has no phase. In \<open>SendBit k A\<close> the devices in \<open>A\<close> are
  still taking part and are about to send bit \<open>k\<close>.
\<close>

datatype rom_phase =
    Quiet
  | Command "bool list"
  | SendBit nat "bool list set"
  | SendComplement nat "bool list set"
  | AwaitBit nat "bool list set"

text \<open>
  The search protocol as the devices' documentation gives it: every device answers a reset, the
  search command starts with all of them, a transmitted bit reads as 1 only if no device
  pulls the line low, and a device drops out when the written bit differs from its own.
\<close>

definition rom_bus :: "'b ow_bus \<Rightarrow> u8 \<Rightarrow> bool list set \<Rightarrow> ('b \<Rightarrow> rom_phase option) \<Rightarrow> bool" where
  "rom_bus bus pin D view \<longleftrightarrow>
     (\<forall>b. view b \<noteq> None \<longrightarrow> (\<exists>b'. onewire_reset bus pin b = (D \<noteq> {}, b') \<and> view b' = Some (Command [])))
   \<and> (\<forall>b. view b = Some (Command []) \<longrightarrow> view (onewire_write bus pin 0xF0 False b) = Some (SendBit 0 D))
   \<and> (\<forall>b k A. view b = Some (SendBit k A) \<longrightarrow>
        (\<exists>b'. onewire_read_bit bus pin b = ((\<forall>d\<in>A. d ! k), b') \<and> view b' = Some (SendComplement k A)))
   \<and> (\<forall>b k A. view b = Some (SendComplement k A) \<longrightarrow>
        (\<exists>b'. onewire_read_bit bus pin b = ((\<forall>d\<in>A. \<not> d ! k), b') \<and> view b' = Some (AwaitBit k A)))
   \<and> (\<forall>b k A v. view b = Some (AwaitBit k A) \<longrightarrow>
        view (onewire_write_bit bus pin v b) = Some (SendBit (Suc k) {d \<in> A. d ! k = v}))"

text \<open>The bits of an address, least significant bit of the first byte first.\<close>

definition rom_bit :: "bytes \<Rightarrow> nat \<Rightarrow> bool" where
  "rom_bit rom k = bit (rom ! (k div 8)) (k mod 8)"

definition rom_bits :: "bytes \<Rightarrow> bool list" where
  "rom_bits rom = map (rom_bit rom) [0..<64]"

text \<open>Calling the search again and again: the addresses found, none where it reports failure.\<close>

fun searches :: "'b ow_bus \<Rightarrow> u8 \<Rightarrow> nat \<Rightarrow> ow_search \<Rightarrow> 'b \<Rightarrow> bytes option list result" where
  "searches bus pin 0 st b = Inr []"
| "searches bus pin (Suc n) st b =
     rbind (onewire_search bus pin st b) (\<lambda>(found, addr, st, b).
     rbind (searches bus pin n st b) (\<lambda>addrs. Inr ((if found then addr else None) # addrs)))"

section \<open>The choices of one search\<close>

text \<open>The devices that agree with a path on its first bits, and whether they differ in the next one.\<close>

definition sharing :: "bool list set \<Rightarrow> bool list \<Rightarrow> nat \<Rightarrow> bool list set" where
  "sharing D p k = {d \<in> D. \<forall>i<k. d ! i = p ! i}"

definition mixed :: "bool list set \<Rightarrow> bool list \<Rightarrow> nat \<Rightarrow> bool" where
  "mixed D p k \<longleftrightarrow> (\<exists>d \<in> sharing D p k. d ! k) \<and> (\<exists>d \<in> sharing D p k. \<not> d ! k)"

abbreviation zero_choice :: "bool list set \<Rightarrow> bool list \<Rightarrow> nat \<Rightarrow> bool" where
  "zero_choice D p k \<equiv> mixed D p k \<and> \<not> p ! k"

definition last_mark :: "(nat \<Rightarrow> bool) \<Rightarrow> nat list \<Rightarrow> nat \<Rightarrow> nat" where
  "last_mark Z ks lz = fold (\<lambda>k lz. if Z k then Suc k else lz) ks lz"

lemma last_mark_zero: "last_mark Z [0..<n] 0 = 0 \<longleftrightarrow> (\<forall>i<n. \<not> Z i)"
  by (induction n) (auto simp: last_mark_def less_Suc_eq)

lemma last_mark_Suc: "last_mark Z [0..<n] 0 = Suc q \<longleftrightarrow> q < n \<and> Z q \<and> (\<forall>i<n. Z i \<longrightarrow> i \<le> q)"
proof (induction n)
  case (Suc n)
  then show ?case
    by (cases "Z n") (auto simp: last_mark_def less_Suc_eq)
qed (simp add: last_mark_def)

text \<open>The position after the last discrepancy at which the path takes the 0, or 0.\<close>

definition zero_mark :: "bool list set \<Rightarrow> bool list \<Rightarrow> nat" where
  "zero_mark D p = last_mark (zero_choice D p) [0..<64] 0"

lemma zero_mark_zero: "zero_mark D p = 0 \<longleftrightarrow> (\<forall>i<64. \<not> zero_choice D p i)"
  unfolding zero_mark_def by (rule last_mark_zero)

lemma zero_mark_Suc:
  "zero_mark D p = Suc q \<longleftrightarrow> q < 64 \<and> zero_choice D p q \<and> (\<forall>i<64. zero_choice D p i \<longrightarrow> i \<le> q)"
  unfolding zero_mark_def by (rule last_mark_Suc)

text \<open>The path a search takes, given the address found last and the mark it left.\<close>

definition chosen :: "bool list set \<Rightarrow> bool list \<Rightarrow> nat \<Rightarrow> bool list \<Rightarrow> bool" where
  "chosen D r ld p \<longleftrightarrow> p \<in> D \<and>
     (\<forall>i<64. mixed D p i \<longrightarrow> p ! i = (if Suc i < ld then r ! i else Suc i = ld))"

lemma bits_less_iff:
  assumes "length p = length e"
  shows "p < e \<longleftrightarrow> (\<exists>i<length e. (\<forall>j<i. p ! j = e ! j) \<and> \<not> p ! i \<and> e ! i)"
proof -
  have "take i p = take i e \<longleftrightarrow> (\<forall>j<i. p ! j = e ! j)" if "i < length e" for i
    using that assms by (auto simp: list_eq_iff_nth_eq)
  then show ?thesis
    using assms by (auto simp: list_less_def lexord_take_index_conv)
qed

lemma sharing_cong: "(\<And>j. j < k \<Longrightarrow> p ! j = e ! j) \<Longrightarrow> sharing D p k = sharing D e k"
  by (auto simp: sharing_def)

lemma mixed_cong: "(\<And>j. j < k \<Longrightarrow> p ! j = e ! j) \<Longrightarrow> mixed D p k = mixed D e k"
  using sharing_cong [of k p e D] by (simp add: mixed_def)

lemma mixedI: "d \<in> D \<Longrightarrow> p \<in> D \<Longrightarrow> (\<And>j. j < k \<Longrightarrow> d ! j = p ! j) \<Longrightarrow> d ! k \<noteq> p ! k \<Longrightarrow> mixed D p k"
  unfolding mixed_def sharing_def by auto

text \<open>The first search finds the least address.\<close>

lemma first_least:
  assumes "chosen D r 0 p" "e \<in> D" "length p = 64" "length e = 64"
  shows "p \<le> e"
proof (rule ccontr)
  assume "\<not> p \<le> e"
  then obtain i where i: "i < 64" "\<forall>j<i. e ! j = p ! j" "\<not> e ! i" "p ! i"
    using assms by (auto simp: not_le bits_less_iff)
  then have "mixed D p i"
    using assms by (intro mixedI [of e]) (auto simp: chosen_def)
  with i assms(1) show False by (auto simp: chosen_def)
qed

text \<open>A later search finds the next address after the previous one.\<close>

lemma next_agrees:
  assumes "chosen D r (Suc q) p" "r \<in> D" "i < q" "q < 64"
  shows "p ! i = r ! i"
  using assms(3)
proof (induction i rule: less_induct)
  case (less i)
  then have agree: "\<And>j. j < i \<Longrightarrow> r ! j = p ! j" by simp
  show ?case
  proof (rule ccontr)
    assume "p ! i \<noteq> r ! i"
    then have "mixed D p i"
      using assms agree by (intro mixedI [of r]) (auto simp: chosen_def)
    with assms less.prems \<open>p ! i \<noteq> r ! i\<close> show False by (auto simp: chosen_def)
  qed
qed

lemma next_least:
  assumes "chosen D r (Suc q) p" "r \<in> D" "q < 64" "zero_choice D r q"
    "\<forall>i<64. zero_choice D r i \<longrightarrow> i \<le> q" "\<forall>d\<in>D. length d = 64"
  shows "r < p \<and> (\<forall>e\<in>D. r < e \<longrightarrow> p \<le> e)"
proof -
  have agree: "p ! i = r ! i" if "i < q" for i using next_agrees assms that by blast
  then have "mixed D p q" using assms(4) mixed_cong [of q p r D] by simp
  with assms(1,3) have pq: "p ! q" by (auto simp: chosen_def)
  have D: "p \<in> D" "length p = 64" "length r = 64" using assms by (auto simp: chosen_def)
  have "p \<le> e" if e: "e \<in> D" "r < e" for e
  proof (rule ccontr)
    have le: "length e = 64" using e assms(6) by simp
    obtain j where j: "j < 64" "\<forall>i<j. r ! i = e ! i" "\<not> r ! j" "e ! j"
      using e le D by (auto simp: bits_less_iff)
    have "mixed D r j" using mixedI [of e D r j] e j assms(2) by auto
    with j assms(5) have jq: "j \<le> q" by blast
    assume "\<not> p \<le> e"
    then obtain k where k: "k < 64" "\<forall>i<k. e ! i = p ! i" "\<not> e ! k" "p ! k"
      using le D by (auto simp: not_le bits_less_iff)
    have "mixed D p k" using mixedI [of e D p k] e k D by auto
    with k assms(1) have "k < q \<or> k = q" by (auto simp: chosen_def split: if_splits)
    then show False using agree k j jq pq by (metis linorder_neqE_nat nat_less_le less_le_trans)
  qed
  moreover have "r < p"
    using assms(3,4) agree pq D by (auto simp: bits_less_iff)
  ultimately show ?thesis by blast
qed

lemma last_greatest:
  assumes "p \<in> D" "e \<in> D" "\<forall>i<64. \<not> zero_choice D p i" "length p = 64" "length e = 64"
  shows "e \<le> p"
proof (rule ccontr)
  assume "\<not> e \<le> p"
  then obtain i where i: "i < 64" "\<forall>j<i. p ! j = e ! j" "\<not> p ! i" "e ! i"
    using assms by (auto simp: not_le bits_less_iff)
  with assms mixedI [of e D p i] show False by auto
qed

section \<open>The loop takes the chosen path\<close>

definition locals_at :: "nat \<Rightarrow> nat \<Rightarrow> search_locals" where
  "locals_at k lz = \<lparr>id_bit_number = Suc k, last_zero = lz, rom_byte_number = k div 8,
     rom_byte_mask = push_bit (k mod 8) 1\<rparr>"

lemma search_start_at: "search_start = locals_at 0 0"
  by (simp add: search_start_def locals_at_def)

lemma next_bit_at: "next_bit (locals_at k lz) = locals_at (Suc k) lz"
proof -
  have shift: "push_bit 1 (push_bit (k mod 8) (1 :: u8)) = push_bit (Suc (k mod 8)) 1"
    by simp
  have "k mod 8 < 8" by simp
  show ?thesis
  proof (cases "k mod 8 = 7")
    case True
    then have "Suc k mod 8 = 0" "Suc k div 8 = Suc (k div 8)" by (simp_all add: mod_Suc div_Suc)
    moreover have "push_bit (Suc (k mod 8)) (1 :: u8) = 0" using True by simp
    ultimately show ?thesis
      unfolding next_bit_def locals_at_def Let_def by (simp only: shift search_locals.simps if_True) simp
  next
    case False
    then have "Suc k mod 8 = Suc (k mod 8)" "Suc k div 8 = k div 8" by (simp_all add: mod_Suc div_Suc)
    moreover have "push_bit (Suc (k mod 8)) (1 :: u8) \<noteq> 0"
    proof
      assume "push_bit (Suc (k mod 8)) (1 :: u8) = 0"
      then have "bit (push_bit (Suc (k mod 8)) (1 :: u8)) (Suc (k mod 8)) = False" by simp
      with False \<open>k mod 8 < 8\<close> show False by (simp only: bit_push_bit_iff possible_bit_word) simp
    qed
    ultimately show ?thesis
      unfolding next_bit_def locals_at_def Let_def by (simp only: shift search_locals.simps if_False) simp
  qed
qed

lemma mask_test: "k < 8 \<Longrightarrow> (x AND push_bit k 1 \<noteq> (0 :: u8)) = bit x k"
  by (simp only: bit_iff_and_push_bit_not_eq_0 [symmetric])

lemma set_byte_bit:
  assumes "\<And>j. bit m j \<longleftrightarrow> j = n" "j < 8"
  shows "bit (if v then x OR m else x AND NOT m :: u8) j = (if j = n then v else bit x j)"
  using assms by (auto simp: bit_or_iff bit_and_iff bit_not_iff_eq possible_bit_word)

lemma rom_bit_update:
  assumes "length rom = 8" "k < 64"
  shows "rom_bit (rom[k div 8 := (if v then rom ! (k div 8) OR push_bit (k mod 8) 1
                            else rom ! (k div 8) AND NOT (push_bit (k mod 8) 1))]) i
    = (if i = k then v else rom_bit rom i)"
proof (cases "i div 8 = k div 8")
  case True
  then have "i = k \<longleftrightarrow> i mod 8 = k mod 8" by (metis div_mult_mod_eq)
  moreover have "bit (push_bit (k mod 8) (1 :: u8)) j \<longleftrightarrow> j = k mod 8" for j
    by (auto simp: bit_exp_iff possible_bit_word)
  moreover have "k div 8 < 8" "i mod 8 < 8" using assms(2) by simp_all
  ultimately show ?thesis
    using True assms(1) by (simp only: rom_bit_def nth_list_update_eq set_byte_bit)
next
  case False
  then show ?thesis by (auto simp: rom_bit_def)
qed

lemma rom_busD:
  assumes "rom_bus bus pin D view"
  shows "view b \<noteq> None \<Longrightarrow> \<exists>b'. onewire_reset bus pin b = (D \<noteq> {}, b') \<and> view b' = Some (Command [])"
    "view b = Some (Command []) \<Longrightarrow> view (onewire_write bus pin 0xF0 False b) = Some (SendBit 0 D)"
    "view b = Some (SendBit k A) \<Longrightarrow>
       \<exists>b'. onewire_read_bit bus pin b = ((\<forall>d\<in>A. d ! k), b') \<and> view b' = Some (SendComplement k A)"
    "view b = Some (SendComplement k A) \<Longrightarrow>
       \<exists>b'. onewire_read_bit bus pin b = ((\<forall>d\<in>A. \<not> d ! k), b') \<and> view b' = Some (AwaitBit k A)"
    "view b = Some (AwaitBit k A) \<Longrightarrow>
       view (onewire_write_bit bus pin v b) = Some (SendBit (Suc k) {d \<in> A. d ! k = v})"
  using assms unfolding rom_bus_def by blast+

text \<open>The rule of the source for one bit, on the devices still taking part.\<close>

definition direction :: "bool list set \<Rightarrow> nat \<Rightarrow> ow_search \<Rightarrow> bool" where
  "direction A k st =
     (if \<forall>d\<in>A. d ! k then True else if \<forall>d\<in>A. \<not> d ! k then False
      else if Suc k < LastDiscrepancy st then rom_bit (ROM_NO st) k else Suc k = LastDiscrepancy st)"

lemma direction_survivors: "A \<noteq> {} \<Longrightarrow> {d \<in> A. d ! k = direction A k st} \<noteq> {}"
  by (auto simp: direction_def)

definition same_marks :: "ow_search \<Rightarrow> ow_search \<Rightarrow> bool" where
  "same_marks st st' \<longleftrightarrow> LastDiscrepancy st' = LastDiscrepancy st \<and> LastDeviceFlag st' = LastDeviceFlag st"

lemma choose_direction_at:
  assumes "A \<noteq> {}"
  shows "\<exists>st'. choose_direction (\<forall>d\<in>A. d ! k) (\<forall>d\<in>A. \<not> d ! k) (ROM_NO st ! (k div 8)) (locals_at k lz) st
      = (direction A k st, locals_at k (if (\<exists>d\<in>A. d ! k) \<and> (\<exists>d\<in>A. \<not> d ! k) \<and> \<not> direction A k st
                                   then Suc k else lz), st')
    \<and> same_marks st st' \<and> ROM_NO st' = ROM_NO st"
proof -
  have mask: "(ROM_NO st ! (k div 8) AND rom_byte_mask (locals_at k lz) \<noteq> 0) = rom_bit (ROM_NO st) k"
    by (simp only: locals_at_def search_locals.simps mask_test rom_bit_def mod_less_divisor zero_less_numeral)
  have upd: "id_bit_number (locals_at k lz) = Suc k" "(locals_at k lz)\<lparr>last_zero := z\<rparr> = locals_at k z" for z
    by (simp_all add: locals_at_def)
  show ?thesis
  proof (cases "(\<forall>d\<in>A. d ! k) = (\<forall>d\<in>A. \<not> d ! k)")
    case True
    with assms have eqs: "(\<forall>d\<in>A. d ! k) = False" "(\<forall>d\<in>A. \<not> d ! k) = False" "(\<exists>d\<in>A. d ! k) = True" "(\<exists>d\<in>A. \<not> d ! k) = True"
      by auto
    show ?thesis
      unfolding choose_direction_def mask upd Let_def direction_def eqs by (simp add: same_marks_def)
  next
    case False
    with assms show ?thesis
      unfolding choose_direction_def direction_def by (auto simp: same_marks_def)
  qed
qed

lemma search_bit_step:
  assumes bus: "rom_bus bus pin D view" and view: "view b = Some (SendBit k A)" "A \<noteq> {}"
    and rom: "length (ROM_NO st) = 8" "k < 64"
  shows "\<exists>st' b'. search_bit bus pin (locals_at k lz) st b
      = Inr (False, locals_at (Suc k) (if (\<exists>d\<in>A. d ! k) \<and> (\<exists>d\<in>A. \<not> d ! k) \<and> \<not> direction A k st
                                   then Suc k else lz), st', b')
    \<and> view b' = Some (SendBit (Suc k) {d \<in> A. d ! k = direction A k st})
    \<and> same_marks st st' \<and> length (ROM_NO st') = 8
    \<and> (\<forall>i<64. rom_bit (ROM_NO st') i = (if i = k then direction A k st else rom_bit (ROM_NO st) i))"
proof -
  let ?all1 = "\<forall>d\<in>A. d ! k" and ?all0 = "\<forall>d\<in>A. \<not> d ! k"
  let ?byte = "ROM_NO st ! (k div 8)" and ?m = "push_bit (k mod 8) (1 :: u8)" and ?dir = "direction A k st"
  let ?lz = "if (\<exists>d\<in>A. d ! k) \<and> (\<exists>d\<in>A. \<not> d ! k) \<and> \<not> ?dir then Suc k else lz"
  obtain b1 where b1: "onewire_read_bit bus pin b = (?all1, b1)" "view b1 = Some (SendComplement k A)"
    using rom_busD(3) [OF bus view(1)] by blast
  obtain b2 where b2: "onewire_read_bit bus pin b1 = (?all0, b2)" "view b2 = Some (AwaitBit k A)"
    using rom_busD(4) [OF bus b1(2)] by blast
  have one: "\<not> (?all1 \<and> ?all0)" using view(2) by blast
  have at: "rom_byte_number (locals_at k z) = k div 8" "rom_byte_mask (locals_at k z) = ?m" "k div 8 < length (ROM_NO st)" for z
    using rom by (simp_all add: locals_at_def)
  obtain st1 where st1: "same_marks st st1" "ROM_NO st1 = ROM_NO st"
    and ch: "choose_direction ?all1 ?all0 ?byte (locals_at k lz) st = (?dir, locals_at k ?lz, st1)"
    using choose_direction_at [OF view(2)] by blast
  let ?rom = "(ROM_NO st)[k div 8 := (if ?dir then ?byte OR ?m else ?byte AND NOT ?m)]"
  have "search_bit bus pin (locals_at k lz) st b
      = Inr (False, locals_at (Suc k) ?lz, st1\<lparr>ROM_NO := ?rom\<rparr>, onewire_write_bit bus pin ?dir b2)"
    unfolding search_bit_def b1(1) b2(1) prod.case
    by (simp only: one if_False at arr_get_in arr_set_in rbind_Inr ch prod.case st1(2) next_bit_at)
  moreover have "view (onewire_write_bit bus pin ?dir b2) = Some (SendBit (Suc k) {d \<in> A. d ! k = ?dir})"
    by (rule rom_busD(5) [OF bus b2(2)])
  ultimately show ?thesis
    using st1(1) rom rom_bit_update [OF rom, of ?dir]
    by (intro exI conjI) (assumption | simp add: same_marks_def)+
qed

lemma search_loop_step:
  assumes "search_bit bus pin l st b = Inr (False, locals_at (Suc k) z, st', b')" "k + Suc n = 64"
  shows "search_loop bus pin (Suc n) l st b = search_loop bus pin n (locals_at (Suc k) z) st' b'"
proof -
  have "rom_byte_number (locals_at (Suc k) z) < 8 \<longleftrightarrow> n \<noteq> 0"
    using assms(2) by (auto simp: locals_at_def)
  then show ?thesis using assms(1) by (cases n) simp_all
qed

text \<open>From bit \<open>k\<close> on: the loop ends after the last bit with the address of a device that follows the rule.\<close>

lemma search_loop_path:
  assumes bus: "rom_bus bus pin D view" and len: "\<forall>d\<in>D. length d = 64"
  shows "view b = Some (SendBit k A) \<Longrightarrow> A = {d \<in> D. \<forall>i<k. d ! i = rom_bit (ROM_NO st) i} \<Longrightarrow> A \<noteq> {} \<Longrightarrow>
    length (ROM_NO st) = 8 \<Longrightarrow> k + n = 64 \<Longrightarrow>
    \<exists>st' b' p. search_loop bus pin n (locals_at k lz) st b
        = Inr (locals_at 64 (last_mark (zero_choice D p) [k..<64] lz), st', b')
      \<and> view b' \<noteq> None \<and> same_marks st st' \<and> length (ROM_NO st') = 8 \<and> p = rom_bits (ROM_NO st')
      \<and> p \<in> D \<and> (\<forall>i<k. p ! i = rom_bit (ROM_NO st) i)
      \<and> (\<forall>i. k \<le> i \<and> i < 64 \<longrightarrow> mixed D p i \<longrightarrow>
           p ! i = (if Suc i < LastDiscrepancy st then rom_bit (ROM_NO st) i else Suc i = LastDiscrepancy st))"
proof (induction n arbitrary: k A st b lz)
  case 0
  then obtain d where d: "d \<in> D" "\<forall>i<64. d ! i = rom_bit (ROM_NO st) i" by auto
  then have "d = rom_bits (ROM_NO st)"
    using len by (auto simp: rom_bits_def list_eq_iff_nth_eq)
  with 0 d show ?case by (auto simp: same_marks_def last_mark_def)
next
  case (Suc n)
  let ?dir = "direction A k st"
  let ?lz = "if (\<exists>d\<in>A. d ! k) \<and> (\<exists>d\<in>A. \<not> d ! k) \<and> \<not> ?dir then Suc k else lz"
  have k: "k < 64" and k1: "Suc k + n = 64" using Suc.prems(5) by simp_all
  obtain st1 b1 where step: "search_bit bus pin (locals_at k lz) st b = Inr (False, locals_at (Suc k) ?lz, st1, b1)"
    and v1: "view b1 = Some (SendBit (Suc k) {d \<in> A. d ! k = ?dir})"
    and st1: "same_marks st st1" "length (ROM_NO st1) = 8"
    and rom1: "\<forall>i<64. rom_bit (ROM_NO st1) i = (if i = k then ?dir else rom_bit (ROM_NO st) i)"
    using search_bit_step [OF bus Suc.prems(1,3,4) k] by blast
  have A1: "{d \<in> A. d ! k = ?dir} = {d \<in> D. \<forall>i<Suc k. d ! i = rom_bit (ROM_NO st1) i}"
    using rom1 k Suc.prems(2) by (auto simp: less_Suc_eq)
  obtain st' b' p where loop: "search_loop bus pin n (locals_at (Suc k) ?lz) st1 b1
        = Inr (locals_at 64 (last_mark (zero_choice D p) [Suc k..<64] ?lz), st', b')"
    and fin: "view b' \<noteq> None" "same_marks st1 st'" "length (ROM_NO st') = 8" "p = rom_bits (ROM_NO st')" "p \<in> D"
    and low: "\<forall>i<Suc k. p ! i = rom_bit (ROM_NO st1) i"
    and high: "\<forall>i. Suc k \<le> i \<and> i < 64 \<longrightarrow> mixed D p i \<longrightarrow>
           p ! i = (if Suc i < LastDiscrepancy st1 then rom_bit (ROM_NO st1) i else Suc i = LastDiscrepancy st1)"
    using Suc.IH [OF v1 A1 direction_survivors [OF Suc.prems(3)] st1(2) k1, of ?lz] by blast
  have "sharing D p k = A"
    using low rom1 k Suc.prems(2) by (auto simp: sharing_def)
  then have mix: "mixed D p k \<longleftrightarrow> (\<exists>d\<in>A. d ! k) \<and> (\<exists>d\<in>A. \<not> d ! k)" by (simp add: mixed_def)
  have pk: "p ! k = ?dir" using low rom1 k by simp
  have whole: "search_loop bus pin (Suc n) (locals_at k lz) st b = search_loop bus pin n (locals_at (Suc k) ?lz) st1 b1"
    by (rule search_loop_step [OF step Suc.prems(5)])
  have mark: "last_mark (zero_choice D p) [Suc k..<64] ?lz = last_mark (zero_choice D p) [k..<64] lz"
    unfolding last_mark_def upt_conv_Cons [OF k] using mix pk by simp
  have high': "p ! i = (if Suc i < LastDiscrepancy st then rom_bit (ROM_NO st) i else Suc i = LastDiscrepancy st)"
    if "k \<le> i" "i < 64" "mixed D p i" for i
  proof (cases "i = k")
    case True
    with that mix show ?thesis by (auto simp: pk direction_def)
  next
    case False
    with that have "Suc k \<le> i \<and> i < 64" by simp
    with that False high rom1 st1(1) show ?thesis by (simp add: same_marks_def)
  qed
  have "same_marks st st'" "\<forall>i<k. p ! i = rom_bit (ROM_NO st) i"
    using st1(1) fin(2) low rom1 k by (simp_all add: same_marks_def)
  with high' fin show ?case
    unfolding whole loop mark by (intro exI [of _ st'] exI [of _ b'] exI [of _ p]) simp
qed

section \<open>Repeated searches\<close>

text \<open>What the state remembers after a search that delivered \<open>p\<close>.\<close>

definition remembers :: "bool list set \<Rightarrow> bool list \<Rightarrow> ow_search \<Rightarrow> bool" where
  "remembers D p st \<longleftrightarrow> length (ROM_NO st) = 8 \<and> rom_bits (ROM_NO st) = p \<and> p \<in> D
     \<and> LastDiscrepancy st = zero_mark D p
     \<and> LastDeviceFlag st = (LastDiscrepancy st = 0)"

text \<open>A family code of 0 is not assigned; the driver takes it for a failure.\<close>

definition rom_codes :: "bool list set \<Rightarrow> bool" where
  "rom_codes D \<longleftrightarrow> finite D \<and> (\<forall>d\<in>D. length d = 64 \<and> (\<exists>i<8. d ! i))"

lemma rom_bits_nth [simp]: "i < 64 \<Longrightarrow> rom_bits rom ! i = rom_bit rom i"
  by (simp add: rom_bits_def)

lemma family_not_zero:
  assumes "rom_codes D" "rom_bits rom \<in> D"
  shows "rom ! 0 \<noteq> 0"
  using assms by (fastforce simp: rom_codes_def rom_bit_def)

lemma search_finds:
  assumes bus: "rom_bus bus pin D view" "rom_codes D" "D \<noteq> {}" "view b \<noteq> None"
    and st: "\<not> LastDeviceFlag st" "length (ROM_NO st) = 8"
  shows "\<exists>st' b' p. onewire_search bus pin st b = Inr (True, Some (ROM_NO st'), st', b') \<and> view b' \<noteq> None
    \<and> remembers D p st' \<and> chosen D (rom_bits (ROM_NO st)) (LastDiscrepancy st) p"
proof -
  obtain b1 where b1: "onewire_reset bus pin b = (True, b1)" "view b1 = Some (Command [])"
    using rom_busD(1) [OF bus(1,4)] bus(3) by auto
  let ?b = "onewire_write bus pin 0xF0 False b1"
  have v: "view ?b = Some (SendBit 0 D)" by (rule rom_busD(2) [OF bus(1) b1(2)])
  have D: "\<forall>d\<in>D. length d = 64" "D = {d \<in> D. \<forall>i<0. d ! i = rom_bit (ROM_NO st) i}"
    using bus(2) by (auto simp: rom_codes_def)
  obtain st1 b2 p where loop: "search_loop bus pin 64 (locals_at 0 0) st ?b
        = Inr (locals_at 64 (zero_mark D p), st1, b2)"
    and fin: "view b2 \<noteq> None" "same_marks st st1" "length (ROM_NO st1) = 8" "p = rom_bits (ROM_NO st1)" "p \<in> D"
    and path: "\<forall>i. 0 \<le> i \<and> i < 64 \<longrightarrow> mixed D p i \<longrightarrow>
           p ! i = (if Suc i < LastDiscrepancy st then rom_bit (ROM_NO st) i else Suc i = LastDiscrepancy st)"
    using search_loop_path [OF bus(1) D(1) v D(2) bus(3) st(2) add_0, of 0, folded zero_mark_def]
    by (elim exE conjE) (rule that; assumption)
  let ?lz = "zero_mark D p"
  let ?st = "st1\<lparr>LastDiscrepancy := ?lz, LastDeviceFlag := (if ?lz = 0 then True else LastDeviceFlag st1)\<rparr>"
  have "ROM_NO st1 ! 0 \<noteq> 0" using family_not_zero [OF bus(2)] fin(4,5) by simp
  moreover have "id_bit_number (locals_at 64 ?lz) = 65" "last_zero (locals_at 64 ?lz) = ?lz"
    by (simp_all add: locals_at_def)
  ultimately have "onewire_search bus pin st b = Inr (True, Some (ROM_NO ?st), ?st, b2)"
    unfolding onewire_search_def b1(1) using st(1) fin(3)
    by (simp add: search_start_at loop search_finish_def)
  moreover have "remembers D p ?st"
    using fin st(1) by (simp add: remembers_def same_marks_def)
  moreover have "chosen D (rom_bits (ROM_NO st)) (LastDiscrepancy st) p"
    using path fin(5) by (auto simp: chosen_def)
  ultimately show ?thesis using fin(1) by blast
qed

lemma least_first:
  fixes A :: "'a::linorder set"
  assumes "finite A" "p \<in> A" "\<forall>e\<in>A. p \<le> e"
  shows "sorted_list_of_set A = p # sorted_list_of_set {e \<in> A. p < e}"
proof -
  have "Min A = p" using assms by (auto intro!: Min_eqI)
  moreover have "A - {p} = {e \<in> A. p < e}" using assms by (auto simp: less_le)
  ultimately show ?thesis using assms sorted_list_of_set_nonempty [of A] by auto
qed

text \<open>The mark is 0 exactly when no greater address is left.\<close>

lemma mark_zero_iff:
  assumes "remembers D p st" "rom_codes D"
  shows "LastDiscrepancy st = 0 \<longleftrightarrow> {d \<in> D. p < d} = {}"
proof
  have p: "p \<in> D" "length p = 64" using assms by (auto simp: remembers_def rom_codes_def)
  assume "LastDiscrepancy st = 0"
  then have "\<forall>i<64. \<not> zero_choice D p i" using assms(1) by (simp add: remembers_def zero_mark_zero)
  then show "{d \<in> D. p < d} = {}"
    using last_greatest [OF p(1)] p assms(2) by (auto simp: rom_codes_def not_less)
next
  have p: "p \<in> D" "length p = 64" using assms by (auto simp: remembers_def rom_codes_def)
  assume none: "{d \<in> D. p < d} = {}"
  have "\<not> zero_choice D p i" if i: "i < 64" for i
  proof
    assume "zero_choice D p i"
    then obtain d where "d \<in> D" "\<forall>j<i. d ! j = p ! j" "d ! i" "\<not> p ! i"
      by (auto simp: mixed_def sharing_def)
    then have "p < d" using i p assms(2) by (auto simp: bits_less_iff rom_codes_def)
    with none \<open>d \<in> D\<close> show False by blast
  qed
  then show "LastDiscrepancy st = 0" using assms(1) by (simp add: remembers_def zero_mark_zero)
qed

lemma searches_after:
  assumes bus: "rom_bus bus pin D view" "rom_codes D"
  shows "remembers D p st \<Longrightarrow> view b \<noteq> None \<Longrightarrow> n = card {d \<in> D. p < d} \<Longrightarrow>
    \<exists>as. searches bus pin (Suc n) st b = Inr (map Some as @ [None])
      \<and> map rom_bits as = sorted_list_of_set {d \<in> D. p < d}"
proof (induction n arbitrary: p st b)
  case 0
  then have none: "{d \<in> D. p < d} = {}" using bus(2) by (simp add: rom_codes_def)
  then have "LastDeviceFlag st" "length (ROM_NO st) = 8"
    using mark_zero_iff [OF 0(1) bus(2)] 0(1) by (simp_all add: remembers_def)
  then have "onewire_search bus pin st b = Inr (False, Some (ROM_NO st), forget_search st, b)"
    by (simp add: onewire_search_def search_finish_def)
  then show ?case unfolding none by (intro exI [of _ "[]"]) simp
next
  case (Suc n)
  let ?A = "{d \<in> D. p < d}"
  have fin: "finite D" "\<forall>d\<in>D. length d = 64" using bus(2) by (auto simp: rom_codes_def)
  have "?A \<noteq> {}" using Suc.prems(3) by (metis card.empty nat.distinct(1))
  then obtain q where q: "LastDiscrepancy st = Suc q"
    using mark_zero_iff [OF Suc.prems(1) bus(2)] not0_implies_Suc by blast
  have st: "p \<in> D" "D \<noteq> {}" "\<not> LastDeviceFlag st" "length (ROM_NO st) = 8" "rom_bits (ROM_NO st) = p"
    "q < 64" "zero_choice D p q" "\<forall>i<64. zero_choice D p i \<longrightarrow> i \<le> q"
    using Suc.prems(1) q zero_mark_Suc [of D p q] by (auto simp: remembers_def)
  obtain st' b' p' where found: "onewire_search bus pin st b = Inr (True, Some (ROM_NO st'), st', b')"
      "view b' \<noteq> None" "remembers D p' st'" and ch: "chosen D p (Suc q) p'"
    using search_finds [OF bus st(2) Suc.prems(2) st(3,4)] unfolding q st(5) by blast
  have next': "p < p' \<and> (\<forall>e\<in>D. p < e \<longrightarrow> p' \<le> e)"
    by (rule next_least [OF ch st(1,6,7,8) fin(2)])
  have p': "p' \<in> D" using found(3) by (simp add: remembers_def)
  have rest: "{e \<in> ?A. p' < e} = {d \<in> D. p' < d}" using next' by auto
  have sorted: "sorted_list_of_set ?A = p' # sorted_list_of_set {d \<in> D. p' < d}"
    using least_first [of ?A p'] next' p' fin(1) rest by auto
  have "Suc n = length (sorted_list_of_set ?A)" using Suc.prems(3) by simp
  then have "n = card {d \<in> D. p' < d}" unfolding sorted by simp
  from Suc.IH [OF found(3,2) this] obtain as where
    as: "searches bus pin (Suc n) st' b' = Inr (map Some as @ [None])"
      "map rom_bits as = sorted_list_of_set {d \<in> D. p' < d}" by blast
  have "rom_bits (ROM_NO st') = p'" using found(3) by (simp add: remembers_def)
  then show ?case
    using as sorted found(1) by (intro exI [of _ "ROM_NO st' # as"]) simp
qed

lemma searches_enumerate:
  assumes bus: "rom_bus bus pin D view" "rom_codes D" "D \<noteq> {}" "view b \<noteq> None"
  shows "\<exists>as. searches bus pin (Suc (card D)) (onewire_reset_search st) b = Inr (map Some as @ [None])
    \<and> map rom_bits as = sorted_list_of_set D"
proof -
  let ?st = "onewire_reset_search st"
  have st: "\<not> LastDeviceFlag ?st" "length (ROM_NO ?st) = 8" "LastDiscrepancy ?st = 0"
    by (simp_all add: onewire_reset_search_def)
  have fin: "finite D" "\<forall>d\<in>D. length d = 64" using bus(2) by (auto simp: rom_codes_def)
  obtain st' b' p where found: "onewire_search bus pin ?st b = Inr (True, Some (ROM_NO st'), st', b')"
      "view b' \<noteq> None" "remembers D p st'" and ch: "chosen D (rom_bits (ROM_NO ?st)) 0 p"
    using search_finds [OF bus st(1,2)] unfolding st(3) by blast
  have p: "p \<in> D" "rom_bits (ROM_NO st') = p" using found(3) by (simp_all add: remembers_def)
  have sorted: "sorted_list_of_set D = p # sorted_list_of_set {d \<in> D. p < d}"
    using least_first [OF fin(1) p(1)] first_least [OF ch] fin(2) p(1) by auto
  have card: "card D = Suc (card {d \<in> D. p < d})"
    using arg_cong [OF sorted, of length] by simp
  from searches_after [OF bus(1,2) found(3,2) refl] obtain as where
    "searches bus pin (Suc (card {d \<in> D. p < d})) st' b' = Inr (map Some as @ [None])"
    "map rom_bits as = sorted_list_of_set {d \<in> D. p < d}" by blast
  then show ?thesis
    using sorted p(2) found(1) unfolding card by (intro exI [of _ "ROM_NO st' # as"]) simp
qed

section \<open>A simulation of the devices\<close>

text \<open>
  The devices of a bus on physical pin \<open>n\<close> as they see the line: a time slot starts when the master
  pulls the line low and is told apart by how long it stays low; a device answers by holding
  the line low for some time after the slot's start. Pulses of no length are not seen.
\<close>

record slave =
  phase :: rom_phase
  pulled :: bool
  low_us :: nat
  hold_us :: nat

definition command_phase :: "bool list set \<Rightarrow> bool list \<Rightarrow> rom_phase" where
  "command_phase D bs =
     (if length bs < 8 then Command bs
      else if bs = [False, False, False, False, True, True, True, True] then SendBit 0 D else Quiet)"

definition time_slot :: "bool list set \<Rightarrow> nat \<Rightarrow> slave \<Rightarrow> slave" where
  "time_slot D t s =
     (if 480 \<le> t then s\<lparr>phase := Command [], hold_us := (if D = {} then 0 else 120)\<rparr>
      else case phase s of
        Quiet \<Rightarrow> s
      | Command bs \<Rightarrow> s\<lparr>phase := command_phase D (bs @ [t < 15])\<rparr>
      | SendBit k A \<Rightarrow> s\<lparr>phase := SendComplement k A, hold_us := (if \<forall>d\<in>A. d ! k then 0 else 30)\<rparr>
      | SendComplement k A \<Rightarrow> s\<lparr>phase := AwaitBit k A, hold_us := (if \<forall>d\<in>A. \<not> d ! k then 0 else 30)\<rparr>
      | AwaitBit k A \<Rightarrow> s\<lparr>phase := SendBit (Suc k) {d \<in> A. d ! k = (t < 15)}\<rparr>)"

definition release :: "bool list set \<Rightarrow> slave \<Rightarrow> slave" where
  "release D s =
     (if pulled s \<and> low_us s \<noteq> 0 then time_slot D (low_us s) (s\<lparr>pulled := False, low_us := 0\<rparr>)
      else s\<lparr>pulled := False\<rparr>)"

fun slave_drive :: "nat \<Rightarrow> bool list set \<Rightarrow> pin_event \<Rightarrow> slave \<Rightarrow> slave" where
  "slave_drive n D (GpioOutputSet set_mask clear_mask en dis) s =
     (if bit dis n \<or> bit set_mask n then release D s
      else if bit clear_mask n then s\<lparr>pulled := True\<rparr> else s)"
| "slave_drive n D (DelayUs t) s =
     (if pulled s then s\<lparr>low_us := low_us s + unat t\<rparr> else s\<lparr>hold_us := hold_us s - unat t\<rparr>)"
| "slave_drive n D _ s = s"

definition slave_bus :: "bool list set \<Rightarrow> slave ow_bus" where
  "slave_bus D = \<lparr>drive = slave_drive 5 D, level = (\<lambda>n s. (\<not> pulled s \<and> hold_us s = 0, s))\<rparr>"

definition slave_view :: "slave \<Rightarrow> rom_phase option" where
  "slave_view s = (if hold_us s = 0 \<and> low_us s = 0 then Some (phase s) else None)"

lemma pin_1 [simp]: "phys 1 = 5"
  by (simp add: phys_def pin_num_def)

lemma slave_events [simp]:
  "slave_drive 5 D (gpio_output_set 5 0) s = s\<lparr>pulled := True\<rparr>"
  "slave_drive 5 D (gpio_output_set 5 1) s = release D s"
  "slave_drive 5 D (gpio_dis_output 5) s = release D s"
  by (simp_all add: gpio_output_set_def gpio_dis_output_def)

lemma slave_ops [simp]:
  "drive (slave_bus D) = slave_drive 5 D" "level (slave_bus D) n s = (\<not> pulled s \<and> hold_us s = 0, s)"
  by (simp_all add: slave_bus_def)

lemma wait_high_at_once:
  "level bus (ow_pin pin) (ow_do bus [DelayUs 2] b) = (True, b') \<Longrightarrow> wait_high bus pin 125 b = (True, b')"
  using wait_high.simps(2) [of bus pin 124 b] by simp

lemma slave_write_bit:
  assumes "slave_view s = Some (Command bs) \<or> slave_view s = Some (AwaitBit k A)"
  shows "onewire_write_bit (slave_bus D) 1 v s = time_slot D (if v then 10 else 65) (s\<lparr>pulled := False\<rparr>)"
  using assms
  by (cases v) (auto simp: onewire_write_bit_def ow_do_def release_def time_slot_def slave_view_def split: if_splits)

lemma slave_read_bit:
  assumes "slave_view s = Some (SendBit k A) \<and> x = (\<forall>d\<in>A. d ! k) \<and> p = SendComplement k A
    \<or> slave_view s = Some (SendComplement k A) \<and> x = (\<forall>d\<in>A. \<not> d ! k) \<and> p = AwaitBit k A"
  shows "onewire_read_bit (slave_bus D) 1 s = (x, s\<lparr>phase := p, pulled := False\<rparr>)"
  using assms
  by (auto simp: onewire_read_bit_def ow_do_def release_def time_slot_def slave_view_def split: if_splits)

lemma slave_reset:
  assumes "slave_view s \<noteq> None"
  shows "\<exists>s'. onewire_reset (slave_bus D) 1 s = (D \<noteq> {}, s') \<and> slave_view s' = Some (Command [])"
proof -
  have s: "hold_us s = 0" "low_us s = 0" using assms by (auto simp: slave_view_def split: if_splits)
  let ?s = "s\<lparr>pulled := False\<rparr>"
  have start: "ow_do (slave_bus D) [IntrLock, gpio_dis_output 5, IntrUnlock] s = ?s"
    using s by (simp add: ow_do_def release_def)
  have wait: "wait_high (slave_bus D) 1 125 ?s = (True, ?s)"
    using s by (intro wait_high_at_once) (simp add: ow_do_def)
  show ?thesis
    using s start wait by (simp add: onewire_reset_def) (simp add: ow_do_def release_def time_slot_def slave_view_def)
qed

lemma slave_search_command:
  assumes "slave_view s = Some (Command [])"
  shows "slave_view (onewire_write (slave_bus D) 1 0xF0 False s) = Some (SendBit 0 D)"
proof -
  have s: "hold_us s = 0" "low_us s = 0" "phase s = Command []"
    using assms by (auto simp: slave_view_def split: if_splits)
  have step: "onewire_write_bit (slave_bus D) 1 v (s\<lparr>pulled := x, phase := Command bs\<rparr>)
      = s\<lparr>pulled := False, phase := command_phase D (bs @ [v])\<rparr>" for v x bs
    using s by (subst slave_write_bit [where bs = bs]) (simp_all add: slave_view_def time_slot_def)
  have first: "onewire_write_bit (slave_bus D) 1 v s = s\<lparr>pulled := False, phase := command_phase D [v]\<rparr>" for v
    using s assms by (subst slave_write_bit [where bs = "[]"]) (simp_all add: time_slot_def)
  have "fold (\<lambda>i. onewire_write_bit (slave_bus D) 1 (bit (0xF0 :: u8) i)) [0..<8] s = s\<lparr>pulled := False, phase := SendBit 0 D\<rparr>"
    by (simp add: upt_rec first step command_phase_def del: upt_Suc)
  then show ?thesis
    using s by (simp add: onewire_write_def let_float_def ow_do_def release_def slave_view_def)
qed

lemma slave_bus_ok: "rom_bus (slave_bus D) 1 D slave_view"
  unfolding rom_bus_def
proof (intro conjI allI impI)
  fix b k A
  assume "slave_view b = Some (SendBit k A)"
  then show "\<exists>b'. onewire_read_bit (slave_bus D) 1 b = (\<forall>d\<in>A. d ! k, b') \<and> slave_view b' = Some (SendComplement k A)"
    using slave_read_bit [of b k A "\<forall>d\<in>A. d ! k" "SendComplement k A"] by (auto simp: slave_view_def split: if_splits)
next
  fix b k A
  assume "slave_view b = Some (SendComplement k A)"
  then show "\<exists>b'. onewire_read_bit (slave_bus D) 1 b = (\<forall>d\<in>A. \<not> d ! k, b') \<and> slave_view b' = Some (AwaitBit k A)"
    using slave_read_bit [of b k A "\<forall>d\<in>A. \<not> d ! k" "AwaitBit k A"] by (auto simp: slave_view_def split: if_splits)
next
  fix b k A v
  assume v: "slave_view b = Some (AwaitBit k A)"
  then have "onewire_write_bit (slave_bus D) 1 v b = time_slot D (if v then 10 else 65) (b\<lparr>pulled := False\<rparr>)"
    by (intro slave_write_bit) simp
  with v show "slave_view (onewire_write_bit (slave_bus D) 1 v b) = Some (SendBit (Suc k) {d \<in> A. d ! k = v})"
    by (auto simp: slave_view_def time_slot_def split: if_splits)
qed (use slave_reset slave_search_command in simp_all)

text \<open>C6: On a bus whose devices follow the search protocol, the search after a reset of the search state and
  its repetitions deliver the address of every device exactly once, in ascending order of the
  addresses read as bit strings; the next search reports that there are no more.\<close>

theorem search_enumerates_devices:
  assumes "rom_bus bus pin D view" "rom_codes D" "D \<noteq> {}" "view b \<noteq> None"
  shows "\<exists>as. searches bus pin (Suc (card D)) (onewire_reset_search st) b = Inr (map Some as @ [None])
    \<and> map rom_bits as = sorted_list_of_set D"
  by (rule searches_enumerate [OF assms])

definition two_devices :: "bool list set" where
  "two_devices = {True # replicate 63 False, True # replicate 63 True}"

theorem search_enumerates_devices_witness:
  "\<exists>as. searches (slave_bus two_devices) 1 3
       \<lparr>ROM_NO = replicate 8 0, LastDiscrepancy = 0, LastFamilyDiscrepancy = 0, LastDeviceFlag = False\<rparr>
       \<lparr>phase = Quiet, pulled = False, low_us = 0, hold_us = 0\<rparr>
      = Inr (map Some as @ [None])
    \<and> map rom_bits as = [True # replicate 63 False, True # replicate 63 True]"
proof -
  let ?s = "\<lparr>phase = Quiet, pulled = False, low_us = 0, hold_us = 0\<rparr>"
  have less: "True # replicate 63 False < True # replicate 63 True"
    by (simp add: replicate_Suc numeral_eq_Suc)
  then have "card two_devices = 2" and "sorted_list_of_set two_devices = [True # replicate 63 False, True # replicate 63 True]"
    by (auto simp: two_devices_def less_le)
  moreover have "rom_codes two_devices" "two_devices \<noteq> {}" "slave_view ?s \<noteq> None"
    by (auto simp: rom_codes_def two_devices_def slave_view_def intro: exI [of _ 0])
  ultimately show ?thesis
    using search_enumerates_devices [OF slave_bus_ok, of two_devices ?s
      "\<lparr>ROM_NO = replicate 8 0, LastDiscrepancy = 0, LastFamilyDiscrepancy = 0, LastDeviceFlag = False\<rparr>"]
    by (simp add: numeral_3_eq_3 onewire_reset_search_def del: searches.simps)
qed

end
