(* ===== verification/Ow_Module.thy ===== *)
theory Ow_Module
  imports Onewire_Search Lua_Api
begin

text \<open>
  The Lua module for the 1-Wire bus (\<open>modules/ow.c\<close>). Its state is the bus, the search records of the
  pins and the character buffer that \<open>luaL_prepbuffer\<close> hands out (\<open>LUAL_BUFFERSIZE\<close> bytes on the C stack,
  with whatever they hold). The lemmas show that no call does anything undefined, whatever the
  devices answer, as long as a block read fits this buffer, and that a longer one overruns it.
\<close>

record 'b ow_world =
  wire :: 'b
  pin_searches :: "ow_search list"
  lua_buffer :: bytes

type_synonym ('b, 'a) ow_handler = "('b ow_world, 'a) handler"

definition LUAL_BUFFERSIZE :: nat where
  "LUAL_BUFFERSIZE = 1024 * 4"

definition platform_ow_exists :: "u32 \<Rightarrow> bool" where
  "platform_ow_exists ident = (ident < NUM_GPIO \<and> 0 < ident)"

section \<open>Access to the state\<close>

definition on_wire :: "('b \<Rightarrow> ('a \<times> 'b) result) \<Rightarrow> ('b, 'a) ow_handler" where
  "on_wire f w = (case f (wire w) of Inl e \<Rightarrow> (Inl e, w) | Inr (x, b) \<Rightarrow> (Inr x, w\<lparr>wire := b\<rparr>))"

definition on_pin :: "u8 \<Rightarrow> ('b \<Rightarrow> ('a \<times> 'b) result) \<Rightarrow> ('b, 'a) ow_handler" where
  "on_pin pin f = on_wire (ow_driver pin f)"

definition get_search :: "u8 \<Rightarrow> ('b, ow_search) ow_handler" where
  "get_search pin w = (arr_get (pin_searches w) (unat pin), w)"

definition put_search :: "u8 \<Rightarrow> ow_search \<Rightarrow> ('b, unit) ow_handler" where
  "put_search pin st w =
     (case arr_set (pin_searches w) (unat pin) st of
        Inl e \<Rightarrow> (Inl e, w) | Inr sts \<Rightarrow> (Inr (), w\<lparr>pin_searches := sts\<rparr>))"

definition put_buffer :: "bytes \<Rightarrow> ('b, unit) ow_handler" where
  "put_buffer buf = mupd (\<lambda>w. w\<lparr>lua_buffer := buf\<rparr>)"

text \<open>\<open>luaL_checkinteger\<close> followed by \<open>MOD_CHECK_ID\<close>; the driver takes the pin as a byte.\<close>

definition check_ow_id :: "u32 \<Rightarrow> u8 result" where
  "check_ow_id ident = (if platform_ow_exists ident then Inr (ucast ident) else Inl (LuaError ''ow does not exist''))"

definition ow_pin_arg :: "lua_conv \<Rightarrow> lua_value list \<Rightarrow> u8 result" where
  "ow_pin_arg cv args = rbind (luaL_checkinteger cv (index2adr args 1)) check_ow_id"

text \<open>An optional power argument: any number but 0 asks for power.\<close>

definition power_arg :: "lua_conv \<Rightarrow> lua_value \<Rightarrow> bool result" where
  "power_arg cv v = (if lua_isnumber cv v then rbind (lua_tointeger cv v) (\<lambda>p. Inr (p \<noteq> 0)) else Inr False)"

abbreviation wrong_range :: "('w, 'a) handler" where
  "wrong_range \<equiv> mfail (LuaError ''wrong arg range'')"

section \<open>The functions of the module\<close>

definition ow_setup :: "'b ow_bus \<Rightarrow> lua_conv \<Rightarrow> lua_value list \<Rightarrow> ('b, lua_value list) ow_handler" where
  "ow_setup bus cv args =
     mbind (mlift (luaL_checkinteger cv (index2adr args 1))) (\<lambda>ident.
     if ident = 0 then mfail (LuaError ''no 1-wire for D0'')
     else
     mbind (mlift (check_ow_id ident)) (\<lambda>pin.
     mbind (get_search pin) (\<lambda>st.
     mbind (on_wire (\<lambda>b. Inr (onewire_init bus pin st b))) (\<lambda>st.
     mbind (put_search pin st) (\<lambda>_. mret [])))))"

definition ow_reset :: "'b ow_bus \<Rightarrow> lua_conv \<Rightarrow> lua_value list \<Rightarrow> ('b, lua_value list) ow_handler" where
  "ow_reset bus cv args =
     mbind (mlift (ow_pin_arg cv args)) (\<lambda>pin.
     mbind (on_pin pin (\<lambda>b. Inr (onewire_reset bus pin b))) (\<lambda>r.
     mret [lua_int (of_bool r)]))"

definition ow_skip :: "'b ow_bus \<Rightarrow> lua_conv \<Rightarrow> lua_value list \<Rightarrow> ('b, lua_value list) ow_handler" where
  "ow_skip bus cv args =
     mbind (mlift (ow_pin_arg cv args)) (\<lambda>pin.
     mbind (on_pin pin (\<lambda>b. Inr ((), onewire_skip bus pin b))) (\<lambda>_. mret []))"

text \<open>The address of a device, from a table of numbers or from a string.\<close>

definition rom_from_table :: "lua_conv \<Rightarrow> lua_value \<Rightarrow> bytes result" where
  "rom_from_table cv v =
     rfold (\<lambda>i rom. rbind (luaL_checkinteger cv (lua_rawgeti v (i + 1))) (\<lambda>numdata.
        if 255 < sint numdata then Inl (LuaError ''wrong arg range'')
        else arr_set rom i (ucast numdata))) [0..<8] (replicate 8 0)"

definition rom_arg :: "lua_conv \<Rightarrow> lua_value \<Rightarrow> bytes result" where
  "rom_arg cv v =
     (if lua_istable v then
        if lua_objlen cv v \<noteq> 8 then Inl (LuaError ''wrong arg range'') else rom_from_table cv v
      else
        rbind (luaL_checklstring cv v) (\<lambda>pdata.
        if length pdata \<noteq> 8 then Inl (LuaError ''wrong arg range'') else Inr pdata))"

definition ow_select :: "'b ow_bus \<Rightarrow> lua_conv \<Rightarrow> lua_value list \<Rightarrow> ('b, lua_value list) ow_handler" where
  "ow_select bus cv args =
     mbind (mlift (ow_pin_arg cv args)) (\<lambda>pin.
     mbind (mlift (rom_arg cv (index2adr args 2))) (\<lambda>rom.
     mbind (on_pin pin (\<lambda>b. rbind (onewire_select bus pin rom b) (\<lambda>b. Inr ((), b)))) (\<lambda>_. mret [])))"

definition ow_write :: "'b ow_bus \<Rightarrow> lua_conv \<Rightarrow> lua_value list \<Rightarrow> ('b, lua_value list) ow_handler" where
  "ow_write bus cv args =
     mbind (mlift (ow_pin_arg cv args)) (\<lambda>pin.
     mbind (mlift (luaL_checkinteger cv (index2adr args 2))) (\<lambda>v.
     if 255 < sint v then wrong_range
     else
     mbind (mlift (power_arg cv (index2adr args 3))) (\<lambda>powered.
     mbind (on_pin pin (\<lambda>b. Inr ((), onewire_write bus pin (ucast v) powered b))) (\<lambda>_. mret []))))"

definition ow_write_bytes :: "'b ow_bus \<Rightarrow> lua_conv \<Rightarrow> lua_value list \<Rightarrow> ('b, lua_value list) ow_handler" where
  "ow_write_bytes bus cv args =
     mbind (mlift (ow_pin_arg cv args)) (\<lambda>pin.
     mbind (mlift (luaL_checklstring cv (index2adr args 2))) (\<lambda>pdata.
     mbind (mlift (power_arg cv (index2adr args 3))) (\<lambda>powered.
     mbind (on_pin pin (\<lambda>b. rbind (onewire_write_bytes bus pin pdata (of_nat (length pdata)) powered b) (\<lambda>b. Inr ((), b)))) (\<lambda>_.
     mret []))))"

definition ow_read :: "'b ow_bus \<Rightarrow> lua_conv \<Rightarrow> lua_value list \<Rightarrow> ('b, lua_value list) ow_handler" where
  "ow_read bus cv args =
     mbind (mlift (ow_pin_arg cv args)) (\<lambda>pin.
     mbind (on_pin pin (\<lambda>b. Inr (onewire_read bus pin b))) (\<lambda>r. mret [lua_int (uint r)]))"

text \<open>
  \<open>luaL_pushresult\<close> copies the first \<open>size\<close> bytes of the buffer; the driver gets the size as a 16-bit number.
\<close>

definition ow_read_bytes :: "'b ow_bus \<Rightarrow> lua_conv \<Rightarrow> lua_value list \<Rightarrow> ('b, lua_value list) ow_handler" where
  "ow_read_bytes bus cv args =
     mbind (mlift (ow_pin_arg cv args)) (\<lambda>pin.
     mbind (mlift (luaL_checkinteger cv (index2adr args 2))) (\<lambda>siz.
     if siz = 0 then mret []
     else
     mbind (mget lua_buffer) (\<lambda>p.
     mbind (on_pin pin (onewire_read_bytes bus pin p (ucast siz))) (\<lambda>p.
     mbind (put_buffer p) (\<lambda>_.
     if length p < unat siz then mfail (OutOfBounds (length p))
     else mret [LString (take (unat siz) p)])))))"

definition ow_depower :: "'b ow_bus \<Rightarrow> lua_conv \<Rightarrow> lua_value list \<Rightarrow> ('b, lua_value list) ow_handler" where
  "ow_depower bus cv args =
     mbind (mlift (ow_pin_arg cv args)) (\<lambda>pin.
     mbind (on_pin pin (\<lambda>b. Inr ((), onewire_depower bus pin b))) (\<lambda>_. mret []))"

definition ow_reset_search :: "lua_conv \<Rightarrow> lua_value list \<Rightarrow> ('b, lua_value list) ow_handler" where
  "ow_reset_search cv args =
     mbind (mlift (ow_pin_arg cv args)) (\<lambda>pin.
     mbind (get_search pin) (\<lambda>st.
     mbind (put_search pin (onewire_reset_search st)) (\<lambda>_. mret [])))"

definition ow_target_search :: "lua_conv \<Rightarrow> lua_value list \<Rightarrow> ('b, lua_value list) ow_handler" where
  "ow_target_search cv args =
     mbind (mlift (ow_pin_arg cv args)) (\<lambda>pin.
     mbind (mlift (luaL_checkinteger cv (index2adr args 2))) (\<lambda>code.
     if 255 < sint code then wrong_range
     else
     mbind (get_search pin) (\<lambda>st.
     mbind (put_search pin (onewire_target_search (ucast code) st)) (\<lambda>_. mret []))))"

text \<open>What the driver wrote through its pointer into the buffer.\<close>

definition write_addr :: "bytes \<Rightarrow> bytes option \<Rightarrow> bytes result" where
  "write_addr p addr = (case addr of None \<Rightarrow> Inr p | Some a \<Rightarrow> arr_copy p 0 a)"

definition ow_search_next :: "'b ow_bus \<Rightarrow> lua_conv \<Rightarrow> lua_value list \<Rightarrow> ('b, lua_value list) ow_handler" where
  "ow_search_next bus cv args =
     mbind (mlift (ow_pin_arg cv args)) (\<lambda>pin.
     mbind (get_search pin) (\<lambda>st.
     mbind (mget lua_buffer) (\<lambda>p.
     mbind (on_pin pin (\<lambda>b. rbind (onewire_search bus pin st b) (\<lambda>(found, addr, st, b). Inr ((found, addr, st), b))))
       (\<lambda>(found, addr, st).
     mbind (put_search pin st) (\<lambda>_.
     mbind (mlift (write_addr p addr)) (\<lambda>p.
     mbind (put_buffer p) (\<lambda>_.
     mret [if found then LString (take 8 p) else LNil])))))))"

definition ow_crc8 :: "lua_conv \<Rightarrow> lua_value list \<Rightarrow> ('b, lua_value list) ow_handler" where
  "ow_crc8 cv args =
     mbind (mlift (luaL_checklstring cv (index2adr args 1))) (\<lambda>pdata.
     if 255 < length pdata then wrong_range
     else
     mbind (mlift (onewire_crc8 pdata (of_nat (length pdata)))) (\<lambda>r. mret [lua_int (uint r)]))"

text \<open>The start value of a checksum; without one it is 0.\<close>

definition crc_arg :: "lua_conv \<Rightarrow> lua_value \<Rightarrow> u32 result" where
  "crc_arg cv v = (if lua_isnumber cv v then lua_tointeger cv v else Inr 0)"

text \<open>The two range checks after the checksum bytes test the length of the data, not the bytes.\<close>

definition ow_check_crc16 :: "lua_conv \<Rightarrow> lua_value list \<Rightarrow> ('b, lua_value list) ow_handler" where
  "ow_check_crc16 cv args =
     mbind (mlift (luaL_checklstring cv (index2adr args 1))) (\<lambda>pdata.
     if 65535 < length pdata then wrong_range
     else
     mbind (mlift (luaL_checkinteger cv (index2adr args 2))) (\<lambda>c0.
     if 255 < length pdata then wrong_range
     else
     mbind (mlift (luaL_checkinteger cv (index2adr args 3))) (\<lambda>c1.
     if 255 < length pdata then wrong_range
     else
     mbind (mlift (crc_arg cv (index2adr args 4))) (\<lambda>crc.
     if 65535 < sint crc then wrong_range
     else
     mbind (mlift (onewire_check_crc16 pdata (of_nat (length pdata)) [ucast c0, ucast c1] (ucast crc))) (\<lambda>r.
     mret [LBoolean r])))))"

definition ow_crc16 :: "lua_conv \<Rightarrow> lua_value list \<Rightarrow> ('b, lua_value list) ow_handler" where
  "ow_crc16 cv args =
     mbind (mlift (luaL_checklstring cv (index2adr args 1))) (\<lambda>pdata.
     if 65535 < length pdata then wrong_range
     else
     mbind (mlift (crc_arg cv (index2adr args 2))) (\<lambda>crc.
     if 65535 < sint crc then wrong_range
     else
     mbind (mlift (onewire_crc16 pdata (of_nat (length pdata)) (ucast crc))) (\<lambda>r. mret [lua_int (uint r)])))"

section \<open>Every call of the module\<close>

datatype ow_call =
    OwSetup | OwReset | OwSkip | OwSelect | OwWrite | OwWriteBytes | OwRead | OwReadBytes | OwDepower
  | OwResetSearch | OwTargetSearch | OwSearch | OwCrc8 | OwCheckCrc16 | OwCrc16

fun ow_handle :: "'b ow_bus \<Rightarrow> lua_conv \<Rightarrow> ow_call \<times> lua_value list \<Rightarrow> ('b, lua_value list) ow_handler" where
  "ow_handle bus cv (OwSetup, args) = ow_setup bus cv args"
| "ow_handle bus cv (OwReset, args) = ow_reset bus cv args"
| "ow_handle bus cv (OwSkip, args) = ow_skip bus cv args"
| "ow_handle bus cv (OwSelect, args) = ow_select bus cv args"
| "ow_handle bus cv (OwWrite, args) = ow_write bus cv args"
| "ow_handle bus cv (OwWriteBytes, args) = ow_write_bytes bus cv args"
| "ow_handle bus cv (OwRead, args) = ow_read bus cv args"
| "ow_handle bus cv (OwReadBytes, args) = ow_read_bytes bus cv args"
| "ow_handle bus cv (OwDepower, args) = ow_depower bus cv args"
| "ow_handle bus cv (OwResetSearch, args) = ow_reset_search cv args"
| "ow_handle bus cv (OwTargetSearch, args) = ow_target_search cv args"
| "ow_handle bus cv (OwSearch, args) = ow_search_next bus cv args"
| "ow_handle bus cv (OwCrc8, args) = ow_crc8 cv args"
| "ow_handle bus cv (OwCheckCrc16, args) = ow_check_crc16 cv args"
| "ow_handle bus cv (OwCrc16, args) = ow_crc16 cv args"

text \<open>Conversions from Lua numbers stay in the range of the C integers.\<close>

fun in_range :: "lua_conv \<Rightarrow> lua_value \<Rightarrow> bool" where
  "in_range cv (LTable vs) = (\<forall>v\<in>set vs. clean (lua_tointeger cv v))"
| "in_range cv v = clean (lua_tointeger cv v)"

fun ow_call_ok :: "lua_conv \<Rightarrow> 'b ow_world \<Rightarrow> ow_call \<times> lua_value list \<Rightarrow> bool" where
  "ow_call_ok cv w (c, args) =
     ((\<forall>v\<in>set args. in_range cv v) \<and>
      (c = OwReadBytes \<longrightarrow> (\<forall>siz. luaL_checkinteger cv (index2adr args 2) = Inr siz \<longrightarrow> unat siz \<le> LUAL_BUFFERSIZE)))"

section \<open>The module does nothing undefined\<close>

definition ow_inv :: "'b ow_world \<Rightarrow> bool" where
  "ow_inv w \<longleftrightarrow> length (pin_searches w) = 13 \<and> (\<forall>st\<in>set (pin_searches w). length (ROM_NO st) = 8)
     \<and> length (lua_buffer w) = LUAL_BUFFERSIZE"

lemma ow_inv_wire [simp]: "ow_inv (w\<lparr>wire := b\<rparr>) = ow_inv w"
  by (simp add: ow_inv_def)

lemma pin_arg_bound: "check_ow_id ident = Inr pin \<Longrightarrow> unat pin < 13"
  by (auto simp: check_ow_id_def platform_ow_exists_def NUM_GPIO_def word_less_nat_alt unat_ucast_mod split: if_splits)

lemma ow_pin_arg_bound: "ow_pin_arg cv args = Inr pin \<Longrightarrow> unat pin < 13"
  by (auto simp: ow_pin_arg_def rbind_eq_Inr dest: pin_arg_bound)

lemma in_range_int: "in_range cv v \<Longrightarrow> clean (lua_tointeger cv v)"
  by (cases v) (simp_all add: lua_tointeger_def tonumber_def)

lemma arg_in_range: "\<forall>v\<in>set args. in_range cv v \<Longrightarrow> in_range cv (index2adr args i)"
  by (auto simp: index2adr_def lua_tointeger_def tonumber_def)

lemma check_ow_id_clean: "clean (check_ow_id ident)"
  by (simp add: check_ow_id_def)

lemma args_clean:
  assumes "\<forall>v\<in>set args. in_range cv v"
  shows "clean (luaL_checkinteger cv (index2adr args i))" "clean (ow_pin_arg cv args)"
    "clean (power_arg cv (index2adr args i))" "clean (crc_arg cv (index2adr args i))"
  using in_range_int [OF arg_in_range [OF assms]]
  by (auto simp: ow_pin_arg_def power_arg_def crc_arg_def intro!: clean_rbind checkinteger_clean check_ow_id_clean)

lemma keeps_on_wire:
  "(\<And>b. clean (f b)) \<Longrightarrow> keeps ow_inv (on_wire f)"
  by (rule keepsI) (simp add: on_wire_def split: sum.splits prod.splits; metis clean_Inl_iff)

lemma ow_driver_in [simp]: "unat pin < 13 \<Longrightarrow> ow_driver pin f = f"
  by (rule ext) (simp add: ow_driver_def pin_num_def)

lemma keeps_on_pin:
  "unat pin < 13 \<Longrightarrow> (\<And>b. clean (f b)) \<Longrightarrow> keeps ow_inv (on_pin pin f)"
  by (simp add: on_pin_def keeps_on_wire)

lemma keeps_get_search:
  fixes f :: "ow_search \<Rightarrow> ('b, 'a) ow_handler"
  assumes "unat pin < 13" "\<And>st. length (ROM_NO st) = 8 \<Longrightarrow> keeps ow_inv (f st)"
  shows "keeps ow_inv (mbind (get_search pin) f)"
proof (rule keepsI)
  fix w :: "'b ow_world"
  assume w: "ow_inv w"
  then have "length (ROM_NO (pin_searches w ! unat pin)) = 8" "unat pin < length (pin_searches w)"
    using assms(1) by (simp_all add: ow_inv_def)
  then show "clean (fst (mbind (get_search pin) f w)) \<and> ow_inv (snd (mbind (get_search pin) f w))"
    using keepsD [OF assms(2) w] by (simp add: mbind_def get_search_def)
qed

lemma keeps_put_search:
  "unat pin < 13 \<Longrightarrow> length (ROM_NO st) = 8 \<Longrightarrow> keeps ow_inv (put_search pin st)"
  by (rule keepsI) (auto simp: put_search_def ow_inv_def dest!: set_update_subset_insert [THEN subsetD])

lemma onewire_select_safe: "length rom = 8 \<Longrightarrow> \<exists>b'. onewire_select bus pin rom b = Inr b'"
  unfolding onewire_select_def
  using rfold_safe [where P = "\<lambda>_. True" and xs = "[0..<8]"
      and f = "\<lambda>i b. rbind (arr_get rom i) (\<lambda>v. Inr (onewire_write bus pin v False b))"] by auto

lemma onewire_write_bytes_safe: "unat count \<le> length buf \<Longrightarrow> \<exists>b'. onewire_write_bytes bus pin buf count powered b = Inr b'"
  unfolding onewire_write_bytes_def
  using rfold_safe [where P = "\<lambda>_. True" and xs = "[0..<unat count]" and s = b
      and f = "\<lambda>i b. rbind (arr_get buf i) (\<lambda>v. Inr (onewire_write bus pin v False b))"] by auto

lemma onewire_read_bytes_safe:
  fixes b :: 'b
  assumes "unat count \<le> length buf"
  shows "\<exists>buf' b'. onewire_read_bytes bus pin buf count b = Inr (buf', b') \<and> length buf' = length buf"
proof -
  have "\<exists>s'. onewire_read_bytes bus pin buf count b = Inr s' \<and> length (fst s') = length buf"
    unfolding onewire_read_bytes_def
  proof (rule rfold_safe)
    fix i and s :: "bytes \<times> 'b"
    assume "i \<in> set [0..<unat count]" "length (fst s) = length buf"
    with assms show "\<exists>s'. (case s of (buf, b) \<Rightarrow> case onewire_read bus pin b of
        (r, b) \<Rightarrow> rbind (arr_set buf i r) (\<lambda>buf. Inr (buf, b))) = Inr s' \<and> length (fst s') = length buf"
      by (auto split: prod.splits)
  qed simp
  then show ?thesis by auto
qed

lemma choose_direction_shape:
  "\<exists>dir z st'. choose_direction x y byte (locals_at k lz) st = (dir, locals_at k z, st') \<and> ROM_NO st' = ROM_NO st"
proof -
  have upd: "id_bit_number (locals_at k lz) = Suc k" "(locals_at k lz)\<lparr>last_zero := z\<rparr> = locals_at k z" for z
    by (simp_all add: locals_at_def)
  show ?thesis unfolding choose_direction_def Let_def upd by auto
qed

lemma onewire_read_bytes_overrun:
  fixes b :: 'b
  assumes "length buf < unat count"
  shows "onewire_read_bytes bus pin buf count b = Inl (OutOfBounds (length buf))"
proof -
  let ?f = "\<lambda>i (buf, b). case onewire_read bus pin b of (r, b) \<Rightarrow> rbind (arr_set buf i r) (\<lambda>buf. Inr (buf, b))"
  have upt: "[0..<unat count] = [0..<length buf] @ length buf # [Suc (length buf)..<unat count]"
    using assms by (metis less_imp_le_nat upt_add_eq_append upt_conv_Cons le_add_diff_inverse le0 add_0)
  have "\<exists>s. rfold ?f [0..<length buf] (buf, b) = Inr s \<and> length (fst s) = length buf"
  proof (rule rfold_safe)
    fix i and s :: "bytes \<times> 'b"
    assume "i \<in> set [0..<length buf]" "length (fst s) = length buf"
    then show "\<exists>s'. ?f i s = Inr s' \<and> length (fst s') = length buf" by (auto split: prod.splits)
  qed simp
  then show ?thesis
    unfolding onewire_read_bytes_def upt rfold_append by (auto split: prod.splits)
qed

lemma search_bit_safe:
  assumes "length (ROM_NO st) = 8" "k < 64"
  shows "\<exists>stop z st' b'. search_bit bus pin (locals_at k lz) st b = Inr (stop, locals_at (if stop then k else Suc k) z, st', b')
    \<and> length (ROM_NO st') = 8"
proof -
  obtain id_bit b1 where r1: "onewire_read_bit bus pin b = (id_bit, b1)" by fastforce
  obtain cmp_id_bit b2 where r2: "onewire_read_bit bus pin b1 = (cmp_id_bit, b2)" by fastforce
  have at: "rom_byte_number (locals_at k z) = k div 8" "k div 8 < 8" for z
    using assms(2) by (simp_all add: locals_at_def)
  show ?thesis
  proof (cases "id_bit \<and> cmp_id_bit")
    case True
    then show ?thesis by (auto simp: search_bit_def r1 r2 assms(1))
  next
    case False
    obtain dir z st1 where ch: "choose_direction id_bit cmp_id_bit (ROM_NO st ! (k div 8)) (locals_at k lz) st = (dir, locals_at k z, st1)"
      and st1: "ROM_NO st1 = ROM_NO st"
      using choose_direction_shape by blast
    from False show ?thesis
      using assms(1) at by (intro exI [of _ False]) (auto simp: search_bit_def r1 r2 ch st1 next_bit_at)
  qed
qed

lemma search_loop_safe:
  "length (ROM_NO st) = 8 \<Longrightarrow> k + n = 64 \<Longrightarrow>
   \<exists>l st' b'. search_loop bus pin n (locals_at k lz) st b = Inr (l, st', b') \<and> length (ROM_NO st') = 8"
proof (induction n arbitrary: k lz st b)
  case (Suc n)
  have k: "k < 64" using Suc.prems(2) by simp
  obtain stop z st1 b1 where step:
    "search_bit bus pin (locals_at k lz) st b = Inr (stop, locals_at (if stop then k else Suc k) z, st1, b1)"
    "length (ROM_NO st1) = 8"
    using search_bit_safe [OF Suc.prems(1) k, of bus pin lz b] by blast
  show ?case
  proof (cases stop)
    case True
    with step show ?thesis by auto
  next
    case False
    with step(1) have "search_loop bus pin (Suc n) (locals_at k lz) st b = search_loop bus pin n (locals_at (Suc k) z) st1 b1"
      by (intro search_loop_step [OF _ Suc.prems(2)]) simp
    with Suc.IH [OF step(2)] Suc.prems(2) show ?thesis by simp
  qed
qed auto

lemma search_finish_safe:
  "length (ROM_NO st) = 8 \<Longrightarrow>
   \<exists>found addr st' b'. search_finish r st b = Inr (found, addr, st', b') \<and> length (ROM_NO st') = 8
     \<and> (\<forall>a. addr = Some a \<longrightarrow> length a = 8)"
  by (auto simp: search_finish_def forget_search_def)

text \<open>Whatever the devices answer, a search ends and stays within the address.\<close>

lemma onewire_search_safe:
  assumes "length (ROM_NO st) = 8"
  shows "\<exists>found addr st' b'. onewire_search bus pin st b = Inr (found, addr, st', b') \<and> length (ROM_NO st') = 8
     \<and> (\<forall>a. addr = Some a \<longrightarrow> length a = 8)"
proof (cases "LastDeviceFlag st")
  case True
  with search_finish_safe [OF assms] show ?thesis by (simp add: onewire_search_def)
next
  case False
  obtain r b1 where reset: "onewire_reset bus pin b = (r, b1)" by fastforce
  obtain l st1 b2 where loop:
    "search_loop bus pin 64 search_start st (onewire_write bus pin 0xF0 False b1) = Inr (l, st1, b2)" "length (ROM_NO st1) = 8"
    using search_loop_safe [OF assms add_0, of bus pin 0 "onewire_write bus pin 0xF0 False b1"] unfolding search_start_at by blast
  show ?thesis
  proof (cases r)
    case True
    let ?st = "st1\<lparr>LastDiscrepancy := last_zero l, LastDeviceFlag := (if last_zero l = 0 then True else LastDeviceFlag st1)\<rparr>"
    have "length (ROM_NO ?st) = 8" using loop(2) by simp
    from search_finish_safe [OF this, of True b2] search_finish_safe [OF loop(2), of False b2] show ?thesis
      unfolding onewire_search_def reset using False True
      by (cases "id_bit_number l < 65") (simp_all only: loop(1) rbind_Inr prod.case bool.case if_True if_False simp_thms)
  next
    case r: False
    with False assms show ?thesis by (auto simp: onewire_search_def reset forget_search_def)
  qed
qed

lemma clean_and_rbind:
  "clean m \<Longrightarrow> (\<And>x. m = Inr x \<Longrightarrow> clean_and P (f x)) \<Longrightarrow> clean_and P (rbind m f)"
  by (cases m) (auto simp: clean_and_def clean_Inl_iff)

lemma rfold_clean:
  assumes "\<And>x s. x \<in> set xs \<Longrightarrow> P s \<Longrightarrow> clean_and P (f x s)" "P s"
  shows "clean_and P (rfold f xs s)"
  using assms
proof (induction xs arbitrary: s)
  case (Cons x xs)
  have step: "clean_and P (f x s)" using Cons.prems by simp
  show ?case
    using Cons.IH Cons.prems(1) clean_andD [OF step] by (auto intro!: clean_and_rbind)
qed (simp add: clean_and_def)

lemma rom_from_table_safe:
  assumes "in_range cv v"
  shows "clean (rom_from_table cv v)" "rom_from_table cv v = Inr rom \<Longrightarrow> length rom = 8"
proof -
  have elem: "clean (lua_tointeger cv (lua_rawgeti v i))" for i
    using assms by (cases v) (auto simp: lua_rawgeti_def index2adr_def lua_tointeger_def tonumber_def)
  have "clean_and (\<lambda>rom. length rom = 8) (rom_from_table cv v)"
    unfolding rom_from_table_def
  proof (rule rfold_clean)
    fix i and rom :: bytes
    assume "i \<in> set [0..<8]" "length rom = 8"
    then show "clean_and (\<lambda>rom. length rom = 8) (rbind (luaL_checkinteger cv (lua_rawgeti v (i + 1))) (\<lambda>numdata.
        if 255 < sint numdata then Inl (LuaError ''wrong arg range'') else arr_set rom i (ucast numdata)))"
      using checkinteger_clean [OF elem] by (intro clean_and_rbind) (simp_all add: clean_and_def)
  qed simp
  then show "clean (rom_from_table cv v)" "rom_from_table cv v = Inr rom \<Longrightarrow> length rom = 8"
    by (auto dest: clean_andD)
qed

lemma keeps_on_wire_mbind:
  fixes f :: "'b \<Rightarrow> ('x \<times> 'b) result"
  assumes "\<And>b. clean_and (\<lambda>(x, b). Q x) (f b)" "\<And>x. Q x \<Longrightarrow> keeps ow_inv (g x)"
  shows "keeps ow_inv (mbind (on_wire f) g)"
proof (rule keepsI)
  fix w :: "'b ow_world"
  assume w: "ow_inv w"
  show "clean (fst (mbind (on_wire f) g w)) \<and> ow_inv (snd (mbind (on_wire f) g w))"
  proof (cases "f (wire w)")
    case (Inl e)
    then show ?thesis
      using w clean_andD(1) [OF assms(1) [of "wire w"]] by (simp add: mbind_def on_wire_def clean_Inl_iff)
  next
    case (Inr p)
    with clean_andD(2) [OF assms(1)] have "Q (fst p)" by fastforce
    from keepsD [OF assms(2) [OF this], of "w\<lparr>wire := snd p\<rparr>"] Inr w show ?thesis
      by (simp add: mbind_def on_wire_def split_def)
  qed
qed

lemma keeps_on_pin_mbind:
  fixes f :: "'b \<Rightarrow> ('x \<times> 'b) result"
  assumes "unat pin < 13" "\<And>b. clean_and (\<lambda>(x, b). Q x) (f b)" "\<And>x. Q x \<Longrightarrow> keeps ow_inv (g x)"
  shows "keeps ow_inv (mbind (on_pin pin f) g)"
  unfolding on_pin_def ow_driver_in [OF assms(1)] by (rule keeps_on_wire_mbind [OF assms(2,3)])

lemma keeps_buffer_mbind:
  fixes f :: "bytes \<Rightarrow> ('b, 'a) ow_handler"
  assumes "\<And>p. length p = LUAL_BUFFERSIZE \<Longrightarrow> keeps ow_inv (f p)"
  shows "keeps ow_inv (mbind (mget lua_buffer) f)"
proof (rule keepsI)
  fix w :: "'b ow_world"
  assume w: "ow_inv w"
  then have "length (lua_buffer w) = LUAL_BUFFERSIZE" by (simp add: ow_inv_def)
  from keepsD [OF assms [OF this] w]
  show "clean (fst (mbind (mget lua_buffer) f w)) \<and> ow_inv (snd (mbind (mget lua_buffer) f w))" by simp
qed

lemmas ow_keeps = keeps_mlift_mbind keeps_get_search keeps_buffer_mbind keeps_mbind keeps_mret keeps_on_wire
  keeps_on_pin keeps_put_search keeps_mfail keeps_if

lemma keeps_simple:
  assumes "\<forall>v\<in>set args. in_range cv v"
  shows "keeps ow_inv (ow_reset bus cv args)" "keeps ow_inv (ow_skip bus cv args)"
    "keeps ow_inv (ow_read bus cv args)" "keeps ow_inv (ow_depower bus cv args)"
    "keeps ow_inv (ow_write bus cv args)"
  unfolding ow_reset_def ow_skip_def ow_read_def ow_depower_def ow_write_def
  by (intro ow_keeps args_clean [OF assms]; (erule ow_pin_arg_bound | simp))+

lemma keeps_put_buffer: "length buf = LUAL_BUFFERSIZE \<Longrightarrow> keeps ow_inv (put_buffer buf)"
  unfolding put_buffer_def by (intro keeps_mupd) (simp add: ow_inv_def)

lemma keeps_searches:
  assumes "\<forall>v\<in>set args. in_range cv v"
  shows "keeps ow_inv (ow_reset_search cv args)" "keeps ow_inv (ow_target_search cv args)"
  unfolding ow_reset_search_def ow_target_search_def
  by (intro ow_keeps args_clean [OF assms];
      (erule ow_pin_arg_bound | simp add: onewire_reset_search_def onewire_target_search_def))+

lemma keeps_setup:
  assumes "\<forall>v\<in>set args. in_range cv v"
  shows "keeps ow_inv (ow_setup bus cv args)"
  unfolding ow_setup_def
  by (intro keeps_on_wire_mbind [where Q = "\<lambda>st. length (ROM_NO st) = 8"] ow_keeps args_clean [OF assms] check_ow_id_clean;
      (erule pin_arg_bound | simp add: onewire_init_def onewire_reset_search_def clean_and_def))

lemma rom_arg_safe:
  assumes "in_range cv v"
  shows "clean (rom_arg cv v)" "rom_arg cv v = Inr rom \<Longrightarrow> length rom = 8"
  using rom_from_table_safe [OF assms] checklstring_clean [of cv v]
  by (auto simp: rom_arg_def rbind_eq_Inr intro!: clean_rbind split: if_splits)

lemma keeps_select:
  assumes "\<forall>v\<in>set args. in_range cv v"
  shows "keeps ow_inv (ow_select bus cv args)"
  unfolding ow_select_def
proof (intro ow_keeps args_clean [OF assms] rom_arg_safe(1) [OF arg_in_range [OF assms]])
  fix pin rom b
  assume "rom_arg cv (index2adr args 2) = Inr rom"
  from onewire_select_safe [OF rom_arg_safe(2) [OF arg_in_range [OF assms] this], of bus pin b]
  show "clean (rbind (onewire_select bus pin rom b) (\<lambda>b. Inr ((), b)))" by auto
qed (erule ow_pin_arg_bound)

lemma unat_of_length: "unat (of_nat (length xs) :: 'a::len word) \<le> length xs"
  by (simp add: unat_of_nat)

lemma keeps_crcs:
  assumes "\<forall>v\<in>set args. in_range cv v"
  shows "keeps ow_inv (ow_crc8 cv args)" "keeps ow_inv (ow_crc16 cv args)" "keeps ow_inv (ow_check_crc16 cv args)"
  unfolding ow_crc8_def ow_crc16_def ow_check_crc16_def onewire_check_crc16_def
  by (intro ow_keeps args_clean [OF assms] checklstring_clean;
      simp add: onewire_crc8_register onewire_crc16_register unat_of_length Let_def)+

lemma keeps_write_bytes:
  assumes "\<forall>v\<in>set args. in_range cv v"
  shows "keeps ow_inv (ow_write_bytes bus cv args)"
  unfolding ow_write_bytes_def
proof (intro ow_keeps args_clean [OF assms] checklstring_clean)
  fix pin pdata powered b
  show "clean (rbind (onewire_write_bytes bus pin pdata (of_nat (length pdata)) powered b) (\<lambda>b. Inr ((), b)))"
    using onewire_write_bytes_safe [OF unat_of_length, of bus pin pdata powered b] by auto
qed (erule ow_pin_arg_bound)

lemma keeps_read_bytes:
  assumes "\<forall>v\<in>set args. in_range cv v"
    "\<forall>siz. luaL_checkinteger cv (index2adr args 2) = Inr siz \<longrightarrow> unat siz \<le> LUAL_BUFFERSIZE"
  shows "keeps ow_inv (ow_read_bytes bus cv args)"
  unfolding ow_read_bytes_def
proof (intro keeps_on_pin_mbind [where Q = "\<lambda>p. length p = LUAL_BUFFERSIZE"] ow_keeps args_clean [OF assms(1)] keeps_put_buffer)
  fix pin siz b and p :: bytes
  assume "luaL_checkinteger cv (index2adr args 2) = Inr siz" and p: "length p = LUAL_BUFFERSIZE"
  with assms(2) have "unat siz \<le> LUAL_BUFFERSIZE" by blast
  then have "unat (ucast siz :: u16) \<le> length p"
    using p by (simp add: unat_ucast_mod LUAL_BUFFERSIZE_def)
  from onewire_read_bytes_safe [OF this, of bus pin b] p
  show "clean_and (\<lambda>(x, b). length x = LUAL_BUFFERSIZE) (onewire_read_bytes bus pin p (ucast siz) b)"
    by (auto simp: clean_and_def)
next
  fix siz and p q :: bytes
  assume "luaL_checkinteger cv (index2adr args 2) = Inr siz" "length q = LUAL_BUFFERSIZE" "length q < unat siz"
  with assms(2) show "clean (Inl (OutOfBounds (length q)) :: lua_value list result)" by fastforce
qed (assumption | erule ow_pin_arg_bound)+

lemma keeps_search_next:
  assumes "\<forall>v\<in>set args. in_range cv v"
  shows "keeps ow_inv (ow_search_next bus cv args)"
proof -
  have wire: "clean_and (\<lambda>(x, b). case x of (found, addr, st) \<Rightarrow> length (ROM_NO st) = 8 \<and> (\<forall>a. addr = Some a \<longrightarrow> length a = 8))
      (rbind (onewire_search bus pin st b) (\<lambda>(found, addr, st, b). Inr ((found, addr, st), b)))"
    if "length (ROM_NO st) = 8" for pin st b
    using onewire_search_safe [OF that, of bus pin b] by (auto simp: clean_and_def)
  have copy: "clean (write_addr p addr)" "write_addr p addr = Inr q \<Longrightarrow> length q = LUAL_BUFFERSIZE"
    if "length p = LUAL_BUFFERSIZE" "\<forall>a. addr = Some a \<longrightarrow> length a = 8" for p q :: bytes and addr
    using that by (auto simp: write_addr_def LUAL_BUFFERSIZE_def split: option.splits)
  have rest: "keeps ow_inv (mbind (put_search pin st) (\<lambda>_. mbind (mlift (write_addr p addr)) (\<lambda>p.
      mbind (put_buffer p) (\<lambda>_. mret [if found then LString (take 8 p) else LNil]))))"
    if "unat pin < 13" "length (ROM_NO st) = 8" "length p = LUAL_BUFFERSIZE" "\<forall>a. addr = Some a \<longrightarrow> length a = 8"
    for pin st p addr found
    using that by (intro ow_keeps keeps_put_buffer) (assumption | erule copy [rotated 2] | rule copy)+
  show ?thesis
    unfolding ow_search_next_def
  proof (intro keeps_on_pin_mbind [OF _ wire] ow_keeps args_clean [OF assms])
    fix pin and p :: bytes and x :: "bool \<times> bytes option \<times> ow_search"
    assume "ow_pin_arg cv args = Inr pin" "length p = LUAL_BUFFERSIZE"
      "case x of (found, addr, st) \<Rightarrow> length (ROM_NO st) = 8 \<and> (\<forall>a. addr = Some a \<longrightarrow> length a = 8)"
    then show "keeps ow_inv (case x of (found, addr, st) \<Rightarrow> mbind (put_search pin st) (\<lambda>_. mbind (mlift (write_addr p addr)) (\<lambda>p.
      mbind (put_buffer p) (\<lambda>_. mret [if found then LString (take 8 p) else LNil]))))"
      by (auto intro!: rest ow_pin_arg_bound split: prod.splits)
  qed (assumption | erule ow_pin_arg_bound)+
qed

interpretation ow: handled "ow_handle bus cv" ow_inv "ow_call_ok cv"
proof (unfold_locales, goal_cases)
  case (1 w e)
  obtain c args where e: "e = (c, args)" by fastforce
  with 1(2) have ok: "\<forall>v\<in>set args. in_range cv v" by simp
  have "keeps ow_inv (ow_handle bus cv e)"
  proof (cases "c = OwReadBytes")
    case True
    with 1(2) show ?thesis by (simp add: e keeps_read_bytes)
  next
    case False
    then show ?thesis
      using keeps_simple [OF ok] keeps_searches [OF ok] keeps_setup [OF ok] keeps_select [OF ok]
        keeps_crcs [OF ok] keeps_write_bytes [OF ok] keeps_search_next [OF ok]
      by (cases c) (simp_all add: e)
  qed
  from keepsD [OF this 1(1)] show ?case .
qed

text \<open>C33: No sequence of calls into the 1-Wire module does anything undefined, whatever the devices on the
  bus answer and whatever arguments are passed, provided that numbers fit the C integers and
  block reads ask for at most the 4096 bytes of the Lua buffer.\<close>

theorem ow_module_safe:
  assumes "ow_inv w" "admissible (ow_handle bus cv) (ow_call_ok cv) w (es @ e # es')"
  shows "clean (fst (ow_handle bus cv e (after (ow_handle bus cv) es w)))"
  using assms by (rule ow.runs_clean)

text \<open>A block read of more bytes than the Lua buffer has, up to the 65535 the driver can be asked for, writes
  past the end of the buffer on the C stack.\<close>

theorem ow_read_bytes_overrun:
  assumes "ow_inv w" "platform_ow_exists (word_of_int n)" "0 \<le> n" "n < 13"
    "int LUAL_BUFFERSIZE < siz" "siz < 65536"
  shows "fst (ow_read_bytes bus cv [lua_int n, lua_int siz] w) = Inl (OutOfBounds LUAL_BUFFERSIZE)"
proof -
  let ?pin = "ucast (word_of_int n :: u32) :: u8" and ?siz = "word_of_int siz :: u32"
  have buf: "length (lua_buffer w) = LUAL_BUFFERSIZE" using assms(1) by (simp add: ow_inv_def)
  have "?siz = of_nat (nat siz)" using assms by simp
  then have siz: "unat ?siz = nat siz" using assms(6) by (simp only: unat_of_nat) simp
  then have "unat (ucast ?siz :: u16) = nat siz" "?siz \<noteq> 0"
    using assms by (auto simp: unat_ucast_mod)
  note siz = siz this
  have "onewire_read_bytes bus ?pin (lua_buffer w) (ucast ?siz) (wire w) = Inl (OutOfBounds LUAL_BUFFERSIZE)"
    using onewire_read_bytes_overrun [of "lua_buffer w" "ucast ?siz" bus ?pin "wire w"] assms(5) siz(2)
    by (simp add: buf)
  moreover have "check_ow_id (word_of_int n) = Inr ?pin" using assms(2) by (simp add: check_ow_id_def)
  then have "unat ?pin < 13" by (rule pin_arg_bound)
  then have "on_pin ?pin f = on_wire f" for f :: "'a \<Rightarrow> (bytes \<times> 'a) result" by (simp add: on_pin_def)
  ultimately show ?thesis
    using assms siz(3) by (simp add: ow_read_bytes_def ow_pin_arg_def check_ow_id_def on_wire_def mbind_def index2adr_def)
qed

section \<open>Witnesses\<close>

definition demo_ow :: "unit ow_world" where
  "demo_ow = \<lparr>wire = (), pin_searches = replicate 13 \<lparr>ROM_NO = replicate 8 0, LastDiscrepancy = 0,
     LastFamilyDiscrepancy = 0, LastDeviceFlag = False\<rparr>, lua_buffer = replicate LUAL_BUFFERSIZE 0\<rparr>"

text \<open>A bus that nothing is connected to: the pull-up keeps the line high.\<close>

definition empty_bus :: "unit ow_bus" where
  "empty_bus = \<lparr>drive = (\<lambda>_ b. b), level = (\<lambda>_ b. (True, b))\<rparr>"

lemma demo_ow_inv: "ow_inv demo_ow"
  by (simp add: ow_inv_def demo_ow_def)

theorem ow_module_safe_witness:
  "clean (fst (ow_handle empty_bus plain_conv (OwSearch, [lua_int 1])
     (after (ow_handle empty_bus plain_conv) [(OwSetup, [lua_int 1])] demo_ow)))"
  by (rule ow_module_safe [OF demo_ow_inv, where es' = "[]"])
    (simp add: lua_tointeger_def tonumber_def cfloat_to_int_def cf_trunc_def)

theorem ow_read_bytes_overrun_witness:
  "fst (ow_read_bytes empty_bus plain_conv [lua_int 1, lua_int 5000] demo_ow) = Inl (OutOfBounds LUAL_BUFFERSIZE)"
  by (rule ow_read_bytes_overrun [OF demo_ow_inv])
    (simp_all add: platform_ow_exists_def NUM_GPIO_def LUAL_BUFFERSIZE_def)

end
