(* ===== verification/Pwm.thy ===== *)
theory Pwm
  imports Gpio Lua_Api "HOL-Library.Multiset"
begin

text \<open>
  Pulse width modulation: the driver (\<open>driver/pwm.c\<close>), the platform functions over it
  (\<open>platform/platform.c\<close>) and the Lua module (\<open>modules/pwm.c\<close>). The driver compiles the duties of up to
  six channels into a schedule, a list of times at which pins are set and cleared, which the
  timer interrupt plays over and over; two copies of the schedule are kept so that a new one can
  be prepared while the other is played. The theory \<open>Pwm_Wave\<close> proves what the played wave is.
\<close>

section \<open>State\<close>

record pwm_single_param =
  gpio_set :: u16
  gpio_clear :: u16
  h_time :: u32

datatype pwm_event =
    PwmOut u16 u16 u16
  | PwmLoad u32
  | PwmCtrl
  | PwmIntrAttach
  | PwmPins "pin_event list"

text \<open>
  The two pointers \<open>pwm_single\<close> and \<open>pwm_channel\<close> always refer to the same half of the double buffer;
  \<open>pwm_playing\<close> is its index, none while they are null. The flag \<open>critical\<close> is clear whenever a function
  of the driver is entered, since none of them calls another while it holds it and the interrupt
  handler does not take it; so the lock never waits. The state ends with the duties that the
  platform functions keep per pin, and a log of what was written to the hardware.
\<close>

record pwm_state =
  pwm_single_toggle :: "pwm_single_param list list"
  pwm_channel_toggle :: "nat list"
  pwm_playing :: "nat option"
  period :: u32
  freq :: u16
  duty :: "u16 list"
  pwm_out_io_num :: "int list"
  pwm_toggle :: nat
  pwm_timer_down :: bool
  pwm_current_channel :: nat
  pwm_gpio :: u16
  pwm_channel_num :: nat
  pwms_duty :: "u16 list"
  pwm_log :: "pwm_event list"

type_synonym 'a pwm_handler = "(pwm_state, 'a) handler"

definition PWM_CHANNEL :: nat where "PWM_CHANNEL = 6"
definition PWM_DEPTH :: u32 where "PWM_DEPTH = 1023"

definition pwm_emit :: "pwm_event list \<Rightarrow> unit pwm_handler" where
  "pwm_emit evs = mupd (\<lambda>s. s\<lparr>pwm_log := pwm_log s @ evs\<rparr>)"

section \<open>Compiling a schedule\<close>

definition US_TO_RTC_TIMER_TICKS :: "u32 \<Rightarrow> u32" where
  "US_TO_RTC_TIMER_TICKS t =
     (if t \<noteq> 0 then
        if 0x35A < t then drop_bit 2 t * (5000000 div 250000) + (t AND 3) * (5000000 div 1000000)
        else (t * 5000000) div 1000000
      else 0)"

text \<open>The inner loop of the sort: the argument is the place that is free, one above the index \<open>j\<close>.\<close>

fun insert_down :: "pwm_single_param \<Rightarrow> nat \<Rightarrow> pwm_single_param list \<Rightarrow> pwm_single_param list result" where
  "insert_down tmp 0 ps = arr_set ps 0 tmp"
| "insert_down tmp (Suc j) ps =
     rbind (arr_get ps j) (\<lambda>e.
     if h_time tmp < h_time e then rbind (arr_set ps (Suc j) e) (insert_down tmp j)
     else arr_set ps (Suc j) tmp)"

definition pwm_insert_sort :: "pwm_single_param list \<Rightarrow> nat \<Rightarrow> pwm_single_param list result" where
  "pwm_insert_sort ps n =
     rfold (\<lambda>i ps.
       rbind (arr_get ps i) (\<lambda>e.
       rbind (arr_get ps (i - 1)) (\<lambda>d.
       if h_time e < h_time d then rbind (arr_set ps i d) (insert_down e i) else Inr ps))) [1..<n] ps"

text \<open>Step 3: entries with equal times become one; the entries behind move down.\<close>

definition merge_param :: "pwm_single_param \<Rightarrow> pwm_single_param \<Rightarrow> pwm_single_param" where
  "merge_param p q = p\<lparr>gpio_set := gpio_set p OR gpio_set q, gpio_clear := gpio_clear p OR gpio_clear q\<rparr>"

definition move_down :: "nat \<Rightarrow> nat \<Rightarrow> pwm_single_param list \<Rightarrow> pwm_single_param list result" where
  "move_down i n ps = rfold (\<lambda>j ps. rbind (arr_get ps j) (arr_set ps (j - 1))) [i..<n] ps"

definition combine_step :: "nat \<Rightarrow> pwm_single_param list \<times> nat \<Rightarrow> (pwm_single_param list \<times> nat) result" where
  "combine_step i = (\<lambda>(ps, n).
     rbind (arr_get ps i) (\<lambda>e.
     rbind (arr_get ps (i - 1)) (\<lambda>d.
     if h_time e = h_time d then
       rbind (arr_set ps (i - 1) (merge_param d e)) (\<lambda>ps.
       rbind (move_down (i + 1) n ps) (\<lambda>ps. Inr (ps, n - 1)))
     else Inr (ps, n))))"

text \<open>Step 4: from times to differences.\<close>

definition delta_step :: "nat \<Rightarrow> pwm_single_param list \<Rightarrow> pwm_single_param list result" where
  "delta_step i ps =
     rbind (arr_get ps i) (\<lambda>e.
     rbind (arr_get ps (i - 1)) (\<lambda>d. arr_set ps i (e\<lparr>h_time := h_time e - h_time d\<rparr>)))"

text \<open>
  Steps 5 and 6 change the last entry in use, at \<open>*local_channel - 1\<close>; an entry at time 0 is folded
  into it.
\<close>

definition change_last :: "(pwm_single_param \<Rightarrow> pwm_single_param) \<Rightarrow> nat \<Rightarrow> pwm_single_param list \<Rightarrow> pwm_single_param list result" where
  "change_last f n ps =
     (if n = 0 then Inl (OutOfBounds 0) else rbind (arr_get ps (n - 1)) (\<lambda>e. arr_set ps (n - 1) (f e)))"

definition drop_zero :: "pwm_single_param list \<times> nat \<Rightarrow> (pwm_single_param list \<times> nat) result" where
  "drop_zero = (\<lambda>(ps, n).
     rbind (arr_get ps 0) (\<lambda>z.
     if h_time z = 0 then
       rbind (change_last (\<lambda>e. e\<lparr>gpio_set := gpio_set e AND NOT (gpio_clear z)\<rparr>) n ps) (\<lambda>ps.
       rbind (arr_get ps 0) (\<lambda>z.
       rbind (change_last (\<lambda>e. e\<lparr>gpio_clear := gpio_clear e OR gpio_clear z\<rparr>) n ps) (\<lambda>ps.
       rbind (move_down 1 n ps) (\<lambda>ps. Inr (ps, n - 1)))))
     else Inr (ps, n)))"

text \<open>Steps 2 to 6 on the first \<open>num + 1\<close> entries of the array.\<close>

definition compile_schedule :: "nat \<Rightarrow> pwm_single_param list \<Rightarrow> (pwm_single_param list \<times> nat) result" where
  "compile_schedule num ps =
     rbind (pwm_insert_sort ps (num + 1)) (\<lambda>ps.
     rbind (rfold combine_step (rev [1..<num + 1]) (ps, num + 1)) (\<lambda>(ps, n).
     rbind (rfold delta_step (rev [1..<n]) ps) (\<lambda>ps.
     rbind (change_last (\<lambda>e. e\<lparr>gpio_clear := 0\<rparr>) n ps) (\<lambda>ps.
     drop_zero (ps, n)))))"

section \<open>The driver\<close>

text \<open>Pin masks are 16 bits wide. A free channel slot holds -1.\<close>

definition pin_mask :: "int \<Rightarrow> u16 result" where
  "pin_mask channel =
     (if channel < 0 then Inl (OutOfBounds 0)
      else rbind (arr_get pin_num (nat channel)) (\<lambda>n. Inr (ucast (push_bit n 1 :: u32))))"

definition channel_param :: "pwm_state \<Rightarrow> nat \<Rightarrow> pwm_single_param result" where
  "channel_param s i =
     rbind (arr_get (duty s) i) (\<lambda>d.
     rbind (arr_get (pwm_out_io_num s) i) (\<lambda>channel.
     rbind (pin_mask channel) (\<lambda>m.
     let us = period s * ucast d div PWM_DEPTH in
     Inr \<lparr>gpio_set = 0, gpio_clear = m, h_time = US_TO_RTC_TIMER_TICKS us\<rparr>)))"

definition fill_params :: "pwm_state \<Rightarrow> pwm_single_param list \<Rightarrow> pwm_single_param list result" where
  "fill_params s ps =
     rbind (rfold (\<lambda>i ps. rbind (channel_param s i) (\<lambda>p. arr_set ps i p)) [0..<pwm_channel_num s] ps) (\<lambda>ps.
     arr_set ps (pwm_channel_num s)
       \<lparr>gpio_set = pwm_gpio s, gpio_clear = 0, h_time = US_TO_RTC_TIMER_TICKS (period s)\<rparr>)"

definition pwm_start :: "unit pwm_handler" where
  "pwm_start =
     mbind (mget id) (\<lambda>s.
     let t = (if pwm_toggle s = 1 then 0 else 1) in
     mbind (mlift (arr_get (pwm_single_toggle s) t)) (\<lambda>local_single.
     mbind (mlift (fill_params s local_single)) (\<lambda>ps.
     mbind (mlift (compile_schedule (pwm_channel_num s) ps)) (\<lambda>(ps, n).
     mbind (mlift (arr_set (pwm_single_toggle s) t ps)) (\<lambda>singles.
     mbind (mlift (arr_set (pwm_channel_toggle s) t n)) (\<lambda>channels.
     mbind (mupd (\<lambda>s. s\<lparr>pwm_single_toggle := singles, pwm_channel_toggle := channels\<rparr>)) (\<lambda>_.
     mbind (if pwm_timer_down s then
              mbind (mupd (\<lambda>s. s\<lparr>pwm_playing := Some t\<rparr>)) (\<lambda>_.
              mbind (mlift (arr_get ps 0)) (\<lambda>e.
              mbind (pwm_emit [PwmOut (gpio_set e) (gpio_clear e) (pwm_gpio s)]) (\<lambda>_.
              if n \<noteq> 1 then
                mbind (mupd (\<lambda>s. s\<lparr>pwm_timer_down := False\<rparr>)) (\<lambda>_.
                pwm_emit [PwmLoad (h_time e)])
              else mret ())))
            else mret ()) (\<lambda>_.
     mupd (\<lambda>s. s\<lparr>pwm_toggle := t\<rparr>)))))))))"

text \<open>
  The loops over the slots, which stop at the first one that fits: the functions on one channel
  search those in use, \<open>pwm_add\<close> and \<open>pwm_exist\<close> all.
\<close>

fun find_slot :: "(int \<Rightarrow> bool) \<Rightarrow> int list \<Rightarrow> nat list \<Rightarrow> nat option result" where
  "find_slot P io [] = Inr None"
| "find_slot P io (i # is) = rbind (arr_get io i) (\<lambda>c. if P c then Inr (Some i) else find_slot P io is)"

definition find_channel :: "u8 \<Rightarrow> pwm_state \<Rightarrow> nat option result" where
  "find_channel channel s = find_slot (\<lambda>c. c = uint channel) (pwm_out_io_num s) [0..<pwm_channel_num s]"

definition put_duty :: "nat \<Rightarrow> u16 \<Rightarrow> unit pwm_handler" where
  "put_duty i d =
     mbind (mget duty) (\<lambda>ds. mbind (mlift (arr_set ds i d)) (\<lambda>ds. mupd (\<lambda>s. s\<lparr>duty := ds\<rparr>)))"

definition pwm_set_duty :: "u16 \<Rightarrow> u8 \<Rightarrow> unit pwm_handler" where
  "pwm_set_duty d channel =
     mbind (mget (find_channel channel)) (\<lambda>found.
     mbind (mlift found) (\<lambda>i.
     case i of
       None \<Rightarrow> mret ()
     | Some i \<Rightarrow> put_duty i (if d < 1 then 0 else if ucast PWM_DEPTH \<le> d then ucast PWM_DEPTH else d)))"

definition pwm_set_freq :: "u16 \<Rightarrow> u8 \<Rightarrow> unit pwm_handler" where
  "pwm_set_freq f channel =
     mupd (\<lambda>s. let f = (if 1000 < f then 1000 else if f < 1 then 1 else f) in
               s\<lparr>freq := f, period := 1000000 div ucast f\<rparr>)"

definition pwm_set_freq_duty :: "u16 \<Rightarrow> u16 list \<Rightarrow> unit pwm_handler" where
  "pwm_set_freq_duty f duties =
     mbind (pwm_set_freq f 0) (\<lambda>_.
     mfor [0..<PWM_CHANNEL] (\<lambda>i.
       mbind (mget pwm_out_io_num) (\<lambda>io.
       mbind (mlift (arr_get io i)) (\<lambda>c.
       if c \<noteq> - 1 then mbind (mlift (arr_get duties i)) (\<lambda>d. pwm_set_duty d (word_of_int c)) else mret ()))))"

definition pwm_get_duty :: "u8 \<Rightarrow> u16 pwm_handler" where
  "pwm_get_duty channel =
     mbind (mget id) (\<lambda>s.
     mbind (mlift (find_channel channel s)) (\<lambda>i.
     case i of None \<Rightarrow> mret 0 | Some i \<Rightarrow> mlift (arr_get (duty s) i)))"

definition pwm_get_freq :: "u8 \<Rightarrow> u16 pwm_handler" where
  "pwm_get_freq channel = mget freq"

text \<open>The timer interrupt.\<close>

definition pwm_tim1_intr_handler :: "unit pwm_handler" where
  "pwm_tim1_intr_handler =
     mbind (mget id) (\<lambda>s.
     mbind (mlift (deref (pwm_playing s))) (\<lambda>cur.
     mbind (mlift (arr_get (pwm_channel_toggle s) cur)) (\<lambda>count.
     if int (pwm_current_channel s) \<ge> int count - 1 then
       let t = pwm_toggle s in
       mbind (mlift (arr_get (pwm_single_toggle s) t)) (\<lambda>ps.
       mbind (mlift (arr_get (pwm_channel_toggle s) t)) (\<lambda>count.
       mbind (mlift (if count = 0 then Inl (OutOfBounds 0) else arr_get ps (count - 1))) (\<lambda>e.
       mbind (mupd (\<lambda>s. s\<lparr>pwm_playing := Some t, pwm_current_channel := 0\<rparr>)) (\<lambda>_.
       mbind (pwm_emit [PwmOut (gpio_set e) (gpio_clear e) (pwm_gpio s)]) (\<lambda>_.
       if count \<noteq> 1 then
         mbind (mlift (arr_get ps 0)) (\<lambda>e. pwm_emit [PwmLoad (h_time e)])
       else mupd (\<lambda>s. s\<lparr>pwm_timer_down := True\<rparr>))))))
     else
       mbind (mlift (arr_get (pwm_single_toggle s) cur)) (\<lambda>ps.
       mbind (mlift (arr_get ps (pwm_current_channel s))) (\<lambda>e.
       mbind (pwm_emit [PwmOut (gpio_set e) (gpio_clear e) (pwm_gpio s)]) (\<lambda>_.
       mbind (mupd (\<lambda>s. s\<lparr>pwm_current_channel := pwm_current_channel s + 1\<rparr>)) (\<lambda>_.
       mbind (mlift (arr_get ps (pwm_current_channel s + 1))) (\<lambda>e.
       pwm_emit [PwmLoad (h_time e)]))))))))"

definition pwm_init :: "unit pwm_handler" where
  "pwm_init =
     mbind (pwm_emit [PwmCtrl, PwmLoad 0]) (\<lambda>_.
     mbind (mfor [0..<PWM_CHANNEL] (\<lambda>i. mbind (mupd (\<lambda>s. s\<lparr>pwm_gpio := 0\<rparr>)) (\<lambda>_. put_duty 0 0))) (\<lambda>_.
     mbind (pwm_set_freq 500 0) (\<lambda>_.
     mbind pwm_start (\<lambda>_.
     pwm_emit [PwmIntrAttach]))))"

text \<open>The first slot that holds the channel or is free.\<close>

definition pwm_add :: "u8 \<Rightarrow> bool pwm_handler" where
  "pwm_add channel =
     mbind (mget pwm_out_io_num) (\<lambda>io.
     mbind (mlift (find_slot (\<lambda>c. c = uint channel \<or> c = - 1) io [0..<PWM_CHANNEL])) (\<lambda>i.
     case i of
       None \<Rightarrow> mret False
     | Some i \<Rightarrow>
         mbind (mlift (arr_get io i)) (\<lambda>c.
         if c = uint channel then mret True
         else
         mbind (mlift (arr_set io i (sint channel))) (\<lambda>io.
         mbind (mupd (\<lambda>s. s\<lparr>pwm_out_io_num := io\<rparr>)) (\<lambda>_.
         mbind (put_duty i 0) (\<lambda>_.
         mbind (mlift (pin_mask (uint channel))) (\<lambda>m.
         mbind (mupd (\<lambda>s. s\<lparr>pwm_gpio := pwm_gpio s OR m\<rparr>)) (\<lambda>_.
         mbind (pwm_emit [PwmPins [PinFuncSelect (ucast channel), OpenDrainDisable (phys (ucast channel))]]) (\<lambda>_.
         mbind (mupd (\<lambda>s. s\<lparr>pwm_channel_num := pwm_channel_num s + 1\<rparr>)) (\<lambda>_.
         mret True))))))))))"

text \<open>What \<open>pwm_delete\<close> does to each of its two arrays: the slots behind \<open>i\<close> move down, the last one is reset.\<close>

definition close_gap :: "nat \<Rightarrow> nat \<Rightarrow> 'a \<Rightarrow> 'a list \<Rightarrow> 'a list result" where
  "close_gap i n v xs =
     rbind (rfold (\<lambda>j xs. rbind (arr_get xs (j + 1)) (arr_set xs j)) [i..<n - 1] xs) (\<lambda>xs. arr_set xs (n - 1) v)"

definition pwm_delete :: "u8 \<Rightarrow> bool pwm_handler" where
  "pwm_delete channel =
     mbind (mget id) (\<lambda>s.
     mbind (mlift (find_channel channel s)) (\<lambda>i.
     case i of
       None \<Rightarrow> mret True
     | Some i \<Rightarrow>
         mbind (mlift (arr_set (pwm_out_io_num s) i (- 1))) (\<lambda>io.
         mbind (mlift (pin_mask (uint channel))) (\<lambda>m.
         mbind (mlift (close_gap i (pwm_channel_num s) (- 1) io)) (\<lambda>io.
         mbind (mlift (close_gap i (pwm_channel_num s) 0 (duty s))) (\<lambda>ds.
         mbind (mupd (\<lambda>s. s\<lparr>pwm_gpio := pwm_gpio s AND NOT m, pwm_out_io_num := io,
             duty := ds, pwm_channel_num := pwm_channel_num s - 1\<rparr>)) (\<lambda>_.
         mret True)))))))"

definition pwm_exist :: "u8 \<Rightarrow> pwm_state \<Rightarrow> bool result" where
  "pwm_exist channel s =
     rbind (find_slot (\<lambda>c. c = uint channel) (pwm_out_io_num s) [0..<PWM_CHANNEL]) (\<lambda>i. Inr (i \<noteq> None))"

text \<open>What a platform function does when the channel exists; otherwise it returns \<open>x\<close>.\<close>

definition if_pwm_exist :: "u32 \<Rightarrow> 'a \<Rightarrow> 'a pwm_handler \<Rightarrow> 'a pwm_handler" where
  "if_pwm_exist pin x m =
     mbind (mget (pwm_exist (ucast pin))) (\<lambda>ex. mbind (mlift ex) (\<lambda>ex. if \<not> ex then mret x else m))"

section \<open>Platform functions\<close>

definition DUTY :: "u32 \<Rightarrow> u16" where
  "DUTY d = ucast (d * PWM_DEPTH div PWM_DEPTH)"

definition NORMAL_DUTY :: "u32 \<Rightarrow> u32" where
  "NORMAL_DUTY d = d * PWM_DEPTH div PWM_DEPTH"

definition platform_pwm_exists :: "u32 \<Rightarrow> bool" where
  "platform_pwm_exists ident = (ident < NUM_GPIO \<and> 0 < ident)"

definition pwms_init :: "unit pwm_handler" where
  "pwms_init = mbind (mupd (\<lambda>s. s\<lparr>pwms_duty := replicate (unat NUM_GPIO) (DUTY 0)\<rparr>)) (\<lambda>_. pwm_init)"

definition platform_pwm_get_clock :: "u32 \<Rightarrow> u32 pwm_handler" where
  "platform_pwm_get_clock pin =
     (if NUM_GPIO \<le> pin then mret 0
      else if_pwm_exist pin 0 (mbind (pwm_get_freq (ucast pin)) (\<lambda>f. mret (ucast f))))"

definition platform_pwm_set_clock :: "u32 \<Rightarrow> u32 \<Rightarrow> u32 pwm_handler" where
  "platform_pwm_set_clock pin clock =
     (if NUM_GPIO \<le> pin then mret 0
      else if_pwm_exist pin 0 (
        mbind (pwm_set_freq (ucast clock) (ucast pin)) (\<lambda>_.
        mbind pwm_start (\<lambda>_.
        mbind (pwm_get_freq (ucast pin)) (\<lambda>f. mret (ucast f))))))"

definition platform_pwm_get_duty :: "u32 \<Rightarrow> u32 pwm_handler" where
  "platform_pwm_get_duty pin =
     (if pin < NUM_GPIO then
        if_pwm_exist pin 0 (
          mbind (mget pwms_duty) (\<lambda>ds. mbind (mlift (arr_get ds (unat pin))) (\<lambda>d. mret (ucast d))))
      else mret 0)"

definition put_pwms_duty :: "u32 \<Rightarrow> u16 \<Rightarrow> unit pwm_handler" where
  "put_pwms_duty pin d =
     mbind (mget pwms_duty) (\<lambda>ds.
     mbind (mlift (arr_set ds (unat pin) d)) (\<lambda>ds. mupd (\<lambda>s. s\<lparr>pwms_duty := ds\<rparr>)))"

definition platform_pwm_set_duty :: "u32 \<Rightarrow> u32 \<Rightarrow> u32 pwm_handler" where
  "platform_pwm_set_duty pin d =
     (if \<not> pin < NUM_GPIO then mret 0
      else if_pwm_exist pin 0 (
        mbind (pwm_set_duty (DUTY d) (ucast pin)) (\<lambda>_.
        mbind pwm_start (\<lambda>_.
        mbind (pwm_get_duty (ucast pin)) (\<lambda>d.
        let d = ucast (NORMAL_DUTY (ucast d)) :: u16 in
        mbind (put_pwms_duty pin d) (\<lambda>_. mret (ucast d)))))))"

definition platform_pwm_close :: "u32 \<Rightarrow> unit pwm_handler" where
  "platform_pwm_close pin =
     (if pin < NUM_GPIO then mbind (pwm_delete (ucast pin)) (\<lambda>_. pwm_start) else mret ())"

text \<open>\<open>platform_gpio_mode\<close> first closes the pin as a PWM channel; its other effects are on pin registers.\<close>

definition gpio_mode_effect :: "pin_event \<Rightarrow> unit pwm_handler" where
  "gpio_mode_effect e = (case e of PwmClose p \<Rightarrow> platform_pwm_close p | _ \<Rightarrow> pwm_emit [PwmPins [e]])"

definition platform_pwm_setup :: "u32 \<Rightarrow> u32 \<Rightarrow> u32 \<Rightarrow> u32 pwm_handler" where
  "platform_pwm_setup pin frequency d =
     (if \<not> pin < NUM_GPIO then mret 0
      else
      mbind (mfor (snd (platform_gpio_mode pin PLATFORM_GPIO_OUTPUT PLATFORM_GPIO_FLOAT)) gpio_mode_effect) (\<lambda>_.
      mbind (pwm_add (ucast pin)) (\<lambda>added.
      if \<not> added then mret 0
      else
      mbind (pwm_set_duty 0 (ucast pin)) (\<lambda>_.
      mbind (put_pwms_duty pin (ucast d)) (\<lambda>_.
      mbind (pwm_set_freq (ucast frequency) (ucast pin)) (\<lambda>_.
      mbind (platform_pwm_get_clock pin) (\<lambda>clock.
      mbind pwm_start (\<lambda>_. mret clock))))))))"

definition platform_pwm_start :: "u32 \<Rightarrow> unit pwm_handler" where
  "platform_pwm_start pin =
     (if pin < NUM_GPIO then
        if_pwm_exist pin () (
          mbind (mget pwms_duty) (\<lambda>ds.
          mbind (mlift (arr_get ds (unat pin))) (\<lambda>d.
          mbind (pwm_set_duty (DUTY (ucast d)) (ucast pin)) (\<lambda>_. pwm_start))))
      else mret ())"

definition platform_pwm_stop :: "u32 \<Rightarrow> unit pwm_handler" where
  "platform_pwm_stop pin =
     (if pin < NUM_GPIO then
        if_pwm_exist pin () (mbind (pwm_set_duty 0 (ucast pin)) (\<lambda>_. pwm_start))
      else mret ())"

section \<open>The Lua module\<close>

definition pwm_id_arg :: "lua_conv \<Rightarrow> lua_value list \<Rightarrow> u32 result" where
  "pwm_id_arg cv args =
     rbind (luaL_checkinteger cv (index2adr args 1)) (\<lambda>ident.
     if platform_pwm_exists ident then Inr ident else Inl (LuaError ''pwm does not exist''))"

abbreviation wrong_arg_range :: "('w, 'a) handler" where
  "wrong_arg_range \<equiv> mfail (LuaError ''wrong arg range'')"

definition lpwm_setup :: "lua_conv \<Rightarrow> lua_value list \<Rightarrow> lua_value list pwm_handler" where
  "lpwm_setup cv args =
     mbind (mlift (luaL_checkinteger cv (index2adr args 1))) (\<lambda>ident.
     if ident = 0 then mfail (LuaError ''no pwm for D0'')
     else if \<not> platform_pwm_exists ident then mfail (LuaError ''pwm does not exist'')
     else
     mbind (mlift (luaL_checkinteger cv (index2adr args 2))) (\<lambda>f.
     if sint f \<le> 0 then wrong_arg_range
     else
     mbind (mlift (luaL_checkinteger cv (index2adr args 3))) (\<lambda>d.
     if PWM_DEPTH < d then wrong_arg_range
     else
     mbind (platform_pwm_setup ident f d) (\<lambda>f.
     if f = 0 then mfail (LuaError ''too many pwms.'') else mret [lua_int (sint f)]))))"

definition lpwm_close :: "lua_conv \<Rightarrow> lua_value list \<Rightarrow> lua_value list pwm_handler" where
  "lpwm_close cv args =
     mbind (mlift (pwm_id_arg cv args)) (\<lambda>ident. mbind (platform_pwm_close ident) (\<lambda>_. mret []))"

definition lpwm_start :: "lua_conv \<Rightarrow> lua_value list \<Rightarrow> lua_value list pwm_handler" where
  "lpwm_start cv args =
     mbind (mlift (pwm_id_arg cv args)) (\<lambda>ident. mbind (platform_pwm_start ident) (\<lambda>_. mret []))"

definition lpwm_stop :: "lua_conv \<Rightarrow> lua_value list \<Rightarrow> lua_value list pwm_handler" where
  "lpwm_stop cv args =
     mbind (mlift (pwm_id_arg cv args)) (\<lambda>ident. mbind (platform_pwm_stop ident) (\<lambda>_. mret []))"

definition lpwm_setclock :: "lua_conv \<Rightarrow> lua_value list \<Rightarrow> lua_value list pwm_handler" where
  "lpwm_setclock cv args =
     mbind (mlift (pwm_id_arg cv args)) (\<lambda>ident.
     mbind (mlift (luaL_checkinteger cv (index2adr args 2))) (\<lambda>clk.
     if sint clk \<le> 0 then wrong_arg_range
     else mbind (platform_pwm_set_clock ident clk) (\<lambda>clk. mret [lua_int (sint clk)])))"

definition lpwm_getclock :: "lua_conv \<Rightarrow> lua_value list \<Rightarrow> lua_value list pwm_handler" where
  "lpwm_getclock cv args =
     mbind (mlift (pwm_id_arg cv args)) (\<lambda>ident.
     mbind (platform_pwm_get_clock ident) (\<lambda>clk. mret [lua_int (sint clk)]))"

definition lpwm_setduty :: "lua_conv \<Rightarrow> lua_value list \<Rightarrow> lua_value list pwm_handler" where
  "lpwm_setduty cv args =
     mbind (mlift (pwm_id_arg cv args)) (\<lambda>ident.
     mbind (mlift (luaL_checkinteger cv (index2adr args 2))) (\<lambda>d.
     if sint PWM_DEPTH < sint d then wrong_arg_range
     else mbind (platform_pwm_set_duty ident d) (\<lambda>d. mret [lua_int (sint d)])))"

definition lpwm_getduty :: "lua_conv \<Rightarrow> lua_value list \<Rightarrow> lua_value list pwm_handler" where
  "lpwm_getduty cv args =
     mbind (mlift (pwm_id_arg cv args)) (\<lambda>ident.
     mbind (platform_pwm_get_duty ident) (\<lambda>d. mret [lua_int (sint d)]))"

end
