(* ===== verification/Pwm_Wave.thy ===== *)
theory Pwm_Wave
  imports Pwm
begin

text \<open>
  What the PWM driver puts on its pins. The lemmas follow the compilation of the schedule step by
  step (sort, merge, differences, special cases) and end with the wave of one period as the timer
  interrupt plays it: each channel is high for exactly its share of the period, then low.
\<close>

section \<open>Timer ticks\<close>

lemma ticks_value:
  assumes "unat t \<le> 1000000"
  shows "unat (US_TO_RTC_TIMER_TICKS t) = 5 * unat t"
proof (cases "0x35A < t")
  case True
  have q: "unat (drop_bit 2 t) = unat t div 4" "unat (t AND 3) = unat t mod 4"
  proof -
    have "t AND 3 = take_bit 2 t" by (simp add: take_bit_eq_mask mask_eq_exp_minus_1)
    then show "unat (drop_bit 2 t) = unat t div 4" "unat (t AND 3) = unat t mod 4"
      by (simp_all only: unat_drop_bit_eq unsigned_take_bit_eq drop_bit_eq_div [where 'a = nat]
        take_bit_eq_mod [where 'a = nat]) simp_all
  qed
  have "unat (drop_bit 2 t * 20) = unat t div 4 * 20" "unat ((t AND 3) * 5) = unat t mod 4 * 5"
    using assms by (simp_all add: unat_mult_no_wrap q)
  then have "unat (drop_bit 2 t * 20 + (t AND 3) * 5) = unat t div 4 * 20 + unat t mod 4 * 5"
    using assms by (subst unat_add_no_wrap) simp_all
  also have "\<dots> = 5 * unat t" by presburger
  finally show ?thesis using True by (auto simp: US_TO_RTC_TIMER_TICKS_def)
next
  case False
  then have "unat t \<le> 858" by (simp add: word_less_nat_alt)
  then have "unat (t * 5000000 div 1000000) = unat t * 5000000 div 1000000"
    by (subst unat_div) (simp add: unat_mult_no_wrap)
  with False show ?thesis by (simp add: US_TO_RTC_TIMER_TICKS_def)
qed

section \<open>Sorting\<close>

abbreviation h_times :: "pwm_single_param list \<Rightarrow> u32 list" where
  "h_times ps \<equiv> map h_time ps"

lemma insert_down_sorted:
  "sorted (h_times xs) \<Longrightarrow>
   \<exists>ys. insert_down tmp (length xs) (xs @ y # zs) = Inr (ys @ zs) \<and> mset ys = add_mset tmp (mset xs) \<and> sorted (h_times ys)"
proof (induction xs arbitrary: y zs rule: rev_induct)
  case (snoc x xs)
  show ?case
  proof (cases "h_time tmp < h_time x")
    case True
    have "insert_down tmp (length (xs @ [x])) ((xs @ [x]) @ y # zs) = insert_down tmp (length xs) (xs @ x # x # zs)"
      using True by (simp add: list_update_append nth_append)
    moreover obtain ys where ys: "insert_down tmp (length xs) (xs @ x # x # zs) = Inr (ys @ x # zs)"
        "mset ys = add_mset tmp (mset xs)" "sorted (h_times ys)"
      using snoc.IH [of x "x # zs"] snoc.prems by (auto simp: sorted_append)
    moreover have "set ys = insert tmp (set xs)" using ys(2) by (metis set_mset_add_mset_insert set_mset_mset)
    then have "sorted (h_times (ys @ [x]))"
      using ys(3) snoc.prems True by (auto simp: sorted_append)
    ultimately show ?thesis by (intro exI [of _ "ys @ [x]"]) simp
  next
    case False
    then have "sorted (h_times (xs @ [x, tmp]))" using snoc.prems by (auto simp: sorted_append)
    with False show ?thesis
      by (intro exI [of _ "xs @ [x, tmp]"]) (simp add: list_update_append nth_append)
  qed
qed (simp add: list_update_append)

lemma insert_sort_sorted:
  assumes "n \<le> length ps" "0 < n"
  shows "\<exists>ys. pwm_insert_sort ps n = Inr (ys @ drop n ps) \<and> mset ys = mset (take n ps) \<and> sorted (h_times ys)"
  using assms
proof (induction n)
  case (Suc n)
  show ?case
  proof (cases n)
    case 0
    with Suc.prems show ?thesis by (cases ps) (auto simp: pwm_insert_sort_def intro: exI [of _ "[hd ps]"])
  next
    case (Suc m)
    let ?p = "ps ! n"
    obtain ys where ys: "pwm_insert_sort ps n = Inr (ys @ drop n ps)" "mset ys = mset (take n ps)" "sorted (h_times ys)"
      using Suc.IH Suc.prems Suc by auto
    have len: "length ys = n" using ys(2) Suc.prems by (metis length_take min.absorb2 mset_eq_length Suc_leD)
    have drop: "drop n ps = ?p # drop (Suc n) ps" using Suc.prems by (simp add: Cons_nth_drop_Suc)
    have step: "pwm_insert_sort ps (Suc n) =
        (if h_time ?p < h_time (ys ! m) then insert_down ?p n (ys @ ys ! m # drop (Suc n) ps) else Inr (ys @ drop n ps))"
      using Suc len ys(1) drop
      by (simp add: pwm_insert_sort_def rfold_snoc nth_append list_update_append)
    have take: "mset (take (Suc n) ps) = add_mset ?p (mset (take n ps))"
      using Suc.prems by (simp add: take_Suc_conv_app_nth)
    show ?thesis
    proof (cases "h_time ?p < h_time (ys ! m)")
      case True
      with step take ys(2) insert_down_sorted [OF ys(3), of ?p "ys ! m" "drop (Suc n) ps"] len show ?thesis by auto
    next
      case False
      have "\<forall>y\<in>set ys. h_time y \<le> h_time (ys ! m)"
        using ys(3) len Suc by (auto simp: in_set_conv_nth sorted_iff_nth_mono less_Suc_eq_le)
      then have "sorted (h_times (ys @ [?p]))" using ys(3) False by (fastforce simp: sorted_append)
      with False step take ys(2) drop show ?thesis by (intro exI [of _ "ys @ [?p]"]) simp
    qed
  qed
qed simp

section \<open>Merging entries with equal times\<close>

definition combine :: "pwm_single_param \<Rightarrow> pwm_single_param list \<Rightarrow> pwm_single_param list" where
  "combine x es = (case es of [] \<Rightarrow> [x] | y # ys \<Rightarrow> if h_time x = h_time y then merge_param x y # ys else x # y # ys)"

lemma combine_not_Nil [simp]: "combine x es \<noteq> []"
  by (simp add: combine_def split: list.splits)

lemma foldr_combine_not_Nil [simp]: "es \<noteq> [] \<Longrightarrow> foldr combine xs es \<noteq> []"
  by (induction xs) simp_all

lemma move_down_spec:
  "\<exists>cs'. move_down (Suc (length as)) (Suc (length as) + length bs) (as @ y # bs @ cs) = Inr (as @ bs @ cs')
     \<and> length cs' = Suc (length cs)"
proof (induction bs arbitrary: as y)
  case Nil
  then show ?case by (intro exI [of _ "y # cs"]) (simp add: move_down_def)
next
  case (Cons b bs)
  have "move_down (Suc (length as)) (Suc (length as) + length (b # bs)) (as @ y # (b # bs) @ cs)
      = move_down (Suc (length (as @ [b]))) (Suc (length (as @ [b])) + length bs) ((as @ [b]) @ b # bs @ cs)"
    by (simp add: move_down_def upt_conv_Cons nth_append list_update_append del: upt_Suc)
  with Cons.IH [of "as @ [b]" b] show ?case by auto
qed

lemma combine_step_spec:
  assumes "es \<noteq> []"
  shows "\<exists>cs'. combine_step (Suc (length xs)) (xs @ x # es @ cs, Suc (length xs) + length es)
      = Inr (xs @ combine x es @ cs', length xs + length (combine x es))
    \<and> length (combine x es @ cs') = Suc (length (es @ cs))"
proof -
  obtain y ys where es: "es = y # ys" using assms by (cases es) auto
  show ?thesis
  proof (cases "h_time x = h_time y")
    case True
    obtain cs' where "move_down (Suc (length (xs @ [merge_param x y]))) (Suc (length (xs @ [merge_param x y])) + length ys)
          ((xs @ [merge_param x y]) @ y # ys @ cs) = Inr ((xs @ [merge_param x y]) @ ys @ cs')" "length cs' = Suc (length cs)"
      using move_down_spec by blast
    with True show ?thesis
      by (intro exI [of _ cs']) (simp add: es combine_step_def combine_def nth_append list_update_append)
  next
    case False
    then show ?thesis
      by (intro exI [of _ cs]) (simp add: es combine_step_def combine_def nth_append list_update_append)
  qed
qed

lemma combine_fold:
  "es \<noteq> [] \<Longrightarrow>
   \<exists>cs'. rfold combine_step (rev [1..<Suc (length xs)]) (xs @ es @ cs, length xs + length es)
      = Inr (foldr combine xs es @ cs', length (foldr combine xs es))
    \<and> length (foldr combine xs es @ cs') = length (xs @ es @ cs)"
proof (induction xs arbitrary: es cs rule: rev_induct)
  case (snoc x xs)
  obtain cs' where cs': "combine_step (Suc (length xs)) (xs @ x # es @ cs, Suc (length xs) + length es)
      = Inr (xs @ combine x es @ cs', length xs + length (combine x es))" "length (combine x es @ cs') = Suc (length (es @ cs))"
    using combine_step_spec [OF snoc.prems] by blast
  have "rfold combine_step (rev [1..<Suc (length (xs @ [x]))]) ((xs @ [x]) @ es @ cs, length (xs @ [x]) + length es)
      = rfold combine_step (rev [1..<Suc (length xs)]) (xs @ combine x es @ cs', length xs + length (combine x es))"
    using cs'(1) by simp
  with snoc.IH [of "combine x es" cs'] cs'(2) show ?case by auto
qed simp

text \<open>Merging keeps the times and, at each time, the pins that are set and cleared.\<close>

definition clears_at :: "pwm_single_param list \<Rightarrow> u32 \<Rightarrow> nat \<Rightarrow> bool" where
  "clears_at es T b \<longleftrightarrow> (\<exists>e\<in>set es. h_time e = T \<and> bit (gpio_clear e) b)"

definition sets_at :: "pwm_single_param list \<Rightarrow> u32 \<Rightarrow> nat \<Rightarrow> bool" where
  "sets_at es T b \<longleftrightarrow> (\<exists>e\<in>set es. h_time e = T \<and> bit (gpio_set e) b)"

definition same_pins :: "pwm_single_param list \<Rightarrow> pwm_single_param list \<Rightarrow> bool" where
  "same_pins es fs \<longleftrightarrow> clears_at es = clears_at fs \<and> sets_at es = sets_at fs \<and> set (h_times es) = set (h_times fs)"

lemma merge_time [simp]: "h_time (merge_param x y) = h_time x"
  by (simp add: merge_param_def)

lemma combine_pins: "same_pins (combine x es) (x # es)"
  by (auto simp: same_pins_def combine_def clears_at_def sets_at_def merge_param_def bit_or_iff fun_eq_iff split: list.splits)

lemma same_pins_Cons: "same_pins es fs \<Longrightarrow> same_pins (x # es) (x # fs)"
  by (auto simp: same_pins_def clears_at_def sets_at_def fun_eq_iff)

lemma same_pins_trans: "same_pins es fs \<Longrightarrow> same_pins fs gs \<Longrightarrow> same_pins es gs"
  by (simp add: same_pins_def)

lemma foldr_combine_pins: "same_pins (foldr combine xs es) (xs @ es)"
proof (induction xs)
  case (Cons x xs)
  then show ?case
    using same_pins_trans [OF combine_pins same_pins_Cons] by simp
qed (simp add: same_pins_def)

lemma combine_strict:
  assumes "sorted_wrt (<) (h_times es)" "\<forall>e\<in>set es. h_time x \<le> h_time e"
  shows "sorted_wrt (<) (h_times (combine x es))"
proof (cases es)
  case (Cons y ys)
  then have "h_time x = h_time y \<or> h_time x < h_time y" using assms(2) by (auto simp: less_le)
  then show ?thesis using assms Cons by (auto simp: combine_def)
qed (simp add: combine_def)

lemma foldr_combine_strict:
  assumes "sorted_wrt (<) (h_times es)" "sorted (h_times (xs @ es))"
  shows "sorted_wrt (<) (h_times (foldr combine xs es))"
  using assms(2)
proof (induction xs)
  case (Cons x xs)
  have "set (h_times (foldr combine xs es)) = set (h_times (xs @ es))"
    using foldr_combine_pins [of xs es] by (simp add: same_pins_def)
  moreover have "\<forall>T\<in>set (h_times (xs @ es)). h_time x \<le> T" using Cons.prems by auto
  ultimately have "\<forall>e\<in>set (foldr combine xs es). h_time x \<le> h_time e" by (metis image_eqI list.set_map)
  with Cons show ?case by (simp add: combine_strict)
qed (simp add: assms(1))

section \<open>Differences\<close>

lemma delta_fold_nth:
  "n \<le> length ps \<Longrightarrow>
   \<exists>qs. rfold delta_step (rev [1..<n]) ps = Inr qs \<and> length qs = length ps
     \<and> (\<forall>i<length ps. qs ! i = (if 1 \<le> i \<and> i < n then (ps ! i)\<lparr>h_time := h_time (ps ! i) - h_time (ps ! (i - 1))\<rparr> else ps ! i))"
proof (induction n arbitrary: ps)
  case (Suc n)
  show ?case
  proof (cases "n = 0")
    case False
    let ?ps = "ps[n := (ps ! n)\<lparr>h_time := h_time (ps ! n) - h_time (ps ! (n - 1))\<rparr>]"
    have "delta_step n ps = Inr ?ps" using Suc.prems False by (simp add: delta_step_def)
    moreover have "rev [1..<Suc n] = n # rev [1..<n]" using False by simp
    ultimately show ?thesis
      using Suc.IH [of ?ps] Suc.prems False by (auto simp: nth_list_update less_Suc_eq)
  qed (use Suc.prems in auto)
qed simp

fun deltas :: "u32 \<Rightarrow> pwm_single_param list \<Rightarrow> pwm_single_param list" where
  "deltas s [] = []"
| "deltas s (x # xs) = x\<lparr>h_time := h_time x - s\<rparr> # deltas (h_time x) xs"

lemma deltas_length [simp]: "length (deltas s xs) = length xs"
  by (induction xs arbitrary: s) simp_all

lemma deltas_nth:
  "i < length xs \<Longrightarrow> deltas s xs ! i = (xs ! i)\<lparr>h_time := h_time (xs ! i) - (if i = 0 then s else h_time (xs ! (i - 1)))\<rparr>"
proof (induction xs arbitrary: s i)
  case (Cons x xs)
  then show ?case by (cases i) (auto simp: nth_Cons')
qed simp

lemma delta_fold: "rfold delta_step (rev [1..<length xs]) (xs @ cs) = Inr (deltas 0 xs @ cs)"
proof -
  obtain qs where qs: "rfold delta_step (rev [1..<length xs]) (xs @ cs) = Inr qs" "length qs = length (xs @ cs)"
    "\<forall>i<length (xs @ cs). qs ! i = (if 1 \<le> i \<and> i < length xs
       then ((xs @ cs) ! i)\<lparr>h_time := h_time ((xs @ cs) ! i) - h_time ((xs @ cs) ! (i - 1))\<rparr> else (xs @ cs) ! i)"
    using delta_fold_nth [of "length xs" "xs @ cs"] by auto
  have "qs = deltas 0 xs @ cs"
    by (rule nth_equalityI) (auto simp: qs(2,3) nth_append deltas_nth)
  with qs(1) show ?thesis by simp
qed

section \<open>The compiled schedule\<close>

text \<open>The last two steps: the period entry clears nothing, except the channels that are never on.\<close>

definition finish_schedule :: "pwm_single_param list \<Rightarrow> pwm_single_param list" where
  "finish_schedule es =
     (let l = (last es)\<lparr>gpio_clear := 0\<rparr>; z = hd es in
      if h_time z = 0
      then tl (butlast es) @ [l\<lparr>gpio_set := gpio_set l AND NOT (gpio_clear z), gpio_clear := gpio_clear z\<rparr>]
      else butlast es @ [l])"

lemma change_last_snoc: "change_last f (Suc (length xs)) (xs @ e # cs) = Inr (xs @ f e # cs)"
  by (simp add: change_last_def nth_append list_update_append)

lemma compile_finish:
  assumes "2 \<le> length es"
  shows "\<exists>cs'. rbind (change_last (\<lambda>e. e\<lparr>gpio_clear := 0\<rparr>) (length es) (es @ cs)) (\<lambda>ps. drop_zero (ps, length es))
      = Inr (finish_schedule es @ cs', length (finish_schedule es)) \<and> length (finish_schedule es @ cs') = length (es @ cs)"
proof -
  obtain z ms l where es: "es = z # ms @ [l]"
    using assms by (metis One_nat_def Suc_1 Suc_le_length_iff append_butlast_last_id length_0_conv not_less_eq_eq zero_le)
  note last = change_last_snoc [of _ "z # ms", simplified]
  have upd: "change_last (\<lambda>e. e\<lparr>gpio_clear := 0\<rparr>) (length es) (es @ cs) = Inr (z # ms @ l\<lparr>gpio_clear := 0\<rparr> # cs)"
    by (simp add: es last)
  show ?thesis
  proof (cases "h_time z = 0")
    case True
    let ?l = "l\<lparr>gpio_set := gpio_set l AND NOT (gpio_clear z), gpio_clear := gpio_clear z\<rparr>"
    obtain cs' where cs': "move_down 1 (Suc (length (ms @ [?l]))) ([] @ z # (ms @ [?l]) @ cs) = Inr ((ms @ [?l]) @ cs')" "length cs' = Suc (length cs)"
      using move_down_spec [of "[]" "ms @ [?l]" z cs] by auto
    have "drop_zero (z # ms @ l\<lparr>gpio_clear := 0\<rparr> # cs, length es) = Inr (ms @ [?l] @ cs', length (ms @ [?l]))"
      using True cs'(1) by (simp add: drop_zero_def es last)
    with True cs'(2) show ?thesis
      unfolding upd by (intro exI [of _ cs']) (simp add: finish_schedule_def es Let_def)
  next
    case False
    then show ?thesis
      unfolding upd by (intro exI [of _ cs]) (simp add: finish_schedule_def es drop_zero_def Let_def)
  qed
qed

lemma same_pins_mset: "mset es = mset fs \<Longrightarrow> same_pins es fs"
  by (drule mset_eq_setD) (simp add: same_pins_def clears_at_def sets_at_def fun_eq_iff)

lemma compile_schedule_spec:
  assumes "num < length ps"
  shows "\<exists>es. sorted_wrt (<) (h_times es) \<and> same_pins es (take (Suc num) ps) \<and> es \<noteq> []
    \<and> (2 \<le> length es \<longrightarrow> (\<exists>cs. compile_schedule num ps = Inr (finish_schedule (deltas 0 es) @ cs, length (finish_schedule (deltas 0 es)))
          \<and> length (finish_schedule (deltas 0 es) @ cs) = length ps))
    \<and> (length es = 1 \<and> h_time (hd es) \<noteq> 0 \<longrightarrow>
          (\<exists>qs. compile_schedule num ps = Inr (qs, 1) \<and> length qs = length ps))"
proof -
  let ?zs = "drop (Suc num) ps"
  obtain ys where sort: "pwm_insert_sort ps (Suc num) = Inr (ys @ ?zs)" "mset ys = mset (take (Suc num) ps)" "sorted (h_times ys)"
    using insert_sort_sorted [of "Suc num" ps] assms by auto
  have len: "length ys = Suc num" using sort(2) assms by (metis Suc_leI length_take min.absorb2 mset_eq_length)
  then obtain xs y where ys: "ys = xs @ [y]" "length xs = num" by (metis length_Suc_conv_rev)
  let ?es = "foldr combine xs [y]"
  obtain cs where comb: "rfold combine_step (rev [1..<Suc num]) (ys @ ?zs, Suc num) = Inr (?es @ cs, length ?es)"
      "length (?es @ cs) = length (ys @ ?zs)"
    using combine_fold [of "[y]" xs ?zs] ys by auto
  have strict: "sorted_wrt (<) (h_times ?es)" using foldr_combine_strict [of "[y]" xs] sort(3) ys(1) by simp
  have pins: "same_pins ?es (take (Suc num) ps)"
    using same_pins_trans [OF foldr_combine_pins [of xs "[y]"] same_pins_mset] sort(2) ys(1) by simp
  have ne: "?es \<noteq> []" by simp
  have comp: "compile_schedule num ps
      = rbind (change_last (\<lambda>e. e\<lparr>gpio_clear := 0\<rparr>) (length ?es) (deltas 0 ?es @ cs)) (\<lambda>ps. drop_zero (ps, length ?es))"
    unfolding compile_schedule_def Suc_eq_plus1 [symmetric] sort(1) rbind_Inr comb(1) prod.case delta_fold ..
  have total: "length (deltas 0 ?es @ cs) = length ps" using comb(2) len assms by simp
  have "\<exists>cs'. compile_schedule num ps = Inr (finish_schedule (deltas 0 ?es) @ cs', length (finish_schedule (deltas 0 ?es)))
      \<and> length (finish_schedule (deltas 0 ?es) @ cs') = length ps" if "2 \<le> length ?es"
    using compile_finish [of "deltas 0 ?es" cs] that total unfolding comp by simp
  moreover have "\<exists>qs. compile_schedule num ps = Inr (qs, 1) \<and> length qs = length ps"
    if one: "length ?es = 1" "h_time (hd ?es) \<noteq> 0"
  proof -
    obtain e where e: "?es = [e]" using one(1) by (auto simp: length_Suc_conv)
    have "compile_schedule num ps = Inr (e\<lparr>gpio_clear := 0\<rparr> # cs, 1)"
      unfolding comp using one(2) change_last_snoc [of _ "[]"] by (simp add: e drop_zero_def)
    with total show ?thesis by (simp add: e)
  qed
  ultimately show ?thesis using strict pins ne by blast
qed

section \<open>The wave on a pin\<close>

text \<open>
  One period as the interrupt plays it: the last entry is put out, then after the first time the
  first entry, and so on. A pin keeps its level until an output sets or clears it.
\<close>

definition played :: "pwm_single_param list \<Rightarrow> (pwm_single_param \<times> u32) list" where
  "played es = zip (last es # butlast es) (h_times es)"

definition level_by :: "nat \<Rightarrow> pwm_single_param \<Rightarrow> bool \<Rightarrow> bool" where
  "level_by b e l = (if bit (gpio_set e) b then True else if bit (gpio_clear e) b then False else l)"

fun pin_wave :: "nat \<Rightarrow> bool \<Rightarrow> (pwm_single_param \<times> u32) list \<Rightarrow> bool list" where
  "pin_wave b l [] = []"
| "pin_wave b l ((e, d) # segs) = replicate (unat d) (level_by b e l) @ pin_wave b (level_by b e l) segs"

text \<open>A channel that is off stays off until the end of the period.\<close>

lemma wave_low:
  assumes "\<forall>e\<in>set (butlast xs). \<not> bit (gpio_set e) b"
  shows "xs \<noteq> [] \<Longrightarrow> sorted_wrt (<) (h_times xs) \<Longrightarrow> s \<le> h_time (hd xs) \<Longrightarrow> \<not> level_by b e l \<Longrightarrow>
    pin_wave b l (zip (e # butlast xs) (h_times (deltas s xs))) = replicate (unat (h_time (last xs)) - unat s) False"
  using assms
proof (induction xs arbitrary: s e l)
  case (Cons x xs)
  have d: "unat (h_time x - s) = unat (h_time x) - unat s" using Cons.prems(3) by (simp add: unat_sub_no_wrap)
  show ?case
  proof (cases xs)
    case Nil
    with Cons.prems d show ?thesis by simp
  next
    case (Cons y ys)
    have "\<not> level_by b x False" using Cons Cons.prems(5) by (simp add: level_by_def)
    moreover have "h_time x \<le> h_time (hd xs)" "h_time x \<le> h_time (last xs)" using Cons Cons.prems(2) by (auto simp: less_imp_le)
    ultimately have "pin_wave b False (zip (x # butlast xs) (h_times (deltas (h_time x) xs)))
        = replicate (unat (h_time (last xs)) - unat (h_time x)) False"
      using Cons.IH [of "h_time x" x False] Cons Cons.prems(2,5) by simp
    moreover have "unat s \<le> unat (h_time x)" "unat (h_time x) \<le> unat (h_time (last xs))"
      using Cons.prems(3) \<open>h_time x \<le> h_time (last xs)\<close> by (simp_all add: word_le_nat_alt)
    ultimately show ?thesis
      using Cons.prems(4) Cons d by (simp add: replicate_add [symmetric])
  qed
qed simp

text \<open>A channel that is on goes off at its time.\<close>

lemma wave_high:
  assumes "\<forall>e\<in>set (butlast xs). \<not> bit (gpio_set e) b \<and> (bit (gpio_clear e) b \<longleftrightarrow> h_time e = t)"
  shows "t \<in> set (h_times xs) \<Longrightarrow> sorted_wrt (<) (h_times xs) \<Longrightarrow> s < t \<Longrightarrow> s \<le> h_time (hd xs) \<Longrightarrow> level_by b e l \<Longrightarrow>
    pin_wave b l (zip (e # butlast xs) (h_times (deltas s xs)))
      = replicate (unat t - unat s) True @ replicate (unat (h_time (last xs)) - unat t) False"
  using assms
proof (induction xs arbitrary: s e l)
  case (Cons x xs)
  have d: "unat (h_time x - s) = unat (h_time x) - unat s" using Cons.prems(4) by (simp add: unat_sub_no_wrap)
  show ?case
  proof (cases xs)
    case Nil
    with Cons.prems d show ?thesis by auto
  next
    case xs: (Cons y ys)
    have after: "h_time x \<le> h_time (hd xs)" using xs Cons.prems(2) by (auto simp: less_imp_le)
    have x: "\<not> bit (gpio_set x) b" "bit (gpio_clear x) b \<longleftrightarrow> h_time x = t" using xs Cons.prems(6) by auto
    have rest: "pin_wave b l (zip (e # butlast (x # xs)) (h_times (deltas s (x # xs))))
        = replicate (unat (h_time x) - unat s) True @ pin_wave b True (zip (x # butlast xs) (h_times (deltas (h_time x) xs)))"
      using xs Cons.prems(5) d by simp
    show ?thesis
    proof (cases "h_time x = t")
      case True
      then have "\<not> level_by b x True" using x by (simp add: level_by_def)
      then have "pin_wave b True (zip (x # butlast xs) (h_times (deltas (h_time x) xs)))
          = replicate (unat (h_time (last xs)) - unat (h_time x)) False"
        using wave_low [of xs b "h_time x" x True] xs after Cons.prems(2,6) by simp
      with rest True xs show ?thesis by simp
    next
      case False
      then have "h_time x < t" using Cons.prems(1,2) by auto
      moreover have "level_by b x True" using x False by (simp add: level_by_def)
      ultimately have "pin_wave b True (zip (x # butlast xs) (h_times (deltas (h_time x) xs)))
          = replicate (unat t - unat (h_time x)) True @ replicate (unat (h_time (last xs)) - unat t) False"
        using Cons.IH [of "h_time x" x True] Cons.prems(1,2,6) False after xs by auto
      moreover have "unat s \<le> unat (h_time x)" "unat (h_time x) \<le> unat t"
        using Cons.prems(4) \<open>h_time x < t\<close> by (simp_all add: word_le_nat_alt word_less_nat_alt)
      ultimately show ?thesis
        using rest xs by (simp add: replicate_add [symmetric] flip: append_assoc)
    qed
  qed
qed simp

lemma deltas_pins:
  "map gpio_set (deltas s xs) = map gpio_set xs" "map gpio_clear (deltas s xs) = map gpio_clear xs"
  by (induction xs arbitrary: s) simp_all

lemma deltas_last:
  assumes "xs \<noteq> []"
  shows "gpio_set (last (deltas s xs)) = gpio_set (last xs)"
  using assms deltas_pins(1) [of s xs] by (metis deltas_length last_map length_0_conv)

lemma pin_wave_pins:
  "map gpio_set es = map gpio_set fs \<Longrightarrow> map gpio_clear es = map gpio_clear fs \<Longrightarrow>
   pin_wave b l (zip es ds) = pin_wave b l (zip fs ds)"
proof (induction es arbitrary: fs ds l)
  case (Cons e es)
  then obtain f gs where fs: "fs = f # gs" by (cases fs) auto
  have "level_by b e l = level_by b f l" using Cons.prems by (simp add: fs level_by_def)
  with Cons.IH [of gs] Cons.prems show ?case by (cases ds) (simp_all add: fs)
qed simp

text \<open>Playing the differences of \<open>xs\<close>, with \<open>p\<close> put out at the start of the period.\<close>

lemma played_finish:
  assumes "xs \<noteq> []" "h_time p = h_time (last (deltas 0 xs))"
  shows "pin_wave b l (played (butlast (deltas 0 xs) @ [p])) = pin_wave b l (zip (p # butlast xs) (h_times (deltas 0 xs)))"
proof -
  have ne: "deltas 0 xs \<noteq> []" using assms(1) by (metis deltas_length length_0_conv)
  have "h_times (butlast (deltas 0 xs) @ [p]) = h_times (deltas 0 xs)"
    using ne assms(2) by (metis append_butlast_last_id list.simps(8,9) map_append)
  moreover have "map gpio_set (butlast (deltas 0 xs)) = map gpio_set (butlast xs)"
    "map gpio_clear (butlast (deltas 0 xs)) = map gpio_clear (butlast xs)"
    using deltas_pins [of 0 xs] by (simp_all only: map_butlast)
  ultimately show ?thesis
    using pin_wave_pins [of "p # butlast (deltas 0 xs)" "p # butlast xs" b l "h_times (deltas 0 xs)"] by (simp add: played_def)
qed

lemma strict_unique:
  assumes "sorted_wrt (<) (h_times es)" "e \<in> set es"
  shows "clears_at es (h_time e) b \<longleftrightarrow> bit (gpio_clear e) b" "sets_at es (h_time e) b \<longleftrightarrow> bit (gpio_set e) b"
proof -
  have "inj_on h_time (set es)"
    using assms(1) strict_sorted_iff [of "h_times es"] by (simp add: distinct_map)
  then have "\<And>f. f \<in> set es \<Longrightarrow> h_time f = h_time e \<Longrightarrow> f = e" using assms(2) by (auto dest: inj_onD)
  with assms(2) show "clears_at es (h_time e) b \<longleftrightarrow> bit (gpio_clear e) b" "sets_at es (h_time e) b \<longleftrightarrow> bit (gpio_set e) b"
    unfolding clears_at_def sets_at_def by blast+
qed

lemma strict_butlast:
  assumes "sorted_wrt (<) (h_times es)" "e \<in> set (butlast es)"
  shows "h_time e < h_time (last es)"
proof -
  obtain xs y where "es = xs @ [y]" using assms(2) by (cases es rule: rev_cases) auto
  with assms show ?thesis by (auto simp: sorted_wrt_append)
qed

lemma schedule_wave:
  assumes strict: "sorted_wrt (<) (h_times es)" and two: "2 \<le> length es"
    and clears: "\<And>T. clears_at es T b \<longleftrightarrow> T = t" and sets: "\<And>T. sets_at es T b \<longleftrightarrow> T = h_time (last es)"
    and t: "t \<in> set (h_times es)"
  shows "pin_wave b l (played (finish_schedule (deltas 0 es)))
    = replicate (unat t) True @ replicate (unat (h_time (last es)) - unat t) False"
proof -
  obtain z xs where es: "es = z # xs" "xs \<noteq> []" using two by (cases es; cases "tl es") auto
  have inner: "\<forall>e\<in>set (butlast es). \<not> bit (gpio_set e) b \<and> (bit (gpio_clear e) b \<longleftrightarrow> h_time e = t)"
  proof
    fix e assume e: "e \<in> set (butlast es)"
    then show "\<not> bit (gpio_set e) b \<and> (bit (gpio_clear e) b \<longleftrightarrow> h_time e = t)"
      using strict_unique [OF strict in_set_butlastD [OF e], of b] strict_butlast [OF strict e]
        clears [of "h_time e"] sets [of "h_time e"] by auto
  qed
  have lastset: "bit (gpio_set (last es)) b"
    using strict_unique(2) [OF strict, of "last es" b] sets [of "h_time (last es)"] es by simp
  have zero: "bit (gpio_clear z) b \<longleftrightarrow> h_time z = t" using inner es by simp
  show ?thesis
  proof (cases "h_time z = 0")
    case True
    let ?D = "deltas 0 xs"
    let ?p = "(last ?D)\<lparr>gpio_set := gpio_set (last ?D) AND NOT (gpio_clear z), gpio_clear := gpio_clear z\<rparr>"
    have D: "deltas 0 es = z\<lparr>h_time := 0\<rparr> # ?D" using True by (simp add: es)
    have ne: "?D \<noteq> []" using es(2) by (metis deltas_length length_0_conv)
    have fin: "finish_schedule (deltas 0 es) = butlast ?D @ [?p]"
      using ne by (simp add: finish_schedule_def D Let_def)
    have strict': "sorted_wrt (<) (h_times xs)" "0 \<le> h_time (hd xs)" "h_time (last xs) = h_time (last es)"
      using strict es by (simp_all)
    have inner': "\<forall>e\<in>set (butlast xs). \<not> bit (gpio_set e) b \<and> (bit (gpio_clear e) b \<longleftrightarrow> h_time e = t)"
      using inner es by simp
    have wave: "pin_wave b l (played (finish_schedule (deltas 0 es))) = pin_wave b l (zip (?p # butlast xs) (h_times ?D))"
      unfolding fin by (rule played_finish [OF es(2)]) simp
    have pset: "bit (gpio_set ?p) b \<longleftrightarrow> \<not> bit (gpio_clear z) b" "gpio_clear ?p = gpio_clear z"
      using lastset es deltas_last [OF es(2), of 0] by (auto simp: bit_and_iff bit_not_iff_eq possible_bit_word dest: bit_imp_le_length)
    show ?thesis
    proof (cases "t = 0")
      case t0: True
      then have "\<not> level_by b ?p l" using pset zero True by (simp add: level_by_def)
      with wave_low [of xs b 0 ?p l] strict' inner' es(2) t0 show ?thesis unfolding wave by simp
    next
      case False
      then have "level_by b ?p l" using pset zero True by (simp add: level_by_def)
      moreover have "t \<in> set (h_times xs)" using t es False True by auto
      moreover have "0 < t" using False by (simp add: word_neq_0_conv)
      ultimately show ?thesis
        using wave_high [OF inner', of 0 ?p l] strict' unfolding wave by simp
    qed
  next
    case False
    let ?D = "deltas 0 es"
    let ?p = "(last ?D)\<lparr>gpio_clear := 0\<rparr>"
    have fin: "finish_schedule ?D = butlast ?D @ [?p]"
      using False by (simp add: finish_schedule_def es Let_def)
    have wave: "pin_wave b l (played (finish_schedule ?D)) = pin_wave b l (zip (?p # butlast es) (h_times ?D))"
      unfolding fin by (rule played_finish) (simp_all add: es)
    have "level_by b ?p l" using lastset deltas_last [of es 0] es by (simp add: level_by_def)
    moreover have "0 < t" using t strict False by (auto simp: es word_neq_0_conv intro: le_less_trans [OF word_zero_le])
    ultimately show ?thesis
      using wave_high [OF inner t strict, of 0 ?p l] unfolding wave by simp
  qed
qed

section \<open>The invariant of the driver\<close>

definition channel_us :: "pwm_state \<Rightarrow> nat \<Rightarrow> nat" where
  "channel_us s i = unat (period s) * unat (duty s ! i) div 1023"

definition channel_pin :: "pwm_state \<Rightarrow> nat \<Rightarrow> nat" where
  "channel_pin s i = pin_num ! nat (pwm_out_io_num s ! i)"

text \<open>Channels in use fill the first slots, each with its own pin; \<open>pwm_gpio\<close> is the set of their pins.\<close>

definition channels_ok :: "pwm_state \<Rightarrow> bool" where
  "channels_ok s \<longleftrightarrow> length (duty s) = 6 \<and> length (pwm_out_io_num s) = 6 \<and> pwm_channel_num s \<le> 6
     \<and> (\<forall>i<pwm_channel_num s. 1 \<le> pwm_out_io_num s ! i \<and> pwm_out_io_num s ! i \<le> 12)
     \<and> (\<forall>i. pwm_channel_num s \<le> i \<and> i < 6 \<longrightarrow> pwm_out_io_num s ! i = - 1)
     \<and> inj_on (\<lambda>i. pwm_out_io_num s ! i) {..<pwm_channel_num s}
     \<and> (\<forall>b. bit (pwm_gpio s) b \<longleftrightarrow> (\<exists>i<pwm_channel_num s. channel_pin s i = b))
     \<and> (\<forall>i<6. unat (duty s ! i) \<le> 1023)"

definition timing_ok :: "pwm_state \<Rightarrow> bool" where
  "timing_ok s \<longleftrightarrow> 1000 \<le> unat (period s) \<and> unat (period s) \<le> 1000000"

definition buffers_ok :: "pwm_state \<Rightarrow> bool" where
  "buffers_ok s \<longleftrightarrow> length (pwm_single_toggle s) = 2 \<and> (\<forall>ps\<in>set (pwm_single_toggle s). length ps = 7)
     \<and> length (pwm_channel_toggle s) = 2 \<and> pwm_toggle s < 2
     \<and> (case pwm_playing s of
          None \<Rightarrow> pwm_timer_down s
        | Some p \<Rightarrow> p < 2 \<and> 0 < pwm_channel_toggle s ! p \<and> pwm_channel_toggle s ! p \<le> 7
            \<and> 0 < pwm_channel_toggle s ! pwm_toggle s \<and> pwm_channel_toggle s ! pwm_toggle s \<le> 7)"

lemma channel_pin_range:
  assumes "channels_ok s" "i < pwm_channel_num s"
  shows "channel_pin s i < 16" "pin_mask (pwm_out_io_num s ! i) = Inr (push_bit (channel_pin s i) 1)"
proof -
  define c where "c = nat (pwm_out_io_num s ! i)"
  have c: "1 \<le> c" "c \<le> 12" "0 \<le> pwm_out_io_num s ! i" using assms unfolding channels_ok_def c_def by auto
  then obtain d where d: "c = Suc d" "d < length (tl pin_num)" by (cases c) (auto simp: pin_num_def)
  then have "pin_num ! c \<in> set (tl pin_num)" using nth_mem [OF d(2)] by (simp only: nth_tl)
  then have pin: "pin_num ! c < 16" "c < length pin_num"
    using d by (auto simp: pin_num_def)
  then show "channel_pin s i < 16" by (simp add: channel_pin_def c_def)
  have "ucast (push_bit n 1 :: u32) = (push_bit n 1 :: u16)" for n
    by (rule bit_word_eqI) (auto simp: bit_simps)
  then show "pin_mask (pwm_out_io_num s ! i) = Inr (push_bit (channel_pin s i) 1)"
    using c pin by (simp add: pin_mask_def channel_pin_def flip: c_def)
qed

lemma pin_num_distinct: "distinct pin_num"
  by (simp add: pin_num_def)

lemma channel_pin_inj:
  assumes "channels_ok s" "i < pwm_channel_num s" "j < pwm_channel_num s" "channel_pin s i = channel_pin s j"
  shows "i = j"
proof -
  have r: "nat (pwm_out_io_num s ! k) < length pin_num \<and> 0 \<le> pwm_out_io_num s ! k" if "k < pwm_channel_num s" for k
    using assms(1) that by (auto simp: channels_ok_def pin_num_def)
  have "nat (pwm_out_io_num s ! i) = nat (pwm_out_io_num s ! j)"
    using assms(4) r [OF assms(2)] r [OF assms(3)] nth_eq_iff_index_eq [OF pin_num_distinct] by (auto simp: channel_pin_def)
  then have "pwm_out_io_num s ! i = pwm_out_io_num s ! j" using r [OF assms(2)] r [OF assms(3)] by linarith
  with assms show ?thesis by (auto simp: channels_ok_def dest: inj_onD)
qed

section \<open>From the channels to the schedule\<close>

lemma channel_ticks:
  assumes "channels_ok s" "timing_ok s" "i < pwm_channel_num s"
  shows "channel_param s i = Inr \<lparr>gpio_set = 0, gpio_clear = push_bit (channel_pin s i) 1,
      h_time = of_nat (5 * channel_us s i)\<rparr>"
    "channel_us s i \<le> unat (period s)"
proof -
  have i: "i < 6" "unat (duty s ! i) \<le> 1023" "length (duty s) = 6" "length (pwm_out_io_num s) = 6"
    using assms(1,3) by (auto simp: channels_ok_def)
  have p: "unat (period s) \<le> 1000000" using assms(2) by (simp add: timing_ok_def)
  show le: "channel_us s i \<le> unat (period s)"
    using i(2) by (simp add: channel_us_def div_le_mono order_trans [OF div_le_mono [OF mult_le_mono2 [OF i(2)]]])
  have d32: "unat (ucast (duty s ! i) :: u32) = unat (duty s ! i)" using i(2) by (simp add: unat_ucast_mod)
  have "unat (period s) * unat (duty s ! i) \<le> 1000000 * 1023" using p i(2) by (rule mult_le_mono)
  then have "unat (period s * ucast (duty s ! i)) = unat (period s) * unat (duty s ! i)"
    using d32 by (subst unat_mult_no_wrap) simp_all
  then have us: "unat (period s * ucast (duty s ! i) div PWM_DEPTH) = channel_us s i"
    by (simp add: unat_div PWM_DEPTH_def channel_us_def)
  then have "unat (US_TO_RTC_TIMER_TICKS (period s * ucast (duty s ! i) div PWM_DEPTH)) = 5 * channel_us s i"
    using ticks_value [of "period s * ucast (duty s ! i) div PWM_DEPTH"] le p by simp
  then have "US_TO_RTC_TIMER_TICKS (period s * ucast (duty s ! i) div PWM_DEPTH) = of_nat (5 * channel_us s i)"
    by (rule unat_eq_of_nat)
  then show "channel_param s i = Inr \<lparr>gpio_set = 0, gpio_clear = push_bit (channel_pin s i) 1,
      h_time = of_nat (5 * channel_us s i)\<rparr>"
    using i channel_pin_range(2) [OF assms(1,3)] by (simp add: channel_param_def)
qed

definition params :: "pwm_state \<Rightarrow> pwm_single_param list" where
  "params s = map (\<lambda>i. \<lparr>gpio_set = 0, gpio_clear = push_bit (channel_pin s i) 1, h_time = of_nat (5 * channel_us s i)\<rparr>)
       [0..<pwm_channel_num s]
     @ [\<lparr>gpio_set = pwm_gpio s, gpio_clear = 0, h_time = of_nat (5 * unat (period s))\<rparr>]"

lemma fill_params_ok:
  assumes "channels_ok s" "timing_ok s" "length ps = 7"
  shows "\<exists>zs. fill_params s ps = Inr (params s @ zs) \<and> length (params s @ zs) = 7"
proof -
  let ?p = "\<lambda>i. \<lparr>gpio_set = 0, gpio_clear = push_bit (channel_pin s i) 1, h_time = of_nat (5 * channel_us s i)\<rparr>"
  have num: "pwm_channel_num s \<le> 6" using assms(1) by (simp add: channels_ok_def)
  have loop: "n \<le> pwm_channel_num s \<Longrightarrow>
      rfold (\<lambda>i ps. rbind (channel_param s i) (\<lambda>p. arr_set ps i p)) [0..<n] ps = Inr (map ?p [0..<n] @ drop n ps)" for n
  proof (induction n)
    case (Suc n)
    then have n: "n < pwm_channel_num s" "n < length ps" using num assms(3) by auto
    then have "drop n ps = ps ! n # drop (Suc n) ps" by (simp add: Cons_nth_drop_Suc)
    with Suc n channel_ticks(1) [OF assms(1,2) n(1)] show ?case
      by (simp add: rfold_upt_Suc list_update_append del: upt_Suc) (simp add: upt_Suc_append)
  qed simp
  have "unat (US_TO_RTC_TIMER_TICKS (period s)) = 5 * unat (period s)"
    using ticks_value assms(2) by (simp add: timing_ok_def)
  then have tick: "US_TO_RTC_TIMER_TICKS (period s) = of_nat (5 * unat (period s))" by (rule unat_eq_of_nat)
  have "drop (pwm_channel_num s) ps = ps ! pwm_channel_num s # drop (Suc (pwm_channel_num s)) ps"
    using num assms(3) by (simp add: Cons_nth_drop_Suc)
  then show ?thesis
    using num assms(3) loop [of "pwm_channel_num s"]
    by (intro exI [of _ "drop (Suc (pwm_channel_num s)) ps"]) (simp add: fill_params_def params_def tick list_update_append)
qed

lemma params_take: "take (Suc (pwm_channel_num s)) (params s @ zs) = params s"
  by (simp add: params_def)

lemma ticks_inject:
  assumes "m \<le> 1000000" "n \<le> 1000000"
  shows "(of_nat (5 * m) :: u32) = of_nat (5 * n) \<longleftrightarrow> m = n" "unat (of_nat (5 * m) :: u32) = 5 * m"
    "(of_nat (5 * m) :: u32) \<le> of_nat (5 * n) \<longleftrightarrow> m \<le> n"
  using assms by (simp_all add: word_unat_eq_iff word_le_nat_alt unat_of_nat del: of_nat_mult)

lemma us_bounds:
  assumes "channels_ok s" "timing_ok s" "i < pwm_channel_num s"
  shows "channel_us s i \<le> unat (period s)" "channel_us s i \<le> 1000000" "unat (period s) \<le> 1000000"
  using channel_ticks(2) [OF assms] assms(2) by (auto simp: timing_ok_def)

lemma channel_mask_bit:
  assumes "channels_ok s" "i < pwm_channel_num s"
  shows "bit (push_bit (channel_pin s i) 1 :: u16) b \<longleftrightarrow> b = channel_pin s i"
  using channel_pin_range(1) [OF assms] by (auto simp: bit_exp_iff possible_bit_word)

lemma params_clears:
  assumes "channels_ok s" "timing_ok s" "i < pwm_channel_num s"
  shows "clears_at (params s) T (channel_pin s i) \<longleftrightarrow> T = of_nat (5 * channel_us s i)"
proof -
  have "clears_at (params s) T (channel_pin s i) \<longleftrightarrow>
      (\<exists>j<pwm_channel_num s. T = of_nat (5 * channel_us s j) \<and> channel_pin s i = channel_pin s j)"
    unfolding clears_at_def params_def using channel_mask_bit [OF assms(1)] by (auto simp del: of_nat_mult)
  also have "\<dots> \<longleftrightarrow> T = of_nat (5 * channel_us s i)"
    using assms channel_pin_inj [OF assms(1)] by blast
  finally show ?thesis .
qed

lemma params_sets:
  assumes "channels_ok s" "i < pwm_channel_num s"
  shows "sets_at (params s) T (channel_pin s i) \<longleftrightarrow> T = of_nat (5 * unat (period s))"
proof -
  have "bit (pwm_gpio s) (channel_pin s i)" using assms by (auto simp: channels_ok_def)
  then show ?thesis by (auto simp: sets_at_def params_def simp del: of_nat_mult)
qed

text \<open>The merged list of a set of channels: its last entry is the period.\<close>

lemma merged_last:
  assumes "channels_ok s" "timing_ok s" "sorted_wrt (<) (h_times es)" "same_pins es (params s)" "es \<noteq> []"
  shows "h_time (last es) = of_nat (5 * unat (period s))"
proof -
  let ?P = "of_nat (5 * unat (period s)) :: u32"
  have T: "set (h_times es) = set (h_times (params s))" using assms(4) by (simp add: same_pins_def)
  have le: "T' \<le> ?P" if "T' \<in> set (h_times es)" for T'
    using that us_bounds [OF assms(1,2)] unfolding T params_def
    by (auto simp: ticks_inject(3) simp del: of_nat_mult)
  have "?P \<in> set (h_times es)" unfolding T params_def by simp
  then obtain e where e: "e \<in> set es" "h_time e = ?P" by auto
  have es: "es = butlast es @ [last es]" using assms(5) by simp
  show ?thesis
  proof (cases "e \<in> set (butlast es)")
    case True
    then have "?P < h_time (last es)" using strict_butlast [OF assms(3) True] e(2) by simp
    with le [of "h_time (last es)"] assms(5) show ?thesis by simp
  next
    case False
    then have "e = last es" using e(1) es by (metis Un_iff empty_iff empty_set insert_iff list.simps(15) set_append)
    with e(2) show ?thesis by simp
  qed
qed

lemma merged_two:
  assumes "channels_ok s" "timing_ok s" "same_pins es (params s)"
    "i < pwm_channel_num s" "channel_us s i < unat (period s)"
  shows "2 \<le> length es"
proof -
  have T: "set (h_times es) = set (h_times (params s))" using assms(3) by (simp add: same_pins_def)
  have ne: "(of_nat (5 * channel_us s i) :: u32) \<noteq> of_nat (5 * unat (period s))"
    using us_bounds [OF assms(1,2,4)] assms(5) by (simp add: ticks_inject(1) del: of_nat_mult)
  have "{of_nat (5 * channel_us s i), of_nat (5 * unat (period s))} \<subseteq> set (h_times es)"
    unfolding T params_def using assms(4) by auto
  from card_mono [OF _ this] ne have "2 \<le> card (set (h_times es))" by simp
  with card_length [of "h_times es"] show ?thesis by simp
qed

lemma finish_length:
  "2 \<le> length es \<Longrightarrow> length (finish_schedule es) = (if h_time (hd es) = 0 then length es - 1 else length es)"
  by (auto simp: finish_schedule_def Let_def)

lemma finish_long:
  assumes "channels_ok s" "timing_ok s" "same_pins es (params s)" "j < pwm_channel_num s"
    "0 < channel_us s j" "channel_us s j < unat (period s)"
  shows "2 \<le> length (finish_schedule (deltas 0 es))"
proof -
  have two: "2 \<le> length es" by (rule merged_two [OF assms(1,2,3,4,6)])
  have T: "set (h_times es) = set (h_times (params s))" using assms(3) by (simp add: same_pins_def)
  have b: "channel_us s j \<le> 1000000" "unat (period s) \<le> 1000000" using us_bounds [OF assms(1,2,4)] by auto
  have "3 \<le> length es" if "h_time (hd es) = 0"
  proof -
    have "0 \<in> set (h_times es)" using that two by (cases es) auto
    then have sub: "{of_nat (5 * 0), of_nat (5 * channel_us s j), of_nat (5 * unat (period s))} \<subseteq> set (h_times es)"
      unfolding T params_def using assms(4) by auto
    have ne: "(of_nat (5 * 0) :: u32) \<noteq> of_nat (5 * channel_us s j)" "(of_nat (5 * 0) :: u32) \<noteq> of_nat (5 * unat (period s))"
      "(of_nat (5 * channel_us s j) :: u32) \<noteq> of_nat (5 * unat (period s))"
      using b assms(5,6) by (simp_all only: ticks_inject(1) zero_le)
    from ne have "card {of_nat (5 * 0), of_nat (5 * channel_us s j), of_nat (5 * unat (period s)) :: u32} = 3"
      by (simp only: card_insert_if finite.intros insert_iff empty_iff simp_thms if_False card.empty)
    with card_mono [OF _ sub] card_length [of "h_times es"] show ?thesis by simp
  qed
  moreover have "h_time (hd (deltas 0 es)) = h_time (hd es)" using two by (cases es) auto
  ultimately show ?thesis using finish_length [of "deltas 0 es"] two by auto
qed

definition channel_wave :: "pwm_state \<Rightarrow> nat \<Rightarrow> bool list" where
  "channel_wave s i = replicate (5 * channel_us s i) True @ replicate (5 * unat (period s) - 5 * channel_us s i) False"

lemma compile_params:
  assumes "channels_ok s" "timing_ok s" "length (params s @ zs) = 7"
  shows "\<exists>ps n. compile_schedule (pwm_channel_num s) (params s @ zs) = Inr (ps, n) \<and> length ps = 7 \<and> 1 \<le> n \<and> n \<le> 7
    \<and> (\<forall>j<pwm_channel_num s. 0 < channel_us s j \<and> channel_us s j < unat (period s) \<longrightarrow> 2 \<le> n
         \<and> (\<forall>i<pwm_channel_num s. \<forall>l. pin_wave (channel_pin s i) l (played (take n ps)) = channel_wave s i))"
proof -
  have num: "pwm_channel_num s < length (params s @ zs)" by (simp add: params_def)
  obtain es where es: "sorted_wrt (<) (h_times es)" "same_pins es (params s)" "es \<noteq> []"
    and two: "2 \<le> length es \<longrightarrow> (\<exists>cs. compile_schedule (pwm_channel_num s) (params s @ zs)
          = Inr (finish_schedule (deltas 0 es) @ cs, length (finish_schedule (deltas 0 es)))
          \<and> length (finish_schedule (deltas 0 es) @ cs) = length (params s @ zs))"
    and one: "length es = 1 \<and> h_time (hd es) \<noteq> 0 \<longrightarrow>
          (\<exists>qs. compile_schedule (pwm_channel_num s) (params s @ zs) = Inr (qs, 1) \<and> length qs = length (params s @ zs))"
    using compile_schedule_spec [OF num] unfolding params_take by blast
  have P: "h_time (last es) = of_nat (5 * unat (period s))" by (rule merged_last [OF assms(1,2) es])
  have p: "0 < unat (period s)" "unat (period s) \<le> 1000000" using assms(2) by (auto simp: timing_ok_def)
  show ?thesis
  proof (cases "2 \<le> length es")
    case True
    let ?S = "finish_schedule (deltas 0 es)"
    obtain cs where comp: "compile_schedule (pwm_channel_num s) (params s @ zs) = Inr (?S @ cs, length ?S)" "length (?S @ cs) = 7"
      using two True assms(3) by auto
    have "pin_wave (channel_pin s i) l (played ?S) = channel_wave s i" if i: "i < pwm_channel_num s" for i l
    proof -
      let ?t = "of_nat (5 * channel_us s i) :: u32"
      have "?t \<in> set (h_times es)" using es(2) i by (auto simp: same_pins_def params_def)
      moreover have "clears_at es T (channel_pin s i) = (T = ?t)" "sets_at es T (channel_pin s i) = (T = h_time (last es))" for T
        using es(2) params_clears [OF assms(1,2) i] params_sets [OF assms(1) i] P by (simp_all add: same_pins_def)
      ultimately have "pin_wave (channel_pin s i) l (played ?S)
          = replicate (unat ?t) True @ replicate (unat (h_time (last es)) - unat ?t) False"
        by (intro schedule_wave [OF es(1) True])
      then show ?thesis
        unfolding P channel_wave_def using us_bounds [OF assms(1,2) i] by (simp only: ticks_inject(2))
    qed
    moreover have "1 \<le> length ?S" using True finish_length [of "deltas 0 es"] by (simp split: if_splits)
    moreover have "length ?S \<le> 7" using comp(2) by simp
    ultimately show ?thesis
      using comp finish_long [OF assms(1,2) es(2)] by (intro exI [of _ "?S @ cs"] exI [of _ "length ?S"]) auto
  next
    case False
    then have "length es = 1" using es(3) by (cases es; cases "tl es") auto
    moreover from this have "h_time (hd es) = of_nat (5 * unat (period s))" using P by (cases es) auto
    then have "h_time (hd es) \<noteq> 0" using ticks_inject(1) [of "unat (period s)" 0] p by simp
    ultimately obtain qs where "compile_schedule (pwm_channel_num s) (params s @ zs) = Inr (qs, 1)" "length qs = 7"
      using one assms(3) by auto
    moreover have "\<not> channel_us s j < unat (period s)" if "j < pwm_channel_num s" for j
      using merged_two [OF assms(1,2) es(2) that] False by auto
    ultimately show ?thesis by (intro exI [of _ qs] exI [of _ 1]) auto
  qed
qed

section \<open>Starting and playing\<close>

definition pwm_inv :: "pwm_state \<Rightarrow> bool" where
  "pwm_inv s \<longleftrightarrow> channels_ok s \<and> timing_ok s \<and> buffers_ok s \<and> length (pwms_duty s) = 13"

definition other_half :: "pwm_state \<Rightarrow> nat" where
  "other_half s = (if pwm_toggle s = 1 then 0 else 1)"

text \<open>What \<open>pwm_start\<close> does: it publishes a schedule in the other half of the buffer.\<close>

lemma pwm_start_result:
  assumes "pwm_inv s"
  shows "\<exists>ps n s'. pwm_start s = (Inr (), s') \<and> pwm_inv s'
    \<and> pwm_toggle s' = other_half s \<and> pwm_single_toggle s' = (pwm_single_toggle s)[other_half s := ps]
    \<and> pwm_channel_toggle s' = (pwm_channel_toggle s)[other_half s := n]
    \<and> pwm_gpio s' = pwm_gpio s \<and> pwm_playing s' \<noteq> None \<and> length ps = 7 \<and> n \<le> 7
    \<and> (\<not> pwm_timer_down s \<longrightarrow> s' = s\<lparr>pwm_single_toggle := (pwm_single_toggle s)[other_half s := ps],
         pwm_channel_toggle := (pwm_channel_toggle s)[other_half s := n], pwm_toggle := other_half s\<rparr>)
    \<and> (\<forall>j<pwm_channel_num s. 0 < channel_us s j \<and> channel_us s j < unat (period s) \<longrightarrow> 2 \<le> n
         \<and> (\<forall>i<pwm_channel_num s. \<forall>l. pin_wave (channel_pin s i) l (played (take n ps)) = channel_wave s i))"
proof -
  have ok: "channels_ok s" "timing_ok s" "buffers_ok s" "length (pwms_duty s) = 13" using assms by (simp_all add: pwm_inv_def)
  let ?t = "other_half s"
  have t: "?t < 2" by (simp add: other_half_def)
  have buf: "?t < length (pwm_single_toggle s)" "length (pwm_single_toggle s ! ?t) = 7" "length (pwm_channel_toggle s) = 2"
    using ok(3) t by (simp_all add: buffers_ok_def)
  obtain zs where fill: "fill_params s (pwm_single_toggle s ! ?t) = Inr (params s @ zs)" "length (params s @ zs) = 7"
    using fill_params_ok [OF ok(1,2) buf(2)] by blast
  obtain ps n where comp: "compile_schedule (pwm_channel_num s) (params s @ zs) = Inr (ps, n)" "length ps = 7" "1 \<le> n" "n \<le> 7"
    and wave: "\<forall>j<pwm_channel_num s. 0 < channel_us s j \<and> channel_us s j < unat (period s) \<longrightarrow> 2 \<le> n
         \<and> (\<forall>i<pwm_channel_num s. \<forall>l. pin_wave (channel_pin s i) l (played (take n ps)) = channel_wave s i)"
    using compile_params [OF ok(1,2) fill(2)] by blast
  let ?u = "s\<lparr>pwm_single_toggle := (pwm_single_toggle s)[?t := ps], pwm_channel_toggle := (pwm_channel_toggle s)[?t := n], pwm_toggle := ?t\<rparr>"
  let ?log = "pwm_log s @ [PwmOut (gpio_set (ps ! 0)) (gpio_clear (ps ! 0)) (pwm_gpio s)]"
  let ?s' = "if pwm_timer_down s then
      if n \<noteq> 1 then ?u\<lparr>pwm_playing := Some ?t, pwm_timer_down := False, pwm_log := ?log @ [PwmLoad (h_time (ps ! 0))]\<rparr>
      else ?u\<lparr>pwm_playing := Some ?t, pwm_log := ?log\<rparr> else ?u"
  have run: "pwm_start s = (Inr (), ?s')"
    using fill(1) comp(1,2) buf t by (simp add: pwm_start_def pwm_emit_def other_half_def Let_def)
  have ch: "channels_ok ?s'" "timing_ok ?s'"
    using ok(1,2) by (simp_all add: channels_ok_def timing_ok_def channel_pin_def)
  have len: "length (pwm_single_toggle s) = 2" using ok(3) by (simp add: buffers_ok_def)
  have single: "\<forall>qs\<in>set ((pwm_single_toggle s)[?t := ps]). length qs = 7"
    using ok(3) comp(2) set_update_subset_insert by (fastforce simp: buffers_ok_def)
  have "buffers_ok ?s'"
  proof (cases "pwm_timer_down s")
    case True
    with single len buf(3) t comp(3,4) show ?thesis by (simp add: buffers_ok_def)
  next
    case False
    then obtain p where p: "pwm_playing s = Some p" "p < 2" "0 < pwm_channel_toggle s ! p" "pwm_channel_toggle s ! p \<le> 7"
      using ok(3) by (auto simp: buffers_ok_def split: option.splits)
    with False single len buf(3) t comp(3,4) show ?thesis by (auto simp: buffers_ok_def nth_list_update)
  qed
  moreover have "pwm_playing ?s' \<noteq> None"
    using ok(3) by (auto simp: buffers_ok_def split: option.splits)
  ultimately have "pwm_inv ?s'" "pwm_playing ?s' \<noteq> None" using ch ok(4) by (simp_all add: pwm_inv_def)
  moreover have "pwm_toggle ?s' = ?t \<and> pwm_single_toggle ?s' = (pwm_single_toggle s)[?t := ps]
      \<and> pwm_channel_toggle ?s' = (pwm_channel_toggle s)[?t := n] \<and> pwm_gpio ?s' = pwm_gpio s
      \<and> (\<not> pwm_timer_down s \<longrightarrow> ?s' = ?u)"
    by simp
  ultimately show ?thesis
    using run comp(2,4) wave by (intro exI [of _ ps] exI [of _ n] exI [of _ ?s']) (intro conjI; blast)
qed

text \<open>A run of timer interrupts, and the end of a period.\<close>

primrec interrupts :: "nat \<Rightarrow> unit pwm_handler" where
  "interrupts 0 = mret ()"
| "interrupts (Suc k) = mbind pwm_tim1_intr_handler (\<lambda>_. interrupts k)"

definition period_end :: "pwm_state \<Rightarrow> bool" where
  "period_end s \<longleftrightarrow> (\<exists>p. pwm_playing s = Some p \<and> int (pwm_current_channel s) \<ge> int (pwm_channel_toggle s ! p) - 1)"

definition segment_events :: "u16 \<Rightarrow> (pwm_single_param \<times> u32) list \<Rightarrow> pwm_event list" where
  "segment_events pins segs = concat (map (\<lambda>(e, d). [PwmOut (gpio_set e) (gpio_clear e) pins, PwmLoad d]) segs)"

lemma interrupt_inside:
  assumes "pwm_playing s = Some p" "p < length (pwm_single_toggle s)" "p < length (pwm_channel_toggle s)"
    "pwm_current_channel s + 1 < pwm_channel_toggle s ! p" "pwm_channel_toggle s ! p \<le> length (pwm_single_toggle s ! p)"
  shows "pwm_tim1_intr_handler s = (Inr (), s\<lparr>pwm_current_channel := pwm_current_channel s + 1,
      pwm_log := pwm_log s @ segment_events (pwm_gpio s) [(pwm_single_toggle s ! p ! pwm_current_channel s,
         h_time (pwm_single_toggle s ! p ! (pwm_current_channel s + 1)))]\<rparr>)"
  using assms by (simp add: pwm_tim1_intr_handler_def pwm_emit_def segment_events_def)

lemma interrupt_wraps:
  assumes "period_end s" "buffers_ok s" "pwm_channel_toggle s ! pwm_toggle s \<noteq> 1"
  shows "pwm_tim1_intr_handler s = (Inr (), s\<lparr>pwm_playing := Some (pwm_toggle s), pwm_current_channel := 0,
      pwm_log := pwm_log s @ segment_events (pwm_gpio s)
        [(pwm_single_toggle s ! pwm_toggle s ! (pwm_channel_toggle s ! pwm_toggle s - 1), h_time (pwm_single_toggle s ! pwm_toggle s ! 0))]\<rparr>)"
proof -
  obtain p where p: "pwm_playing s = Some p" "int (pwm_current_channel s) \<ge> int (pwm_channel_toggle s ! p) - 1" "p < 2"
    using assms(1,2) by (auto simp: period_end_def buffers_ok_def)
  have b: "pwm_toggle s < length (pwm_single_toggle s)" "length (pwm_single_toggle s ! pwm_toggle s) = 7"
    "pwm_toggle s < length (pwm_channel_toggle s)" "p < length (pwm_channel_toggle s)"
    "0 < pwm_channel_toggle s ! pwm_toggle s" "pwm_channel_toggle s ! pwm_toggle s \<le> 7"
    using assms(2) p by (auto simp: buffers_ok_def)
  with p assms(3) show ?thesis
    by (simp add: pwm_tim1_intr_handler_def pwm_emit_def segment_events_def Let_def)
qed

lemma interrupts_add:
  "interrupts k s = (Inr (), s') \<Longrightarrow> interrupts (k + m) s = interrupts m s'"
proof (induction k arbitrary: s)
  case (Suc k)
  then obtain u where "pwm_tim1_intr_handler s = (Inr (), u)" "interrupts k u = (Inr (), s')"
    by (auto simp: mbind_def split: sum.splits prod.splits)
  with Suc.IH show ?case by simp
qed simp

lemma segment_events_append: "segment_events pins (xs @ ys) = segment_events pins xs @ segment_events pins ys"
  by (simp add: segment_events_def)

definition steps_from :: "pwm_single_param list \<Rightarrow> nat \<Rightarrow> nat \<Rightarrow> (pwm_single_param \<times> u32) list" where
  "steps_from ps a b = map (\<lambda>j. (ps ! j, h_time (ps ! (j + 1)))) [a..<b]"

lemma interrupts_inside:
  assumes "pwm_playing s = Some p" "p < length (pwm_single_toggle s)" "p < length (pwm_channel_toggle s)"
    "pwm_channel_toggle s ! p \<le> length (pwm_single_toggle s ! p)"
    "pwm_current_channel s + k < pwm_channel_toggle s ! p"
  shows "interrupts k s = (Inr (), s\<lparr>pwm_current_channel := pwm_current_channel s + k,
      pwm_log := pwm_log s @ segment_events (pwm_gpio s)
        (steps_from (pwm_single_toggle s ! p) (pwm_current_channel s) (pwm_current_channel s + k))\<rparr>)"
  using assms
proof (induction k arbitrary: s)
  case 0
  then show ?case by (simp add: steps_from_def segment_events_def)
next
  case (Suc k)
  let ?c = "pwm_current_channel s" and ?ps = "pwm_single_toggle s ! p"
  let ?s = "s\<lparr>pwm_current_channel := ?c + 1, pwm_log := pwm_log s @ segment_events (pwm_gpio s) [(?ps ! ?c, h_time (?ps ! (?c + 1)))]\<rparr>"
  have step: "pwm_tim1_intr_handler s = (Inr (), ?s)"
    by (rule interrupt_inside) (use Suc.prems in simp_all)
  have "interrupts k ?s = (Inr (), ?s\<lparr>pwm_current_channel := pwm_current_channel ?s + k,
      pwm_log := pwm_log ?s @ segment_events (pwm_gpio ?s)
        (steps_from (pwm_single_toggle ?s ! p) (pwm_current_channel ?s) (pwm_current_channel ?s + k))\<rparr>)"
    by (rule Suc.IH) (use Suc.prems in simp_all)
  moreover have "[?c..<?c + Suc k] = ?c # [Suc ?c..<Suc (?c + k)]" by (simp add: upt_conv_Cons del: upt_Suc)
  ultimately show ?case
    using step by (simp add: steps_from_def segment_events_def del: upt_Suc)
qed

lemma played_steps:
  assumes "0 < n" "n \<le> length ps"
  shows "played (take n ps) = (ps ! (n - 1), h_time (ps ! 0)) # steps_from ps 0 (n - 1)"
proof (rule nth_equalityI)
  have ne: "take n ps \<noteq> []" using assms by (cases ps) auto
  show "length (played (take n ps)) = length ((ps ! (n - 1), h_time (ps ! 0)) # steps_from ps 0 (n - 1))"
    using assms by (simp add: played_def steps_from_def)
  fix i assume "i < length (played (take n ps))"
  then have i: "i < n" using assms by (simp add: played_def)
  have "last (take n ps) = ps ! (n - 1)" using assms ne by (simp add: last_conv_nth)
  with i assms show "played (take n ps) ! i = ((ps ! (n - 1), h_time (ps ! 0)) # steps_from ps 0 (n - 1)) ! i"
    by (cases i) (simp_all add: played_def steps_from_def nth_butlast)
qed

lemma whole_period:
  assumes "period_end s" "buffers_ok s" "2 \<le> pwm_channel_toggle s ! pwm_toggle s"
  shows "\<exists>s'. interrupts (pwm_channel_toggle s ! pwm_toggle s) s = (Inr (), s') \<and> period_end s' \<and> buffers_ok s'
    \<and> pwm_toggle s' = pwm_toggle s \<and> pwm_single_toggle s' = pwm_single_toggle s
    \<and> pwm_channel_toggle s' = pwm_channel_toggle s \<and> pwm_gpio s' = pwm_gpio s
    \<and> pwm_log s' = pwm_log s @ segment_events (pwm_gpio s)
         (played (take (pwm_channel_toggle s ! pwm_toggle s) (pwm_single_toggle s ! pwm_toggle s)))"
proof -
  let ?t = "pwm_toggle s" and ?n = "pwm_channel_toggle s ! pwm_toggle s" and ?ps = "pwm_single_toggle s ! pwm_toggle s"
  let ?u = "s\<lparr>pwm_playing := Some ?t, pwm_current_channel := 0,
      pwm_log := pwm_log s @ segment_events (pwm_gpio s) [(?ps ! (?n - 1), h_time (?ps ! 0))]\<rparr>"
  have wrap: "pwm_tim1_intr_handler s = (Inr (), ?u)"
    by (rule interrupt_wraps) (use assms in simp_all)
  obtain p where p: "pwm_playing s = Some p" using assms(1) by (auto simp: period_end_def)
  have b: "?t < 2" "length (pwm_single_toggle s) = 2" "length (pwm_channel_toggle s) = 2" "length ?ps = 7" "?n \<le> 7"
    using assms(2) p by (auto simp: buffers_ok_def)
  let ?v = "?u\<lparr>pwm_current_channel := ?n - 1, pwm_log := pwm_log ?u @ segment_events (pwm_gpio s) (steps_from ?ps 0 (?n - 1))\<rparr>"
  have "interrupts (?n - 1) ?u = (Inr (), ?u\<lparr>pwm_current_channel := pwm_current_channel ?u + (?n - 1),
      pwm_log := pwm_log ?u @ segment_events (pwm_gpio ?u)
        (steps_from (pwm_single_toggle ?u ! ?t) (pwm_current_channel ?u) (pwm_current_channel ?u + (?n - 1)))\<rparr>)"
    by (rule interrupts_inside) (use b assms(3) in simp_all)
  then have rest: "interrupts (?n - 1) ?u = (Inr (), ?v)" by simp
  have "interrupts (Suc (?n - 1)) s = interrupts (?n - 1) ?u" by (simp only: interrupts.simps mbind_Inr [where m = pwm_tim1_intr_handler, OF wrap])
  moreover have "Suc (?n - 1) = ?n" using assms(3) by simp
  ultimately have "interrupts ?n s = (Inr (), ?v)" using rest by (simp only:)
  moreover have "period_end ?v" by (auto simp: period_end_def)
  moreover have "buffers_ok ?v" using assms(2) p b by (simp add: buffers_ok_def)
  moreover have "pwm_log ?v = pwm_log s @ segment_events (pwm_gpio s) (played (take ?n ?ps))"
    using b assms(3) by (simp add: played_steps segment_events_def)
  ultimately show ?thesis by (intro exI [of _ ?v]) simp
qed

lemma repeated_periods:
  assumes "period_end s" "buffers_ok s" "2 \<le> pwm_channel_toggle s ! pwm_toggle s"
  shows "\<exists>s'. interrupts (m * (pwm_channel_toggle s ! pwm_toggle s)) s = (Inr (), s')
    \<and> pwm_log s' = pwm_log s @ concat (replicate m (segment_events (pwm_gpio s)
         (played (take (pwm_channel_toggle s ! pwm_toggle s) (pwm_single_toggle s ! pwm_toggle s)))))"
  using assms
proof (induction m arbitrary: s)
  case (Suc m)
  let ?n = "pwm_channel_toggle s ! pwm_toggle s"
  obtain u where u: "interrupts ?n s = (Inr (), u)" "period_end u" "buffers_ok u" "pwm_toggle u = pwm_toggle s"
      "pwm_single_toggle u = pwm_single_toggle s" "pwm_channel_toggle u = pwm_channel_toggle s" "pwm_gpio u = pwm_gpio s"
      "pwm_log u = pwm_log s @ segment_events (pwm_gpio s) (played (take ?n (pwm_single_toggle s ! pwm_toggle s)))"
    using whole_period [OF Suc.prems] by blast
  have "interrupts (Suc m * ?n) s = interrupts (m * ?n) u"
    using interrupts_add [OF u(1), of "m * ?n"] by simp
  moreover have "2 \<le> pwm_channel_toggle u ! pwm_toggle u" using u Suc.prems(3) by simp
  ultimately show ?case using Suc.IH [OF u(2,3)] u by simp
qed simp

text \<open>The period in progress ends after at most six interrupts.\<close>

lemma reaches_period_end:
  assumes "pwm_inv s" "pwm_playing s \<noteq> None"
  shows "\<exists>k s'. k \<le> 6 \<and> interrupts k s = (Inr (), s') \<and> period_end s' \<and> buffers_ok s'
    \<and> pwm_toggle s' = pwm_toggle s \<and> pwm_single_toggle s' = pwm_single_toggle s
    \<and> pwm_channel_toggle s' = pwm_channel_toggle s \<and> pwm_gpio s' = pwm_gpio s"
proof -
  obtain p where p: "pwm_playing s = Some p" using assms(2) by auto
  let ?n = "pwm_channel_toggle s ! p" and ?c = "pwm_current_channel s"
  have b: "buffers_ok s" "p < 2" "length (pwm_single_toggle s) = 2" "length (pwm_channel_toggle s) = 2"
    "length (pwm_single_toggle s ! p) = 7" "0 < ?n" "?n \<le> 7"
    using assms(1) p by (auto simp: pwm_inv_def buffers_ok_def)
  show ?thesis
  proof (cases "?c + 1 < ?n")
    case True
    let ?k = "?n - 1 - ?c"
    let ?v = "s\<lparr>pwm_current_channel := ?c + ?k, pwm_log := pwm_log s @ segment_events (pwm_gpio s)
        (steps_from (pwm_single_toggle s ! p) ?c (?c + ?k))\<rparr>"
    have "interrupts ?k s = (Inr (), ?v)"
      by (rule interrupts_inside [OF p]) (use b True in simp_all)
    moreover have "period_end ?v" using p True by (simp add: period_end_def)
    moreover have "buffers_ok ?v" using b(1) p by (simp add: buffers_ok_def)
    ultimately show ?thesis using b(7) by (intro exI [of _ ?k] exI [of _ ?v]) simp
  next
    case False
    then have "period_end s" using p by (simp add: period_end_def)
    with b(1) show ?thesis by (intro exI [of _ 0] exI [of _ s]) simp
  qed
qed

text \<open>C5: From any consistent state, after \<open>pwm_start\<close> with at least one channel that is neither off nor fully on,
  the period in progress ends after at most six interrupts, and from then on the interrupts play,
  over and over, a wave in which each channel's pin is high for exactly five ticks per microsecond
  of its share of the period and then low for the rest of it, whatever the order and the
  coincidences of the duties.\<close>

theorem pwm_channel_waves:
  assumes "pwm_inv s" "j < pwm_channel_num s" "0 < channel_us s j" "channel_us s j < unat (period s)"
  shows "\<exists>s1 k s2 segs. pwm_start s = (Inr (), s1) \<and> k \<le> 6 \<and> interrupts k s1 = (Inr (), s2)
    \<and> (\<forall>m. \<exists>s3. interrupts (m * length segs) s2 = (Inr (), s3)
          \<and> pwm_log s3 = pwm_log s2 @ concat (replicate m (segment_events (pwm_gpio s) segs)))
    \<and> (\<forall>i<pwm_channel_num s. \<forall>l. pin_wave (channel_pin s i) l segs
          = replicate (5 * channel_us s i) True @ replicate (5 * unat (period s) - 5 * channel_us s i) False)"
proof -
  obtain ps n s1 where s1: "pwm_start s = (Inr (), s1)" "pwm_inv s1" "pwm_toggle s1 = other_half s"
      "pwm_single_toggle s1 = (pwm_single_toggle s)[other_half s := ps]"
      "pwm_channel_toggle s1 = (pwm_channel_toggle s)[other_half s := n]" "pwm_gpio s1 = pwm_gpio s"
      "pwm_playing s1 \<noteq> None" "length ps = 7" "n \<le> 7"
    and wave: "2 \<le> n" "\<forall>i<pwm_channel_num s. \<forall>l. pin_wave (channel_pin s i) l (played (take n ps)) = channel_wave s i"
    using pwm_start_result [OF assms(1)] assms(2,3,4) by blast
  obtain k s2 where s2: "k \<le> 6" "interrupts k s1 = (Inr (), s2)" "period_end s2" "buffers_ok s2" "pwm_toggle s2 = pwm_toggle s1"
      "pwm_single_toggle s2 = pwm_single_toggle s1" "pwm_channel_toggle s2 = pwm_channel_toggle s1" "pwm_gpio s2 = pwm_gpio s1"
    using reaches_period_end [OF s1(2,7)] by blast
  have "other_half s < length (pwm_single_toggle s)" "other_half s < length (pwm_channel_toggle s)"
    using assms(1) by (auto simp: pwm_inv_def buffers_ok_def other_half_def)
  then have buf: "pwm_single_toggle s2 ! pwm_toggle s2 = ps" "pwm_channel_toggle s2 ! pwm_toggle s2 = n"
    using s1 s2 by simp_all
  have "length (played (take n ps)) = n" using s1(8,9) wave(1) by (simp add: played_def)
  then show ?thesis
    using s1(1,6) s2 buf wave repeated_periods [OF s2(3,4)] unfolding channel_wave_def
    by (intro exI [of _ s1] exI [of _ k] exI [of _ s2] exI [of _ "played (take n ps)"]) simp
qed

text \<open>The halves of the double buffer alternate with every start, not with every period: a second start within
  one period writes the half that the interrupt is still playing, while its position in it is kept.\<close>

theorem second_start_overwrites_playing:
  assumes "pwm_inv s" "\<not> pwm_timer_down s" "pwm_playing s = Some (pwm_toggle s)"
  shows "\<exists>s1 s2 ps n. pwm_start s = (Inr (), s1) \<and> pwm_start s1 = (Inr (), s2)
    \<and> pwm_playing s2 = Some (pwm_toggle s) \<and> pwm_current_channel s2 = pwm_current_channel s
    \<and> pwm_single_toggle s2 = (pwm_single_toggle s1)[pwm_toggle s := ps]
    \<and> pwm_channel_toggle s2 = (pwm_channel_toggle s1)[pwm_toggle s := n]"
proof -
  obtain ps n s1 where s1: "pwm_start s = (Inr (), s1)" "pwm_inv s1"
      "s1 = s\<lparr>pwm_single_toggle := (pwm_single_toggle s)[other_half s := ps],
         pwm_channel_toggle := (pwm_channel_toggle s)[other_half s := n], pwm_toggle := other_half s\<rparr>"
    using pwm_start_result [OF assms(1)] assms(2) by blast
  have "\<not> pwm_timer_down s1" using assms(2) s1(3) by simp
  then obtain qs m s2 where s2: "pwm_start s1 = (Inr (), s2)"
      "s2 = s1\<lparr>pwm_single_toggle := (pwm_single_toggle s1)[other_half s1 := qs],
         pwm_channel_toggle := (pwm_channel_toggle s1)[other_half s1 := m], pwm_toggle := other_half s1\<rparr>"
    using pwm_start_result [OF s1(2)] by blast
  have "pwm_toggle s < 2" using assms(1) by (simp add: pwm_inv_def buffers_ok_def)
  then have "other_half s1 = pwm_toggle s" using s1(3) by (auto simp: other_half_def)
  with s1 s2 assms(3) show ?thesis by (intro exI [of _ s1] exI [of _ s2] exI [of _ qs] exI [of _ m]) simp
qed

end
