(* ===== verification/Pwm_Safety.thy ===== *)
theory Pwm_Safety
  imports Pwm_Wave
begin

text \<open>
  The invariant of the PWM driver through every entry point: the functions of the Lua module and
  the timer interrupt, in any order, from the boot of the device on. The invariant is \<open>pwm_inv\<close> of
  \<open>Pwm_Wave\<close>, and that the pointers the interrupt handler follows are set; the lemmas below follow
  the layers (driver, platform, module).
\<close>

section \<open>Frame rules\<close>

lemma channels_ok_frame [simp]:
  "channels_ok (s\<lparr>pwm_single_toggle := x_pwm_single_toggle\<rparr>) = channels_ok s"
  "channels_ok (s\<lparr>pwm_channel_toggle := x_pwm_channel_toggle\<rparr>) = channels_ok s"
  "channels_ok (s\<lparr>pwm_playing := x_pwm_playing\<rparr>) = channels_ok s"
  "channels_ok (s\<lparr>period := x_period\<rparr>) = channels_ok s"
  "channels_ok (s\<lparr>freq := x_freq\<rparr>) = channels_ok s"
  "channels_ok (s\<lparr>pwm_toggle := x_pwm_toggle\<rparr>) = channels_ok s"
  "channels_ok (s\<lparr>pwm_timer_down := x_pwm_timer_down\<rparr>) = channels_ok s"
  "channels_ok (s\<lparr>pwm_current_channel := x_pwm_current_channel\<rparr>) = channels_ok s"
  "channels_ok (s\<lparr>pwms_duty := x_pwms_duty\<rparr>) = channels_ok s"
  "channels_ok (s\<lparr>pwm_log := x_pwm_log\<rparr>) = channels_ok s"
  by (simp_all add: channels_ok_def channel_pin_def split: option.splits)

lemma timing_ok_frame [simp]:
  "timing_ok (s\<lparr>pwm_single_toggle := x_pwm_single_toggle\<rparr>) = timing_ok s"
  "timing_ok (s\<lparr>pwm_channel_toggle := x_pwm_channel_toggle\<rparr>) = timing_ok s"
  "timing_ok (s\<lparr>pwm_playing := x_pwm_playing\<rparr>) = timing_ok s"
  "timing_ok (s\<lparr>freq := x_freq\<rparr>) = timing_ok s"
  "timing_ok (s\<lparr>duty := x_duty\<rparr>) = timing_ok s"
  "timing_ok (s\<lparr>pwm_out_io_num := x_pwm_out_io_num\<rparr>) = timing_ok s"
  "timing_ok (s\<lparr>pwm_toggle := x_pwm_toggle\<rparr>) = timing_ok s"
  "timing_ok (s\<lparr>pwm_timer_down := x_pwm_timer_down\<rparr>) = timing_ok s"
  "timing_ok (s\<lparr>pwm_current_channel := x_pwm_current_channel\<rparr>) = timing_ok s"
  "timing_ok (s\<lparr>pwm_gpio := x_pwm_gpio\<rparr>) = timing_ok s"
  "timing_ok (s\<lparr>pwm_channel_num := x_pwm_channel_num\<rparr>) = timing_ok s"
  "timing_ok (s\<lparr>pwms_duty := x_pwms_duty\<rparr>) = timing_ok s"
  "timing_ok (s\<lparr>pwm_log := x_pwm_log\<rparr>) = timing_ok s"
  by (simp_all add: timing_ok_def channel_pin_def split: option.splits)

lemma buffers_ok_frame [simp]:
  "buffers_ok (s\<lparr>period := x_period\<rparr>) = buffers_ok s"
  "buffers_ok (s\<lparr>freq := x_freq\<rparr>) = buffers_ok s"
  "buffers_ok (s\<lparr>duty := x_duty\<rparr>) = buffers_ok s"
  "buffers_ok (s\<lparr>pwm_out_io_num := x_pwm_out_io_num\<rparr>) = buffers_ok s"
  "buffers_ok (s\<lparr>pwm_current_channel := x_pwm_current_channel\<rparr>) = buffers_ok s"
  "buffers_ok (s\<lparr>pwm_gpio := x_pwm_gpio\<rparr>) = buffers_ok s"
  "buffers_ok (s\<lparr>pwm_channel_num := x_pwm_channel_num\<rparr>) = buffers_ok s"
  "buffers_ok (s\<lparr>pwms_duty := x_pwms_duty\<rparr>) = buffers_ok s"
  "buffers_ok (s\<lparr>pwm_log := x_pwm_log\<rparr>) = buffers_ok s"
  by (simp_all add: buffers_ok_def channel_pin_def split: option.splits)

section \<open>Driver\<close>

definition pwm_live :: "pwm_state \<Rightarrow> bool" where
  "pwm_live s \<longleftrightarrow> pwm_inv s \<and> pwm_playing s \<noteq> None"

lemma pwm_live_iff:
  "pwm_live s \<longleftrightarrow> channels_ok s \<and> timing_ok s \<and> buffers_ok s \<and> length (pwms_duty s) = 13 \<and> pwm_playing s \<noteq> None"
  by (simp add: pwm_live_def pwm_inv_def)

abbreviation real_channel :: "u8 \<Rightarrow> bool" where
  "real_channel c \<equiv> 1 \<le> unat c \<and> unat c \<le> 12"

lemma keeps_pwm_emit [keeps_intro]: "keeps pwm_live (pwm_emit evs)"
  unfolding pwm_emit_def
  by (intro keeps_mupd) (simp add: pwm_live_iff)

lemma keeps_pwm_start: "keeps pwm_live pwm_start"
  unfolding pwm_live_def using pwm_start_result by (intro keepsI) fastforce

lemma keeps_pwm_set_freq: "keeps pwm_live (pwm_set_freq f c)"
  unfolding pwm_set_freq_def
proof (intro keeps_mupd)
  fix s assume s: "pwm_live s"
  let ?f = "if 1000 < f then 1000 else if f < 1 then 1 else f"
  have f: "1 \<le> unat ?f" "unat ?f \<le> 1000" by (auto simp: word_less_nat_alt not_less)
  then have "unat (1000000 div ucast ?f :: u32) = 1000000 div unat ?f"
    by (subst unat_div) (simp add: unat_ucast_mod)
  moreover have "1000 \<le> 1000000 div unat ?f" using f by (simp add: less_eq_div_iff_mult_less_eq)
  moreover have "1000000 div unat ?f \<le> 1000000" by simp
  ultimately have "timing_ok (s\<lparr>freq := ?f, period := 1000000 div ucast ?f\<rparr>)" by (simp add: timing_ok_def)
  with s show "pwm_live (let f = ?f in s\<lparr>freq := f, period := 1000000 div ucast f\<rparr>)"
    by (simp add: pwm_live_iff Let_def)
qed

text \<open>A search through slots that exist ends at the first slot that fits, if there is one.\<close>

lemma find_slot_in:
  "\<forall>i\<in>set is. i < length io \<Longrightarrow> find_slot P io is = Inr (List.find (\<lambda>i. P (io ! i)) is)"
  by (induction "is") simp_all

lemma find_channel_found:
  assumes "pwm_live s"
  shows "find_channel c s = Inr (List.find (\<lambda>i. pwm_out_io_num s ! i = uint c) [0..<pwm_channel_num s])"
  unfolding find_channel_def
  by (rule find_slot_in) (use assms in \<open>auto simp: pwm_live_iff channels_ok_def\<close>)

lemma find_channel_cases:
  assumes "pwm_live s"
  obtains (absent) "find_channel c s = Inr None"
  | (slot) i where "find_channel c s = Inr (Some i)" "i < pwm_channel_num s" "i < 6" "pwm_out_io_num s ! i = uint c"
proof (cases "List.find (\<lambda>i. pwm_out_io_num s ! i = uint c) [0..<pwm_channel_num s]")
  case None
  with find_channel_found [OF assms, of c] show ?thesis by (simp add: absent)
next
  case (Some i)
  then have "i < pwm_channel_num s" "pwm_out_io_num s ! i = uint c" by (auto simp: find_Some_iff)
  moreover have "pwm_channel_num s \<le> 6" using assms by (simp add: pwm_live_iff channels_ok_def)
  ultimately show ?thesis using find_channel_found [OF assms, of c] Some by (simp add: slot)
qed

lemma pwm_exist_found:
  assumes "pwm_live s"
  shows "\<exists>ex. pwm_exist c s = Inr ex"
proof -
  have "find_slot P (pwm_out_io_num s) [0..<PWM_CHANNEL]
      = Inr (List.find (\<lambda>i. P (pwm_out_io_num s ! i)) [0..<PWM_CHANNEL])" for P
    by (rule find_slot_in) (use assms in \<open>auto simp: pwm_live_iff channels_ok_def PWM_CHANNEL_def\<close>)
  then show ?thesis by (simp add: pwm_exist_def)
qed

lemma keeps_if_pwm_exist:
  assumes "keeps pwm_live m"
  shows "keeps pwm_live (if_pwm_exist pin x m)"
proof (rule keepsI)
  fix s assume s: "pwm_live s"
  then obtain ex where "pwm_exist (ucast pin) s = Inr ex" using pwm_exist_found by blast
  with s keepsD [OF assms s] show "clean (fst (if_pwm_exist pin x m s)) \<and> pwm_live (snd (if_pwm_exist pin x m s))"
    by (simp add: if_pwm_exist_def)
qed

lemma channels_ok_set_duty:
  "channels_ok s \<Longrightarrow> unat d \<le> 1023 \<Longrightarrow> i < 6 \<Longrightarrow> channels_ok (s\<lparr>duty := (duty s)[i := d]\<rparr>)"
  by (auto simp: channels_ok_def channel_pin_def nth_list_update)

lemma keeps_pwm_set_duty: "keeps pwm_live (pwm_set_duty d c)"
proof (rule keepsI)
  fix s assume s: "pwm_live s"
  then have len: "length (duty s) = 6" by (simp add: pwm_live_iff channels_ok_def)
  from s show "clean (fst (pwm_set_duty d c s)) \<and> pwm_live (snd (pwm_set_duty d c s))"
  proof (cases rule: find_channel_cases [where c = c])
    case (slot i)
    let ?d = "if d < 1 then 0 else if ucast PWM_DEPTH \<le> d then ucast PWM_DEPTH else d"
    have "unat ?d \<le> 1023" by (auto simp: PWM_DEPTH_def word_less_nat_alt word_le_nat_alt)
    then show ?thesis
      using s slot len channels_ok_set_duty [of s ?d i] by (simp add: pwm_set_duty_def put_duty_def pwm_live_iff)
  qed (use s in \<open>simp add: pwm_set_duty_def\<close>)
qed

lemma keeps_pwm_get_duty: "keeps pwm_live (pwm_get_duty c)"
proof (rule keepsI)
  fix s assume s: "pwm_live s"
  then have len: "length (duty s) = 6" by (simp add: pwm_live_iff channels_ok_def)
  from s show "clean (fst (pwm_get_duty c s)) \<and> pwm_live (snd (pwm_get_duty c s))"
    by (cases rule: find_channel_cases [where c = c]) (use s len in \<open>simp_all add: pwm_get_duty_def\<close>)
qed

lemma keeps_put_pwms_duty: "pin < NUM_GPIO \<Longrightarrow> keeps pwm_live (put_pwms_duty pin d)"
  by (rule keepsI)
    (auto simp: put_pwms_duty_def pwm_live_iff NUM_GPIO_def word_less_nat_alt)

section \<open>Adding and removing channels\<close>

lemma real_pin_mask:
  assumes "real_channel c"
  shows "pin_mask (uint c) = Inr (push_bit (pin_num ! unat c) 1)" "pin_num ! unat c < 16"
proof -
  obtain d where d: "unat c = Suc d" "d < length (tl pin_num)"
    using assms by (cases "unat c") (auto simp: pin_num_def)
  then have "pin_num ! unat c \<in> set (tl pin_num)" using nth_mem [OF d(2)] by (simp only: nth_tl)
  then show pin: "pin_num ! unat c < 16" by (auto simp: pin_num_def)
  have "ucast (push_bit n 1 :: u32) = (push_bit n 1 :: u16)" for n
    by (rule bit_word_eqI) (auto simp: bit_simps)
  moreover have "unat c < length pin_num" using assms by (simp add: pin_num_def)
  ultimately show "pin_mask (uint c) = Inr (push_bit (pin_num ! unat c) 1)"
    by (simp add: pin_mask_def nat_uint_eq)
qed

lemma real_mask_bit: "real_channel c \<Longrightarrow> bit (push_bit (pin_num ! unat c) 1 :: u16) b \<longleftrightarrow> b = pin_num ! unat c"
  using real_pin_mask(2) [of c] by (auto simp: bit_exp_iff possible_bit_word)

lemma real_channel_uint: "real_channel c \<Longrightarrow> 1 \<le> uint c \<and> uint c \<le> 12"
  unfolding uint_nat by linarith

lemma sint_uint_small:
  assumes "real_channel c"
  shows "sint c = uint c"
proof -
  have u: "uint c < 2 ^ 7" using real_channel_uint [OF assms] by simp
  then have "\<not> bit (uint c) 7" by (simp add: bit_iff_odd)
  with u show ?thesis
    by (simp add: sint_uint signed_take_bit_eq_if_positive take_bit_int_eq_self)
qed

lemma channels_ok_add:
  assumes "channels_ok s" "real_channel c" "pwm_channel_num s < 6" "\<forall>i<pwm_channel_num s. pwm_out_io_num s ! i \<noteq> uint c"
    "n = pwm_channel_num s"
  shows "channels_ok (s\<lparr>pwm_out_io_num := (pwm_out_io_num s)[n := uint c], duty := (duty s)[n := 0],
     pwm_gpio := pwm_gpio s OR push_bit (pin_num ! unat c) 1, pwm_channel_num := n + 1\<rparr>)" (is "channels_ok ?s")
proof -
  have len: "length (pwm_out_io_num s) = 6" "length (duty s) = 6" using assms(1) by (simp_all add: channels_ok_def)
  have io: "pwm_out_io_num ?s ! k = (if k = n then uint c else pwm_out_io_num s ! k)" for k
    using len assms(3,5) by (simp add: nth_list_update)
  have pin: "channel_pin ?s k = (if k = n then pin_num ! unat c else channel_pin s k)" for k
    unfolding channel_pin_def io by (simp add: nat_uint_eq)
  have old: "\<forall>i<n. 1 \<le> pwm_out_io_num s ! i \<and> pwm_out_io_num s ! i \<le> 12" "\<forall>i. n \<le> i \<and> i < 6 \<longrightarrow> pwm_out_io_num s ! i = - 1"
    "inj_on (\<lambda>i. pwm_out_io_num s ! i) {..<n}" "\<forall>b. bit (pwm_gpio s) b \<longleftrightarrow> (\<exists>i<n. channel_pin s i = b)" "\<forall>i<6. unat (duty s ! i) \<le> 1023"
    using assms(1,5) by (simp_all add: channels_ok_def)
  have inj: "inj_on (\<lambda>i. pwm_out_io_num ?s ! i) {..<Suc n}"
  proof (rule inj_onI)
    fix x y assume "x \<in> {..<Suc n}" "y \<in> {..<Suc n}" "pwm_out_io_num ?s ! x = pwm_out_io_num ?s ! y"
    then have xy: "x \<le> n" "y \<le> n" "(if x = n then uint c else pwm_out_io_num s ! x) = (if y = n then uint c else pwm_out_io_num s ! y)"
      unfolding io by auto
    have new: "pwm_out_io_num s ! k \<noteq> uint c" if "k \<le> n" "k \<noteq> n" for k using assms(4,5) that by simp
    show "x = y"
    proof (cases "x = n \<or> y = n")
      case True
      with xy new [of x] new [of y] show ?thesis by (auto split: if_splits)
    next
      case False
      with xy show ?thesis using inj_onD [OF old(3), of x y] by simp
    qed
  qed
  have gpio: "bit (pwm_gpio ?s) b \<longleftrightarrow> (\<exists>i<Suc n. channel_pin ?s i = b)" for b
    using old(4) real_mask_bit [OF assms(2), of b] unfolding pin by (auto simp: bit_or_iff less_Suc_eq)
  have "1 \<le> uint c" "uint c \<le> 12" using real_channel_uint [OF assms(2)] by simp_all
  then have range: "\<forall>i<Suc n. 1 \<le> pwm_out_io_num ?s ! i \<and> pwm_out_io_num ?s ! i \<le> 12"
    unfolding io using old(1) by (simp add: less_Suc_eq)
  have "\<forall>i. Suc n \<le> i \<and> i < 6 \<longrightarrow> pwm_out_io_num ?s ! i = - 1" unfolding io using old(2) by simp
  moreover have "\<forall>i<6. unat (duty ?s ! i) \<le> 1023" using old(5) len assms(3,5) by (simp add: nth_list_update)
  ultimately show ?thesis
    unfolding channels_ok_def using len assms(3,5) range inj gpio by simp
qed

lemma channels_ok_log:
  "channels_ok (s\<lparr>pwm_log := evs, pwm_channel_num := n\<rparr>) = channels_ok (s\<lparr>pwm_channel_num := n\<rparr>)"
  by (simp add: channels_ok_def channel_pin_def)

lemma keeps_pwm_add:
  assumes "real_channel c"
  shows "keeps pwm_live (pwm_add c)"
proof (rule keepsI)
  fix s assume s: "pwm_live s"
  let ?P = "\<lambda>i. pwm_out_io_num s ! i = uint c \<or> pwm_out_io_num s ! i = - 1"
  have len: "length (pwm_out_io_num s) = 6" "length (duty s) = 6" using s by (simp_all add: pwm_live_iff channels_ok_def)
  have find: "find_slot (\<lambda>k. k = uint c \<or> k = - 1) (pwm_out_io_num s) [0..<PWM_CHANNEL] = Inr (List.find ?P [0..<PWM_CHANNEL])"
    by (rule find_slot_in) (simp add: len PWM_CHANNEL_def)
  show "clean (fst (pwm_add c s)) \<and> pwm_live (snd (pwm_add c s))"
  proof (cases "List.find ?P [0..<PWM_CHANNEL]")
    case None
    with s find show ?thesis by (simp add: pwm_add_def)
  next
    case (Some i)
    then have i: "i < 6" "?P i" "\<forall>j<i. \<not> ?P j"
      by (auto simp: find_Some_iff PWM_CHANNEL_def)
    show ?thesis
    proof (cases "pwm_out_io_num s ! i = uint c")
      case True
      with s Some find len i(1) show ?thesis by (simp add: pwm_add_def)
    next
      case False
      have ch: "channels_ok s" using s by (simp add: pwm_live_iff)
      have "i = pwm_channel_num s"
      proof (rule ccontr)
        assume "i \<noteq> pwm_channel_num s"
        then consider "i < pwm_channel_num s" | "pwm_channel_num s < i" by linarith
        then show False
        proof cases
          case 1
          with ch i(2) False show False by (auto simp: channels_ok_def)
        next
          case 2
          with ch i have "pwm_out_io_num s ! pwm_channel_num s = - 1" by (auto simp: channels_ok_def)
          with 2 i(3) show False by blast
        qed
      qed
      moreover from this have "\<forall>j<pwm_channel_num s. pwm_out_io_num s ! j \<noteq> uint c" using i(3) by blast
      moreover have "sint c = uint c" using assms by (intro sint_uint_small) 
      ultimately show ?thesis
        using s Some find len False i(1) channels_ok_add [OF ch assms] real_pin_mask(1) [OF assms]
        by (simp add: pwm_add_def put_duty_def pwm_emit_def pwm_live_iff channels_ok_log)
    qed
  qed
qed


text \<open>Removing a channel moves the later slots down by one.\<close>

lemma shift_fold:
  assumes "i \<le> m" "m < length xs"
  shows "\<exists>ys. rfold (\<lambda>j xs. rbind (arr_get xs (j + 1)) (arr_set xs j)) [i..<m] xs = Inr ys \<and> length ys = length xs
    \<and> (\<forall>k. ys ! k = (if i \<le> k \<and> k < m then xs ! (k + 1) else xs ! k))"
  using assms
proof (induction m rule: dec_induct)
  case (step m)
  then obtain ys where ys: "rfold (\<lambda>j xs. rbind (arr_get xs (j + 1)) (arr_set xs j)) [i..<m] xs = Inr ys"
    "length ys = length xs" "\<forall>k. ys ! k = (if i \<le> k \<and> k < m then xs ! (k + 1) else xs ! k)" by auto
  with step show ?case
    by (intro exI [of _ "ys[m := ys ! (m + 1)]"]) (auto simp: rfold_snoc nth_list_update less_Suc_eq)
qed auto

lemma close_gap_result:
  assumes "i < n" "n \<le> length xs"
  shows "\<exists>ys. close_gap i n v xs = Inr ys \<and> length ys = length xs
    \<and> (\<forall>k<length xs. ys ! k = (if k = n - 1 then v else if i \<le> k \<and> k < n - 1 then xs ! (k + 1) else xs ! k))"
proof -
  obtain ys where "rfold (\<lambda>j xs. rbind (arr_get xs (j + 1)) (arr_set xs j)) [i..<n - 1] xs = Inr ys"
    "length ys = length xs" "\<forall>k. ys ! k = (if i \<le> k \<and> k < n - 1 then xs ! (k + 1) else xs ! k)"
    using shift_fold [of i "n - 1" xs] assms by fastforce
  with assms show ?thesis
    by (intro exI [of _ "ys[n - 1 := v]"]) (auto simp: close_gap_def nth_list_update)
qed

lemma channels_ok_delete:
  assumes "channels_ok s" "i < n" "n = pwm_channel_num s" "pwm_out_io_num s ! i = uint c" "real_channel c"
    "length io = 6" "length ds = 6"
    "\<And>k. k < n - 1 \<Longrightarrow> io ! k = pwm_out_io_num s ! (if k < i then k else k + 1)"
    "\<And>k. n - 1 \<le> k \<Longrightarrow> k < 6 \<Longrightarrow> io ! k = - 1"
    "\<And>k. k < 6 \<Longrightarrow> unat (ds ! k) \<le> 1023"
  shows "channels_ok (s\<lparr>pwm_gpio := pwm_gpio s AND NOT (push_bit (pin_num ! unat c) 1), pwm_out_io_num := io,
     duty := ds, pwm_channel_num := n - 1\<rparr>)" (is "channels_ok ?s")
proof -
  let ?k = "\<lambda>k. if k < i then k else k + 1"
  have old: "n \<le> 6" "\<forall>i<n. 1 \<le> pwm_out_io_num s ! i \<and> pwm_out_io_num s ! i \<le> 12"
    "inj_on (\<lambda>i. pwm_out_io_num s ! i) {..<n}" "\<forall>b. bit (pwm_gpio s) b \<longleftrightarrow> (\<exists>i<n. channel_pin s i = b)"
    using assms(1,3) by (simp_all add: channels_ok_def)
  have lt: "?k k < n" "?k k \<noteq> i" if "k < n - 1" for k using that assms(2) by auto
  have inj: "inj_on (\<lambda>k. pwm_out_io_num ?s ! k) {..<n - 1}"
  proof (rule inj_onI)
    fix x y assume xy: "x \<in> {..<n - 1}" "y \<in> {..<n - 1}" "pwm_out_io_num ?s ! x = pwm_out_io_num ?s ! y"
    then have "pwm_out_io_num s ! ?k x = pwm_out_io_num s ! ?k y" using assms(8) [of x] assms(8) [of y] by simp
    then have "?k x = ?k y" using inj_onD [OF old(3), of "?k x" "?k y"] lt [of x] lt [of y] xy by simp
    then show "x = y" by (auto split: if_splits)
  qed
  have pin: "channel_pin ?s k = channel_pin s (?k k)" if "k < n - 1" for k
    using assms(8) [OF that] by (simp add: channel_pin_def)
  have pin_i: "channel_pin s i = pin_num ! unat c" using assms(4) by (simp add: channel_pin_def nat_uint_eq)
  have gpio: "bit (pwm_gpio ?s) b \<longleftrightarrow> (\<exists>k<n - 1. channel_pin ?s k = b)" for b
  proof -
    have "bit (pwm_gpio ?s) b \<longleftrightarrow> bit (pwm_gpio s) b \<and> b \<noteq> channel_pin s i"
      using real_mask_bit [OF assms(5), of b] bit_imp_le_length [of "pwm_gpio s" b] unfolding pin_i by (auto simp: bit_and_iff bit_not_iff)
    also have "\<dots> \<longleftrightarrow> (\<exists>j<n. j \<noteq> i \<and> channel_pin s j = b)"
      using old(4) channel_pin_inj [OF assms(1)] assms(2,3) by blast
    also have "\<dots> \<longleftrightarrow> (\<exists>k<n - 1. channel_pin s (?k k) = b)"
    proof
      assume "\<exists>j<n. j \<noteq> i \<and> channel_pin s j = b"
      then obtain j where j: "j < n" "j \<noteq> i" "channel_pin s j = b" by blast
      then have "(if j < i then j else j - 1) < n - 1 \<and> ?k (if j < i then j else j - 1) = j" using assms(2) by auto
      with j(3) show "\<exists>k<n - 1. channel_pin s (?k k) = b" by metis
    qed (use lt in blast)
    also have "\<dots> \<longleftrightarrow> (\<exists>k<n - 1. channel_pin ?s k = b)" using pin by metis
    finally show ?thesis .
  qed
  have "\<forall>k<n - 1. 1 \<le> pwm_out_io_num ?s ! k \<and> pwm_out_io_num ?s ! k \<le> 12"
    using assms(8) old(2) lt by simp
  then show ?thesis
    unfolding channels_ok_def using assms(6,7,9,10) old(1) inj gpio by simp
qed

lemma keeps_pwm_delete:
  assumes "real_channel c"
  shows "keeps pwm_live (pwm_delete c)"
proof (rule keepsI)
  fix s assume s: "pwm_live s"
  then have ch: "channels_ok s" by (simp add: pwm_live_iff)
  let ?n = "pwm_channel_num s"
  have len: "?n \<le> 6" "length (pwm_out_io_num s) = 6" "length (duty s) = 6"
    and free: "\<forall>k. ?n \<le> k \<and> k < 6 \<longrightarrow> pwm_out_io_num s ! k = - 1" and dut: "\<forall>k<6. unat (duty s ! k) \<le> 1023"
    using ch by (simp_all add: channels_ok_def)
  from s show "clean (fst (pwm_delete c s)) \<and> pwm_live (snd (pwm_delete c s))"
  proof (cases rule: find_channel_cases [where c = c])
    case absent
    with s show ?thesis by (simp add: pwm_delete_def)
  next
    case (slot i)
    obtain io where io: "close_gap i ?n (- 1) ((pwm_out_io_num s)[i := - 1]) = Inr io" "length io = 6"
      "\<forall>k<6. io ! k = (if k = ?n - 1 then - 1 else if i \<le> k \<and> k < ?n - 1 then (pwm_out_io_num s)[i := - 1] ! (k + 1)
         else (pwm_out_io_num s)[i := - 1] ! k)"
      using close_gap_result [of i ?n "(pwm_out_io_num s)[i := - 1]" "- 1"] slot len by auto
    obtain ds where ds: "close_gap i ?n 0 (duty s) = Inr ds" "length ds = 6"
      "\<forall>k<6. ds ! k = (if k = ?n - 1 then 0 else if i \<le> k \<and> k < ?n - 1 then duty s ! (k + 1) else duty s ! k)"
      using close_gap_result [of i ?n "duty s" 0] slot len by auto
    have "channels_ok (s\<lparr>pwm_gpio := pwm_gpio s AND NOT (push_bit (pin_num ! unat c) 1), pwm_out_io_num := io,
       duty := ds, pwm_channel_num := ?n - 1\<rparr>)"
    proof (rule channels_ok_delete [OF ch slot(2) refl slot(4) assms io(2) ds(2)])
      show "io ! k = pwm_out_io_num s ! (if k < i then k else k + 1)" if "k < ?n - 1" for k
        using that io(3) len by simp
      show "io ! k = - 1" if "?n - 1 \<le> k" "k < 6" for k
        using that io(3) slot free by (cases "k = ?n - 1") simp_all
      show "unat (ds ! k) \<le> 1023" if "k < 6" for k
        using that ds(3) slot len dut by auto
    qed
    with s slot io(1) ds(1) len real_pin_mask(1) [OF assms] show ?thesis
      by (simp add: pwm_delete_def pwm_live_iff)
  qed
qed

section \<open>The interrupt\<close>

lemma interrupt_keeps:
  assumes "pwm_live s"
  shows "clean (fst (pwm_tim1_intr_handler s)) \<and> pwm_live (snd (pwm_tim1_intr_handler s))"
proof -
  obtain p where p: "pwm_playing s = Some p" using assms by (auto simp: pwm_live_def)
  have b: "buffers_ok s" "p < length (pwm_single_toggle s)" "p < length (pwm_channel_toggle s)"
    "pwm_channel_toggle s ! p \<le> length (pwm_single_toggle s ! p)"
    "pwm_toggle s < length (pwm_single_toggle s)" "pwm_toggle s < length (pwm_channel_toggle s)"
    "0 < pwm_channel_toggle s ! pwm_toggle s" "pwm_channel_toggle s ! pwm_toggle s \<le> length (pwm_single_toggle s ! pwm_toggle s)"
    using assms p by (auto simp: pwm_live_iff buffers_ok_def)
  show ?thesis
  proof (cases "pwm_current_channel s + 1 < pwm_channel_toggle s ! p")
    case True
    show ?thesis
      unfolding interrupt_inside [OF p b(2,3) True b(4)] using assms by (simp add: pwm_live_iff)
  next
    case False
    then have e: "int (pwm_current_channel s) \<ge> int (pwm_channel_toggle s ! p) - 1" by linarith
    have "\<exists>d log. pwm_tim1_intr_handler s = (Inr (), s\<lparr>pwm_playing := Some (pwm_toggle s), pwm_current_channel := 0,
          pwm_log := log, pwm_timer_down := d\<rparr>)"
    proof (cases "pwm_channel_toggle s ! pwm_toggle s = 1")
      case True
      then have "0 < length (pwm_single_toggle s ! pwm_toggle s)" using b(7,8) by linarith
      with True p b e show ?thesis
        by (intro exI [of _ True] exI) (simp add: pwm_tim1_intr_handler_def pwm_emit_def Let_def)
    next
      case False
      have "period_end s" using p e by (simp add: period_end_def)
      from interrupt_wraps [OF this b(1) False] show ?thesis
        by (intro exI [of _ "pwm_timer_down s"] exI) simp
    qed
    then obtain d log where run: "pwm_tim1_intr_handler s = (Inr (), s\<lparr>pwm_playing := Some (pwm_toggle s), pwm_current_channel := 0,
          pwm_log := log, pwm_timer_down := d\<rparr>)" by blast
    have "buffers_ok (s\<lparr>pwm_playing := Some (pwm_toggle s), pwm_current_channel := 0, pwm_log := log, pwm_timer_down := d\<rparr>)"
      using b(1) p by (simp add: buffers_ok_def)
    with run assms show ?thesis by (simp add: pwm_live_iff)
  qed
qed


section \<open>Platform functions\<close>

lemma pin_real_channel:
  assumes "platform_pwm_exists pin"
  shows "pin < NUM_GPIO" "real_channel (ucast pin)"
proof -
  have "0 < unat pin" "unat pin < 13"
    using assms by (simp_all add: platform_pwm_exists_def NUM_GPIO_def word_less_nat_alt)
  then show "pin < NUM_GPIO" "real_channel (ucast pin)"
    using assms by (simp_all add: platform_pwm_exists_def unat_ucast_mod)
qed

lemma keeps_stored_duty:
  assumes "pin < NUM_GPIO" "\<And>d. keeps pwm_live (f d)"
  shows "keeps pwm_live (mbind (mget pwms_duty) (\<lambda>ds. mbind (mlift (arr_get ds (unat pin))) f))"
proof (rule keepsI)
  fix s assume s: "pwm_live s"
  then have "unat pin < length (pwms_duty s)"
    using assms(1) by (simp add: pwm_live_iff NUM_GPIO_def word_less_nat_alt)
  with keepsD [OF assms(2) s]
  show "clean (fst (mbind (mget pwms_duty) (\<lambda>ds. mbind (mlift (arr_get ds (unat pin))) f) s))
      \<and> pwm_live (snd (mbind (mget pwms_duty) (\<lambda>ds. mbind (mlift (arr_get ds (unat pin))) f) s))"
    by simp
qed

lemmas pwm_keeps = keeps_if keeps_if_pwm_exist keeps_pwm_get_duty keeps_pwm_start keeps_pwm_set_freq keeps_pwm_set_duty keeps_put_pwms_duty
  keeps_pwm_add keeps_pwm_delete keeps_pwm_emit keeps_mget keeps_mret keeps_mlift_mbind keeps_mbind

lemma keeps_clock:
  "keeps pwm_live (platform_pwm_get_clock pin)" "keeps pwm_live (platform_pwm_set_clock pin clock)"
  unfolding platform_pwm_get_clock_def platform_pwm_set_clock_def pwm_get_freq_def
  by (intro pwm_keeps)+

lemma keeps_stop: "keeps pwm_live (platform_pwm_stop pin)"
  unfolding platform_pwm_stop_def by (intro pwm_keeps)

lemma keeps_set_duty: "keeps pwm_live (platform_pwm_set_duty pin d)"
  unfolding platform_pwm_set_duty_def Let_def by (intro pwm_keeps) simp

lemma keeps_get_duty: "platform_pwm_exists pin \<Longrightarrow> keeps pwm_live (platform_pwm_get_duty pin)"
  using pin_real_channel [of pin] unfolding platform_pwm_get_duty_def
  by (intro keeps_if keeps_if_pwm_exist keeps_stored_duty keeps_mret)

lemma keeps_start: "platform_pwm_exists pin \<Longrightarrow> keeps pwm_live (platform_pwm_start pin)"
  using pin_real_channel [of pin] unfolding platform_pwm_start_def
  by (intro keeps_if keeps_if_pwm_exist keeps_stored_duty keeps_mret keeps_mbind keeps_pwm_set_duty keeps_pwm_start)

lemma keeps_close: "platform_pwm_exists pin \<Longrightarrow> keeps pwm_live (platform_pwm_close pin)"
  using pin_real_channel [of pin] unfolding platform_pwm_close_def by (intro pwm_keeps)

lemma keeps_platform_setup:
  assumes "platform_pwm_exists pin"
  shows "keeps pwm_live (platform_pwm_setup pin f d)"
proof -
  have "PwmClose p \<in> set (snd (platform_gpio_mode pin m pull)) \<Longrightarrow> p = pin" for p m pull
    by (auto simp: platform_gpio_mode_def gpio_pull_def gpio_as_plain_def gpio_dis_output_def split: if_splits)
  then have mode: "keeps pwm_live (mfor (snd (platform_gpio_mode pin m pull)) gpio_mode_effect)" for m pull
    using keeps_close [OF assms]
    by (intro keeps_mfor) (auto simp: gpio_mode_effect_def keeps_pwm_emit split: pin_event.splits)
  show ?thesis
    unfolding platform_pwm_setup_def
    by (intro pwm_keeps mode keeps_clock pin_real_channel [OF assms]) (rule pin_real_channel [OF assms])?
qed


section \<open>The Lua module\<close>

text \<open>What enters the module: the functions of its table, and the timer interrupt.\<close>

datatype pwm_call =
    PwmSetup "lua_value list"
  | PwmCloseCall "lua_value list"
  | PwmStart "lua_value list"
  | PwmStop "lua_value list"
  | PwmSetClock "lua_value list"
  | PwmGetClock "lua_value list"
  | PwmSetDuty "lua_value list"
  | PwmGetDuty "lua_value list"
  | PwmInterrupt

fun pwm_handle :: "lua_conv \<Rightarrow> pwm_call \<Rightarrow> lua_value list pwm_handler" where
  "pwm_handle cv (PwmSetup args) = lpwm_setup cv args"
| "pwm_handle cv (PwmCloseCall args) = lpwm_close cv args"
| "pwm_handle cv (PwmStart args) = lpwm_start cv args"
| "pwm_handle cv (PwmStop args) = lpwm_stop cv args"
| "pwm_handle cv (PwmSetClock args) = lpwm_setclock cv args"
| "pwm_handle cv (PwmGetClock args) = lpwm_getclock cv args"
| "pwm_handle cv (PwmSetDuty args) = lpwm_setduty cv args"
| "pwm_handle cv (PwmGetDuty args) = lpwm_getduty cv args"
| "pwm_handle cv PwmInterrupt = mbind pwm_tim1_intr_handler (\<lambda>_. mret [])"

fun pwm_args :: "pwm_call \<Rightarrow> lua_value list" where
  "pwm_args (PwmSetup args) = args"
| "pwm_args (PwmCloseCall args) = args"
| "pwm_args (PwmStart args) = args"
| "pwm_args (PwmStop args) = args"
| "pwm_args (PwmSetClock args) = args"
| "pwm_args (PwmGetClock args) = args"
| "pwm_args (PwmSetDuty args) = args"
| "pwm_args (PwmGetDuty args) = args"
| "pwm_args PwmInterrupt = []"

text \<open>Numbers that are passed are in the range of the C integers.\<close>

definition pwm_call_ok :: "lua_conv \<Rightarrow> pwm_state \<Rightarrow> pwm_call \<Rightarrow> bool" where
  "pwm_call_ok cv w c \<longleftrightarrow> (\<forall>v\<in>set (pwm_args c). clean (lua_tointeger cv v))"

lemma pwm_id_arg_exists: "pwm_id_arg cv args = Inr ident \<Longrightarrow> platform_pwm_exists ident"
  by (auto simp: pwm_id_arg_def rbind_eq_Inr split: if_splits)

lemma keeps_pwm_call:
  assumes "\<forall>v\<in>set args. clean (lua_tointeger cv v)"
  shows "keeps pwm_live (lpwm_setup cv args)" "keeps pwm_live (lpwm_close cv args)"
    "keeps pwm_live (lpwm_start cv args)" "keeps pwm_live (lpwm_stop cv args)"
    "keeps pwm_live (lpwm_setclock cv args)" "keeps pwm_live (lpwm_getclock cv args)"
    "keeps pwm_live (lpwm_setduty cv args)" "keeps pwm_live (lpwm_getduty cv args)"
proof -
  note int = checkinteger_clean [OF index2adr_clean [OF assms]]
  have ident: "clean (pwm_id_arg cv args)" by (auto simp: pwm_id_arg_def intro!: clean_rbind int)
  note rules = pwm_keeps int ident keeps_close keeps_start keeps_get_duty keeps_set_duty keeps_stop keeps_clock keeps_platform_setup keeps_mfail
  show "keeps pwm_live (lpwm_setup cv args)"
    unfolding lpwm_setup_def by (intro rules) simp_all
  show "keeps pwm_live (lpwm_close cv args)" "keeps pwm_live (lpwm_start cv args)" "keeps pwm_live (lpwm_stop cv args)"
    "keeps pwm_live (lpwm_getclock cv args)" "keeps pwm_live (lpwm_getduty cv args)"
    unfolding lpwm_close_def lpwm_start_def lpwm_stop_def lpwm_getclock_def lpwm_getduty_def
    by (intro rules; erule pwm_id_arg_exists)+
  show "keeps pwm_live (lpwm_setclock cv args)" "keeps pwm_live (lpwm_setduty cv args)"
    unfolding lpwm_setclock_def lpwm_setduty_def by (intro rules; simp)+
qed

interpretation pwm: handled "pwm_handle cv" pwm_live "pwm_call_ok cv"
proof (unfold_locales, goal_cases)
  case (1 w e)
  have "keeps pwm_live pwm_tim1_intr_handler" using interrupt_keeps by (rule keepsI)
  then have "keeps pwm_live (pwm_handle cv e)"
    using 1(2) keeps_pwm_call by (cases e) (simp_all add: pwm_call_ok_def keeps_mbind keeps_mret)
  from keepsD [OF this 1(1)] show ?case .
qed

section \<open>From boot on\<close>

text \<open>The static variables as the image initialises them.\<close>

definition pwm_boot :: pwm_state where
  "pwm_boot = \<lparr>pwm_single_toggle = replicate 2 (replicate (PWM_CHANNEL + 1) \<lparr>gpio_set = 0, gpio_clear = 0, h_time = 0\<rparr>),
     pwm_channel_toggle = [0, 0], pwm_playing = None, period = 0, freq = 0, duty = replicate PWM_CHANNEL 0,
     pwm_out_io_num = replicate PWM_CHANNEL (- 1), pwm_toggle = 1, pwm_timer_down = True, pwm_current_channel = 0,
     pwm_gpio = 0, pwm_channel_num = 0, pwms_duty = [], pwm_log = []\<rparr>"

lemma pwms_init_live:
  "fst (pwms_init pwm_boot) = Inr ()" "pwm_live (snd (pwms_init pwm_boot))"
proof -
  define s where "s = pwm_boot\<lparr>pwms_duty := replicate 13 0, pwm_log := [PwmCtrl, PwmLoad 0], freq := 500, period := 2000\<rparr>"
  have "pwm_inv s"
    by (simp add: s_def pwm_boot_def pwm_inv_def channels_ok_def timing_ok_def buffers_ok_def PWM_CHANNEL_def)
  then obtain s' where s': "pwm_start s = (Inr (), s')" "pwm_live s'"
    using pwm_start_result unfolding pwm_live_def by blast
  have "(replicate 6 0)[0 := 0] = replicate 6 (0 :: u16)" by (simp add: numeral_eq_Suc)
  then have "pwms_init pwm_boot = mbind pwm_start (\<lambda>_. pwm_emit [PwmIntrAttach]) s"
    by (simp add: pwms_init_def pwm_init_def pwm_emit_def put_duty_def pwm_set_freq_def s_def pwm_boot_def DUTY_def NUM_GPIO_def
      PWM_CHANNEL_def upt_rec mbind_assoc)
  with s' have "pwms_init pwm_boot = pwm_emit [PwmIntrAttach] s'" by simp
  with keepsD [OF keeps_pwm_emit s'(2)] show "fst (pwms_init pwm_boot) = Inr ()" "pwm_live (snd (pwms_init pwm_boot))"
    by (simp_all add: pwm_emit_def)
qed

text \<open>C40: From boot on, no sequence of calls into the PWM module and timer interrupts, in any order and with
  any arguments whose numbers fit the C integers, does anything undefined: no slot, pin table or
  schedule is accessed out of range, and the interrupt handler never follows a null pointer.\<close>

theorem pwm_module_safe:
  assumes "admissible (pwm_handle cv) (pwm_call_ok cv) (snd (pwms_init pwm_boot)) (es @ e # es')"
  shows "clean (fst (pwm_handle cv e (after (pwm_handle cv) es (snd (pwms_init pwm_boot)))))"
  using pwms_init_live(2) assms by (rule pwm.runs_clean)


section \<open>Witnesses\<close>

theorem pwm_module_safe_witness:
  "clean (fst (pwm_handle plain_conv (PwmSetDuty [lua_int 1, lua_int 100])
     (after (pwm_handle plain_conv) [PwmSetup [lua_int 1, lua_int 500, lua_int 512], PwmStart [lua_int 1], PwmInterrupt]
        (snd (pwms_init pwm_boot)))))"
  by (rule pwm_module_safe [where es' = "[]"])
    (simp add: pwm_call_ok_def lua_tointeger_def tonumber_def cfloat_to_int_def cf_trunc_def)

text \<open>Two channels, on the pins 5 and 4 of the chip, at 500 Hz.\<close>

definition demo_pwm :: pwm_state where
  "demo_pwm = pwm_boot\<lparr>period := 2000, freq := 500, duty := [512, 100, 0, 0, 0, 0], pwm_out_io_num := [1, 2, - 1, - 1, - 1, - 1],
     pwm_channel_num := 2, pwm_gpio := push_bit 5 1 OR push_bit 4 1, pwms_duty := replicate 13 0, pwm_playing := Some 1,
     pwm_timer_down := False, pwm_channel_toggle := [1, 1]\<rparr>"

lemma demo_pwm_inv: "pwm_inv demo_pwm"
proof -
  have less2: "(\<exists>i<2. P i) \<longleftrightarrow> P 0 \<or> P (Suc 0)" "(\<forall>i<2. P i) \<longleftrightarrow> P 0 \<and> P (Suc 0)" "{..<2 :: nat} = {0, Suc 0}"
    for P :: "nat \<Rightarrow> bool"
    by (auto simp: numeral_2_eq_2 less_Suc_eq)
  have one: "bit (push_bit k 1 :: u16) b \<longleftrightarrow> k = b" if "k < 16" for k b
    using that by (auto simp: bit_exp_iff possible_bit_word)
  have "bit (push_bit 5 1 OR push_bit 4 1 :: u16) b \<longleftrightarrow> 5 = b \<or> 4 = b" for b
    unfolding bit_or_iff using one [of 5 b] one [of 4 b] by simp
  moreover have "\<forall>i. 2 \<le> i \<and> i < 6 \<longrightarrow> [1, 2, - 1, - 1, - 1, - 1 :: int] ! i = - 1"
    by (auto simp: numeral_eq_Suc less_Suc_eq)
  moreover have "\<forall>i<6. unat ([512, 100, 0, 0, 0, 0 :: u16] ! i) \<le> 1023"
    using all_set_conv_all_nth [of "[512, 100, 0, 0, 0, 0 :: u16]" "\<lambda>d. unat d \<le> 1023"] by simp
  ultimately have "channels_ok demo_pwm"
    by (simp add: demo_pwm_def channels_ok_def channel_pin_def pin_num_def less2 del: push_bit_of_1)
  then show ?thesis
    by (simp add: pwm_inv_def timing_ok_def buffers_ok_def demo_pwm_def pwm_boot_def PWM_CHANNEL_def)
qed

theorem pwm_channel_waves_witness:
  "\<exists>s1 k s2 segs. pwm_start demo_pwm = (Inr (), s1) \<and> k \<le> 6 \<and> interrupts k s1 = (Inr (), s2)
    \<and> (\<forall>m. \<exists>s3. interrupts (m * length segs) s2 = (Inr (), s3)
          \<and> pwm_log s3 = pwm_log s2 @ concat (replicate m (segment_events (pwm_gpio demo_pwm) segs)))
    \<and> (\<forall>i<pwm_channel_num demo_pwm. \<forall>l. pin_wave (channel_pin demo_pwm i) l segs
          = replicate (5 * channel_us demo_pwm i) True
            @ replicate (5 * unat (period demo_pwm) - 5 * channel_us demo_pwm i) False)"
  by (rule pwm_channel_waves [OF demo_pwm_inv, of 0]) (simp_all add: demo_pwm_def channel_us_def)

theorem second_start_overwrites_playing_witness:
  "\<exists>s1 s2 ps n. pwm_start demo_pwm = (Inr (), s1) \<and> pwm_start s1 = (Inr (), s2)
    \<and> pwm_playing s2 = Some (pwm_toggle demo_pwm) \<and> pwm_current_channel s2 = pwm_current_channel demo_pwm
    \<and> pwm_single_toggle s2 = (pwm_single_toggle s1)[pwm_toggle demo_pwm := ps]
    \<and> pwm_channel_toggle s2 = (pwm_channel_toggle s1)[pwm_toggle demo_pwm := n]"
  by (rule second_start_overwrites_playing [OF demo_pwm_inv]) (simp_all add: demo_pwm_def pwm_boot_def)

end
