(* ===== verification/I2c.thy ===== *)
theory I2c
  imports Gpio Lua_Api
begin

text \<open>
  The bit-banged I2C master (\<open>driver/i2c_master.c\<close>), the platform functions over it (\<open>platform/platform.c\<close>) and
  the Lua module (\<open>modules/i2c.c\<close>). The bus is a state machine outside the program: it reacts to every pin
  access and delay, and answers samples of the data pin.
\<close>

section \<open>Driver\<close>

record 'b i2c_bus =
  on_event :: "pin_event \<Rightarrow> 'b \<Rightarrow> 'b"
  sample :: "nat \<Rightarrow> 'b \<Rightarrow> bool"

record 'b i2c_master =
  wires :: 'b
  m_nLastSDA :: u8
  m_nLastSCL :: u8
  pinSDA :: u8
  pinSCL :: u8

definition i2c_do :: "'b i2c_bus \<Rightarrow> pin_event list \<Rightarrow> 'b i2c_master \<Rightarrow> 'b i2c_master" where
  "i2c_do bus evs m = m\<lparr>wires := fold (on_event bus) evs (wires m)\<rparr>"

definition i2c_master_wait :: "'b i2c_bus \<Rightarrow> u32 \<Rightarrow> 'b i2c_master \<Rightarrow> 'b i2c_master" where
  "i2c_master_wait bus us = i2c_do bus [DelayUs us]"

text \<open>The macros \<open>I2C_MASTER_SDA_..._SCL_...\<close>, one call that sets both pins.\<close>

definition I2C_MASTER_SDA_SCL :: "u8 \<Rightarrow> u8 \<Rightarrow> u8 \<Rightarrow> u8 \<Rightarrow> pin_event" where
  "I2C_MASTER_SDA_SCL sda scl pin_d pin_c =
     (let d = push_bit (unat pin_d) 1; c = push_bit (unat pin_c) 1 in
      if sda = 0 \<and> scl = 0 then GpioOutputSet 0 (d OR c) (d OR c) 0
      else if sda = 0 \<and> scl = 1 then GpioOutputSet c d (d OR c) 0
      else if sda = 1 \<and> scl = 0 then GpioOutputSet d c (d OR c) 0
      else GpioOutputSet (d OR c) 0 (d OR c) 0)"

definition i2c_master_setDC :: "'b i2c_bus \<Rightarrow> u8 \<Rightarrow> u8 \<Rightarrow> 'b i2c_master \<Rightarrow> 'b i2c_master" where
  "i2c_master_setDC bus sda scl m =
     (let sda = sda AND 1; scl = scl AND 1 in
      i2c_do bus [I2C_MASTER_SDA_SCL sda scl (pinSDA m) (pinSCL m)] (m\<lparr>m_nLastSDA := sda, m_nLastSCL := scl\<rparr>))"

definition i2c_master_getDC :: "'b i2c_bus \<Rightarrow> 'b i2c_master \<Rightarrow> u8" where
  "i2c_master_getDC bus m = of_bool (sample bus (unat (pinSDA m)) (wires m))"

text \<open>Setting the pins, then a delay.\<close>

definition set_wait :: "'b i2c_bus \<Rightarrow> u8 \<Rightarrow> u8 \<Rightarrow> u32 \<Rightarrow> 'b i2c_master \<Rightarrow> 'b i2c_master" where
  "set_wait bus sda scl us m = i2c_master_wait bus us (i2c_master_setDC bus sda scl m)"

definition i2c_master_stop :: "'b i2c_bus \<Rightarrow> 'b i2c_master \<Rightarrow> 'b i2c_master" where
  "i2c_master_stop bus m =
     (let m = i2c_master_wait bus 5 m; m = set_wait bus 0 (m_nLastSCL m) 5 m; m = set_wait bus 0 1 5 m in
      set_wait bus 1 1 5 m)"

definition i2c_master_init :: "'b i2c_bus \<Rightarrow> 'b i2c_master \<Rightarrow> 'b i2c_master" where
  "i2c_master_init bus m =
     (let m = set_wait bus 1 0 5 m; m = set_wait bus 0 0 5 m; m = set_wait bus 1 0 5 m;
          m = ((\<lambda>m. set_wait bus 1 1 5 (set_wait bus 1 0 5 m)) ^^ 28) m in
      i2c_master_stop bus m)"

definition i2c_master_gpio_init :: "'b i2c_bus \<Rightarrow> u8 \<Rightarrow> u8 \<Rightarrow> 'b i2c_master \<Rightarrow> 'b i2c_master result" where
  "i2c_master_gpio_init bus sda scl m =
     rbind (arr_get pin_num (unat sda)) (\<lambda>d.
     rbind (arr_get pin_num (unat scl)) (\<lambda>c.
     let m = m\<lparr>pinSDA := of_nat d, pinSCL := of_nat c\<rparr>;
         m = i2c_do bus [GpioIntrEnable False, PinFuncSelect (ucast sda), PinFuncSelect (ucast scl),
               OpenDrainEnable d, OutputEnable d, OpenDrainEnable c, OutputEnable c,
               I2C_MASTER_SDA_SCL 1 1 (pinSDA m) (pinSCL m), GpioIntrEnable True] m in
     Inr (i2c_master_init bus m)))"

definition i2c_master_start :: "'b i2c_bus \<Rightarrow> 'b i2c_master \<Rightarrow> 'b i2c_master" where
  "i2c_master_start bus m =
     (let m = set_wait bus 1 (m_nLastSCL m) 5 m; m = set_wait bus 1 1 5 m in set_wait bus 0 1 5 m)"

definition i2c_master_setAck :: "'b i2c_bus \<Rightarrow> u8 \<Rightarrow> 'b i2c_master \<Rightarrow> 'b i2c_master" where
  "i2c_master_setAck bus lev m =
     (let m = set_wait bus (m_nLastSDA m) 0 5 m; m = set_wait bus lev 0 5 m; m = set_wait bus lev 1 8 m;
          m = set_wait bus lev 0 5 m in
      set_wait bus 1 0 5 m)"

definition i2c_master_getAck :: "'b i2c_bus \<Rightarrow> 'b i2c_master \<Rightarrow> u8 \<times> 'b i2c_master" where
  "i2c_master_getAck bus m =
     (let m = set_wait bus (m_nLastSDA m) 0 5 m; m = set_wait bus 1 0 5 m; m = set_wait bus 1 1 5 m;
          r = i2c_master_getDC bus m in
      (r, set_wait bus 1 0 5 (i2c_master_wait bus 5 m)))"

definition i2c_master_checkAck :: "'b i2c_bus \<Rightarrow> 'b i2c_master \<Rightarrow> bool \<times> 'b i2c_master" where
  "i2c_master_checkAck bus m = (case i2c_master_getAck bus m of (r, m) \<Rightarrow> (r = 0, m))"

definition i2c_master_send_ack :: "'b i2c_bus \<Rightarrow> 'b i2c_master \<Rightarrow> 'b i2c_master" where
  "i2c_master_send_ack bus = i2c_master_setAck bus 0"

definition i2c_master_send_nack :: "'b i2c_bus \<Rightarrow> 'b i2c_master \<Rightarrow> 'b i2c_master" where
  "i2c_master_send_nack bus = i2c_master_setAck bus 1"

definition read_bit :: "'b i2c_bus \<Rightarrow> nat \<Rightarrow> u8 \<times> 'b i2c_master \<Rightarrow> u8 \<times> 'b i2c_master" where
  "read_bit bus i = (\<lambda>(r, m).
     let m = set_wait bus 1 0 5 (i2c_master_wait bus 5 m); m = set_wait bus 1 1 5 m;
         k = i2c_master_getDC bus m; m = i2c_master_wait bus 5 m;
         m = (if i = 7 then i2c_master_wait bus 3 m else m) in
     (r OR push_bit (7 - i) k, m))"

definition i2c_master_readByte :: "'b i2c_bus \<Rightarrow> 'b i2c_master \<Rightarrow> u8 \<times> 'b i2c_master" where
  "i2c_master_readByte bus m =
     (let m = i2c_master_wait bus 5 m; m = set_wait bus (m_nLastSDA m) 0 5 m in
      case fold (read_bit bus) [0..<8] (0, m) of (r, m) \<Rightarrow> (r, set_wait bus 1 0 5 m))"

definition write_bit :: "'b i2c_bus \<Rightarrow> u8 \<Rightarrow> nat \<Rightarrow> 'b i2c_master \<Rightarrow> 'b i2c_master" where
  "write_bit bus wrdata i m =
     (let dat = drop_bit i wrdata; m = set_wait bus dat 0 5 m; m = set_wait bus dat 1 5 m;
          m = (if i = 0 then i2c_master_wait bus 3 m else m) in
      set_wait bus dat 0 5 m)"

definition i2c_master_writeByte :: "'b i2c_bus \<Rightarrow> u8 \<Rightarrow> 'b i2c_master \<Rightarrow> 'b i2c_master" where
  "i2c_master_writeByte bus wrdata m =
     (let m = i2c_master_wait bus 5 m; m = set_wait bus (m_nLastSDA m) 0 5 m in
      fold (write_bit bus wrdata) (rev [0..<8]) m)"

section \<open>Platform\<close>

definition PLATFORM_I2C_SPEED_SLOW :: u32 where "PLATFORM_I2C_SPEED_SLOW = 100000"
definition NUM_I2C :: u32 where "NUM_I2C = 1"

definition platform_i2c_exists :: "u32 \<Rightarrow> bool" where
  "platform_i2c_exists ident = (ident < NUM_I2C)"

type_synonym ('b, 'a) i2c_handler = "('b i2c_master, 'a) handler"

text \<open>The driver takes the pins as bytes.\<close>

definition platform_i2c_setup :: "'b i2c_bus \<Rightarrow> u8 \<Rightarrow> u8 \<Rightarrow> u32 \<Rightarrow> ('b, u32) i2c_handler" where
  "platform_i2c_setup bus sda scl speed =
     (if NUM_GPIO \<le> ucast sda \<or> NUM_GPIO \<le> ucast scl then mret 0
      else
      mbind (mupd (i2c_do bus (snd (platform_gpio_mode (ucast sda) PLATFORM_GPIO_INPUT PLATFORM_GPIO_PULLUP)))) (\<lambda>_.
      mbind (mupd (i2c_do bus (snd (platform_gpio_mode (ucast scl) PLATFORM_GPIO_INPUT PLATFORM_GPIO_PULLUP)))) (\<lambda>_.
      mbind (mget (\<lambda>m. i2c_master_gpio_init bus sda scl m)) (\<lambda>r.
      mbind (mlift r) (\<lambda>m.
      mbind (mupd (\<lambda>_. m)) (\<lambda>_.
      mret PLATFORM_I2C_SPEED_SLOW))))))"

definition platform_i2c_send_start :: "'b i2c_bus \<Rightarrow> ('b, unit) i2c_handler" where
  "platform_i2c_send_start bus = mupd (i2c_master_start bus)"

definition platform_i2c_send_stop :: "'b i2c_bus \<Rightarrow> ('b, unit) i2c_handler" where
  "platform_i2c_send_stop bus = mupd (i2c_master_stop bus)"

definition platform_i2c_send_byte :: "'b i2c_bus \<Rightarrow> u8 \<Rightarrow> ('b, bool) i2c_handler" where
  "platform_i2c_send_byte bus data m =
     (case i2c_master_getAck bus (i2c_master_writeByte bus data m) of (r, m) \<Rightarrow> (Inr (r = 0), m))"

text \<open>The direction is used as it is, since the codes for sending and receiving are 0 and 1.\<close>

definition platform_i2c_send_address :: "'b i2c_bus \<Rightarrow> u16 \<Rightarrow> u32 \<Rightarrow> ('b, bool) i2c_handler" where
  "platform_i2c_send_address bus address direction =
     platform_i2c_send_byte bus (ucast (push_bit 1 (ucast address) OR direction))"

definition platform_i2c_recv_byte :: "'b i2c_bus \<Rightarrow> bool \<Rightarrow> ('b, u8) i2c_handler" where
  "platform_i2c_recv_byte bus ack m =
     (case i2c_master_readByte bus m of (r, m) \<Rightarrow> (Inr r, i2c_master_setAck bus (of_bool (\<not> ack)) m))"

section \<open>Module\<close>

definition check_i2c :: "lua_conv \<Rightarrow> lua_value list \<Rightarrow> unit result" where
  "check_i2c cv args =
     rbind (luaL_checkinteger cv (index2adr args 1)) (\<lambda>ident.
     if platform_i2c_exists ident then Inr () else Inl (LuaError ''i2c does not exist''))"

definition check_gpio :: "u32 \<Rightarrow> unit result" where
  "check_gpio pin = (if platform_gpio_exists pin then Inr () else Inl (LuaError ''gpio does not exist''))"

definition i2c_setup :: "'b i2c_bus \<Rightarrow> lua_conv \<Rightarrow> lua_value list \<Rightarrow> ('b, lua_value list) i2c_handler" where
  "i2c_setup bus cv args =
     mbind (mlift (luaL_checkinteger cv (index2adr args 1))) (\<lambda>ident.
     mbind (mlift (luaL_checkinteger cv (index2adr args 2))) (\<lambda>sda.
     mbind (mlift (luaL_checkinteger cv (index2adr args 3))) (\<lambda>scl.
     if \<not> platform_i2c_exists ident then mfail (LuaError ''i2c does not exist'')
     else
     mbind (mlift (check_gpio sda)) (\<lambda>_.
     mbind (mlift (check_gpio scl)) (\<lambda>_.
     if scl = 0 \<or> sda = 0 then mfail (LuaError ''no i2c for D0'')
     else
     mbind (mlift (luaL_checkinteger cv (index2adr args 4))) (\<lambda>speed.
     if sint speed \<le> 0 then mfail (LuaError ''wrong arg range'')
     else
     mbind (platform_i2c_setup bus (ucast sda) (ucast scl) speed) (\<lambda>r.
     mret [lua_int (uint r)])))))))"

definition i2c_start :: "'b i2c_bus \<Rightarrow> lua_conv \<Rightarrow> lua_value list \<Rightarrow> ('b, lua_value list) i2c_handler" where
  "i2c_start bus cv args =
     mbind (mlift (check_i2c cv args)) (\<lambda>_. mbind (platform_i2c_send_start bus) (\<lambda>_. mret []))"

definition i2c_stop :: "'b i2c_bus \<Rightarrow> lua_conv \<Rightarrow> lua_value list \<Rightarrow> ('b, lua_value list) i2c_handler" where
  "i2c_stop bus cv args =
     mbind (mlift (check_i2c cv args)) (\<lambda>_. mbind (platform_i2c_send_stop bus) (\<lambda>_. mret []))"

definition i2c_address :: "'b i2c_bus \<Rightarrow> lua_conv \<Rightarrow> lua_value list \<Rightarrow> ('b, lua_value list) i2c_handler" where
  "i2c_address bus cv args =
     mbind (mlift (luaL_checkinteger cv (index2adr args 1))) (\<lambda>ident.
     mbind (mlift (luaL_checkinteger cv (index2adr args 2))) (\<lambda>address.
     mbind (mlift (luaL_checkinteger cv (index2adr args 3))) (\<lambda>direction.
     if \<not> platform_i2c_exists ident then mfail (LuaError ''i2c does not exist'')
     else if sint address < 0 \<or> 127 < sint address then mfail (LuaError ''wrong arg range'')
     else
     mbind (platform_i2c_send_address bus (ucast address) direction) (\<lambda>ok. mret [LBoolean ok]))))"

text \<open>A number that is to be sent as a byte.\<close>

definition byte_arg :: "lua_conv \<Rightarrow> lua_value \<Rightarrow> u8 result" where
  "byte_arg cv v =
     rbind (luaL_checkinteger cv v) (\<lambda>n.
     if sint n < 0 \<or> 255 < sint n then Inl (LuaError ''wrong arg range'') else Inr (ucast n))"

text \<open>The loops over a table and a string: how many bytes were sent before one was not acknowledged.\<close>

fun send_bytes :: "'b i2c_bus \<Rightarrow> u8 result list \<Rightarrow> ('b, nat) i2c_handler" where
  "send_bytes bus [] = mret 0"
| "send_bytes bus (r # rs) =
     mbind (mlift r) (\<lambda>data.
     mbind (platform_i2c_send_byte bus data) (\<lambda>ok.
     if \<not> ok then mret 0 else mbind (send_bytes bus rs) (\<lambda>i. mret (Suc i))))"

definition table_bytes :: "lua_conv \<Rightarrow> lua_value \<Rightarrow> u8 result list" where
  "table_bytes cv v = map (\<lambda>i. byte_arg cv (lua_rawgeti v (i + 1))) [0..<lua_objlen cv v]"

text \<open>The loop over the arguments behind the first.\<close>

fun write_args :: "'b i2c_bus \<Rightarrow> lua_conv \<Rightarrow> lua_value list \<Rightarrow> u32 \<Rightarrow> ('b, u32) i2c_handler" where
  "write_args bus cv [] wrote = mret wrote"
| "write_args bus cv (v # vs) wrote =
     (case v of
        LNumber _ \<Rightarrow>
          mbind (mlift (byte_arg cv v)) (\<lambda>data.
          mbind (platform_i2c_send_byte bus data) (\<lambda>ok.
          if \<not> ok then mret wrote else write_args bus cv vs (wrote + 1)))
      | _ \<Rightarrow>
          mbind (if lua_istable v then mret (table_bytes cv v)
                 else mbind (mlift (luaL_checklstring cv v)) (\<lambda>s. mret (map Inr s))) (\<lambda>rs.
          mbind (send_bytes bus rs) (\<lambda>i.
          if i < length rs then mret (wrote + of_nat i) else write_args bus cv vs (wrote + of_nat i))))"

definition i2c_write :: "'b i2c_bus \<Rightarrow> lua_conv \<Rightarrow> lua_value list \<Rightarrow> ('b, lua_value list) i2c_handler" where
  "i2c_write bus cv args =
     mbind (mlift (check_i2c cv args)) (\<lambda>_.
     if length args < 2 then mfail (LuaError ''wrong arg type'')
     else mbind (write_args bus cv (tl args) 0) (\<lambda>wrote. mret [lua_int (sint wrote)]))"

fun read_bytes :: "'b i2c_bus \<Rightarrow> nat \<Rightarrow> ('b, bytes) i2c_handler" where
  "read_bytes bus 0 = mret []"
| "read_bytes bus (Suc n) =
     mbind (platform_i2c_recv_byte bus (0 < n)) (\<lambda>data. mbind (read_bytes bus n) (\<lambda>ds. mret (data # ds)))"

definition i2c_read :: "'b i2c_bus \<Rightarrow> lua_conv \<Rightarrow> lua_value list \<Rightarrow> ('b, lua_value list) i2c_handler" where
  "i2c_read bus cv args =
     mbind (mlift (luaL_checkinteger cv (index2adr args 1))) (\<lambda>ident.
     mbind (mlift (luaL_checkinteger cv (index2adr args 2))) (\<lambda>size.
     if \<not> platform_i2c_exists ident then mfail (LuaError ''i2c does not exist'')
     else if size = 0 then mret []
     else mbind (read_bytes bus (unat size)) (\<lambda>ds. mret [LString ds])))"

end
