(* ===== verification/I2c_Device.thy ===== *)
theory I2c_Device
  imports I2c
begin

text \<open>
  What a device on the I2C bus sees of the master of \<open>I2c\<close>. The device is written from the rules of the bus:
  a change of the data line while the clock is high starts or ends a transfer, data are
  sampled on the rising edge of the clock, and every ninth bit acknowledges the byte before. It decides
  freely what it acknowledges and what it sends, from all that it has seen.
\<close>

section \<open>The device\<close>

datatype i2c_item = Start | Stop | Written u8 bool | ReadOut u8 bool

text \<open>
  \<open>Taking\<close>: receiving the bits of a byte (the address byte or a later one). \<open>Acking\<close>: in the ninth bit after a
  byte. \<open>Giving\<close>: sending a byte, so many bits of which were clocked out. \<open>Asking\<close>: in the ninth
  bit after a byte that was sent, with what the master answered.
\<close>

datatype i2c_phase =
    Idle
  | Taking bool "bool list"
  | Acking bool u8 bool
  | Giving u8 nat
  | Asking u8 bool

text \<open>The outputs of the master, whether the device pulls the data line low, its phase and what it has seen.\<close>

record slave =
  sda_out :: bool
  scl_out :: bool
  pull :: bool
  phase :: i2c_phase
  seen :: "i2c_item list"

record slave_mind =
  accepts :: "i2c_item list \<Rightarrow> u8 \<Rightarrow> bool"
  gives :: "i2c_item list \<Rightarrow> u8"

definition line :: "slave \<Rightarrow> bool" where
  "line s \<longleftrightarrow> sda_out s \<and> \<not> pull s"

definition byte_of :: "bool list \<Rightarrow> u8" where
  "byte_of bs = horner_sum of_bool 2 (rev bs)"

definition give_next :: "slave_mind \<Rightarrow> slave \<Rightarrow> slave" where
  "give_next mind s = (let g = gives mind (seen s) in s\<lparr>pull := \<not> bit g 7, phase := Giving g 0\<rparr>)"

definition rising :: "slave \<Rightarrow> slave" where
  "rising s = s\<lparr>phase :=
     (case phase s of
        Taking f bs \<Rightarrow> Taking f (bs @ [line s])
      | Giving g n \<Rightarrow> Giving g (Suc n)
      | Asking g _ \<Rightarrow> Asking g (\<not> line s)
      | p \<Rightarrow> p)\<rparr>"

definition falling :: "slave_mind \<Rightarrow> slave \<Rightarrow> slave" where
  "falling mind s =
     (case phase s of
        Taking f bs \<Rightarrow>
          if length bs = 8
          then s\<lparr>pull := accepts mind (seen s) (byte_of bs), phase := Acking f (byte_of bs) (accepts mind (seen s) (byte_of bs))\<rparr>
          else s
      | Acking f b a \<Rightarrow>
          (let s = s\<lparr>pull := False, seen := seen s @ [Written b a]\<rparr> in
           if \<not> a then s\<lparr>phase := Idle\<rparr>
           else if f \<and> bit b 0 then give_next mind s
           else s\<lparr>phase := Taking False []\<rparr>)
      | Giving g n \<Rightarrow> if n = 8 then s\<lparr>pull := False, phase := Asking g False\<rparr> else s\<lparr>pull := \<not> bit g (7 - n)\<rparr>
      | Asking g a \<Rightarrow>
          (let s = s\<lparr>pull := False, seen := seen s @ [ReadOut g a]\<rparr> in
           if a then give_next mind s else s\<lparr>phase := Idle\<rparr>)
      | Idle \<Rightarrow> s)"

definition slave_step :: "slave_mind \<Rightarrow> bool \<Rightarrow> bool \<Rightarrow> slave \<Rightarrow> slave" where
  "slave_step mind d c s =
     (let s' = s\<lparr>sda_out := d, scl_out := c\<rparr> in
      if scl_out s \<and> c then
        if line s \<and> \<not> line s' then s'\<lparr>pull := False, phase := Taking True [], seen := seen s @ [Start]\<rparr>
        else if \<not> line s \<and> line s' then s'\<lparr>pull := False, phase := Idle, seen := seen s @ [Stop]\<rparr>
        else s'
      else if \<not> scl_out s \<and> c then rising s'
      else if scl_out s \<and> \<not> c then falling mind s'
      else s')"

text \<open>The device on two pins of the processor.\<close>

definition i2c_device :: "nat \<Rightarrow> nat \<Rightarrow> slave_mind \<Rightarrow> slave i2c_bus" where
  "i2c_device d c mind =
     \<lparr>on_event = (\<lambda>ev s. slave_step mind (drives d ev (sda_out s)) (drives c ev (scl_out s)) s),
      sample = (\<lambda>n s. if n = d then line s else scl_out s)\<rparr>"

section \<open>Single steps of the master\<close>

definition linked :: "nat \<Rightarrow> nat \<Rightarrow> slave i2c_master \<Rightarrow> bool" where
  "linked d c m \<longleftrightarrow> unat (pinSDA m) = d \<and> unat (pinSCL m) = c \<and> d \<noteq> c \<and> d < 32 \<and> c < 32"

text \<open>A master that has put the levels \<open>a\<close> and \<open>b\<close> on the lines.\<close>

definition put :: "slave i2c_master \<Rightarrow> bool \<Rightarrow> bool \<Rightarrow> slave \<Rightarrow> slave i2c_master" where
  "put m a b s = m\<lparr>wires := s, m_nLastSDA := of_bool a, m_nLastSCL := of_bool b\<rparr>"

lemma put_simps [simp]:
  "linked d c (put m a b s) = linked d c m" "wires (put m a b s) = s"
  "m_nLastSDA (put m a b s) = of_bool a" "m_nLastSCL (put m a b s) = of_bool b" "put (put m a' b' s') a b s = put m a b s"
  by (simp_all add: linked_def put_def)

lemma slave_idle_step: "slave_step mind (sda_out s) (scl_out s) s = s"
  by (auto simp: slave_step_def Let_def line_def)

lemma drives_both:
  assumes "d \<noteq> c" "d < 32" "c < 32" "unat pd = d" "unat pc = c"
  shows "drives d (I2C_MASTER_SDA_SCL (of_bool a) (of_bool b) pd pc) l = a"
    "drives c (I2C_MASTER_SDA_SCL (of_bool a) (of_bool b) pd pc) l = b"
  using assms by (auto simp: I2C_MASTER_SDA_SCL_def Let_def bit_simps)

lemma and_one_odd: "(x :: u8) AND 1 = of_bool (odd x)"
  by (simp add: and_one_eq odd_iff_mod_2_eq_one)

lemma set_wait_put:
  assumes "linked d c m"
  shows "set_wait (i2c_device d c mind) x y us (put m a b s) = put m (odd x) (odd y) (slave_step mind (odd x) (odd y) s)"
  using assms drives_both [of d c "pinSDA m" "pinSCL m"]
  by (simp add: set_wait_def i2c_master_wait_def i2c_master_setDC_def i2c_do_def i2c_device_def Let_def linked_def
      and_one_odd slave_idle_step put_def)

lemma wait_put: "i2c_master_wait (i2c_device d c mind) us m = m"
  by (simp add: i2c_master_wait_def i2c_do_def i2c_device_def slave_idle_step)

lemma getDC_line: "linked d c m \<Longrightarrow> i2c_master_getDC (i2c_device d c mind) (put m a b s) = of_bool (line s)"
  by (simp add: i2c_master_getDC_def i2c_device_def linked_def put_def)

lemma odd_bits [simp]: "odd (of_bool a :: u8) = a" "odd (drop_bit i (v :: u8)) = bit v i"
  by (simp_all add: bit_iff_odd_drop_bit)

lemmas master_steps = set_wait_put wait_put getDC_line Let_def

section \<open>Bytes\<close>

text \<open>One bit that the master sends: the data line is set, then the clock goes up and down.\<close>

definition clock_bit :: "slave_mind \<Rightarrow> bool \<Rightarrow> slave \<Rightarrow> slave" where
  "clock_bit mind x s = slave_step mind x False (slave_step mind x True (slave_step mind x False s))"

lemma write_bit_put:
  assumes "linked d c m"
  shows "write_bit (i2c_device d c mind) v i (put m a b s) = put m (bit v i) False (clock_bit mind (bit v i) s)"
  using assms by (simp add: write_bit_def master_steps clock_bit_def if_distrib [of "\<lambda>m. set_wait _ _ _ _ m"] cong: if_cong)

lemmas slave_simps = slave_step_def rising_def falling_def line_def give_next_def Let_def

lemma clock_bit_taken:
  assumes "phase s = Taking f bs" "length bs < 8" "\<not> scl_out s" "\<not> pull s"
  shows "clock_bit mind x s = (if length bs < 7 then s\<lparr>sda_out := x, phase := Taking f (bs @ [x])\<rparr>
      else s\<lparr>sda_out := x, pull := accepts mind (seen s) (byte_of (bs @ [x])),
        phase := Acking f (byte_of (bs @ [x])) (accepts mind (seen s) (byte_of (bs @ [x])))\<rparr>)"
  using assms by (simp add: clock_bit_def slave_simps)

lemma clock_bit_ignored:
  assumes "phase s = Idle" "\<not> scl_out s" "\<not> pull s"
  shows "clock_bit mind x s = s\<lparr>sda_out := x\<rparr>"
  using assms by (simp add: clock_bit_def slave_simps)

lemma clock_bits_taken:
  assumes "phase s = Taking f bs" "length bs + length xs = 8" "xs \<noteq> []" "\<not> scl_out s" "\<not> pull s"
  shows "fold (clock_bit mind) xs s = s\<lparr>sda_out := last xs, pull := accepts mind (seen s) (byte_of (bs @ xs)),
    phase := Acking f (byte_of (bs @ xs)) (accepts mind (seen s) (byte_of (bs @ xs)))\<rparr>"
  using assms
proof (induction xs arbitrary: s bs)
  case (Cons x xs)
  show ?case
  proof (cases "xs = []")
    case True
    with Cons.prems show ?thesis by (simp add: clock_bit_taken)
  next
    case False
    then have "length bs < 7" using Cons.prems(2) by (cases xs) auto
    with Cons.prems False Cons.IH [of "s\<lparr>sda_out := x, phase := Taking f (bs @ [x])\<rparr>" "bs @ [x]"] show ?thesis
      by (simp add: clock_bit_taken)
  qed
qed simp

lemma clock_bits_ignored:
  assumes "phase s = Idle" "\<not> scl_out s" "\<not> pull s"
  shows "\<exists>y. fold (clock_bit mind) xs s = s\<lparr>sda_out := y\<rparr>"
  using assms
proof (induction xs arbitrary: s)
  case Nil
  then show ?case by (intro exI [of _ "sda_out s"]) simp
next
  case (Cons x xs)
  from Cons.IH [of "s\<lparr>sda_out := x\<rparr>"] Cons.prems show ?case by (simp add: clock_bit_ignored)
qed

lemma byte_of_bits: "byte_of (map (bit v) (rev [0..<8])) = v"
proof -
  have "byte_of (map (bit v) (rev [0..<8])) = horner_sum of_bool 2 (map (bit v) [0..<8])"
    unfolding byte_of_def rev_map [symmetric] rev_rev_ident ..
  also have "\<dots> = take_bit 8 v" by (rule horner_sum_bit_eq_take_bit)
  finally show ?thesis by (simp add: take_bit_length_eq [of v, simplified])
qed

lemma write_bits_put:
  assumes "linked d c m"
  shows "\<exists>a'. fold (write_bit (i2c_device d c mind) v) is (put m a False s) = put m a' False (fold (clock_bit mind) (map (bit v) is) s)"
proof (induction "is" arbitrary: a s)
  case (Cons i "is")
  show ?case unfolding fold.simps o_apply list.map write_bit_put [OF assms] by (rule Cons.IH)
qed auto

text \<open>The state after a byte that the device has taken, and its answer.\<close>

definition after_byte :: "slave_mind \<Rightarrow> bool \<Rightarrow> u8 \<Rightarrow> slave \<Rightarrow> slave" where
  "after_byte mind f v s =
     (let a = accepts mind (seen s) v;
          s = s\<lparr>sda_out := True, scl_out := False, pull := False, seen := seen s @ [Written v a]\<rparr> in
      if \<not> a then s\<lparr>phase := Idle\<rparr>
      else if f \<and> bit v 0 then give_next mind s
      else s\<lparr>phase := Taking False []\<rparr>)"

lemma getAck_acked:
  assumes "linked d c m" "phase s = Acking f v a" "pull s = a" "\<not> scl_out s"
  shows "i2c_master_getAck (i2c_device d c mind) (put m x False s) =
    (of_bool (\<not> a), put m True False (falling mind (s\<lparr>sda_out := True, scl_out := False\<rparr>)))"
  using assms by (cases s) (simp add: i2c_master_getAck_def master_steps slave_step_def rising_def line_def)

lemma getAck_ignored:
  assumes "linked d c m" "phase s = Idle" "\<not> pull s" "\<not> scl_out s"
  shows "i2c_master_getAck (i2c_device d c mind) (put m x False s) = (1, put m True False (s\<lparr>sda_out := True\<rparr>))"
  using assms by (cases s) (simp add: i2c_master_getAck_def master_steps slave_simps)

lemma send_byte_taken:
  assumes "linked d c m" "phase s = Taking f []" "\<not> pull s" "sda_out s = a" "scl_out s = b"
  shows "platform_i2c_send_byte (i2c_device d c mind) v (put m a b s) =
    (Inr (accepts mind (seen s) v), put m True False (after_byte mind f v s))"
proof -
  let ?s = "s\<lparr>scl_out := False\<rparr>" and ?acc = "accepts mind (seen s) v"
  have first: "slave_step mind a False s = ?s" using assms(2-5) by (cases b) (auto simp: slave_simps)
  let ?u = "?s\<lparr>sda_out := bit v 0, pull := ?acc, phase := Acking f v ?acc\<rparr>"
  have "fold (clock_bit mind) (map (bit v) (rev [0..<8])) ?s = ?u"
    using clock_bits_taken [of ?s f "[]" "map (bit v) (rev [0..<8])" mind] assms(2,3) byte_of_bits [of v]
    by (simp add: last_map last_rev)
  then obtain x where "i2c_master_writeByte (i2c_device d c mind) v (put m a b s) = put m x False ?u"
    using write_bits_put [OF assms(1), of mind v "rev [0..<8]" a ?s] assms(1) first
    by (auto simp: i2c_master_writeByte_def master_steps)
  then show ?thesis
    using getAck_acked [OF assms(1), of ?u f v ?acc mind x]
    by (simp add: platform_i2c_send_byte_def after_byte_def falling_def give_next_def Let_def)
qed

lemma send_byte_ignored:
  assumes "linked d c m" "phase s = Idle" "\<not> pull s" "sda_out s = a" "scl_out s = b"
  shows "platform_i2c_send_byte (i2c_device d c mind) v (put m a b s) =
    (Inr False, put m True False (s\<lparr>scl_out := False, sda_out := True\<rparr>))"
proof -
  let ?s = "s\<lparr>scl_out := False\<rparr>"
  have first: "slave_step mind a False s = ?s" using assms(2-5) by (cases b) (auto simp: slave_simps)
  obtain y where "fold (clock_bit mind) (map (bit v) (rev [0..<8])) ?s = ?s\<lparr>sda_out := y\<rparr>"
    using clock_bits_ignored [of ?s mind "map (bit v) (rev [0..<8])"] assms(2,3) by auto
  then obtain x where "i2c_master_writeByte (i2c_device d c mind) v (put m a b s) = put m x False (?s\<lparr>sda_out := y\<rparr>)"
    using write_bits_put [OF assms(1), of mind v "rev [0..<8]" a ?s] assms(1) first
    by (auto simp: i2c_master_writeByte_def master_steps)
  then show ?thesis
    using getAck_ignored [OF assms(1), of "?s\<lparr>sda_out := y\<rparr>" mind x] assms(2,3) by (simp add: platform_i2c_send_byte_def)
qed

text \<open>Reading: the device has the next bit on the line while the clock is low.\<close>

definition offering :: "u8 \<Rightarrow> nat \<Rightarrow> slave \<Rightarrow> slave" where
  "offering g n s = s\<lparr>sda_out := True, scl_out := True, pull := \<not> bit g (7 - n), phase := Giving g (Suc n)\<rparr>"

lemma read_bit_first:
  assumes "linked d c m" "phase s = Giving g 0" "pull s = (\<not> bit g 7)" "\<not> scl_out s"
  shows "read_bit (i2c_device d c mind) 0 (r, put m x False s) = (r OR push_bit 7 (of_bool (bit g 7)), put m True True (offering g 0 s))"
  using assms by (cases s) (simp add: read_bit_def master_steps slave_simps offering_def)

lemma read_bit_next:
  assumes "linked d c m" "n < 7"
  shows "read_bit (i2c_device d c mind) (Suc n) (r, put m True True (offering g n s)) =
    (r OR push_bit (7 - Suc n) (of_bool (bit g (7 - Suc n))), put m True True (offering g (Suc n) s))"
  using assms by (cases s) (simp add: read_bit_def master_steps slave_simps offering_def)

lemma high_bits_join:
  fixes g :: u8
  assumes "j < l" "l \<le> j + 1"
  shows "push_bit l (drop_bit l g) OR push_bit j (of_bool (bit g j)) = push_bit j (drop_bit j g)"
proof (rule bit_word_eqI)
  fix k assume "k < LENGTH(8)"
  have "l \<le> k \<longleftrightarrow> j \<le> k \<and> k \<noteq> j" using assms by linarith
  then show "bit (push_bit l (drop_bit l g) OR push_bit j (of_bool (bit g j))) k = bit (push_bit j (drop_bit j g)) k"
    using \<open>k < LENGTH(8)\<close> by (auto simp: bit_simps)
qed

lemma high_bits_step:
  fixes g :: u8
  assumes "n < 8"
  shows "push_bit (8 - n) (drop_bit (8 - n) g) OR push_bit (7 - n) (of_bool (bit g (7 - n))) = push_bit (8 - Suc n) (drop_bit (8 - Suc n) g)"
proof -
  have eq: "8 - Suc n = 7 - n" by simp
  have "7 - n < 8 - n" "8 - n \<le> 7 - n + 1" using assms by linarith+
  then show ?thesis unfolding eq by (rule high_bits_join)
qed

lemma read_bits_offered:
  assumes "linked d c m" "phase s = Giving g 0" "pull s = (\<not> bit g 7)" "\<not> scl_out s" "n < 8"
  shows "fold (read_bit (i2c_device d c mind)) [0..<Suc n] (0, put m x False s) =
    (push_bit (8 - Suc n) (drop_bit (8 - Suc n) g), put m True True (offering g n s))"
  using assms(5)
proof (induction n)
  case 0
  have "push_bit 7 (drop_bit 7 g) = push_bit 7 (of_bool (bit g 7))"
    using high_bits_step [of 0 g] by (simp add: drop_bit_word_beyond)
  then show ?case using read_bit_first [OF assms(1-4)] by simp
next
  case (Suc n)
  have "fold (read_bit (i2c_device d c mind)) [0..<Suc (Suc n)] (0, put m x False s) =
      read_bit (i2c_device d c mind) (Suc n) (fold (read_bit (i2c_device d c mind)) [0..<Suc n] (0, put m x False s))"
    by simp
  also have "\<dots> = (push_bit (8 - Suc n) (drop_bit (8 - Suc n) g) OR push_bit (7 - Suc n) (of_bool (bit g (7 - Suc n))),
      put m True True (offering g (Suc n) s))"
    using Suc by (simp add: read_bit_next [OF assms(1)])
  finally show ?case using high_bits_step [of "Suc n" g] Suc.prems by simp
qed

definition after_reading :: "slave_mind \<Rightarrow> u8 \<Rightarrow> bool \<Rightarrow> slave \<Rightarrow> slave" where
  "after_reading mind g ack s =
     (let s = s\<lparr>sda_out := True, scl_out := False, pull := False, seen := seen s @ [ReadOut g ack]\<rparr> in
      if ack then give_next mind s else s\<lparr>phase := Idle\<rparr>)"

lemma setAck_answers:
  assumes "linked d c m" "phase s = Asking g x" "\<not> pull s" "\<not> scl_out s"
  shows "i2c_master_setAck (i2c_device d c mind) (of_bool (\<not> ack)) (put m True False s) =
    put m True False (after_reading mind g ack s)"
  using assms by (cases s) (simp add: i2c_master_setAck_def master_steps slave_simps after_reading_def)

lemma recv_byte_offered:
  assumes "linked d c m" "phase s = Giving g 0" "pull s = (\<not> bit g 7)" "\<not> scl_out s"
  shows "platform_i2c_recv_byte (i2c_device d c mind) ack (put m x False s) =
    (Inr g, put m True False (after_reading mind g ack s))"
proof -
  let ?s = "s\<lparr>sda_out := x\<rparr>" and ?t = "s\<lparr>sda_out := True, scl_out := False, pull := False, phase := Asking g False\<rparr>"
  have "fold (read_bit (i2c_device d c mind)) [0..<Suc 7] (0, put m x False ?s) = (g, put m True True (offering g 7 ?s))"
    using read_bits_offered [OF assms(1), of ?s g 7] assms(2-4) by simp
  then have fold: "fold (read_bit (i2c_device d c mind)) [0..<8] (0, put m x False ?s) = (g, put m True True (offering g 7 s))"
    by (simp add: offering_def eval_nat_numeral)
  have first: "slave_step mind x False s = ?s" using assms(4) by (simp add: slave_step_def Let_def)
  have last: "slave_step mind True False (offering g 7 s) = ?t" by (simp add: offering_def slave_simps)
  have "i2c_master_readByte (i2c_device d c mind) (put m x False s) = (g, put m True False ?t)"
    using assms(1) fold by (simp add: i2c_master_readByte_def master_steps first last del: upt_Suc upt.simps)
  moreover have "after_reading mind g ack ?t = after_reading mind g ack s"
    by (cases s) (simp add: after_reading_def give_next_def Let_def)
  ultimately show ?thesis
    using setAck_answers [OF assms(1), of ?t g False mind ack] by (simp add: platform_i2c_recv_byte_def)
qed

text \<open>A device on a bus at rest, or between bytes.\<close>

definition at_rest :: "bool \<Rightarrow> bool \<Rightarrow> slave \<Rightarrow> bool" where
  "at_rest a b s \<longleftrightarrow> sda_out s = a \<and> scl_out s = b \<and> \<not> pull s"

lemma start_seen:
  assumes "linked d c m" "at_rest True b s"
  shows "i2c_master_start (i2c_device d c mind) (put m True b s) =
    put m False True (s\<lparr>sda_out := False, scl_out := True, phase := Taking True [], seen := seen s @ [Start]\<rparr>)"
  using assms
  by (cases s; cases b; cases "phase s") (simp_all add: i2c_master_start_def master_steps slave_simps at_rest_def)

lemma stop_seen:
  assumes "linked d c m" "at_rest True False s"
  shows "i2c_master_stop (i2c_device d c mind) (put m True False s) =
    put m True True (s\<lparr>sda_out := True, scl_out := True, phase := Idle, seen := seen s @ [Stop]\<rparr>)"
  using assms
  by (cases s; cases "phase s") (simp_all add: i2c_master_stop_def master_steps slave_simps at_rest_def)

section \<open>Transfers\<close>

text \<open>
  What a device makes of a series of bytes: from the history and whether it listens, how many bytes it
  acknowledges until it refuses one, the history then and whether it still listens.
\<close>

fun takes :: "slave_mind \<Rightarrow> bytes \<Rightarrow> i2c_item list \<Rightarrow> bool \<Rightarrow> nat \<times> i2c_item list \<times> bool" where
  "takes mind [] h l = (0, h, l)"
| "takes mind (b # bs) h l =
     (if \<not> l then (0, h, False)
      else if accepts mind h b then (case takes mind bs (h @ [Written b True]) True of (n, r) \<Rightarrow> (Suc n, r))
      else (0, h @ [Written b False], False))"

fun hands_out :: "slave_mind \<Rightarrow> nat \<Rightarrow> i2c_item list \<Rightarrow> i2c_item list" where
  "hands_out mind 0 h = []"
| "hands_out mind (Suc n) h =
     (let i = ReadOut (gives mind h) (0 < n) in i # hands_out mind n (h @ [i]))"

definition item_byte :: "i2c_item \<Rightarrow> u8" where
  "item_byte i = (case i of Written b _ \<Rightarrow> b | ReadOut b _ \<Rightarrow> b | _ \<Rightarrow> 0)"

lemma takes_append:
  "takes mind (xs @ ys) h l =
     (case takes mind xs h l of (n, h', l') \<Rightarrow>
        if n < length xs then (n, h', l') else case takes mind ys h' l' of (k, r) \<Rightarrow> (n + k, r))"
  by (induction xs arbitrary: h l) (auto split: prod.splits)

lemma takes_bound: "fst (takes mind bs h l) \<le> length bs"
proof (induction bs arbitrary: h l)
  case (Cons b bs)
  from Cons.IH [of "h @ [Written b True]" True] show ?case by (auto split: prod.splits)
qed simp

text \<open>The device between two bytes.\<close>

definition between :: "bool \<Rightarrow> i2c_item list \<Rightarrow> slave \<Rightarrow> slave" where
  "between l h s = s\<lparr>sda_out := True, scl_out := False, pull := False, phase := (if l then Taking False [] else Idle), seen := h\<rparr>"

lemma send_byte_between:
  assumes "linked d c m"
  shows "platform_i2c_send_byte (i2c_device d c mind) v (put m True False (between l h s)) =
    (Inr (l \<and> accepts mind h v),
     put m True False (between (l \<and> accepts mind h v) (if l then h @ [Written v (accepts mind h v)] else h) s))"
proof (cases l)
  case True
  have "after_byte mind False v (between True h s) = between (accepts mind h v) (h @ [Written v (accepts mind h v)]) s"
    by (simp add: between_def after_byte_def)
  then show ?thesis
    using True send_byte_taken [OF assms, of "between True h s" False True False mind v] by (simp add: between_def)
next
  case False
  then show ?thesis
    using send_byte_ignored [OF assms, of "between False h s" True False mind v] by (cases s) (simp add: between_def)
qed

lemma send_bytes_between:
  assumes "linked d c m"
  shows "send_bytes (i2c_device d c mind) (map Inr bs) (put m True False (between l h s)) =
    (case takes mind bs h l of (n, h', l') \<Rightarrow> (Inr n, put m True False (between l' h' s)))"
proof (induction bs arbitrary: h l)
  case (Cons b bs)
  show ?case
    by (cases l; cases "accepts mind h b")
      (simp_all add: send_byte_between [OF assms] Cons.IH mbind_assoc split: prod.split)
qed simp

text \<open>The bytes an argument of \<open>write\<close> stands for.\<close>

definition arg_bytes :: "lua_conv \<Rightarrow> lua_value \<Rightarrow> bytes \<Rightarrow> bool" where
  "arg_bytes cv v bs \<longleftrightarrow>
     (case v of
        LNumber _ \<Rightarrow> (\<exists>b. byte_arg cv v = Inr b \<and> bs = [b])
      | LString s \<Rightarrow> bs = s
      | _ \<Rightarrow> lua_istable v \<and> table_bytes cv v = map Inr bs)"

lemma write_arg_between:
  assumes "linked d c m" "arg_bytes cv v bs"
  shows "write_args (i2c_device d c mind) cv (v # vs) w (put m True False (between l h s)) =
    (case takes mind bs h l of (n, h', l') \<Rightarrow>
       if n < length bs then (Inr (w + of_nat n), put m True False (between l' h' s))
       else write_args (i2c_device d c mind) cv vs (w + of_nat n) (put m True False (between l' h' s)))"
proof (cases "\<exists>x. v = LNumber x")
  case True
  then obtain x b where "v = LNumber x" "byte_arg cv v = Inr b" "bs = [b]" using assms(2) by (auto simp: arg_bytes_def)
  then show ?thesis
    by (cases l; cases "accepts mind h b") (simp_all add: send_byte_between [OF assms(1)])
next
  case False
  then have step: "write_args (i2c_device d c mind) cv (v # vs) w u =
      mbind (send_bytes (i2c_device d c mind) (map Inr bs)) (\<lambda>i.
        if i < length bs then mret (w + of_nat i) else write_args (i2c_device d c mind) cv vs (w + of_nat i)) u" for u
    using assms(2) by (cases v) (auto simp: arg_bytes_def lua_istable_def luaL_checklstring_def lua_tolstring_def mbind_assoc)
  show ?thesis unfolding step by (simp add: send_bytes_between [OF assms(1)] split: prod.split)
qed

lemma write_args_between:
  assumes "linked d c m" "list_all2 (arg_bytes cv) vs bss"
  shows "write_args (i2c_device d c mind) cv vs w (put m True False (between l h s)) =
    (case takes mind (concat bss) h l of (n, h', l') \<Rightarrow> (Inr (w + of_nat n), put m True False (between l' h' s)))"
  using assms(2)
proof (induction vs bss arbitrary: w h l rule: list_all2_induct)
  case (Cons v vs bs bss)
  have "fst (takes mind bs h l) \<le> length bs" by (rule takes_bound)
  with Cons show ?case
    by (auto simp: write_arg_between [OF assms(1)] takes_append add.assoc simp del: write_args.simps split: prod.split)
qed simp

lemma recv_byte_handed:
  assumes "linked d c m"
  shows "platform_i2c_recv_byte (i2c_device d c mind) ack (put m True False (give_next mind (between True h s))) =
    (Inr (gives mind h), put m True False (if ack then give_next mind (between True (h @ [ReadOut (gives mind h) True]) s)
       else between False (h @ [ReadOut (gives mind h) False]) s))"
proof -
  let ?u = "give_next mind (between True h s)"
  have u: "phase ?u = Giving (gives mind h) 0" "pull ?u = (\<not> bit (gives mind h) 7)" "\<not> scl_out ?u"
    by (simp_all add: give_next_def between_def Let_def)
  have "after_reading mind (gives mind h) ack ?u = (if ack then give_next mind (between True (h @ [ReadOut (gives mind h) True]) s)
      else between False (h @ [ReadOut (gives mind h) False]) s)"
    by (cases s) (simp add: after_reading_def give_next_def between_def Let_def)
  with recv_byte_offered [OF assms u, of mind ack True] show ?thesis by simp
qed

lemma read_bytes_handed:
  assumes "linked d c m"
  shows "read_bytes (i2c_device d c mind) (Suc n) (put m True False (give_next mind (between True h s))) =
    (Inr (map item_byte (hands_out mind (Suc n) h)), put m True False (between False (h @ hands_out mind (Suc n) h) s))"
proof (induction n arbitrary: h)
  case 0
  show ?case by (simp add: recv_byte_handed [OF assms] item_byte_def Let_def)
next
  case (Suc n)
  show ?case
    using Suc.IH [of "h @ [ReadOut (gives mind h) True]"]
    unfolding read_bytes.simps(2) [of _ "Suc n"] hands_out.simps(2) [of _ "Suc n"]
    by (simp add: recv_byte_handed [OF assms] item_byte_def Let_def del: read_bytes.simps hands_out.simps)
qed

text \<open>Scripts that write to and read from a device.\<close>

definition i2c_send :: "'b i2c_bus \<Rightarrow> lua_conv \<Rightarrow> u8 \<Rightarrow> lua_value list \<Rightarrow> ('b, lua_value list) i2c_handler" where
  "i2c_send bus cv addr args =
     mbind (i2c_start bus cv [lua_int 0]) (\<lambda>_.
     mbind (i2c_address bus cv [lua_int 0, lua_int (uint addr), lua_int 0]) (\<lambda>ok.
     mbind (i2c_write bus cv (lua_int 0 # args)) (\<lambda>n.
     mbind (i2c_stop bus cv [lua_int 0]) (\<lambda>_. mret (ok @ n)))))"

definition i2c_fetch :: "'b i2c_bus \<Rightarrow> lua_conv \<Rightarrow> u8 \<Rightarrow> nat \<Rightarrow> ('b, lua_value list) i2c_handler" where
  "i2c_fetch bus cv addr n =
     mbind (i2c_start bus cv [lua_int 0]) (\<lambda>_.
     mbind (i2c_address bus cv [lua_int 0, lua_int (uint addr), lua_int 1]) (\<lambda>ok.
     mbind (i2c_read bus cv [lua_int 0, lua_int (int n)]) (\<lambda>r.
     mbind (i2c_stop bus cv [lua_int 0]) (\<lambda>_. mret (ok @ r)))))"

definition address_byte :: "u8 \<Rightarrow> bool \<Rightarrow> u8" where
  "address_byte addr reads = push_bit 1 addr OR of_bool reads"

lemma address_byte_sent:
  "(ucast (push_bit 1 (ucast (ucast (word_of_int (uint addr) :: u32) :: u16)) OR (of_bool reads :: u32)) :: u8) = address_byte addr reads"
proof -
  have addr: "(word_of_int (uint addr) :: u32) = ucast addr" by (simp only: ucast_eq)
  show ?thesis
    unfolding address_byte_def addr
  proof (rule bit_word_eqI)
    fix k assume "k < LENGTH(8)"
    then show "bit (ucast (push_bit 1 (ucast (ucast (ucast addr :: u32) :: u16)) OR (of_bool reads :: u32)) :: u8) k
        = bit (push_bit 1 addr OR of_bool reads) k"
      by (cases reads) (simp_all only: bit_ucast_iff bit_or_iff bit_push_bit_iff bit_1_iff bit_0_eq bot_apply of_bool_eq possible_bit_word, auto)
  qed
qed

lemma check_i2c_zero: "check_i2c cv (lua_int 0 # args) = Inr ()"
  by (simp add: check_i2c_def platform_i2c_exists_def NUM_I2C_def)

lemma i2c_start_seen:
  assumes "linked d c m" "at_rest True b s"
  shows "i2c_start (i2c_device d c mind) cv [lua_int 0] (put m True b s) =
    (Inr [], put m False True (s\<lparr>sda_out := False, scl_out := True, phase := Taking True [], seen := seen s @ [Start]\<rparr>))"
  using start_seen [OF assms] by (simp add: i2c_start_def check_i2c_zero platform_i2c_send_start_def)

lemma i2c_stop_seen:
  assumes "linked d c m"
  shows "i2c_stop (i2c_device d c mind) cv [lua_int 0] (put m True False (between l h s)) =
    (Inr [], put m True True (s\<lparr>sda_out := True, scl_out := True, pull := False, phase := Idle, seen := h @ [Stop]\<rparr>))"
proof -
  have "at_rest True False (between l h s)" by (simp add: at_rest_def between_def)
  from stop_seen [OF assms this] show ?thesis
    by (cases s) (simp add: i2c_stop_def check_i2c_zero platform_i2c_send_stop_def, simp add: between_def)
qed

lemma i2c_address_seen:
  assumes "linked d c m" "addr < 128" "phase s = Taking True []" "\<not> pull s" "sda_out s = a" "scl_out s = b"
  shows "i2c_address (i2c_device d c mind) cv [lua_int 0, lua_int (uint addr), lua_int (of_bool reads)] (put m a b s) =
    (Inr [LBoolean (accepts mind (seen s) (address_byte addr reads))],
     put m True False (after_byte mind True (address_byte addr reads) s))"
proof -
  have addr: "0 \<le> uint addr" "uint addr < 128" using assms(2) by (simp_all add: word_less_def)
  obtain n where n: "n = uint addr" by simp
  have arg: "luaL_checkinteger cv (lua_int n) = Inr (word_of_int n)"
    by (rule luaL_checkinteger_int) (use addr [folded n] in simp_all)
  have dir: "luaL_checkinteger cv (lua_int (of_bool reads)) = Inr (of_bool reads)" by (cases reads) simp_all
  have small: "sint (word_of_int k :: u32) = k" if "0 \<le> k" "k < 128" for k
    using that by (subst int_word_sint) simp
  have "sint (word_of_int n :: u32) = n" using addr unfolding n by (rule small)
  then have "i2c_address (i2c_device d c mind) cv [lua_int 0, lua_int n, lua_int (of_bool reads)] (put m a b s) =
      mbind (platform_i2c_send_address (i2c_device d c mind) (ucast (word_of_int n :: u32)) (of_bool reads)) (\<lambda>ok. mret [LBoolean ok]) (put m a b s)"
    using addr [folded n] arg dir
    by (cases reads) (simp_all add: i2c_address_def platform_i2c_exists_def NUM_I2C_def index2adr_def)
  then show ?thesis
    using send_byte_taken [OF assms(1,3-6), of mind "address_byte addr reads"]
    unfolding n platform_i2c_send_address_def address_byte_sent by simp
qed

lemma address_bit: "bit (address_byte addr reads) 0 = reads"
  by (cases reads) (simp_all add: address_byte_def bit_simps del: push_bit_Suc)

lemma after_address_write:
  "after_byte mind True (address_byte addr False) s =
   between (accepts mind (seen s) (address_byte addr False)) (seen s @ [Written (address_byte addr False) (accepts mind (seen s) (address_byte addr False))]) s"
  by (cases s) (simp add: after_byte_def between_def address_bit Let_def)

lemma after_address_read:
  assumes "accepts mind (seen s) (address_byte addr True)"
  shows "after_byte mind True (address_byte addr True) s =
    give_next mind (between True (seen s @ [Written (address_byte addr True) True]) s)"
  using assms by (cases s) (simp add: after_byte_def between_def address_bit give_next_def Let_def)

text \<open>C9: A device on the bus that is written to sees a start, its address with the write bit, the bytes of all
  arguments in order (numbers, tables and strings alike) up to the first that it does not
  acknowledge, and a stop; the script is told whether the address was acknowledged and how many bytes were.
  The device is any that follows the rules of the bus.\<close>

theorem i2c_write_seen:
  assumes "linked d c m" "at_rest True True s" "addr < 128" "args \<noteq> []" "list_all2 (arg_bytes cv) args bss"
    and "length (concat bss) < 2 ^ 31"
    and "h = seen s @ [Start]" "a = address_byte addr False"
    and "takes mind (concat bss) (h @ [Written a (accepts mind h a)]) (accepts mind h a) = (n, h', l)"
  shows "i2c_send (i2c_device d c mind) cv addr args (put m True True s) =
    (Inr [LBoolean (accepts mind h a), lua_int (int n)], put m True True (s\<lparr>phase := Idle, seen := h' @ [Stop]\<rparr>))"
proof -
  let ?s = "s\<lparr>sda_out := False, scl_out := True, phase := Taking True [], seen := h\<rparr>"
  have rest: "sda_out s" "scl_out s" "\<not> pull s" using assms(2) by (simp_all add: at_rest_def)
  have start: "i2c_start (i2c_device d c mind) cv [lua_int 0] (put m True True s) = (Inr [], put m False True ?s)"
    using i2c_start_seen [OF assms(1,2)] assms(7) by simp
  let ?b = "between (accepts mind h a) (h @ [Written a (accepts mind h a)]) ?s"
  have address: "i2c_address (i2c_device d c mind) cv [lua_int 0, lua_int (uint addr), lua_int 0] (put m False True ?s) =
      (Inr [LBoolean (accepts mind h a)], put m True False ?b)"
    using i2c_address_seen [OF assms(1,3), of ?s False True mind cv False] rest(3)
    unfolding after_address_write by (simp add: assms(8))
  have "n < 2 ^ 31" using takes_bound [of mind "concat bss"] assms(6,9) by (metis fst_conv le_less_trans)
  then have n: "sint (of_nat n :: u32) = int n"
    using int_word_sint [of "int n", where 'a = 32] by simp
  have wrote: "i2c_write (i2c_device d c mind) cv (lua_int 0 # args) (put m True False ?b) = (Inr [lua_int (int n)], put m True False (between l h' ?s))"
    using write_args_between [OF assms(1,5), of mind 0] assms(4,9) n
    by (simp add: i2c_write_def check_i2c_zero neq_Nil_conv Suc_le_eq)
  have "?s\<lparr>sda_out := True, scl_out := True, pull := False, phase := Idle, seen := h' @ [Stop]\<rparr> = s\<lparr>phase := Idle, seen := h' @ [Stop]\<rparr>"
    using rest by (cases s) simp
  with start address wrote i2c_stop_seen [OF assms(1), of mind cv l h' ?s] show ?thesis
    by (simp add: i2c_send_def)
qed

text \<open>An example: a device on pins 2 and 14 that acknowledges everything and sends the number of items it has seen.\<close>

definition demo_slave :: slave where
  "demo_slave = \<lparr>sda_out = True, scl_out = True, pull = False, phase = Idle, seen = []\<rparr>"

definition demo_mind :: slave_mind where
  "demo_mind = \<lparr>accepts = (\<lambda>h b. length h < 3), gives = (\<lambda>h. of_nat (length h))\<rparr>"

definition demo_i2c :: "slave i2c_master" where
  "demo_i2c = \<lparr>wires = demo_slave, m_nLastSDA = 1, m_nLastSCL = 1, pinSDA = 2, pinSCL = 14\<rparr>"

lemma demo_linked: "linked 2 14 demo_i2c" "at_rest True True demo_slave"
  by (simp_all add: linked_def demo_i2c_def at_rest_def demo_slave_def)

theorem i2c_write_seen_witness:
  "\<exists>w. i2c_send (i2c_device 2 14 demo_mind) plain_conv 0x20 [lua_int 5, LString [1, 2]] (put demo_i2c True True demo_slave) =
     (Inr [LBoolean True, lua_int 1], w)"
proof -
  have "list_all2 (arg_bytes plain_conv) [lua_int 5, LString [1, 2]] [[5], [1, 2]]"
    by (simp add: arg_bytes_def byte_arg_def)
  from i2c_write_seen [OF demo_linked _ _ this _ refl refl, where addr = "0x20" and mind = demo_mind and l = False]
  show ?thesis by (simp add: demo_mind_def demo_slave_def)
qed

text \<open>C38: A device that acknowledges its address with the read bit is read from: the script gets exactly the
  bytes it sends, every one but the last is acknowledged, and the transfer ends with a stop.\<close>

theorem i2c_read_seen:
  assumes "linked d c m" "at_rest True True s" "addr < 128" "0 < n" "n < 2 ^ 31"
    and "h = seen s @ [Start]" "a = address_byte addr True" "accepts mind h a"
    and "out = hands_out mind n (h @ [Written a True])"
  shows "i2c_fetch (i2c_device d c mind) cv addr n (put m True True s) =
    (Inr [LBoolean True, LString (map item_byte out)],
     put m True True (s\<lparr>phase := Idle, seen := h @ [Written a True] @ out @ [Stop]\<rparr>))"
proof -
  let ?s = "s\<lparr>sda_out := False, scl_out := True, phase := Taking True [], seen := h\<rparr>" and ?h = "h @ [Written a True]"
  have rest: "sda_out s" "scl_out s" "\<not> pull s" using assms(2) by (simp_all add: at_rest_def)
  have start: "i2c_start (i2c_device d c mind) cv [lua_int 0] (put m True True s) = (Inr [], put m False True ?s)"
    using i2c_start_seen [OF assms(1,2)] assms(6) by simp
  have address: "i2c_address (i2c_device d c mind) cv [lua_int 0, lua_int (uint addr), lua_int 1] (put m False True ?s) =
      (Inr [LBoolean True], put m True False (give_next mind (between True ?h ?s)))"
    using i2c_address_seen [OF assms(1,3), of ?s False True mind cv True] rest(3) assms(7,8)
      after_address_read [of mind ?s addr] by simp
  obtain k where k: "n = Suc k" using assms(4) by (cases n) auto
  have arg: "luaL_checkinteger cv (lua_int (int n)) = Inr (of_nat n)"
    using luaL_checkinteger_int [of "int n" cv] assms(5) by simp
  have u: "unat (of_nat n :: u32) = n" using assms(5) by (intro unat_of_nat_small) simp
  then have "(of_nat n :: u32) \<noteq> 0" using assms(4) by (metis unat_0 less_numeral_extra(3))
  then have got: "i2c_read (i2c_device d c mind) cv [lua_int 0, lua_int (int n)] (put m True False (give_next mind (between True ?h ?s))) =
      (Inr [LString (map item_byte out)], put m True False (between False (?h @ out) ?s))"
    using read_bytes_handed [OF assms(1), of mind k ?h ?s] arg u assms(9)
    by (simp add: i2c_read_def platform_i2c_exists_def NUM_I2C_def index2adr_def k [symmetric] del: read_bytes.simps hands_out.simps of_nat_Suc)
  have "?s\<lparr>sda_out := True, scl_out := True, pull := False, phase := Idle, seen := (?h @ out) @ [Stop]\<rparr>
      = s\<lparr>phase := Idle, seen := h @ [Written a True] @ out @ [Stop]\<rparr>"
    using rest by (cases s) simp
  with start address got i2c_stop_seen [OF assms(1), of mind cv False "?h @ out" ?s] show ?thesis
    by (simp add: i2c_fetch_def)
qed

theorem i2c_read_seen_witness:
  "\<exists>w. i2c_fetch (i2c_device 2 14 demo_mind) plain_conv 0x20 3 (put demo_i2c True True demo_slave) =
     (Inr [LBoolean True, LString [2, 3, 4]], w)"
proof -
  have "hands_out demo_mind 3 [Start, Written (address_byte 0x20 True) True] = [ReadOut 2 True, ReadOut 3 True, ReadOut 4 False]"
    by (simp add: demo_mind_def numeral_3_eq_3)
  with i2c_read_seen [OF demo_linked, where addr = "0x20" and n = 3 and h = "[Start]" and a = "address_byte 0x20 True" and mind = demo_mind] show ?thesis
    by (simp add: demo_mind_def demo_slave_def item_byte_def)
qed

section \<open>All calls\<close>

datatype i2c_call =
    I2cSetup "lua_value list"
  | I2cStart "lua_value list"
  | I2cStop "lua_value list"
  | I2cAddress "lua_value list"
  | I2cWrite "lua_value list"
  | I2cRead "lua_value list"

fun i2c_handle :: "'b i2c_bus \<Rightarrow> lua_conv \<Rightarrow> i2c_call \<Rightarrow> ('b, lua_value list) i2c_handler" where
  "i2c_handle bus cv (I2cSetup args) = i2c_setup bus cv args"
| "i2c_handle bus cv (I2cStart args) = i2c_start bus cv args"
| "i2c_handle bus cv (I2cStop args) = i2c_stop bus cv args"
| "i2c_handle bus cv (I2cAddress args) = i2c_address bus cv args"
| "i2c_handle bus cv (I2cWrite args) = i2c_write bus cv args"
| "i2c_handle bus cv (I2cRead args) = i2c_read bus cv args"

fun i2c_args :: "i2c_call \<Rightarrow> lua_value list" where
  "i2c_args (I2cSetup args) = args"
| "i2c_args (I2cStart args) = args"
| "i2c_args (I2cStop args) = args"
| "i2c_args (I2cAddress args) = args"
| "i2c_args (I2cWrite args) = args"
| "i2c_args (I2cRead args) = args"

text \<open>The numbers among the arguments, also in tables, fit C integers.\<close>

definition numbers_fit :: "lua_conv \<Rightarrow> lua_value list \<Rightarrow> bool" where
  "numbers_fit cv args \<longleftrightarrow> (\<forall>v\<in>set args. clean (lua_tointeger cv v) \<and> (\<forall>i. clean (lua_tointeger cv (lua_rawgeti v i))))"

lemma fit_integer: "numbers_fit cv args \<Longrightarrow> clean (luaL_checkinteger cv (index2adr args i))"
  by (intro checkinteger_clean index2adr_clean) (simp add: numbers_fit_def)

lemma byte_arg_clean: "clean (lua_tointeger cv v) \<Longrightarrow> clean (byte_arg cv v)"
  unfolding byte_arg_def by (auto intro!: clean_rbind checkinteger_clean)

lemma keeps_mret_mbind: "keeps P (f x) \<Longrightarrow> keeps P (mbind (mret x) f)"
  by (simp add: keeps_def)

lemma send_byte_keeps: "keeps (\<lambda>_. True) (platform_i2c_send_byte bus v)"
  by (simp add: keeps_def platform_i2c_send_byte_def split: prod.split)

lemma send_bytes_keeps: "\<forall>r\<in>set rs. clean r \<Longrightarrow> keeps (\<lambda>_. True) (send_bytes bus rs)"
  by (induction rs) (auto intro!: keeps_intro send_byte_keeps)

lemma table_bytes_clean: "numbers_fit cv (v # vs) \<Longrightarrow> \<forall>r\<in>set (table_bytes cv v). clean r"
  by (auto simp: table_bytes_def numbers_fit_def intro!: byte_arg_clean)

lemma write_args_keeps: "numbers_fit cv vs \<Longrightarrow> keeps (\<lambda>_. True) (write_args bus cv vs w)"
proof (induction vs arbitrary: w)
  case (Cons v vs)
  have vs: "numbers_fit cv vs" and v: "clean (byte_arg cv v)"
    using Cons.prems by (auto simp: numbers_fit_def intro!: byte_arg_clean)
  have rest: "keeps (\<lambda>_. True) (mbind (send_bytes bus rs) (\<lambda>i.
      if i < length rs then mret (w + of_nat i) else write_args bus cv vs (w + of_nat i)))" if "\<forall>r\<in>set rs. clean r" for rs
    using that by (intro keeps_intro send_bytes_keeps Cons.IH [OF vs])
  have bytes: "keeps (\<lambda>_. True) (mbind (if lua_istable v then mret (table_bytes cv v)
      else mbind (mlift (luaL_checklstring cv v)) (\<lambda>s. mret (map Inr s))) (\<lambda>rs. mbind (send_bytes bus rs) (\<lambda>i.
      if i < length rs then mret (w + of_nat i) else write_args bus cv vs (w + of_nat i))))"
  proof (cases "lua_istable v")
    case True
    have "keeps (\<lambda>_. True) (mbind (mret (table_bytes cv v)) (\<lambda>rs. mbind (send_bytes bus rs) (\<lambda>i.
      if i < length rs then mret (w + of_nat i) else write_args bus cv vs (w + of_nat i))))"
      by (rule keeps_mret_mbind) (rule rest [OF table_bytes_clean [OF Cons.prems]])
    with True show ?thesis by simp
  next
    case False
    have "keeps (\<lambda>_. True) (mbind (mbind (mlift (luaL_checklstring cv v)) (\<lambda>s. mret (map Inr s))) (\<lambda>rs. mbind (send_bytes bus rs) (\<lambda>i.
      if i < length rs then mret (w + of_nat i) else write_args bus cv vs (w + of_nat i))))"
      unfolding mbind_assoc by (intro keeps_mlift_mbind checklstring_clean keeps_mret_mbind rest) auto
    with False show ?thesis by simp
  qed
  have number: "keeps (\<lambda>_. True) (mbind (mlift (byte_arg cv v)) (\<lambda>data.
      mbind (platform_i2c_send_byte bus data) (\<lambda>ok. if \<not> ok then mret w else write_args bus cv vs (w + 1))))"
    by (intro keeps_intro send_byte_keeps Cons.IH [OF vs] v)
  from bytes number show ?case by (cases v) (simp_all only: write_args.simps lua_value.case)
qed (auto intro!: keeps_intro)

lemma read_bytes_keeps: "keeps (\<lambda>_. True) (read_bytes bus n)"
proof (induction n)
  case (Suc n)
  have "keeps (\<lambda>_. True) (platform_i2c_recv_byte bus a)" for a
    by (simp add: keeps_def platform_i2c_recv_byte_def split: prod.split)
  with Suc show ?case unfolding read_bytes.simps by (intro keeps_intro)
qed (simp add: keeps_def)

lemma setup_keeps: "keeps (\<lambda>_. True) (platform_i2c_setup bus sda scl speed)"
proof -
  have pin: "\<exists>n. arr_get pin_num (unat p) = Inr n" if "\<not> NUM_GPIO \<le> ucast p" for p :: u8
  proof -
    have "unat (ucast p :: u32) < length pin_num" using that by (intro unat_less_13) simp
    moreover have "unat (ucast p :: u32) = unat p" 
      using u8_bound [of p] by (simp add: unat_ucast_mod)
    ultimately show ?thesis by simp
  qed
  show ?thesis
  proof (cases "NUM_GPIO \<le> ucast sda \<or> NUM_GPIO \<le> ucast scl")
    case False
    with pin [of sda] pin [of scl] obtain d c where "arr_get pin_num (unat sda) = Inr d" "arr_get pin_num (unat scl) = Inr c" by auto
    with False show ?thesis by (simp add: platform_i2c_setup_def keeps_def i2c_master_gpio_init_def Let_def)
  qed (simp add: platform_i2c_setup_def keeps_def)
qed

lemma i2c_handle_keeps: "numbers_fit cv (i2c_args e) \<Longrightarrow> keeps (\<lambda>_. True) (i2c_handle bus cv e)"
proof -
  assume fit: "numbers_fit cv (i2c_args e)"
  have one: "clean (check_i2c cv (i2c_args e))"
    unfolding check_i2c_def by (intro clean_rbind fit_integer [OF fit]) simp
  have tail: "numbers_fit cv (tl (i2c_args e))" using fit by (cases "i2c_args e") (auto simp: numbers_fit_def)
  have "clean (check_gpio p)" for p by (simp add: check_gpio_def)
  with fit one tail show ?thesis
    by (cases e)
      (auto simp: i2c_setup_def i2c_start_def i2c_stop_def i2c_address_def i2c_write_def i2c_read_def platform_i2c_send_start_def
        platform_i2c_send_stop_def platform_i2c_send_address_def
        intro!: keeps_intro fit_integer setup_keeps send_byte_keeps write_args_keeps read_bytes_keeps)
qed

interpretation i2c: handled "i2c_handle bus cv" "\<lambda>_. True" "\<lambda>_ e. numbers_fit cv (i2c_args e)" for bus cv
  by unfold_locales (use i2c_handle_keeps in \<open>auto simp: keeps_def\<close>)

text \<open>No sequence of calls does anything undefined, whatever is on the bus.\<close>

lemma i2c_module_safe:
  assumes "\<forall>e\<in>set es. numbers_fit cv (i2c_args e)" "numbers_fit cv (i2c_args e)"
  shows "clean (fst (i2c_handle bus cv e (after (i2c_handle bus cv) es m)))"
proof -
  have "admissible (i2c_handle bus cv) (\<lambda>_ e. numbers_fit cv (i2c_args e)) m (es @ e # [])"
    using assms by (induction es arbitrary: m) simp_all
  from i2c.runs_clean [OF TrueI this] show ?thesis .
qed

end
