(* ===== verification/Registry.thy ===== *)
theory Registry
  imports Lua_Api
begin

text \<open>
  References into the Lua registry (\<open>luaL_ref\<close> and \<open>luaL_unref\<close> of \<open>lua/lauxlib.c\<close>). The free references are a
  linked list threaded through the registry itself: entry 0 holds the first of them, and the entry of a free
  reference the next. The contract of the two functions is the locale \<open>ref_table\<close>: they implement a finite map. The
  modules that keep Lua functions for later use only that contract.
\<close>

section \<open>The functions\<close>

definition LUA_NOREF :: int where "LUA_NOREF = -2"
definition LUA_REFNIL :: int where "LUA_REFNIL = -1"
definition FREELIST_REF :: int where "FREELIST_REF = 0"

text \<open>
  The entries with keys from 0: \<open>slots ! 0\<close> has the key 1. The string keys of the registry play no part. \<open>max_slots\<close> is
  the number of entries that there is memory for.
\<close>

record lua_registry =
  free_list :: lua_value
  slots :: "lua_value list"
  max_slots :: nat

definition reg_geti :: "lua_registry \<Rightarrow> int \<Rightarrow> lua_value" where
  "reg_geti r i = (if i = 0 then free_list r else if 0 < i then index2adr (slots r) (nat i) else LNil)"

text \<open>
  \<open>lua_rawseti\<close> on a key of the array part or the key right behind it, for which the table grows; without memory for
  that the interpreter raises an error. Other keys would go into the hash part of
  the table, which is not modelled; \<open>luaL_ref\<close> and \<open>luaL_unref\<close> set none (the facts below have no such outcome).
  The key 0 alone, the head of the free list, is a field of its own: it lies in the hash part of the
  registry, and the model takes it that this part has room for the one key when \<open>luaL_unref\<close> first sets it (there the interpreter
  could also raise a memory error).
\<close>

definition reg_seti :: "int \<Rightarrow> lua_value \<Rightarrow> lua_registry \<Rightarrow> lua_registry result" where
  "reg_seti i v r =
     (if i = 0 then Inr (r\<lparr>free_list := v\<rparr>)
      else if 0 < i \<and> nat i \<le> length (slots r) then Inr (r\<lparr>slots := (slots r)[nat i - 1 := v]\<rparr>)
      else if i = int (length (slots r)) + 1 then
        (if length (slots r) < max_slots r then Inr (r\<lparr>slots := slots r @ [v]\<rparr>)
         else Inl (LuaError ''not enough memory''))
      else Inl (OutOfBounds (nat i)))"

text \<open>
  When there is no free reference no entry is nil, so the length of the table is that of its entries (lemma
  \<open>no_hole_when_full\<close>).
\<close>

definition luaL_ref :: "lua_conv \<Rightarrow> lua_value \<Rightarrow> lua_registry \<Rightarrow> (int \<times> lua_registry) result" where
  "luaL_ref cv v r =
     (if v = LNil then Inr (LUA_REFNIL, r)
      else
      rbind (lua_tointeger cv (reg_geti r FREELIST_REF)) (\<lambda>d.
      if sint d \<noteq> 0 then
        rbind (reg_seti FREELIST_REF (reg_geti r (sint d)) r) (\<lambda>r.
        rbind (reg_seti (sint d) v r) (\<lambda>r. Inr (sint d, r)))
      else
        let ref = int (lua_objlen cv (LTable (slots r))) + 1 in
        rbind (reg_seti ref v r) (\<lambda>r. Inr (ref, r))))"

definition luaL_unref :: "int \<Rightarrow> lua_registry \<Rightarrow> lua_registry result" where
  "luaL_unref ref r =
     (if 0 \<le> ref then
        rbind (reg_seti ref (reg_geti r FREELIST_REF) r) (\<lambda>r.
        reg_seti FREELIST_REF (lua_int ref) r)
      else Inr r)"

definition new_registry :: "nat \<Rightarrow> lua_registry" where
  "new_registry n = \<lparr>free_list = LNil, slots = [], max_slots = n\<rparr>"

section \<open>Tables of callbacks\<close>

text \<open>
  A module keeps its callbacks in an array of references, \<open>LUA_NOREF\<close> for none. Against the map that the registry
  holds: every reference is that of a function and no two are the same, and the references \<open>fs\<close> of other modules are
  none of them.
\<close>

definition cb_table :: "int list \<Rightarrow> int list \<Rightarrow> (int \<rightharpoonup> lua_value) \<Rightarrow> bool" where
  "cb_table refs fs m \<longleftrightarrow>
     (\<forall>x\<in>set refs. x = LUA_NOREF \<or> 0 < x \<and> (\<exists>f. m x = Some f \<and> is_function f)) \<and>
     (\<forall>i<length refs. \<forall>j<length refs. refs ! i = refs ! j \<and> refs ! i \<noteq> LUA_NOREF \<longrightarrow> i = j) \<and>
     (\<forall>x\<in>set fs. 0 < x \<and> m x \<noteq> None \<and> x \<notin> set refs)"

text \<open>The function an entry stands for.\<close>

definition cb_function :: "int list \<Rightarrow> (int \<rightharpoonup> lua_value) \<Rightarrow> nat \<Rightarrow> lua_value option" where
  "cb_function refs m i = (if refs ! i = LUA_NOREF then None else m (refs ! i))"

lemma LUA_NOREF_neg: "LUA_NOREF < 0"
  by (simp add: LUA_NOREF_def)

lemma is_function_not_nil: "is_function f \<Longrightarrow> f \<noteq> LNil"
  by (auto simp: is_function_def)

lemma cb_table_entry:
  assumes "cb_table refs fs m" "i < length refs" "refs ! i \<noteq> LUA_NOREF"
  obtains f where "0 < refs ! i" "m (refs ! i) = Some f" "is_function f"
  using assms nth_mem [OF assms(2)] unfolding cb_table_def by blast

text \<open>A change of the map at an entry's own reference, or at an unused one, does not concern the others.\<close>

lemma cb_table_others:
  assumes t: "cb_table refs fs m" and i: "i < length refs"
    and m': "\<forall>x. x \<noteq> refs ! i \<longrightarrow> m x \<noteq> None \<longrightarrow> m' x = m x"
  shows "j < length refs \<Longrightarrow> j \<noteq> i \<Longrightarrow> refs ! j \<noteq> LUA_NOREF \<Longrightarrow> refs ! j \<noteq> refs ! i \<and> m' (refs ! j) = m (refs ! j) \<and> m (refs ! j) \<noteq> None"
    and "x \<in> set fs \<Longrightarrow> 0 < x \<and> x \<noteq> refs ! i \<and> m' x = m x \<and> m x \<noteq> None"
proof -
  assume j: "j < length refs" "j \<noteq> i" "refs ! j \<noteq> LUA_NOREF"
  then have "refs ! j \<noteq> refs ! i" using t i unfolding cb_table_def by metis
  with m' j cb_table_entry [OF t j(1,3)] show "refs ! j \<noteq> refs ! i \<and> m' (refs ! j) = m (refs ! j) \<and> m (refs ! j) \<noteq> None"
    by (metis option.distinct(1))
next
  assume "x \<in> set fs"
  then have "0 < x" "m x \<noteq> None" "x \<noteq> refs ! i" using t i unfolding cb_table_def by auto
  with m' show "0 < x \<and> x \<noteq> refs ! i \<and> m' x = m x \<and> m x \<noteq> None" by blast
qed

text \<open>Giving an entry a new reference, or none.\<close>

lemma cb_table_update:
  assumes t: "cb_table refs fs m" and i: "i < length refs"
    and m': "\<forall>x. x \<noteq> refs ! i \<longrightarrow> m x \<noteq> None \<longrightarrow> m' x = m x"
    and ref: "ref = LUA_NOREF \<or> 0 < ref \<and> (ref = refs ! i \<or> m ref = None) \<and> m' ref = Some f \<and> is_function f"
  shows "cb_table (refs[i := ref]) fs m'"
    and "j < length refs \<Longrightarrow> j \<noteq> i \<Longrightarrow> cb_function (refs[i := ref]) m' j = cb_function refs m j"
proof -
  note o = cb_table_others [OF t i m']
  have new: "refs ! j \<noteq> ref" if "j < length refs" "j \<noteq> i" "refs ! j \<noteq> LUA_NOREF" for j
    using o(1) [OF that] ref that(3) by auto
  have elem: "x = LUA_NOREF \<or> 0 < x \<and> (\<exists>f. m' x = Some f \<and> is_function f)" if x: "x \<in> set (refs[i := ref])" for x
  proof -
    from x obtain j where j: "j < length refs" "x = refs[i := ref] ! j" by (auto simp: in_set_conv_nth)
    show ?thesis
    proof (cases "j = i")
      case True
      with j ref show ?thesis by auto
    next
      case False
      with j have x: "x = refs ! j" by simp
      show ?thesis
      proof (cases "x = LUA_NOREF")
        case False
        with cb_table_entry [OF t j(1)] o(1) [OF j(1) \<open>j \<noteq> i\<close>] x show ?thesis by metis
      qed simp
    qed
  qed
  have uniq: "j = k" if "j < length refs" "k < length refs" "refs ! j = refs ! k" "refs ! j \<noteq> LUA_NOREF" for j k
    using t that unfolding cb_table_def by blast
  have "j = k" if "j < length refs" "k < length refs" "refs[i := ref] ! j = refs[i := ref] ! k" "refs[i := ref] ! j \<noteq> LUA_NOREF" for j k
    using that new [of j] new [of k] uniq [of j k] by (cases "j = i"; cases "k = i") auto
  moreover have "x \<notin> set (refs[i := ref])" if "x \<in> set fs" for x
  proof -
    have "x \<notin> set refs" using t that unfolding cb_table_def by blast
    moreover have "x \<noteq> ref" using o(2) [OF that] ref LUA_NOREF_neg by auto
    ultimately show ?thesis by (metis insertE set_update_subset_insert subsetD)
  qed
  ultimately show "cb_table (refs[i := ref]) fs m'"
    unfolding cb_table_def using elem o(2) by auto
  show "cb_function (refs[i := ref]) m' j = cb_function refs m j" if "j < length refs" "j \<noteq> i"
    using o(1) [OF that] that by (auto simp: cb_function_def)
qed

section \<open>The contract\<close>

text \<open>
  A reference table represents a finite map from references to values. \<open>room\<close> says that there is memory for one more;
  without it a new reference is refused. A reference that is given up makes room.
\<close>

locale ref_table =
  fixes holds :: "'r \<Rightarrow> (int \<rightharpoonup> lua_value) \<Rightarrow> bool"
    and room :: "'r \<Rightarrow> bool"
    and get :: "'r \<Rightarrow> int \<Rightarrow> lua_value"
    and ref :: "lua_value \<Rightarrow> 'r \<Rightarrow> (int \<times> 'r) result"
    and unref :: "int \<Rightarrow> 'r \<Rightarrow> 'r result"
  assumes get_holds: "holds r m \<Longrightarrow> m i = Some v \<Longrightarrow> get r i = v"
    and ref_holds: "holds r m \<Longrightarrow> room r \<Longrightarrow> v \<noteq> LNil \<Longrightarrow>
      \<exists>i r'. ref v r = Inr (i, r') \<and> 0 < i \<and> m i = None \<and> holds r' (m(i \<mapsto> v))"
    and ref_full: "holds r m \<Longrightarrow> \<not> room r \<Longrightarrow> v \<noteq> LNil \<Longrightarrow> \<exists>s. ref v r = Inl (LuaError s)"
    and unref_holds: "holds r m \<Longrightarrow> m i \<noteq> None \<Longrightarrow> \<exists>r'. unref i r = Inr r' \<and> holds r' (m(i := None)) \<and> room r'"
    and unref_none: "i < 0 \<Longrightarrow> unref i r = Inr r"
begin

text \<open>Giving up an old reference, if there is one, and making a new one: what the modules do with a callback.\<close>

lemma replace_holds:
  assumes r: "holds r m" "v \<noteq> LNil" and i: "i < 0 \<and> room r \<or> m i \<noteq> None"
  shows "\<exists>j r'. rbind (unref i r) (ref v) = Inr (j, r') \<and> 0 < j \<and> (j = i \<or> m j = None) \<and>
    holds r' ((m(i := None))(j \<mapsto> v))"
proof (cases "m i = None")
  case True
  with i have "unref i r = Inr r" "m(i := None) = m" "room r" by (auto simp: unref_none)
  with ref_holds [OF r(1) _ r(2)] show ?thesis by auto
next
  case False
  from unref_holds [OF r(1) False] obtain r1
    where r1: "unref i r = Inr r1" "holds r1 (m(i := None))" "room r1" by blast
  from ref_holds [OF r1(2,3) r(2)] r1(1) show ?thesis
    by (auto split: if_splits)
qed

text \<open>Tables of callbacks over a reference table: what a new function for an entry, and none, do to the others.\<close>

lemma store_callback:
  assumes r: "holds r m" "room r \<or> refs ! i \<noteq> LUA_NOREF" and t: "cb_table refs fs m" "i < length refs" "is_function f"
  shows "\<exists>k r' m'. rbind (if refs ! i \<noteq> LUA_NOREF then unref (refs ! i) r else Inr r) (ref f) = Inr (k, r') \<and>
    holds r' m' \<and> cb_table (refs[i := k]) fs m' \<and>
    (\<forall>j<length refs. cb_function (refs[i := k]) m' j = (if j = i then Some f else cb_function refs m j))"
proof -
  have "refs ! i = LUA_NOREF \<or> m (refs ! i) \<noteq> None"
    using cb_table_entry [OF t(1,2)] by fastforce
  with r(2) have i: "refs ! i < 0 \<and> room r \<or> m (refs ! i) \<noteq> None" using LUA_NOREF_neg by auto
  have skip: "(if refs ! i \<noteq> LUA_NOREF then unref (refs ! i) r else Inr r) = unref (refs ! i) r"
    using unref_none [OF LUA_NOREF_neg] by simp
  let ?m = "m(refs ! i := None)"
  from replace_holds [OF r(1) is_function_not_nil [OF t(3)] i] obtain k r'
    where k: "rbind (unref (refs ! i) r) (ref f) = Inr (k, r')" "0 < k" "k = refs ! i \<or> m k = None" "holds r' (?m(k \<mapsto> f))"
    by blast
  define m' where "m' = ?m(k \<mapsto> f)"
  have m': "\<forall>x. x \<noteq> refs ! i \<longrightarrow> m x \<noteq> None \<longrightarrow> m' x = m x"
    using k(3) by (auto simp: m'_def)
  have ref: "k = LUA_NOREF \<or> 0 < k \<and> (k = refs ! i \<or> m k = None) \<and> m' k = Some f \<and> is_function f"
    using k(2,3) t(3) by (simp add: m'_def)
  have "cb_function (refs[i := k]) m' i = Some f"
    using k(2) t(2) LUA_NOREF_neg by (auto simp: cb_function_def m'_def)
  with cb_table_update [OF t(1,2) m' ref] k(1) k(4) [folded m'_def] skip show ?thesis
    by (intro exI [of _ k] exI [of _ r'] exI [of _ m']) simp
qed

lemma store_refused:
  assumes "holds r m" "\<not> (room r \<or> refs ! i \<noteq> LUA_NOREF)" "is_function f"
  shows "\<exists>s. rbind (if refs ! i \<noteq> LUA_NOREF then unref (refs ! i) r else Inr r) (ref f) = Inl (LuaError s)"
  using ref_full [OF assms(1) _ is_function_not_nil [OF assms(3)]] assms(2) by auto

lemma drop_callback:
  assumes r: "holds r m" and t: "cb_table refs fs m" "i < length refs" "refs ! i \<noteq> LUA_NOREF"
  shows "\<exists>r' m'. unref (refs ! i) r = Inr r' \<and> holds r' m' \<and> cb_table (refs[i := LUA_NOREF]) fs m' \<and>
    (\<forall>j<length refs. cb_function (refs[i := LUA_NOREF]) m' j = (if j = i then None else cb_function refs m j))"
proof -
  have "m (refs ! i) \<noteq> None" using cb_table_entry [OF t] by fastforce
  from unref_holds [OF r this] obtain r'
    where r': "unref (refs ! i) r = Inr r'" "holds r' (m(refs ! i := None))" by blast
  define m' where "m' = m(refs ! i := None)"
  have "\<forall>x. x \<noteq> refs ! i \<longrightarrow> m x \<noteq> None \<longrightarrow> m' x = m x" by (simp add: m'_def)
  from cb_table_update [OF t(1,2) this, of LUA_NOREF] r'(1) r'(2) [folded m'_def] t(2) show ?thesis
    by (intro exI [of _ r'] exI [of _ m']) (simp add: cb_function_def [of _ _ i])
qed

text \<open>References of other modules come and go without any effect on the table.\<close>

lemma others_ref:
  assumes "holds r m" "room r" "v \<noteq> LNil" "cb_table refs fs m"
  shows "\<exists>k r' m'. ref v r = Inr (k, r') \<and> holds r' m' \<and> cb_table refs (k # fs) m' \<and>
    (\<forall>i<length refs. cb_function refs m' i = cb_function refs m i)"
proof -
  from ref_holds [OF assms(1-3)] obtain k r'
    where k: "ref v r = Inr (k, r')" "0 < k" "m k = None" "holds r' (m(k \<mapsto> v))" by blast
  have "k \<notin> set refs" using assms(4) k(2,3) LUA_NOREF_neg unfolding cb_table_def by fastforce
  moreover from this have "cb_function refs (m(k \<mapsto> v)) i = cb_function refs m i" if "i < length refs" for i
    using nth_mem [OF that] by (auto simp: cb_function_def)
  ultimately show ?thesis using k assms(4)
    by (intro exI [of _ k] exI [of _ r'] exI [of _ "m(k \<mapsto> v)"]) (auto simp: cb_table_def)
qed

lemma others_unref:
  assumes "holds r m" "cb_table refs fs m" "k \<in> set fs"
  shows "\<exists>r' m'. unref k r = Inr r' \<and> holds r' m' \<and> cb_table refs (removeAll k fs) m' \<and>
    (\<forall>i<length refs. cb_function refs m' i = cb_function refs m i)"
proof -
  have k: "m k \<noteq> None" "k \<notin> set refs" using assms(2,3) by (auto simp: cb_table_def)
  from unref_holds [OF assms(1) k(1)] obtain r'
    where r': "unref k r = Inr r'" "holds r' (m(k := None))" by blast
  have "cb_function refs (m(k := None)) i = cb_function refs m i" if "i < length refs" for i
    using nth_mem [OF that] k(2) by (auto simp: cb_function_def)
  with r' k(2) assms(2) show ?thesis
    by (intro exI [of _ r'] exI [of _ "m(k := None)"]) (auto simp: cb_table_def)
qed

text \<open>Reading an entry gives its function.\<close>

lemma read_callback:
  assumes "holds r m" "cb_table refs fs m" "i < length refs" "refs ! i \<noteq> LUA_NOREF"
  shows "cb_function refs m i = Some (get r (refs ! i)) \<and> is_function (get r (refs ! i))"
  using cb_table_entry [OF assms(2-4)] get_holds [OF assms(1)] assms(4) unfolding cb_function_def by metis

end

section \<open>The list of free references\<close>

fun free_chain :: "lua_value list \<Rightarrow> lua_value \<Rightarrow> nat list \<Rightarrow> bool" where
  "free_chain xs h [] = (h = LNil)"
| "free_chain xs h (i # is) =
     (h = lua_int (int i) \<and> 0 < i \<and> i \<le> length xs \<and> free_chain xs (xs ! (i - 1)) is)"

text \<open>
  The registry holds a map: the free list is a chain of distinct entries, every other entry is not nil, and these
  entries are the map.
\<close>

definition reg_room :: "lua_registry \<Rightarrow> bool" where
  "reg_room r \<longleftrightarrow> free_list r \<noteq> LNil \<or> length (slots r) < max_slots r"

definition reg_holds :: "lua_registry \<Rightarrow> (int \<rightharpoonup> lua_value) \<Rightarrow> bool" where
  "reg_holds r m \<longleftrightarrow> length (slots r) < 2 ^ 31 \<and> max_slots r < 2 ^ 31 \<and>
     (\<exists>fl. distinct fl \<and> free_chain (slots r) (free_list r) fl \<and>
       (\<forall>i. m i = (if 0 < i \<and> nat i \<le> length (slots r) \<and> nat i \<notin> set fl then Some (slots r ! (nat i - 1)) else None)) \<and>
       LNil \<notin> ran m)"

lemma free_chain_range: "free_chain xs h fl \<Longrightarrow> i \<in> set fl \<Longrightarrow> 0 < i \<and> i \<le> length xs"
  by (induction xs h fl rule: free_chain.induct) auto

lemma free_chain_update:
  "free_chain xs h fl \<Longrightarrow> 0 < i \<Longrightarrow> i \<notin> set fl \<Longrightarrow> free_chain (xs[i - 1 := v]) h fl"
proof (induction xs h fl rule: free_chain.induct)
  case (2 xs h j js)
  then have "xs[i - 1 := v] ! (j - 1) = xs ! (j - 1)" by (auto simp: nth_list_update)
  with 2 show ?case by simp
qed simp

lemma free_chain_append: "free_chain xs h fl \<Longrightarrow> free_chain (xs @ [v]) h fl"
proof (induction xs h fl rule: free_chain.induct)
  case (2 xs h j js)
  then show ?case by (auto simp: nth_append)
qed simp

lemma reg_holdsE:
  assumes "reg_holds r m"
  obtains fl where "length (slots r) < 2 ^ 31" "max_slots r < 2 ^ 31" "distinct fl" "free_chain (slots r) (free_list r) fl" "LNil \<notin> ran m"
    "\<And>i. m i = (if 0 < i \<and> nat i \<le> length (slots r) \<and> nat i \<notin> set fl then Some (slots r ! (nat i - 1)) else None)"
  using assms unfolding reg_holds_def by blast

lemma reg_get_holds: "reg_holds r m \<Longrightarrow> m i = Some v \<Longrightarrow> reg_geti r i = v"
  by (erule reg_holdsE) (simp add: reg_geti_def index2adr_def split: if_splits)

text \<open>Without a free reference no entry is nil: the length of the table is well defined when it is taken.\<close>

lemma no_hole_when_full:
  assumes "reg_holds r m" "free_list r = LNil"
  shows "LNil \<notin> set (slots r)"
proof
  assume "LNil \<in> set (slots r)"
  then obtain k where k: "k < length (slots r)" "slots r ! k = LNil"
    by (auto simp: in_set_conv_nth)
  obtain fl where fl: "free_chain (slots r) (free_list r) fl" and m: "LNil \<notin> ran m" "\<And>i. m i =
      (if 0 < i \<and> nat i \<le> length (slots r) \<and> nat i \<notin> set fl then Some (slots r ! (nat i - 1)) else None)"
    using assms(1) by (rule reg_holdsE) blast
  from fl assms(2) have "fl = []" by (cases fl) auto
  with k have "m (int k + 1) = Some LNil" by (simp add: m(2) nat_add_distrib)
  with m(1) show False by (auto intro: ranI)
qed

lemma reg_unref_none: "i < 0 \<Longrightarrow> luaL_unref i r = Inr r"
  by (simp add: luaL_unref_def)

lemma reg_unref_holds:
  assumes "reg_holds r m" "m i \<noteq> None"
  shows "\<exists>r'. luaL_unref i r = Inr r' \<and> reg_holds r' (m(i := None)) \<and> reg_room r'"
proof -
  obtain fl where len: "length (slots r) < 2 ^ 31" "max_slots r < 2 ^ 31" and fl: "distinct fl" "free_chain (slots r) (free_list r) fl"
    and nn: "LNil \<notin> ran m" and m: "\<And>i. m i = (if 0 < i \<and> nat i \<le> length (slots r) \<and> nat i \<notin> set fl
      then Some (slots r ! (nat i - 1)) else None)"
    using assms(1) by (rule reg_holdsE) blast
  from assms(2) have i: "0 < i" "nat i \<le> length (slots r)" "nat i \<notin> set fl" by (auto simp: m split: if_splits)
  let ?xs = "(slots r)[nat i - 1 := free_list r]"
  have r': "luaL_unref i r = Inr (r\<lparr>slots := ?xs, free_list := lua_int i\<rparr>)"
    using i by (simp add: luaL_unref_def reg_seti_def reg_geti_def FREELIST_REF_def)
  have c: "free_chain ?xs (lua_int i) (nat i # fl)"
    using free_chain_update [OF fl(2), of "nat i" "free_list r"] i by simp
  have "(m(i := None)) j = (if 0 < j \<and> nat j \<le> length ?xs \<and> nat j \<notin> set (nat i # fl) then Some (?xs ! (nat j - 1)) else None)" for j
    using i by (auto simp: m nth_list_update)
  moreover have "LNil \<notin> ran (m(i := None))" using nn by (auto simp: ran_def split: if_splits)
  ultimately have "reg_holds (r\<lparr>slots := ?xs, free_list := lua_int i\<rparr>) (m(i := None))"
    unfolding reg_holds_def using len c fl(1) i by (intro conjI exI [of _ "nat i # fl"]) auto
  with r' show ?thesis by (simp add: reg_room_def)
qed

lemma reg_ref_holds:
  assumes "reg_holds r m" "reg_room r" "v \<noteq> LNil"
  shows "\<exists>i r'. luaL_ref cv v r = Inr (i, r') \<and> 0 < i \<and> m i = None \<and> reg_holds r' (m(i \<mapsto> v))"
proof -
  obtain fl where len: "length (slots r) < 2 ^ 31" "max_slots r < 2 ^ 31" and fl: "distinct fl" "free_chain (slots r) (free_list r) fl"
    and nn: "LNil \<notin> ran m" and m: "\<And>i. m i = (if 0 < i \<and> nat i \<le> length (slots r) \<and> nat i \<notin> set fl
      then Some (slots r ! (nat i - 1)) else None)"
    using assms(1) by (rule reg_holdsE) blast
  have nn': "LNil \<notin> ran (m(i \<mapsto> v))" for i using nn assms(3) by (auto simp: ran_def split: if_splits)
  show ?thesis
  proof (cases fl)
    case Nil
    let ?i = "int (length (slots r)) + 1" and ?xs = "slots r @ [v]"
    have lim: "length (slots r) < max_slots r" using assms(2) fl(2) Nil by (simp add: reg_room_def)
    then have r': "luaL_ref cv v r = Inr (?i, r\<lparr>slots := ?xs\<rparr>)"
      using assms(3) fl(2) Nil by (simp add: luaL_ref_def reg_geti_def reg_seti_def FREELIST_REF_def lua_tointeger_def
          tonumber_def lua_objlen_def Let_def nat_add_distrib)
    have "(m(?i \<mapsto> v)) j = (if 0 < j \<and> nat j \<le> length ?xs \<and> nat j \<notin> set fl then Some (?xs ! (nat j - 1)) else None)" for j
      using Nil by (auto simp: m nth_append)
    then have "reg_holds (r\<lparr>slots := ?xs\<rparr>) (m(?i \<mapsto> v))"
      unfolding reg_holds_def using lim len fl free_chain_append nn' by (intro conjI exI [of _ fl]) auto
    moreover have "m ?i = None" by (simp add: m nat_add_distrib)
    ultimately show ?thesis using r' by (intro exI [of _ ?i] exI [of _ "r\<lparr>slots := ?xs\<rparr>"]) simp
  next
    case (Cons k ks)
    let ?xs = "(slots r)[k - 1 := v]" and ?h = "slots r ! (k - 1)"
    from fl Cons have k: "free_list r = lua_int (int k)" "0 < k" "k \<le> length (slots r)" "free_chain (slots r) ?h ks"
      "k \<notin> set ks" "distinct ks" by auto
    have "sint (word_of_int j :: u32) = j" if "0 \<le> j" "j < 2 ^ 31" for j
      using that by (simp add: int_word_sint)
    from this [of "int k"] have s: "sint (word_of_nat k :: u32) = int k" using k(3) len by simp
    have "lua_tointeger cv (free_list r) = Inr (word_of_int (int k))"
      using k(3) len by (simp add: k(1) lua_tointeger_def tonumber_def cfloat_to_int_def cf_trunc_def)
    then have r': "luaL_ref cv v r = Inr (int k, r\<lparr>free_list := ?h, slots := ?xs\<rparr>)"
      using assms(3) k(2,3) by (simp add: luaL_ref_def reg_geti_def reg_seti_def FREELIST_REF_def s index2adr_def)
    have "free_chain ?xs ?h ks" using free_chain_update [OF k(4,2,5)] by simp
    moreover have "(m(int k \<mapsto> v)) j = (if 0 < j \<and> nat j \<le> length ?xs \<and> nat j \<notin> set ks then Some (?xs ! (nat j - 1)) else None)" for j
      using k Cons by (auto simp: m nth_list_update)
    ultimately have "reg_holds (r\<lparr>free_list := ?h, slots := ?xs\<rparr>) (m(int k \<mapsto> v))"
      unfolding reg_holds_def using len nn' k(6) by (intro conjI exI [of _ ks]) auto
    moreover have "m (int k) = None" using Cons by (simp add: m)
    ultimately show ?thesis
      using r' k(2) by (intro exI [of _ "int k"] exI [of _ "r\<lparr>free_list := ?h, slots := ?xs\<rparr>"]) simp
  qed
qed

lemma reg_ref_full:
  assumes "reg_holds r m" "\<not> reg_room r" "v \<noteq> LNil"
  shows "\<exists>s. luaL_ref cv v r = Inl (LuaError s)"
  using assms(2,3) by (simp add: reg_room_def luaL_ref_def reg_geti_def reg_seti_def FREELIST_REF_def lua_tointeger_def
      tonumber_def lua_objlen_def Let_def nat_add_distrib)

interpretation reg: ref_table reg_holds reg_room reg_geti "luaL_ref cv" luaL_unref for cv
  by unfold_locales (fact reg_get_holds reg_ref_holds reg_ref_full reg_unref_holds reg_unref_none)+

lemma new_registry_holds: "n < 2 ^ 31 \<Longrightarrow> reg_holds (new_registry n) Map.empty"
  by (auto simp: reg_holds_def new_registry_def intro!: exI [of _ "[]"])

text \<open>C15: References are a map. Whatever sequence of references was made and given up before: a new reference is one that is
  not in use, its entry is the value, and all others keep theirs; giving up a reference that is in use removes it and
  nothing else; without memory a new reference is refused by a Lua error, but never right after one was given up.\<close>

theorem registry_implements_map:
  assumes "reg_holds r m"
  shows "(m i = Some u \<longrightarrow> reg_geti r i = u) \<and>
    (v \<noteq> LNil \<longrightarrow>
      (if reg_room r then \<exists>j r'. luaL_ref cv v r = Inr (j, r') \<and> m j = None \<and> j \<noteq> LUA_NOREF \<and> reg_holds r' (m(j \<mapsto> v))
       else \<exists>s. luaL_ref cv v r = Inl (LuaError s))) \<and>
    (m i \<noteq> None \<longrightarrow> (\<exists>r'. luaL_unref i r = Inr r' \<and> reg_room r' \<and> reg_holds r' (m(i := None))))"
proof (intro conjI impI)
  show "reg_geti r i = u" if "m i = Some u" by (rule reg.get_holds [OF assms that])
  show "\<exists>r'. luaL_unref i r = Inr r' \<and> reg_room r' \<and> reg_holds r' (m(i := None))" if "m i \<noteq> None"
    using reg.unref_holds [OF assms that] by blast
  show "if reg_room r then \<exists>j r'. luaL_ref cv v r = Inr (j, r') \<and> m j = None \<and> j \<noteq> LUA_NOREF \<and> reg_holds r' (m(j \<mapsto> v))
    else \<exists>s. luaL_ref cv v r = Inl (LuaError s)" if "v \<noteq> LNil"
    using reg.ref_holds [OF assms _ that, of cv] reg.ref_full [OF assms _ that, of cv] LUA_NOREF_neg by (auto simp: less_le)
qed

text \<open>An example: two references are made and the first given up.\<close>

definition used_registry :: lua_registry where
  "used_registry = \<lparr>free_list = lua_int 1, slots = [LNil, LFunction 4], max_slots = 2\<rparr>"

lemma used_registry_holds: "reg_holds used_registry [2 \<mapsto> LFunction 4]"
  unfolding reg_holds_def used_registry_def
  by (auto intro!: exI [of _ "[1]"] simp: nth_Cons' nat_eq_iff le_Suc_eq)

theorem registry_implements_map_witness:
  "\<exists>j r'. luaL_ref plain_conv (LFunction 5) used_registry = Inr (j, r') \<and> j \<noteq> 2 \<and>
     reg_holds r' ([2 \<mapsto> LFunction 4, j \<mapsto> LFunction 5])"
  using registry_implements_map [OF used_registry_holds, of 2 "LFunction 4" "LFunction 5" plain_conv]
  by (auto simp: reg_room_def used_registry_def split: if_splits)

end
