(* ===== verification/Tmr.thy ===== *)
theory Tmr
  imports Registry
begin

text \<open>
  The timer module (\<open>modules/tmr.c\<close>): seven alarms that call Lua functions, busy waiting, and a clock that is kept in
  microseconds from the 32-bit counter of the real-time clock. The functions are kept in the Lua registry, through the
  contract of \<open>Registry\<close>. The SDK's timers and clocks are outside the program: a timer is what the module told the SDK
  about it, and expiring timers and clock readings are events.
\<close>

section \<open>State\<close>

definition NUM_TMR :: u32 where "NUM_TMR = 7"

definition platform_tmr_exists :: "u32 \<Rightarrow> bool" where
  "platform_tmr_exists tid = (tid < NUM_TMR)"

datatype timer_cb = AlarmTimerCb nat | RtcTimerUpdateCb

text \<open>
  A timer: its function, whether its argument is the Lua state or null, and, when armed, the interval in
  milliseconds and whether it repeats.
\<close>

record os_timer =
  timer_func :: "timer_cb option"
  timer_arg :: bool
  timer_set :: "(u32 \<times> bool) option"

datatype tmr_out =
    OsDelayUs u32
  | WdtClear
  | LuaCall lua_value

text \<open>\<open>foreign\<close> names the references that other modules hold in the same registry.\<close>

record tmr_state =
  alarm_timer :: "os_timer list"
  alarm_timer_cb_ref :: "int list"
  rtc_timer_updator :: os_timer
  cur_count :: "64 word"
  rtc_us :: "64 word"
  lua_reg :: lua_registry
  foreign :: "int list"
  tmr_log :: "tmr_out list"

type_synonym 'a tmr_handler = "(tmr_state, 'a) handler"

definition tmr_emit :: "tmr_out list \<Rightarrow> unit tmr_handler" where
  "tmr_emit evs = mupd (\<lambda>w. w\<lparr>tmr_log := tmr_log w @ evs\<rparr>)"

text \<open>\<open>os_timer_disarm\<close>, \<open>os_timer_setfn\<close> and \<open>os_timer_arm\<close> on a timer.\<close>

definition disarm :: "os_timer \<Rightarrow> os_timer" where
  "disarm t = t\<lparr>timer_set := None\<rparr>"

definition setfn :: "timer_cb \<Rightarrow> bool \<Rightarrow> os_timer \<Rightarrow> os_timer" where
  "setfn f arg t = t\<lparr>timer_func := Some f, timer_arg := arg\<rparr>"

definition arm :: "u32 \<Rightarrow> bool \<Rightarrow> os_timer \<Rightarrow> os_timer" where
  "arm ms rep t = t\<lparr>timer_set := Some (ms, rep)\<rparr>"

definition upd_alarm :: "nat \<Rightarrow> (os_timer \<Rightarrow> os_timer) \<Rightarrow> unit tmr_handler" where
  "upd_alarm i f =
     mbind (mget alarm_timer) (\<lambda>ts.
     mbind (mlift (arr_get ts i)) (\<lambda>t.
     mupd (\<lambda>w. w\<lparr>alarm_timer := ts[i := f t]\<rparr>)))"

section \<open>Alarms\<close>

text \<open>Calling a Lua function is the last thing that \<open>alarm_timer_common\<close> does: what the function does follows as events.\<close>

definition alarm_call :: "lua_value \<Rightarrow> unit tmr_handler" where
  "alarm_call f = (if is_function f then tmr_emit [LuaCall f] else mfail (LuaError ''attempt to call a value''))"

definition alarm_timer_common :: "nat \<Rightarrow> unit tmr_handler" where
  "alarm_timer_common tid =
     mbind (mget alarm_timer_cb_ref) (\<lambda>refs.
     mbind (mlift (arr_get refs tid)) (\<lambda>ref.
     if ref = LUA_NOREF then mret ()
     else mbind (mget lua_reg) (\<lambda>r. alarm_call (reg_geti r ref))))"

text \<open>\<open>alarm_timer_cb0\<close> to \<open>alarm_timer_cb6\<close>, which differ in the index only.\<close>

definition alarm_timer_cb :: "nat \<Rightarrow> bool \<Rightarrow> unit tmr_handler" where
  "alarm_timer_cb tid arg = (if \<not> arg then mret () else alarm_timer_common tid)"

text \<open>Keeping the function for later.\<close>

definition keep_function :: "lua_conv \<Rightarrow> nat \<Rightarrow> lua_value \<Rightarrow> unit tmr_handler" where
  "keep_function cv tid f =
     mbind (mget alarm_timer_cb_ref) (\<lambda>refs.
     mbind (mlift (arr_get refs tid)) (\<lambda>old.
     mbind (mget lua_reg) (\<lambda>r.
     mbind (mlift (if old \<noteq> LUA_NOREF then luaL_unref old r else Inr r)) (\<lambda>r.
     mbind (mlift (luaL_ref cv f r)) (\<lambda>(ref, r).
     mupd (\<lambda>w. w\<lparr>lua_reg := r, alarm_timer_cb_ref := refs[tid := ref]\<rparr>))))))"

definition tmr_alarm :: "lua_conv \<Rightarrow> lua_value list \<Rightarrow> lua_value list tmr_handler" where
  "tmr_alarm cv args =
     mbind (mlift (luaL_checkinteger cv (index2adr args 1))) (\<lambda>tid.
     if \<not> platform_tmr_exists tid then mfail (LuaError ''tmr does not exist'')
     else
     mbind (mlift (luaL_checkinteger cv (index2adr args 2))) (\<lambda>interval.
     if sint interval \<le> 0 then mfail (LuaError ''wrong arg range'')
     else
     mbind (if lua_isnumber cv (index2adr args 3) then
              mbind (mlift (lua_tointeger cv (index2adr args 3))) (\<lambda>rep.
              if rep \<noteq> 1 \<and> rep \<noteq> 0 then mfail (LuaError ''wrong arg type'') else mret (rep = 1, 4))
            else mret (False, 3)) (\<lambda>(rep, stack).
     mbind (if is_function (index2adr args stack) then keep_function cv (unat tid) (index2adr args stack)
            else mret ()) (\<lambda>_.
     mbind (upd_alarm (unat tid) disarm) (\<lambda>_.
     mbind (upd_alarm (unat tid) (setfn (AlarmTimerCb (unat tid)) True)) (\<lambda>_.
     mbind (upd_alarm (unat tid) (arm interval rep)) (\<lambda>_.
     mret [])))))))"

definition tmr_stop :: "lua_conv \<Rightarrow> lua_value list \<Rightarrow> lua_value list tmr_handler" where
  "tmr_stop cv args =
     mbind (mlift (luaL_checkinteger cv (index2adr args 1))) (\<lambda>tid.
     if \<not> platform_tmr_exists tid then mfail (LuaError ''tmr does not exist'')
     else mbind (upd_alarm (unat tid) disarm) (\<lambda>_. mret []))"

section \<open>Delays and clocks\<close>

definition tmr_delay :: "lua_conv \<Rightarrow> lua_value list \<Rightarrow> lua_value list tmr_handler" where
  "tmr_delay cv args =
     mbind (mlift (luaL_checkinteger cv (index2adr args 1))) (\<lambda>us.
     if sint us \<le> 0 then mfail (LuaError ''wrong arg range'')
     else
     let sec = us div 1000000; remain = us mod 1000000 in
     mbind (mfor [0..<unat sec] (\<lambda>_. tmr_emit [OsDelayUs 1000000, WdtClear])) (\<lambda>_.
     mbind (if remain > 0 then tmr_emit [OsDelayUs remain] else mret ()) (\<lambda>_.
     mret [])))"

text \<open>The argument is \<open>system_get_time()\<close>.\<close>

definition tmr_now :: "u32 \<Rightarrow> lua_value list tmr_handler" where
  "tmr_now t = mret [lua_int (uint (0x7FFFFFFF AND t))]"

definition tmr_wdclr :: "lua_value list tmr_handler" where
  "tmr_wdclr = mbind (tmr_emit [WdtClear]) (\<lambda>_. mret [])"

text \<open>The arguments are \<open>system_get_rtc_time()\<close> and \<open>system_rtc_clock_cali_proc()\<close>, microseconds per tick times 4096.\<close>

definition rtc_timer_update_cb :: "u32 \<Rightarrow> u32 \<Rightarrow> unit tmr_handler" where
  "rtc_timer_update_cb rtc_time c =
     mupd (\<lambda>w.
       let t = ucast rtc_time :: 64 word;
           delta = (if cur_count w \<le> t then t - cur_count w else 0x100000000 + t - cur_count w);
           itg = ucast (drop_bit 12 c); dec = ucast (c AND 0xFFF) in
       w\<lparr>cur_count := t, rtc_us := rtc_us w + (delta * itg + drop_bit 12 (delta * dec))\<rparr>)"

definition tmr_time :: "lua_value list tmr_handler" where
  "tmr_time = mbind (mget rtc_us) (\<lambda>local.
     mret [lua_int (uint ((ucast (local div 1000000) :: u32) AND 0x7FFFFFFF))])"

definition luaopen_tmr :: "lua_value list tmr_handler" where
  "luaopen_tmr =
     mbind (mfor [0..<unat NUM_TMR] (\<lambda>i.
       mbind (upd_alarm i disarm) (\<lambda>_. upd_alarm i (setfn (AlarmTimerCb i) True)))) (\<lambda>_.
     mbind (mupd (\<lambda>w. w\<lparr>rtc_timer_updator := disarm (rtc_timer_updator w)\<rparr>)) (\<lambda>_.
     mbind (mupd (\<lambda>w. w\<lparr>rtc_timer_updator := setfn RtcTimerUpdateCb False (rtc_timer_updator w)\<rparr>)) (\<lambda>_.
     mbind (mupd (\<lambda>w. w\<lparr>rtc_timer_updator := arm 500 True (rtc_timer_updator w)\<rparr>)) (\<lambda>_.
     mret []))))"

text \<open>The static variables before any code has run, and after the module was opened.\<close>

definition tmr_statics :: "lua_registry \<Rightarrow> int list \<Rightarrow> tmr_state" where
  "tmr_statics r fs =
     (let z = \<lparr>timer_func = None, timer_arg = False, timer_set = None\<rparr> in
      \<lparr>alarm_timer = replicate 7 z, alarm_timer_cb_ref = replicate 7 LUA_NOREF, rtc_timer_updator = z,
       cur_count = 0, rtc_us = 0, lua_reg = r, foreign = fs, tmr_log = []\<rparr>)"

section \<open>Events\<close>

text \<open>
  The SDK calls the function of a timer when it expires, which disarms a timer that does not repeat; other
  modules make and give up references of their own.
\<close>

definition alarm_expires :: "nat \<Rightarrow> unit tmr_handler" where
  "alarm_expires i =
     mbind (mget alarm_timer) (\<lambda>ts.
     mbind (mlift (arr_get ts i)) (\<lambda>t.
     case timer_set t of
       None \<Rightarrow> mret ()
     | Some (ms, rep) \<Rightarrow>
         mbind (if rep then mret () else upd_alarm i disarm) (\<lambda>_.
         case timer_func t of
           Some (AlarmTimerCb k) \<Rightarrow> alarm_timer_cb k (timer_arg t)
         | _ \<Rightarrow> mfail NullPointer)))"

definition foreign_ref :: "lua_conv \<Rightarrow> lua_value \<Rightarrow> unit tmr_handler" where
  "foreign_ref cv v =
     mbind (mget lua_reg) (\<lambda>r.
     mbind (mlift (luaL_ref cv v r)) (\<lambda>(ref, r).
     mupd (\<lambda>w. w\<lparr>lua_reg := r, foreign := ref # foreign w\<rparr>)))"

definition foreign_unref :: "int \<Rightarrow> unit tmr_handler" where
  "foreign_unref ref =
     mbind (mget lua_reg) (\<lambda>r.
     mbind (mlift (luaL_unref ref r)) (\<lambda>r.
     mupd (\<lambda>w. w\<lparr>lua_reg := r, foreign := removeAll ref (foreign w)\<rparr>)))"

datatype tmr_event =
    Alarm "lua_value list"
  | Stop "lua_value list"
  | Delay "lua_value list"
  | Now u32
  | WdClr
  | Time
  | Expires nat
  | RtcExpires u32 u32
  | ForeignRef lua_value
  | ForeignUnref int

fun tmr_handle :: "lua_conv \<Rightarrow> tmr_event \<Rightarrow> lua_value list tmr_handler" where
  "tmr_handle cv (Alarm args) = tmr_alarm cv args"
| "tmr_handle cv (Stop args) = tmr_stop cv args"
| "tmr_handle cv (Delay args) = tmr_delay cv args"
| "tmr_handle cv (Now t) = tmr_now t"
| "tmr_handle cv WdClr = tmr_wdclr"
| "tmr_handle cv Time = tmr_time"
| "tmr_handle cv (Expires i) = mbind (alarm_expires i) (\<lambda>_. mret [])"
| "tmr_handle cv (RtcExpires t c) = mbind (rtc_timer_update_cb t c) (\<lambda>_. mret [])"
| "tmr_handle cv (ForeignRef v) = mbind (foreign_ref cv v) (\<lambda>_. mret [])"
| "tmr_handle cv (ForeignUnref i) = mbind (foreign_unref i) (\<lambda>_. mret [])"

section \<open>Invariant\<close>

text \<open>
  The callbacks of the alarms are a table of callbacks in the registry, and an armed alarm calls its own.
\<close>

definition tmr_inv :: "tmr_state \<Rightarrow> (int \<rightharpoonup> lua_value) \<Rightarrow> bool" where
  "tmr_inv w m \<longleftrightarrow>
     length (alarm_timer w) = 7 \<and> length (alarm_timer_cb_ref w) = 7 \<and> reg_holds (lua_reg w) m \<and>
     cb_table (alarm_timer_cb_ref w) (foreign w) m \<and>
     (\<forall>i<7. timer_set (alarm_timer w ! i) \<noteq> None \<longrightarrow>
        timer_func (alarm_timer w ! i) = Some (AlarmTimerCb i) \<and> timer_arg (alarm_timer w ! i))"

definition tmr_live :: "tmr_state \<Rightarrow> bool" where
  "tmr_live w \<longleftrightarrow> (\<exists>m. tmr_inv w m)"

text \<open>What an alarm is to a script: when it will expire and which function is called then.\<close>

definition alarm_of :: "tmr_state \<Rightarrow> nat \<Rightarrow> (u32 \<times> bool) option \<times> lua_value option" where
  "alarm_of w i =
     (timer_set (alarm_timer w ! i),
      if alarm_timer_cb_ref w ! i = LUA_NOREF then None else Some (reg_geti (lua_reg w) (alarm_timer_cb_ref w ! i)))"

text \<open>A step is fine for the alarms outside a set when it keeps the invariant and does not change them.\<close>

definition calm :: "nat set \<Rightarrow> tmr_state \<Rightarrow> 'a result \<times> tmr_state \<Rightarrow> bool" where
  "calm S w rw \<longleftrightarrow> clean (fst rw) \<and> tmr_live (snd rw) \<and> (\<forall>i<7. i \<notin> S \<longrightarrow> alarm_of (snd rw) i = alarm_of w i)"

lemma tmr_invD:
  assumes "tmr_inv w m"
  shows "length (alarm_timer w) = 7" "length (alarm_timer_cb_ref w) = 7" "reg_holds (lua_reg w) m"
    "cb_table (alarm_timer_cb_ref w) (foreign w) m"
    "\<And>i. i < 7 \<Longrightarrow> timer_set (alarm_timer w ! i) \<noteq> None \<Longrightarrow>
      timer_func (alarm_timer w ! i) = Some (AlarmTimerCb i) \<and> timer_arg (alarm_timer w ! i)"
  using assms unfolding tmr_inv_def by blast+

lemma alarm_function:
  assumes "tmr_inv w m" "i < 7"
  shows "snd (alarm_of w i) = cb_function (alarm_timer_cb_ref w) m i"
    and "snd (alarm_of w i) = Some f \<Longrightarrow> is_function f"
  using reg.read_callback [OF tmr_invD(3,4) [OF assms(1)], of i] assms(2) tmr_invD(2) [OF assms(1)]
  by (auto simp: alarm_of_def cb_function_def split: if_splits)

lemma timer_set_simps [simp]: "timer_set (disarm t) = None" "timer_set (arm ms rep t) = Some (ms, rep)"
  by (simp_all add: disarm_def arm_def)

lemma upd_alarm_eval:
  "length (alarm_timer w) = 7 \<Longrightarrow> i < 7 \<Longrightarrow>
   upd_alarm i f w = (Inr (), w\<lparr>alarm_timer := (alarm_timer w)[i := f (alarm_timer w ! i)]\<rparr>)"
  by (simp add: upd_alarm_def)

lemma tmr_inv_upd_alarm:
  assumes "tmr_inv w m" "i < 7" "timer_set t \<noteq> None \<Longrightarrow> timer_func t = Some (AlarmTimerCb i) \<and> timer_arg t"
  shows "tmr_inv (w\<lparr>alarm_timer := (alarm_timer w)[i := t]\<rparr>) m"
  using assms by (auto simp: tmr_inv_def nth_list_update)

lemma alarm_of_upd_alarm [simp]:
  "j \<noteq> i \<Longrightarrow> alarm_of (w\<lparr>alarm_timer := (alarm_timer w)[i := t]\<rparr>) j = alarm_of w j"
  "length (alarm_timer w) = 7 \<Longrightarrow> i < 7 \<Longrightarrow>
   alarm_of (w\<lparr>alarm_timer := (alarm_timer w)[i := t]\<rparr>) i = (timer_set t, snd (alarm_of w i))"
  by (simp_all add: alarm_of_def)

text \<open>Storing a function gives it to its alarm and leaves the others alone.\<close>

lemma keep_function_effect:
  assumes inv: "tmr_inv w m" and "reg_room (lua_reg w) \<or> alarm_timer_cb_ref w ! i \<noteq> LUA_NOREF" "i < 7" "is_function f"
  obtains w' m' where "keep_function cv i f w = (Inr (), w')" "tmr_inv w' m'" "alarm_timer w' = alarm_timer w"
    "tmr_log w' = tmr_log w" "\<And>j. j < 7 \<Longrightarrow> snd (alarm_of w' j) = (if j = i then Some f else snd (alarm_of w j))"
proof -
  note d = tmr_invD [OF inv]
  let ?refs = "alarm_timer_cb_ref w"
  have i: "i < length ?refs" using assms(3) d(2) by simp
  from reg.store_callback [OF d(3) assms(2) d(4) i assms(4), of cv] obtain k r' m'
    where k: "rbind (if ?refs ! i \<noteq> LUA_NOREF then luaL_unref (?refs ! i) (lua_reg w) else Inr (lua_reg w)) (luaL_ref cv f) = Inr (k, r')"
      "reg_holds r' m'" "cb_table (?refs[i := k]) (foreign w) m'"
      "\<forall>j<length ?refs. cb_function (?refs[i := k]) m' j = (if j = i then Some f else cb_function ?refs m j)"
    by blast
  let ?w = "w\<lparr>lua_reg := r', alarm_timer_cb_ref := ?refs[i := k]\<rparr>"
  have e: "keep_function cv i f w = (Inr (), ?w)"
    using k(1) i unfolding keep_function_def rbind_eq_Inr by auto
  have inv': "tmr_inv ?w m'" using k(2,3) d by (simp add: tmr_inv_def)
  show thesis
  proof (rule that [OF e inv'])
    show "snd (alarm_of ?w j) = (if j = i then Some f else snd (alarm_of w j))" if "j < 7" for j
      using k(4) that d(2) by (simp add: alarm_function(1) [OF inv' that] alarm_function(1) [OF inv that])
  qed simp_all
qed

lemma keep_function_refused:
  assumes inv: "tmr_inv w m" and "\<not> (reg_room (lua_reg w) \<or> alarm_timer_cb_ref w ! i \<noteq> LUA_NOREF)" "i < 7" "is_function f"
  obtains s where "keep_function cv i f w = (Inl (LuaError s), w)"
proof -
  note d = tmr_invD [OF inv]
  from reg.store_refused [OF d(3) assms(2,4), of cv] obtain s
    where "luaL_ref cv f (lua_reg w) = Inl (LuaError s)" using assms(2) by auto
  then show thesis
    using assms(2,3) d(2) by (intro that [of s]) (simp add: keep_function_def)
qed

text \<open>An alarm call with proper arguments: the function is stored if there is one, then the timer is armed.\<close>

definition set_alarm :: "lua_conv \<Rightarrow> nat \<Rightarrow> u32 \<Rightarrow> bool \<Rightarrow> lua_value \<Rightarrow> lua_value list tmr_handler" where
  "set_alarm cv i ms rep f =
     mbind (if is_function f then keep_function cv i f else mret ()) (\<lambda>_.
     mbind (upd_alarm i disarm) (\<lambda>_.
     mbind (upd_alarm i (setfn (AlarmTimerCb i) True)) (\<lambda>_.
     mbind (upd_alarm i (arm ms rep)) (\<lambda>_.
     mret []))))"

lemma set_alarm_effect:
  assumes inv: "tmr_inv w m" and "is_function f \<Longrightarrow> reg_room (lua_reg w) \<or> alarm_timer_cb_ref w ! i \<noteq> LUA_NOREF" "i < 7"
  obtains w' m' where "set_alarm cv i ms rep f w = (Inr [], w')" "tmr_inv w' m'" "tmr_log w' = tmr_log w"
    "\<And>j. j < 7 \<Longrightarrow> j \<noteq> i \<Longrightarrow> alarm_of w' j = alarm_of w j"
    "alarm_of w' i = (Some (ms, rep), if is_function f then Some f else snd (alarm_of w i))"
proof -
  obtain w1 m1 where w1: "(if is_function f then keep_function cv i f else mret ()) w = (Inr (), w1)" "tmr_inv w1 m1"
    "alarm_timer w1 = alarm_timer w" "tmr_log w1 = tmr_log w"
    "\<And>j. j < 7 \<Longrightarrow> snd (alarm_of w1 j) = (if j = i \<and> is_function f then Some f else snd (alarm_of w j))"
  proof (cases "is_function f")
    case True
    obtain w1 m1 where "keep_function cv i f w = (Inr (), w1)" "tmr_inv w1 m1" "alarm_timer w1 = alarm_timer w"
      "tmr_log w1 = tmr_log w" "\<And>j. j < 7 \<Longrightarrow> snd (alarm_of w1 j) = (if j = i then Some f else snd (alarm_of w j))"
      using keep_function_effect [OF inv assms(2) [OF True] assms(3) True] by blast
    with that True show thesis by simp
  qed (use inv in simp)
  let ?t = "arm ms rep (setfn (AlarmTimerCb i) True (disarm (alarm_timer w ! i)))"
  let ?w = "w1\<lparr>alarm_timer := (alarm_timer w1)[i := ?t]\<rparr>"
  have len: "length (alarm_timer w1) = 7" using tmr_invD(1) [OF w1(2)] .
  have e: "set_alarm cv i ms rep f w = (Inr [], ?w)"
    unfolding set_alarm_def
    by (subst mbind_Inr, rule w1(1))
      (simp add: assms(3) len mbind_split [of "upd_alarm _ _"] upd_alarm_eval w1(3) [symmetric])
  have "alarm_of w1 j = alarm_of w j" if "j < 7" "j \<noteq> i" for j
    using w1(5) [OF that(1)] that w1(3) by (auto simp: alarm_of_def)
  with w1(5) [OF assms(3)] assms(3) len show thesis
    by (intro that [OF e tmr_inv_upd_alarm [OF w1(2) assms(3)]]) (simp_all add: w1(4) arm_def setfn_def)
qed

lemma set_alarm_refused:
  assumes "tmr_inv w m" "\<not> (reg_room (lua_reg w) \<or> alarm_timer_cb_ref w ! i \<noteq> LUA_NOREF)" "i < 7" "is_function f"
  obtains s where "set_alarm cv i ms rep f w = (Inl (LuaError s), w)"
proof -
  obtain s where "keep_function cv i f w = (Inl (LuaError s), w)" using keep_function_refused [OF assms] .
  with assms(4) show thesis by (intro that [of s]) (simp add: set_alarm_def)
qed

lemma tmr_exists_iff: "platform_tmr_exists x \<longleftrightarrow> unat x < 7"
  by (simp add: platform_tmr_exists_def NUM_TMR_def word_less_nat_alt)

lemma calm_same: "tmr_live w \<Longrightarrow> clean r \<Longrightarrow> calm S w (r, w)"
  by (simp add: calm_def)

lemma calm_error: "r = Inl e \<Longrightarrow> clean r \<Longrightarrow> tmr_live w \<Longrightarrow> calm S w (Inl e, w)"
  by (auto simp: calm_def clean_Inl_iff)

text \<open>The alarm that a call names.\<close>

definition named :: "lua_conv \<Rightarrow> lua_value list \<Rightarrow> nat set" where
  "named cv args = {i. luaL_checkinteger cv (index2adr args 1) = Inr (of_nat i)}"

lemma namedI: "luaL_checkinteger cv (index2adr args 1) = Inr x \<Longrightarrow> unat x \<in> named cv args"
  by (simp add: named_def)

abbreviation plain :: "lua_conv \<Rightarrow> lua_value list \<Rightarrow> bool" where
  "plain cv args \<equiv> \<forall>v\<in>set args. clean (lua_tointeger cv v)"

lemma plain_check: "plain cv args \<Longrightarrow> clean (luaL_checkinteger cv (index2adr args i))"
  by (intro checkinteger_clean index2adr_clean) simp

lemma tmr_alarm_calm:
  assumes live: "tmr_live w" and "plain cv args"
  shows "calm (named cv args) w (tmr_alarm cv args w)"
proof -
  note clean = plain_check [OF assms(2)] index2adr_clean [OF assms(2)]
  from live obtain m where inv: "tmr_inv w m" by (auto simp: tmr_live_def)
  have set: "calm (named cv args) w (set_alarm cv (unat x) ms rep f w)"
    if x: "luaL_checkinteger cv (index2adr args 1) = Inr x" "platform_tmr_exists x" for x ms rep f
  proof -
    have x7: "unat x < 7" using x(2) by (simp add: tmr_exists_iff)
    show ?thesis
    proof (cases "is_function f \<longrightarrow> reg_room (lua_reg w) \<or> alarm_timer_cb_ref w ! unat x \<noteq> LUA_NOREF")
      case True
      then obtain w' m' where "set_alarm cv (unat x) ms rep f w = (Inr [], w')" "tmr_inv w' m'"
        "\<And>j. j < 7 \<Longrightarrow> j \<noteq> unat x \<Longrightarrow> alarm_of w' j = alarm_of w j"
        using set_alarm_effect [OF inv _ x7] by metis
      with namedI [OF x(1)] show ?thesis by (auto simp: calm_def tmr_live_def)
    next
      case False
      then obtain s where "set_alarm cv (unat x) ms rep f w = (Inl (LuaError s), w)"
        using set_alarm_refused [OF inv _ x7] by metis
      with live show ?thesis by (simp add: calm_same)
    qed
  qed
  show ?thesis
    unfolding tmr_alarm_def
    using set [unfolded set_alarm_def] clean live
    by (auto simp: calm_same mbind_assoc split: sum.splits intro: calm_error clean)
qed

text \<open>What an expiring timer does to its alarm, and the call it makes.\<close>

fun expired :: "(u32 \<times> bool) option \<times> lua_value option \<Rightarrow> (u32 \<times> bool) option \<times> lua_value option" where
  "expired (Some (ms, True), f) = (Some (ms, True), f)"
| "expired (_, f) = (None, f)"

fun due :: "(u32 \<times> bool) option \<times> lua_value option \<Rightarrow> tmr_out list" where
  "due (Some _, Some f) = [LuaCall f]"
| "due _ = []"

lemma tmr_inv_log: "tmr_inv (w\<lparr>tmr_log := l\<rparr>) m = tmr_inv w m" "alarm_of (w\<lparr>tmr_log := l\<rparr>) i = alarm_of w i"
  by (simp_all add: tmr_inv_def alarm_of_def)

lemma alarm_timer_common_effect:
  assumes "tmr_inv w m" "i < 7"
  shows "alarm_timer_common i w =
    (Inr (), w\<lparr>tmr_log := tmr_log w @ (case snd (alarm_of w i) of None \<Rightarrow> [] | Some f \<Rightarrow> [LuaCall f])\<rparr>)"
  using alarm_function(2) [OF assms] assms(2) tmr_invD(2) [OF assms(1)]
  by (auto simp: alarm_timer_common_def alarm_call_def tmr_emit_def alarm_of_def)

lemma alarm_expires_effect:
  assumes inv: "tmr_inv w m" and "i < 7"
  obtains w' where "alarm_expires i w = (Inr (), w')" "tmr_inv w' m" "tmr_log w' = tmr_log w @ due (alarm_of w i)"
    "\<And>j. j < 7 \<Longrightarrow> j \<noteq> i \<Longrightarrow> alarm_of w' j = alarm_of w j" "alarm_of w' i = expired (alarm_of w i)"
proof (cases "timer_set (alarm_timer w ! i)")
  case None
  have "alarm_expires i w = (Inr (), w)"
    using None assms(2) tmr_invD(1) [OF inv] by (simp add: alarm_expires_def)
  then show thesis by (rule that) (use inv None in \<open>simp_all add: alarm_of_def\<close>)
next
  case (Some p)
  obtain ms rep where p: "p = (ms, rep)" by fastforce
  note len = tmr_invD(1) [OF inv]
  let ?w1 = "if rep then w else w\<lparr>alarm_timer := (alarm_timer w)[i := disarm (alarm_timer w ! i)]\<rparr>"
  let ?w = "?w1\<lparr>tmr_log := tmr_log ?w1 @ (case snd (alarm_of ?w1 i) of None \<Rightarrow> [] | Some f \<Rightarrow> [LuaCall f])\<rparr>"
  have inv1: "tmr_inv ?w1 m"
    using inv tmr_inv_upd_alarm [OF inv assms(2), of "disarm (alarm_timer w ! i)"] by simp
  have fn: "timer_func (alarm_timer w ! i) = Some (AlarmTimerCb i)" "timer_arg (alarm_timer w ! i)"
    using tmr_invD(5) [OF inv assms(2)] Some by auto
  have e: "alarm_expires i w = (Inr (), ?w)"
    using assms(2) len fn Some alarm_timer_common_effect [OF inv1 assms(2)]
    by (cases rep) (simp_all add: alarm_expires_def p alarm_timer_cb_def mbind_split [of "upd_alarm _ _"] upd_alarm_eval)
  show thesis
  proof (rule that [OF e])
    show "alarm_of ?w i = expired (alarm_of w i)"
      using assms(2) len Some by (cases rep) (simp_all add: tmr_inv_log p alarm_of_def disarm_def)
    show "tmr_log ?w = tmr_log w @ due (alarm_of w i)"
      using assms(2) len Some by (cases rep) (simp_all add: p alarm_of_def)
  qed (use inv1 in \<open>simp_all add: tmr_inv_log\<close>)
qed

lemma tmr_stop_effect:
  assumes "tmr_inv w m" "luaL_checkinteger cv (index2adr args 1) = Inr x" "unat x < 7"
  shows "tmr_stop cv args w = (Inr [], w\<lparr>alarm_timer := (alarm_timer w)[unat x := disarm (alarm_timer w ! unat x)]\<rparr>)"
  using assms(2,3) tmr_invD(1) [OF assms(1)]
  by (simp add: tmr_stop_def tmr_exists_iff mbind_split [of "upd_alarm _ _"] upd_alarm_eval)

lemma tmr_stop_calm:
  assumes live: "tmr_live w" and "plain cv args"
  shows "calm (named cv args) w (tmr_stop cv args w)"
proof (cases "\<exists>x. luaL_checkinteger cv (index2adr args 1) = Inr x \<and> unat x < 7")
  case True
  then obtain x where x: "luaL_checkinteger cv (index2adr args 1) = Inr x" "unat x < 7" by blast
  from live obtain m where inv: "tmr_inv w m" by (auto simp: tmr_live_def)
  have "tmr_live (snd (tmr_stop cv args w))"
    unfolding tmr_live_def tmr_stop_effect [OF inv x] snd_conv
    by (rule exI, rule tmr_inv_upd_alarm [OF inv x(2)]) (simp add: disarm_def)
  with namedI [OF x(1)] show ?thesis
    by (auto simp: calm_def tmr_stop_effect [OF inv x] intro!: alarm_of_upd_alarm(1))
next
  case False
  with plain_check [OF assms(2)] live show ?thesis
    by (auto simp: tmr_stop_def tmr_exists_iff calm_same split: sum.splits intro: calm_error plain_check [OF assms(2)])
qed

text \<open>A delay: as many seconds, each followed by a sign of life to the watchdog, and the rest.\<close>

lemma emit_bind [simp]: "mbind (tmr_emit evs) f w = f () (w\<lparr>tmr_log := tmr_log w @ evs\<rparr>)"
  by (simp add: tmr_emit_def)

lemma emits: "mfor xs (\<lambda>_. tmr_emit evs) w = (Inr (), w\<lparr>tmr_log := tmr_log w @ concat (replicate (length xs) evs)\<rparr>)"
  by (induction xs arbitrary: w) simp_all

lemma tmr_delay_eval:
  assumes "luaL_checkinteger cv (index2adr args 1) = Inr us" "0 < sint us"
  shows "tmr_delay cv args w = (Inr [], w\<lparr>tmr_log := tmr_log w @
    concat (replicate (unat us div 1000000) [OsDelayUs 1000000, WdtClear]) @
    (if unat us mod 1000000 = 0 then [] else [OsDelayUs (us mod 1000000)])\<rparr>)"
proof -
  have "us mod 1000000 > 0 \<longleftrightarrow> unat us mod 1000000 \<noteq> 0"
    by (simp add: word_less_nat_alt unat_mod_distrib)
  then show ?thesis
    using assms by (simp add: tmr_delay_def Let_def mbind_split [of "mfor _ _"] emits unat_div_distrib)
qed

fun delay_us :: "tmr_out \<Rightarrow> nat" where
  "delay_us (OsDelayUs n) = unat n"
| "delay_us _ = 0"

text \<open>The delays add up to what was asked for, and none is longer than a second.\<close>

lemma tmr_delay_total:
  assumes "0 < us" "us < 2 ^ 31"
  shows "\<exists>evs. tmr_delay cv [lua_int us] w = (Inr [], w\<lparr>tmr_log := tmr_log w @ evs\<rparr>) \<and>
    int (sum_list (map delay_us evs)) = us \<and> (\<forall>e\<in>set evs. delay_us e \<le> 1000000)"
proof -
  let ?x = "word_of_int us :: u32"
  let ?evs = "concat (replicate (unat ?x div 1000000) [OsDelayUs 1000000, WdtClear]) @
    (if unat ?x mod 1000000 = 0 then [] else [OsDelayUs (?x mod 1000000)])"
  have x: "int (unat ?x) = us" using assms by (simp add: unsigned_of_int take_bit_int_eq_self)
  have "luaL_checkinteger cv (index2adr [lua_int us] 1) = Inr ?x" using assms by simp
  moreover have "0 < sint ?x" using assms by (simp add: int_word_sint)
  ultimately have e: "tmr_delay cv [lua_int us] w = (Inr [], w\<lparr>tmr_log := tmr_log w @ ?evs\<rparr>)"
    by (rule tmr_delay_eval)
  have "sum_list (map delay_us (concat (replicate k [OsDelayUs 1000000, WdtClear]))) = k * 1000000" for k
    by (induction k) simp_all
  then have "sum_list (map delay_us ?evs) = unat ?x" by (simp add: unat_mod_distrib mod_eq_0_iff_dvd)
  moreover have "\<forall>e\<in>set ?evs. delay_us e \<le> 1000000" by (auto simp: unat_mod_distrib less_imp_le)
  ultimately show ?thesis using e x by (intro exI [of _ ?evs]) (simp only: simp_thms)
qed

lemma tmr_delay_calm: "tmr_live w \<Longrightarrow> plain cv args \<Longrightarrow> calm S w (tmr_delay cv args w)"
proof (cases "\<exists>us. luaL_checkinteger cv (index2adr args 1) = Inr us \<and> 0 < sint us")
  case True
  then show "tmr_live w \<Longrightarrow> calm S w (tmr_delay cv args w)"
    by (auto simp: tmr_delay_eval calm_def tmr_live_def tmr_inv_log)
next
  case False
  then show "tmr_live w \<Longrightarrow> plain cv args \<Longrightarrow> calm S w (tmr_delay cv args w)"
    by (auto simp: tmr_delay_def calm_same not_less split: sum.splits intro: calm_error plain_check)
qed

lemma foreign_ref_calm:
  assumes "tmr_live w" "v \<noteq> LNil"
  shows "calm S w (foreign_ref cv v w)"
proof (cases "reg_room (lua_reg w)")
  case True
  from assms(1) obtain m where inv: "tmr_inv w m" by (auto simp: tmr_live_def)
  note d = tmr_invD [OF inv]
  from reg.others_ref [OF d(3) True assms(2) d(4), of cv] obtain k r' m'
    where k: "luaL_ref cv v (lua_reg w) = Inr (k, r')" "reg_holds r' m'" "cb_table (alarm_timer_cb_ref w) (k # foreign w) m'"
      "\<forall>i<length (alarm_timer_cb_ref w). cb_function (alarm_timer_cb_ref w) m' i = cb_function (alarm_timer_cb_ref w) m i"
    by blast
  let ?w = "w\<lparr>lua_reg := r', foreign := k # foreign w\<rparr>"
  have inv': "tmr_inv ?w m'" using k(2,3) d by (simp add: tmr_inv_def)
  have "alarm_of ?w i = alarm_of w i" if "i < 7" for i
    using k(4) that d(2) alarm_function(1) [OF inv that] alarm_function(1) [OF inv' that]
    by (intro prod_eqI) (simp_all add: alarm_of_def)
  with k(1) inv' show ?thesis by (auto simp: foreign_ref_def calm_def tmr_live_def)
next
  case False
  from assms(1) obtain m where "tmr_inv w m" by (auto simp: tmr_live_def)
  from reg.ref_full [OF tmr_invD(3) [OF this] False assms(2), of cv] obtain s
    where "luaL_ref cv v (lua_reg w) = Inl (LuaError s)" by blast
  with assms(1) show ?thesis by (simp add: foreign_ref_def calm_same)
qed

lemma foreign_unref_calm:
  assumes "tmr_live w" "k \<in> set (foreign w)"
  shows "calm S w (foreign_unref k w)"
proof -
  from assms(1) obtain m where inv: "tmr_inv w m" by (auto simp: tmr_live_def)
  note d = tmr_invD [OF inv]
  from reg.others_unref [OF d(3,4) assms(2)] obtain r' m'
    where k: "luaL_unref k (lua_reg w) = Inr r'" "reg_holds r' m'" "cb_table (alarm_timer_cb_ref w) (removeAll k (foreign w)) m'"
      "\<forall>i<length (alarm_timer_cb_ref w). cb_function (alarm_timer_cb_ref w) m' i = cb_function (alarm_timer_cb_ref w) m i"
    by blast
  let ?w = "w\<lparr>lua_reg := r', foreign := removeAll k (foreign w)\<rparr>"
  have inv': "tmr_inv ?w m'" using k(2,3) d by (simp add: tmr_inv_def)
  have "alarm_of ?w i = alarm_of w i" if "i < 7" for i
    using k(4) that d(2) alarm_function(1) [OF inv that] alarm_function(1) [OF inv' that]
    by (intro prod_eqI) (simp_all add: alarm_of_def)
  with k(1) inv' show ?thesis by (auto simp: foreign_unref_def calm_def tmr_live_def)
qed

text \<open>The module as it is opened at start, in a registry that other modules may use already.\<close>

lemma luaopen_tmr_eval:
  "luaopen_tmr (tmr_statics r fs) =
     (Inr [], (tmr_statics r fs)\<lparr>alarm_timer := map (\<lambda>i. \<lparr>timer_func = Some (AlarmTimerCb i), timer_arg = True, timer_set = None\<rparr>) [0..<7],
       rtc_timer_updator := \<lparr>timer_func = Some RtcTimerUpdateCb, timer_arg = False, timer_set = Some (500, True)\<rparr>\<rparr>)"
proof -
  have "[0..<unat NUM_TMR] = [0, 1, 2, 3, 4, 5, 6]" by (simp add: NUM_TMR_def upt_rec)
  moreover have "[0..<7] = [0, 1, 2, 3, 4, 5, 6]" by (simp add: upt_rec)
  moreover have "replicate 7 x = [x, x, x, x, x, x, x]" for x :: os_timer by (simp add: numeral_eq_Suc)
  ultimately show ?thesis
    by (simp add: luaopen_tmr_def tmr_statics_def upd_alarm_def disarm_def setfn_def arm_def Let_def)
qed

lemma luaopen_tmr_live:
  assumes "reg_holds r m" "\<forall>x\<in>set fs. 0 < x \<and> m x \<noteq> None"
  shows "tmr_live (snd (luaopen_tmr (tmr_statics r fs)))"
proof -
  have "cb_table (replicate 7 LUA_NOREF) fs m"
    using assms(2) LUA_NOREF_neg by (auto simp: cb_table_def)
  then show ?thesis
    unfolding tmr_live_def luaopen_tmr_eval
    using assms(1) by (intro exI [of _ m]) (simp add: tmr_inv_def tmr_statics_def Let_def)
qed

section \<open>Sequences of events\<close>

text \<open>The alarms an event is about, and when an event may happen.\<close>

fun concerned :: "lua_conv \<Rightarrow> tmr_event \<Rightarrow> nat set" where
  "concerned cv (Alarm args) = named cv args"
| "concerned cv (Stop args) = named cv args"
| "concerned cv (Expires i) = {i}"
| "concerned cv _ = {}"

fun tmr_event_ok :: "lua_conv \<Rightarrow> tmr_state \<Rightarrow> tmr_event \<Rightarrow> bool" where
  "tmr_event_ok cv w (Alarm args) = plain cv args"
| "tmr_event_ok cv w (Stop args) = plain cv args"
| "tmr_event_ok cv w (Delay args) = plain cv args"
| "tmr_event_ok cv w (Expires i) = (i < 7)"
| "tmr_event_ok cv w (ForeignRef v) = (v \<noteq> LNil)"
| "tmr_event_ok cv w (ForeignUnref k) = (k \<in> set (foreign w))"
| "tmr_event_ok cv w _ = True"

lemma calm_mret: "calm S w (m w) \<Longrightarrow> calm S w (mbind m (\<lambda>_. mret x) w)"
  by (cases "m w"; cases "fst (m w)") (auto simp: calm_def clean_Inl_iff)

lemma tmr_step:
  assumes live: "tmr_live w" and ok: "tmr_event_ok cv w e"
  shows "calm (concerned cv e) w (tmr_handle cv e w)"
proof (cases e)
  case (Expires i)
  from live obtain m where inv: "tmr_inv w m" by (auto simp: tmr_live_def)
  have "i < 7" using ok Expires by simp
  from alarm_expires_effect [OF inv this] obtain w' where "alarm_expires i w = (Inr (), w')" "tmr_inv w' m"
    "\<And>j. j < 7 \<Longrightarrow> j \<noteq> i \<Longrightarrow> alarm_of w' j = alarm_of w j" by blast
  then show ?thesis by (auto simp: Expires calm_def tmr_live_def)
next
  case (RtcExpires t c)
  have "calm {} w (rtc_timer_update_cb t c w)"
    using live by (simp add: rtc_timer_update_cb_def calm_def tmr_live_def tmr_inv_def alarm_of_def Let_def)
  then show ?thesis by (simp add: RtcExpires calm_mret del: One_nat_def)
next
  case WdClr
  with live show ?thesis by (simp add: tmr_wdclr_def calm_def tmr_live_def tmr_inv_log)
qed (use assms in \<open>simp_all add: tmr_alarm_calm tmr_stop_calm tmr_delay_calm foreign_ref_calm foreign_unref_calm calm_mret
  calm_same tmr_now_def tmr_time_def\<close>)

interpretation tmr: handled "tmr_handle cv" tmr_live "tmr_event_ok cv" for cv
  by unfold_locales (use tmr_step in \<open>auto simp: calm_def\<close>)

text \<open>No sequence of calls, expiring timers and references of other modules does anything undefined.\<close>

lemma tmr_module_safe:
  assumes "reg_holds r m" "\<forall>x\<in>set fs. 0 < x \<and> m x \<noteq> None" "w = snd (luaopen_tmr (tmr_statics r fs))"
    and "admissible (tmr_handle cv) (tmr_event_ok cv) w (es @ e # es')"
  shows "clean (fst (tmr_handle cv e (after (tmr_handle cv) es w)))"
  using tmr.runs_clean [OF _ assms(4)] luaopen_tmr_live [OF assms(1,2)] assms(3) by simp

lemma expires_step:
  assumes "tmr_live w" "i < 7"
  shows "alarm_of (snd (tmr_handle cv (Expires i) w)) i = expired (alarm_of w i)"
    and "tmr_log (snd (tmr_handle cv (Expires i) w)) = tmr_log w @ due (alarm_of w i)"
proof -
  from assms(1) obtain m where inv: "tmr_inv w m" by (auto simp: tmr_live_def)
  obtain w' where "alarm_expires i w = (Inr (), w')" "tmr_log w' = tmr_log w @ due (alarm_of w i)"
    "alarm_of w' i = expired (alarm_of w i)"
    using alarm_expires_effect [OF inv assms(2)] by blast
  then show "alarm_of (snd (tmr_handle cv (Expires i) w)) i = expired (alarm_of w i)"
    "tmr_log (snd (tmr_handle cv (Expires i) w)) = tmr_log w @ due (alarm_of w i)" by simp_all
qed

text \<open>Until an event is about it again, an alarm stays as it is, except that it expires.\<close>

lemma alarm_until:
  assumes "tmr_live w" "admissible (tmr_handle cv) (tmr_event_ok cv) w es" "i < 7"
    and "\<forall>e\<in>set es. e = Expires i \<or> i \<notin> concerned cv e"
  shows "alarm_of (after (tmr_handle cv) es w) i = (if Expires i \<in> set es then expired (alarm_of w i) else alarm_of w i)"
  using assms
proof (induction es arbitrary: w)
  case Nil
  then show ?case by (simp add: after_def)
next
  case (Cons e es)
  let ?w = "snd (tmr_handle cv e w)"
  have step: "calm (concerned cv e) w (tmr_handle cv e w)" using tmr_step Cons.prems(1,2) by simp
  then have "alarm_of (after (tmr_handle cv) es ?w) i = (if Expires i \<in> set es then expired (alarm_of ?w i) else alarm_of ?w i)"
    using Cons.prems by (intro Cons.IH) (auto simp: calm_def)
  moreover have "alarm_of ?w i = (if e = Expires i then expired (alarm_of w i) else alarm_of w i)"
    using expires_step(1) [OF Cons.prems(1,3), of cv] step Cons.prems(3,4) by (cases "e = Expires i") (auto simp: calm_def)
  moreover have "expired (expired p) = expired p" for p by (cases p rule: expired.cases) simp_all
  ultimately show ?case by (auto simp: after_def)
qed

lemma lua_tointeger_int:
  "- (2 ^ 31) \<le> n \<Longrightarrow> n < 2 ^ 31 \<Longrightarrow> lua_tointeger cv (lua_int n) = Inr (word_of_int n)"
  by (simp add: lua_tointeger_def tonumber_def cfloat_to_int_def cf_trunc_def)

lemma sint_word_of_int_32: "- (2 ^ 31) \<le> n \<Longrightarrow> n < 2 ^ 31 \<Longrightarrow> sint (word_of_int n :: u32) = n"
  by (simp add: int_word_sint)

lemma tmr_alarm_eval:
  assumes "n < 7" "0 < ms" "ms < 2 ^ 31"
  shows "tmr_alarm cv [lua_int (int n), lua_int ms, lua_int (of_bool rep), f] w =
    set_alarm cv n (word_of_int ms) rep f w"
proof -
  have "unat (word_of_nat n :: u32) = n" using assms(1) by (simp add: unat_of_nat take_bit_nat_eq_self)
  moreover have "platform_tmr_exists (word_of_nat n)" using assms(1) calculation by (simp add: tmr_exists_iff)
  moreover have "sint (word_of_int ms :: u32) = ms" using sint_word_of_int_32 assms(2,3) by simp
  moreover have "index2adr [a, b, c, d] 2 = b" "index2adr [a, b, c, d] 3 = c" "index2adr [a, b, c, d] 4 = d" for a b c d
    by (simp_all add: index2adr_def)
  ultimately show ?thesis
    using assms unfolding tmr_alarm_def set_alarm_def
    by (cases rep) (simp_all add: lua_tointeger_int lua_isnumber_def tonumber_def mbind_assoc)
qed

text \<open>C12: After \<open>tmr.alarm(i, ms, repeat, f)\<close> the expiring timer \<open>i\<close> calls \<open>f\<close>, whatever happens until then: other
  alarms are set, stopped and expire, other modules make and give up references in the shared registry, time passes.
  Only a call that names timer \<open>i\<close> can change that. A repeating alarm calls \<open>f\<close> every time, any other once.\<close>

theorem alarm_runs_function:
  assumes "tmr_live w" "tmr_handle cv (Alarm [lua_int (int n), lua_int ms, lua_int (of_bool rep), f]) w = (Inr [], w')"
    and "n < 7" "0 < ms" "ms < 2 ^ 31" "is_function f"
    and "admissible (tmr_handle cv) (tmr_event_ok cv) w' es"
    and "\<forall>e\<in>set es. e = Expires n \<or> n \<notin> concerned cv e"
  shows "tmr_log (after (tmr_handle cv) (es @ [Expires n]) w') =
    tmr_log (after (tmr_handle cv) es w') @ (if rep \<or> Expires n \<notin> set es then [LuaCall f] else [])"
proof -
  from assms(1) obtain m where inv: "tmr_inv w m" by (auto simp: tmr_live_def)
  have set: "set_alarm cv n (word_of_int ms) rep f w = (Inr [], w')"
    using assms(2-5) by (simp add: tmr_alarm_eval)
  have "reg_room (lua_reg w) \<or> alarm_timer_cb_ref w ! n \<noteq> LUA_NOREF"
    using set_alarm_refused [OF inv _ assms(3,6), of cv "word_of_int ms" rep] set by force
  then obtain w1 m1 where "set_alarm cv n (word_of_int ms) rep f w = (Inr [], w1)" "tmr_inv w1 m1"
    "alarm_of w1 n = (Some (word_of_int ms, rep), if is_function f then Some f else snd (alarm_of w n))"
    using set_alarm_effect [OF inv _ assms(3)] by blast
  with set assms(6) have w': "tmr_live w'" "alarm_of w' n = (Some (word_of_int ms, rep), Some f)"
    by (auto simp: tmr_live_def)
  let ?v = "after (tmr_handle cv) es w'"
  have "tmr_live ?v" by (rule tmr.runs_keep [OF w'(1) assms(7)])
  moreover have "alarm_of ?v n = (if Expires n \<in> set es then expired (alarm_of w' n) else alarm_of w' n)"
    by (rule alarm_until [OF w'(1) assms(7,3,8)])
  ultimately show ?thesis
    using expires_step(2) [of ?v n cv] assms(3) w'(2) by (cases rep) (simp_all add: after_def)
qed

text \<open>An example: two alarms and a reference of another module.\<close>

definition opened :: tmr_state where
  "opened = snd (luaopen_tmr (tmr_statics (new_registry 100) []))"

lemma opened_live: "tmr_live opened"
  unfolding opened_def by (rule luaopen_tmr_live [OF new_registry_holds]) simp_all

definition busy_events :: "tmr_event list" where
  "busy_events = [ForeignRef (LString [1]), Alarm [lua_int 3, lua_int 50, LFunction 8], Expires 3, ForeignUnref 2]"

definition busy_start :: tmr_state where
  "busy_start = snd (tmr_handle plain_conv (Alarm [lua_int (int 2), lua_int 1000, lua_int (of_bool False), LFunction 7]) opened)"

lemma busy_called:
  "tmr_handle plain_conv (Alarm [lua_int (int 2), lua_int 1000, lua_int (of_bool False), LFunction 7]) opened = (Inr [], busy_start)"
proof -
  have "fst (tmr_handle plain_conv (Alarm [lua_int (int 2), lua_int 1000, lua_int (of_bool False), LFunction 7]) opened) = Inr []"
    by code_simp
  then show ?thesis unfolding busy_start_def by (intro prod_eqI) simp_all
qed

lemma opened_clock: "cur_count opened = 0" "rtc_us opened = 0"
  unfolding opened_def luaopen_tmr_eval by (simp_all add: tmr_statics_def Let_def)

lemma busy_admissible: "admissible (tmr_handle plain_conv) (tmr_event_ok plain_conv) busy_start busy_events"
  by code_simp

lemma busy_elsewhere: "\<forall>e\<in>set busy_events. e = Expires 2 \<or> 2 \<notin> concerned plain_conv e"
  by (simp add: busy_events_def named_def)

theorem alarm_runs_function_witness:
  "tmr_log (after (tmr_handle plain_conv) (busy_events @ [Expires 2]) busy_start) =
     tmr_log (after (tmr_handle plain_conv) busy_events busy_start) @ [LuaCall (LFunction 7)]"
  using alarm_runs_function [OF opened_live busy_called _ _ _ _ busy_admissible busy_elsewhere]
  by (simp add: is_function_def busy_events_def)

section \<open>The clock\<close>

text \<open>
  The counter of the real-time clock as it would be with unlimited digits, at the times it is read, with the
  calibration at that time: it never runs backwards and less than one round of 32 bits passes between readings.
\<close>

fun ticking :: "nat \<Rightarrow> (nat \<times> u32) list \<Rightarrow> bool" where
  "ticking n [] = True"
| "ticking n ((k, c) # ks) = (n \<le> k \<and> k < n + 2 ^ 32 \<and> ticking k ks)"

text \<open>The microseconds that have passed, each difference rounded down.\<close>

fun elapsed :: "nat \<Rightarrow> (nat \<times> u32) list \<Rightarrow> nat" where
  "elapsed n [] = 0"
| "elapsed n ((k, c) # ks) = (k - n) * unat c div 4096 + elapsed k ks"

fun rtc_readings :: "tmr_event list \<Rightarrow> (u32 \<times> u32) list" where
  "rtc_readings [] = []"
| "rtc_readings (RtcExpires t c # es) = (t, c) # rtc_readings es"
| "rtc_readings (_ # es) = rtc_readings es"

definition clock_of :: "tmr_state \<Rightarrow> 64 word \<times> 64 word" where
  "clock_of w = (cur_count w, rtc_us w)"

lemma clock_of_update [simp]:
  "clock_of (w\<lparr>alarm_timer := ts\<rparr>) = clock_of w" "clock_of (w\<lparr>tmr_log := l\<rparr>) = clock_of w"
  "clock_of (w\<lparr>lua_reg := r, alarm_timer_cb_ref := refs\<rparr>) = clock_of w"
  "clock_of (w\<lparr>lua_reg := r, foreign := fs\<rparr>) = clock_of w"
  by (simp_all add: clock_of_def)

lemma leaves_clock [leaves_intro]:
  "leaves clock_of (upd_alarm i f)" "leaves clock_of (tmr_emit evs)" "leaves clock_of (alarm_call v)"
  "leaves clock_of (keep_function cv i v)" "leaves clock_of (mfor xs (\<lambda>_. tmr_emit evs))"
  unfolding upd_alarm_def keep_function_def alarm_call_def
  by (auto intro!: leaves_intro simp: emits tmr_emit_def)

lemma leaves_alarm_cb [leaves_intro]: "leaves clock_of (alarm_timer_cb i arg)"
  unfolding alarm_timer_cb_def alarm_timer_common_def by (intro leaves_intro)

lemma leaves_alarm_expires [leaves_intro]: "leaves clock_of (alarm_expires i)"
  unfolding alarm_expires_def by (intro leaves_intro) (auto intro: leaves_intro split: option.split timer_cb.split)

lemma other_events_leave_clock:
  "rtc_readings [e] = [] \<Longrightarrow> leaves clock_of (tmr_handle cv e)"
  by (cases e)
    (auto intro!: leaves_intro simp: tmr_alarm_def tmr_stop_def tmr_delay_def tmr_now_def tmr_wdclr_def tmr_time_def Let_def
      foreign_ref_def foreign_unref_def)

text \<open>One reading: the difference of the counters is right across the wrap-around, and so is its product.\<close>

lemma mod_step:
  assumes "(n :: nat) \<le> k" "k < n + M"
  shows "k - n = (if n mod M \<le> k mod M then k mod M - n mod M else M + k mod M - n mod M)"
proof -
  obtain d where d: "k = n + d" "d < M" using assms by (metis le_Suc_ex nat_add_left_cancel_less)
  have k: "k mod M = (n mod M + d) mod M" by (simp add: d(1) mod_add_left_eq)
  have r: "n mod M < M" using d(2) by simp
  show ?thesis
  proof (cases "n mod M + d < M")
    case True
    with k d(1) show ?thesis by simp
  next
    case False
    have "n mod M + d - M < M" using r d(2) by linarith
    with False k have "k mod M = n mod M + d - M" by (simp add: le_mod_geq)
    moreover have "\<not> n mod M \<le> n mod M + d - M" using False r d(2) by linarith
    ultimately show ?thesis using False d by simp
  qed
qed

lemma unat_ucast_64: "unat (ucast (x :: u32) :: 64 word) = unat x"
  by (simp add: unsigned_ucast_eq take_bit_nat_eq_self_iff order_less_trans [OF unat_less_word])

lemma rtc_delta:
  assumes "unat (cc :: 64 word) = n mod 2 ^ 32" "n \<le> k" "k < n + 2 ^ 32"
  shows "unat (let t = ucast (of_nat k :: u32) in if cc \<le> t then t - cc else 0x100000000 + t - cc) = k - n"
proof -
  let ?t = "ucast (of_nat k :: u32) :: 64 word"
  have t: "unat ?t = k mod 2 ^ 32" by (simp add: unat_ucast_64 unat_of_nat take_bit_eq_mod)
  have le: "cc \<le> ?t \<longleftrightarrow> n mod 2 ^ 32 \<le> k mod 2 ^ 32" unfolding word_le_nat_alt t assms(1) ..
  show ?thesis
  proof (cases "cc \<le> ?t")
    case True
    have "unat (?t - cc) = k mod 2 ^ 32 - n mod 2 ^ 32" unfolding unat_sub [OF True] t assms(1) ..
    with True mod_step [OF assms(2,3)] le show ?thesis by (simp only: Let_def if_True)
  next
    case False
    have s: "unat (0x100000000 + ?t) = 2 ^ 32 + k mod 2 ^ 32" by (subst unat_add_no_wrap) (simp_all add: t)
    have "n mod 2 ^ 32 < 2 ^ 32" by simp
    then have "cc \<le> 0x100000000 + ?t" unfolding word_le_nat_alt s assms(1) by (rule less_imp_le [OF trans_less_add1])
    from unat_sub [OF this] have "unat (0x100000000 + ?t - cc) = 2 ^ 32 + k mod 2 ^ 32 - n mod 2 ^ 32" unfolding s assms(1) .
    with False mod_step [OF assms(2,3)] le show ?thesis by (simp only: Let_def if_False)
  qed
qed

lemma rtc_product:
  assumes "unat (d :: 64 word) < 2 ^ 32"
  shows "unat (d * ucast (drop_bit 12 (c :: u32)) + drop_bit 12 (d * ucast (c AND 0xFFF))) = unat d * unat c div 4096"
proof -
  have "(0xFFF :: u32) = Bit_Operations.mask 12" by (simp add: mask_eq_exp_minus_1)
  then have "c AND 0xFFF = take_bit 12 c" by (simp only: take_bit_eq_mask)
  then have c: "unat (ucast (drop_bit 12 c) :: 64 word) = unat c div 4096" "unat (ucast (c AND 0xFFF) :: 64 word) = unat c mod 4096"
    by (simp_all add: unat_ucast_64 unat_drop_bit_eq unsigned_take_bit_eq) (simp_all add: drop_bit_eq_div take_bit_eq_mod)
  have "unat c < 2 ^ 32" using u32_bound [of c] by simp
  then have b: "unat c div 4096 < 2 ^ 20" "unat c mod 4096 < 2 ^ 12" by auto
  have p: "unat d * (unat c div 4096) < 2 ^ 52" "unat d * (unat c mod 4096) < 2 ^ 44"
    using mult_strict_mono' [OF assms b(1)] mult_strict_mono' [OF assms b(2)] by simp_all
  have i: "unat (d * ucast (drop_bit 12 c)) = unat d * (unat c div 4096)"
    using p(1) by (simp add: unat_word_ariths c)
  have f: "unat (drop_bit 12 (d * ucast (c AND 0xFFF))) = unat d * (unat c mod 4096) div 4096"
    using p(2) by (simp add: unat_drop_bit_eq drop_bit_eq_div unat_word_ariths c)
  have "unat d * (unat c mod 4096) div 4096 < 2 ^ 44" using p(2) by (rule order_le_less_trans [OF div_le_dividend])
  with p(1) have "unat (d * ucast (drop_bit 12 c) + drop_bit 12 (d * ucast (c AND 0xFFF))) =
      unat d * (unat c div 4096) + unat d * (unat c mod 4096) div 4096"
    by (subst unat_add_no_wrap) (simp_all add: i f)
  also have "\<dots> = (unat d * (unat c div 4096) * 4096 + unat d * (unat c mod 4096)) div 4096" by simp
  also have "unat d * (unat c div 4096) * 4096 + unat d * (unat c mod 4096) = unat d * unat c"
    by (metis add_mult_distrib2 div_mult_mod_eq mult.assoc)
  finally show ?thesis .
qed

lemma rtc_step:
  assumes "unat (cur_count w) = n mod 2 ^ 32" "n \<le> k" "k < n + 2 ^ 32" "w' = snd (rtc_timer_update_cb (of_nat k) c w)"
  shows "unat (cur_count w') = k mod 2 ^ 32"
    and "unat (rtc_us w) + (k - n) * unat c div 4096 < 2 ^ 64 \<Longrightarrow> unat (rtc_us w') = unat (rtc_us w) + (k - n) * unat c div 4096"
proof -
  show "unat (cur_count w') = k mod 2 ^ 32"
    by (simp add: assms(4) rtc_timer_update_cb_def Let_def unat_ucast_64 unat_of_nat take_bit_eq_mod)
  let ?d = "let t = ucast (of_nat k :: u32) in if cur_count w \<le> t then t - cur_count w else 0x100000000 + t - cur_count w"
  have d: "unat ?d = k - n" by (rule rtc_delta [OF assms(1-3)])
  have us: "rtc_us w' = rtc_us w + (?d * ucast (drop_bit 12 c) + drop_bit 12 (?d * ucast (c AND 0xFFF)))"
    by (simp add: assms(4) rtc_timer_update_cb_def Let_def)
  have "unat ?d < 2 ^ 32" using d assms(2,3) by simp
  note p = rtc_product [OF this, of c, unfolded d]
  show "unat (rtc_us w') = unat (rtc_us w) + (k - n) * unat c div 4096"
    if "unat (rtc_us w) + (k - n) * unat c div 4096 < 2 ^ 64"
    unfolding us using that p by (subst unat_add_no_wrap) simp_all
qed

lemma clock_unread:
  "rtc_readings [e] = [] \<Longrightarrow> rtc_us (snd (tmr_handle cv e w)) = rtc_us w \<and> cur_count (snd (tmr_handle cv e w)) = cur_count w"
  using leavesD [OF other_events_leave_clock, of e cv w] by (simp add: clock_of_def)

lemma clock_runs:
  assumes "unat (cur_count w) = n mod 2 ^ 32" "rtc_readings es = map (\<lambda>(k, c). (of_nat k, c)) ks" "ticking n ks"
    and "unat (rtc_us w) + elapsed n ks < 2 ^ 64"
  shows "unat (rtc_us (after (tmr_handle cv) es w)) = unat (rtc_us w) + elapsed n ks"
  using assms
proof (induction es arbitrary: w n ks)
  case Nil
  then show ?case by (simp add: after_def)
next
  case (Cons e es)
  let ?w = "snd (tmr_handle cv e w)"
  have after: "after (tmr_handle cv) (e # es) w = after (tmr_handle cv) es ?w" by (simp add: after_def)
  show ?case
  proof (cases "\<exists>t c. e = RtcExpires t c")
    case True
    then obtain t c where e: "e = RtcExpires t c" by blast
    with Cons.prems(2) obtain k ls where ks: "ks = (k, c) # ls" "t = of_nat k"
      "rtc_readings es = map (\<lambda>(k, c). (of_nat k, c)) ls" by auto
    have w: "?w = snd (rtc_timer_update_cb (of_nat k) c w)" by (simp add: e ks(2) rtc_timer_update_cb_def)
    from Cons.prems(3) ks(1) have k: "n \<le> k" "k < n + 2 ^ 32" "ticking k ls" by simp_all
    note step = rtc_step [OF Cons.prems(1) k(1,2) w]
    from Cons.prems(4) ks(1) have us: "unat (rtc_us ?w) = unat (rtc_us w) + (k - n) * unat c div 4096"
      by (intro step(2)) simp
    show ?thesis
      unfolding after using Cons.IH [OF step(1) ks(3) k(3)] Cons.prems(4) us ks(1) by simp
  next
    case False
    then have r: "rtc_readings [e] = []" "rtc_readings (e # es) = rtc_readings es" by (cases e; simp)+
    show ?thesis
      unfolding after using Cons.IH [of ?w n ks] clock_unread [OF r(1), of cv w] Cons.prems r(2) by simp
  qed
qed

text \<open>C14: \<open>tmr.time\<close> returns the seconds that have passed on the real-time clock, whatever else happens in between: the
  32-bit counter may wrap around any number of times, as long as it is read once in every round, and the product with
  the calibration, taken in two parts, is exact up to the microsecond.\<close>

theorem tmr_time_elapsed:
  assumes "unat (cur_count w) = n mod 2 ^ 32" "rtc_readings es = map (\<lambda>(k, c). (of_nat k, c)) ks" "ticking n ks"
    and "unat (rtc_us w) + elapsed n ks < 2 ^ 64"
  shows "fst (tmr_handle cv Time (after (tmr_handle cv) es w)) =
    Inr [lua_int (int ((unat (rtc_us w) + elapsed n ks) div 1000000 mod 2 ^ 31))]"
proof -
  let ?u = "rtc_us (after (tmr_handle cv) es w)"
  have u: "unat ?u = unat (rtc_us w) + elapsed n ks" by (rule clock_runs [OF assms])
  have "(0x7FFFFFFF :: u32) = Bit_Operations.mask 31" by (simp add: mask_eq_exp_minus_1)
  then have "x AND 0x7FFFFFFF = take_bit 31 x" for x :: u32 by (simp only: take_bit_eq_mask)
  moreover have "unat (take_bit 31 (ucast (?u div 1000000) :: u32)) = unat ?u div 1000000 mod 2 ^ 31"
    by (simp add: unsigned_take_bit_eq unsigned_ucast_eq unat_div_distrib) (simp add: take_bit_eq_mod mod_mod_cancel)
  ultimately have "uint ((ucast (?u div 1000000) :: u32) AND 0x7FFFFFFF) = int (unat ?u div 1000000 mod 2 ^ 31)"
    by (metis uint_nat)
  then show ?thesis by (simp add: tmr_time_def u)
qed

text \<open>An example: the counter wraps around between two readings at 1.5 microseconds a tick.\<close>

theorem tmr_time_elapsed_witness:
  "fst (tmr_handle plain_conv Time (after (tmr_handle plain_conv)
     [RtcExpires 4000000000 6144, WdClr, RtcExpires 705032704 6144] opened)) = Inr [lua_int 7500]"
  using tmr_time_elapsed [of opened 0 "[RtcExpires 4000000000 6144, WdClr, RtcExpires 705032704 6144]"
      "[(4000000000, 6144), (5000000000, 6144)]" plain_conv]
  by (simp add: opened_clock)

end
