(* ===== verification/Gpio_Module.thy ===== *)
theory Gpio_Module
  imports Gpio Registry
begin

text \<open>
  Pin interrupts (\<open>platform/platform.c\<close>) and the gpio module (\<open>modules/gpio.c\<close>), with interrupts configured. Scripts
  attach Lua functions to pins; the interrupt dispatcher runs them. Other drivers set the mode of pins through
  \<open>platform_gpio_mode\<close>, which gives up the function of a pin. The functions are kept in the Lua registry through the
  contract of \<open>Registry\<close>. The pins' levels are an argument, \<open>input\<close>, by physical pin.
\<close>

section \<open>State\<close>

definition GPIO_PIN_INTR_DISABLE :: u32 where "GPIO_PIN_INTR_DISABLE = 0"
definition GPIO_PIN_INTR_POSEDGE :: u32 where "GPIO_PIN_INTR_POSEDGE = 1"
definition GPIO_PIN_INTR_NEGEDGE :: u32 where "GPIO_PIN_INTR_NEGEDGE = 2"
definition GPIO_PIN_INTR_ANYEGDE :: u32 where "GPIO_PIN_INTR_ANYEGDE = 3"
definition GPIO_PIN_INTR_LOLEVEL :: u32 where "GPIO_PIN_INTR_LOLEVEL = 4"
definition GPIO_PIN_INTR_HILEVEL :: u32 where "GPIO_PIN_INTR_HILEVEL = 5"

text \<open>Accesses to the hardware and calls of Lua functions, in order.\<close>

datatype gpio_out =
    Pins pin_event
  | IntrAttach
  | IntrStateSet nat u32
  | StatusClear u32
  | LuaCallLevel lua_value u32

text \<open>\<open>gL\<close> says whether the Lua state was saved; \<open>other_refs\<close> names the references of other modules.\<close>

record gpio_state =
  pin_int_type :: "u32 list"
  gpio_cb_ref :: "int list"
  gL :: bool
  gpio_reg :: lua_registry
  other_refs :: "int list"
  gpio_log :: "gpio_out list"

type_synonym 'a gpio_handler = "(gpio_state, 'a) handler"

type_synonym gpio_run = "lua_value \<Rightarrow> u32 \<Rightarrow> unit gpio_handler"

definition gpio_emit :: "gpio_out list \<Rightarrow> unit gpio_handler" where
  "gpio_emit evs = mupd (\<lambda>w. w\<lparr>gpio_log := gpio_log w @ evs\<rparr>)"

definition set_pin_int_type :: "nat \<Rightarrow> u32 \<Rightarrow> unit gpio_handler" where
  "set_pin_int_type pin ty =
     mbind (mget pin_int_type) (\<lambda>ts.
     mbind (mlift (arr_set ts pin ty)) (\<lambda>ts.
     mupd (\<lambda>w. w\<lparr>pin_int_type := ts\<rparr>)))"

section \<open>References to the functions\<close>

definition lua_gpio_unref :: "nat \<Rightarrow> unit gpio_handler" where
  "lua_gpio_unref pin =
     mbind (mget gpio_cb_ref) (\<lambda>refs.
     mbind (mlift (arr_get refs pin)) (\<lambda>ref.
     mbind (mget (\<lambda>w. (gL w, gpio_reg w))) (\<lambda>(lua, r).
     mbind (mlift (if ref \<noteq> LUA_NOREF \<and> lua then luaL_unref ref r else Inr r)) (\<lambda>r.
     mupd (\<lambda>w. w\<lparr>gpio_reg := r, gpio_cb_ref := refs[pin := LUA_NOREF]\<rparr>)))))"

text \<open>The effects of \<open>platform_gpio_mode\<close>: two of them concern the state kept here, the others the hardware.\<close>

fun gpio_effect :: "pin_event \<Rightarrow> unit gpio_handler" where
  "gpio_effect (LuaGpioUnref pin) = lua_gpio_unref (unat pin)"
| "gpio_effect (PinIntDisable pin) = set_pin_int_type (unat pin) GPIO_PIN_INTR_DISABLE"
| "gpio_effect ev = gpio_emit [Pins ev]"

definition do_gpio_mode :: "u32 \<Rightarrow> u32 \<Rightarrow> u32 \<Rightarrow> int gpio_handler" where
  "do_gpio_mode pin mode pull =
     (let (r, evs) = platform_gpio_mode pin mode pull in
      mbind (mfor evs gpio_effect) (\<lambda>_. mret r))"

section \<open>Interrupts\<close>

definition platform_gpio_read :: "(nat \<Rightarrow> u32) \<Rightarrow> u32 \<Rightarrow> int" where
  "platform_gpio_read input pin =
     (if NUM_GPIO \<le> pin then - 1 else uint (0x1 AND input (phys pin)))"

definition gpio_intr_callback :: "gpio_run \<Rightarrow> nat \<Rightarrow> u32 \<Rightarrow> unit gpio_handler" where
  "gpio_intr_callback run pin level =
     mbind (mget gpio_cb_ref) (\<lambda>refs.
     mbind (mlift (arr_get refs pin)) (\<lambda>ref.
     if ref = LUA_NOREF then mret ()
     else
     mbind (mget (\<lambda>w. (gL w, gpio_reg w))) (\<lambda>(lua, r).
     if \<not> lua then mret ()
     else
     let f = reg_geti r ref in
     if is_function f then mbind (gpio_emit [LuaCallLevel f level]) (\<lambda>_. run f level)
     else mfail (LuaError ''attempt to call a value''))))"

definition dispatch_pin :: "(nat \<Rightarrow> u32) \<Rightarrow> gpio_run \<Rightarrow> u32 \<Rightarrow> nat \<Rightarrow> unit gpio_handler" where
  "dispatch_pin input run gpio_status i =
     mbind (mget pin_int_type) (\<lambda>ts.
     mbind (mlift (arr_get ts i)) (\<lambda>ty.
     mbind (mlift (arr_get pin_num i)) (\<lambda>n.
     if ty \<noteq> 0 \<and> gpio_status AND push_bit n 1 \<noteq> 0 then
       mbind (gpio_emit [IntrStateSet n GPIO_PIN_INTR_DISABLE, StatusClear (gpio_status AND push_bit n 1)]) (\<lambda>_.
       mbind (gpio_intr_callback run i (0x1 AND input n)) (\<lambda>_.
       mbind (mget pin_int_type) (\<lambda>ts.
       mbind (mlift (arr_get ts i)) (\<lambda>ty.
       gpio_emit [IntrStateSet n ty]))))
     else mret ())))"

definition platform_gpio_intr_dispatcher :: "(nat \<Rightarrow> u32) \<Rightarrow> gpio_run \<Rightarrow> u32 \<Rightarrow> unit gpio_handler" where
  "platform_gpio_intr_dispatcher input run gpio_status =
     mfor [0..<unat NUM_GPIO] (dispatch_pin input run gpio_status)"

definition platform_gpio_init :: "unit gpio_handler" where
  "platform_gpio_init = gpio_emit [IntrAttach]"

definition platform_gpio_intr_init :: "u32 \<Rightarrow> u32 \<Rightarrow> unit gpio_handler" where
  "platform_gpio_intr_init pin ty =
     (if NUM_GPIO \<le> pin then mret ()
      else
      mbind (gpio_emit [Pins (GpioIntrEnable False), Pins (IntrStatusClear (phys pin))]) (\<lambda>_.
      mbind (set_pin_int_type (unat pin) ty) (\<lambda>_.
      gpio_emit [IntrStateSet (phys pin) ty, Pins (GpioIntrEnable True)])))"

section \<open>Module\<close>

definition keep_pin_function :: "lua_conv \<Rightarrow> nat \<Rightarrow> lua_value \<Rightarrow> unit gpio_handler" where
  "keep_pin_function cv pin f =
     mbind (mget gpio_cb_ref) (\<lambda>refs.
     mbind (mlift (arr_get refs pin)) (\<lambda>old.
     mbind (mget gpio_reg) (\<lambda>r.
     mbind (mlift (if old \<noteq> LUA_NOREF then luaL_unref old r else Inr r)) (\<lambda>r.
     mbind (mlift (luaL_ref cv f r)) (\<lambda>(ref, r).
     mupd (\<lambda>w. w\<lparr>gpio_reg := r, gpio_cb_ref := refs[pin := ref]\<rparr>))))))"

text \<open>The words \<open>up\<close>, \<open>down\<close>, \<open>both\<close>, \<open>low\<close> and \<open>high\<close>.\<close>

definition trigger_type :: "bytes \<Rightarrow> u32" where
  "trigger_type s =
     (if s = [0x75, 0x70] then GPIO_PIN_INTR_POSEDGE
      else if s = [0x64, 0x6F, 0x77, 0x6E] then GPIO_PIN_INTR_NEGEDGE
      else if s = [0x62, 0x6F, 0x74, 0x68] then GPIO_PIN_INTR_ANYEGDE
      else if s = [0x6C, 0x6F, 0x77] then GPIO_PIN_INTR_LOLEVEL
      else if s = [0x68, 0x69, 0x67, 0x68] then GPIO_PIN_INTR_HILEVEL
      else GPIO_PIN_INTR_DISABLE)"

definition lgpio_trig :: "lua_conv \<Rightarrow> lua_value list \<Rightarrow> lua_value list gpio_handler" where
  "lgpio_trig cv args =
     mbind (mlift (luaL_checkinteger cv (index2adr args 1))) (\<lambda>pin.
     if \<not> platform_gpio_exists pin then mfail (LuaError ''gpio does not exist'')
     else if pin = 0 then mfail (LuaError ''no interrupt for D0'')
     else
     mbind (mlift (luaL_checklstring cv (index2adr args 2))) (\<lambda>str.
     mbind (if is_function (index2adr args 3) then keep_pin_function cv (unat pin) (index2adr args 3) else mret ()) (\<lambda>_.
     mbind (platform_gpio_intr_init pin (trigger_type str)) (\<lambda>_.
     mret []))))"

text \<open>Giving up the function of a pin.\<close>

definition drop_pin_function :: "nat \<Rightarrow> unit gpio_handler" where
  "drop_pin_function pin =
     mbind (mget gpio_cb_ref) (\<lambda>refs.
     mbind (mlift (arr_get refs pin)) (\<lambda>ref.
     mbind (mget gpio_reg) (\<lambda>r.
     mbind (mlift (if ref \<noteq> LUA_NOREF then luaL_unref ref r else Inr r)) (\<lambda>r.
     mupd (\<lambda>w. w\<lparr>gpio_reg := r, gpio_cb_ref := refs[pin := LUA_NOREF]\<rparr>)))))"

definition lgpio_mode :: "lua_conv \<Rightarrow> lua_value list \<Rightarrow> lua_value list gpio_handler" where
  "lgpio_mode cv args =
     mbind (mlift (luaL_checkinteger cv (index2adr args 1))) (\<lambda>pin.
     if \<not> platform_gpio_exists pin then mfail (LuaError ''gpio does not exist'')
     else
     mbind (mlift (luaL_checkinteger cv (index2adr args 2))) (\<lambda>mode.
     if mode \<noteq> PLATFORM_GPIO_OUTPUT \<and> mode \<noteq> PLATFORM_GPIO_INPUT \<and> mode \<noteq> PLATFORM_GPIO_INT then
       mfail (LuaError ''wrong arg type'')
     else if pin = 0 \<and> mode = PLATFORM_GPIO_INT then mfail (LuaError ''no interrupt for D0'')
     else
     mbind (if lua_isnumber cv (index2adr args 3) then mlift (lua_tointeger cv (index2adr args 3))
            else mret PLATFORM_GPIO_FLOAT) (\<lambda>pullup.
     let pullup = (if pullup \<noteq> PLATFORM_GPIO_FLOAT then PLATFORM_GPIO_PULLUP else pullup) in
     mbind (mupd (\<lambda>w. w\<lparr>gL := True\<rparr>)) (\<lambda>_.
     mbind (if mode \<noteq> PLATFORM_GPIO_INT then drop_pin_function (unat pin) else mret ()) (\<lambda>_.
     mbind (do_gpio_mode pin mode pullup) (\<lambda>r.
     if r < 0 then mfail (LuaError ''wrong pin num.'') else mret []))))))"

definition lgpio_read :: "(nat \<Rightarrow> u32) \<Rightarrow> lua_conv \<Rightarrow> lua_value list \<Rightarrow> lua_value list gpio_handler" where
  "lgpio_read input cv args =
     mbind (mlift (luaL_checkinteger cv (index2adr args 1))) (\<lambda>pin.
     if \<not> platform_gpio_exists pin then mfail (LuaError ''gpio does not exist'')
     else mret [lua_int (platform_gpio_read input pin)])"

definition lgpio_write :: "lua_conv \<Rightarrow> lua_value list \<Rightarrow> lua_value list gpio_handler" where
  "lgpio_write cv args =
     mbind (mlift (luaL_checkinteger cv (index2adr args 1))) (\<lambda>pin.
     if \<not> platform_gpio_exists pin then mfail (LuaError ''gpio does not exist'')
     else
     mbind (mlift (luaL_checkinteger cv (index2adr args 2))) (\<lambda>level.
     if level \<noteq> 1 \<and> level \<noteq> 0 then mfail (LuaError ''wrong arg type'')
     else
     mbind (gpio_emit (map Pins (platform_gpio_write pin level))) (\<lambda>_.
     mret [])))"

definition luaopen_gpio :: "lua_value list gpio_handler" where
  "luaopen_gpio =
     mbind (mfor [0..<unat NUM_GPIO] (\<lambda>i.
       mbind (mget gpio_cb_ref) (\<lambda>refs.
       mbind (mlift (arr_set refs i LUA_NOREF)) (\<lambda>refs.
       mupd (\<lambda>w. w\<lparr>gpio_cb_ref := refs\<rparr>))))) (\<lambda>_.
     mbind platform_gpio_init (\<lambda>_.
     mret []))"

text \<open>The static variables before any code has run.\<close>

definition gpio_statics :: "lua_registry \<Rightarrow> int list \<Rightarrow> gpio_state" where
  "gpio_statics r fs =
     \<lparr>pin_int_type = replicate 13 GPIO_PIN_INTR_DISABLE, gpio_cb_ref = replicate 13 0, gL = False,
      gpio_reg = r, other_refs = fs, gpio_log = []\<rparr>"

section \<open>Events\<close>

text \<open>Calls from scripts, mode changes by other drivers, and references of other modules.\<close>

datatype gpio_call =
    Mode "lua_value list"
  | Read "lua_value list"
  | Write "lua_value list"
  | Trig "lua_value list"
  | PlatformMode u32 u32 u32
  | OtherRef lua_value
  | OtherUnref int

definition other_ref :: "lua_conv \<Rightarrow> lua_value \<Rightarrow> unit gpio_handler" where
  "other_ref cv v =
     mbind (mget gpio_reg) (\<lambda>r.
     mbind (mlift (luaL_ref cv v r)) (\<lambda>(ref, r).
     mupd (\<lambda>w. w\<lparr>gpio_reg := r, other_refs := ref # other_refs w\<rparr>)))"

text \<open>A module gives up only what it holds.\<close>

definition other_unref :: "int \<Rightarrow> unit gpio_handler" where
  "other_unref ref =
     mbind (mget (\<lambda>w. (other_refs w, gpio_reg w))) (\<lambda>(fs, r).
     if ref \<notin> set fs then mret ()
     else
     mbind (mlift (luaL_unref ref r)) (\<lambda>r.
     mupd (\<lambda>w. w\<lparr>gpio_reg := r, other_refs := removeAll ref fs\<rparr>)))"

fun gpio_do :: "(nat \<Rightarrow> u32) \<Rightarrow> lua_conv \<Rightarrow> gpio_call \<Rightarrow> lua_value list gpio_handler" where
  "gpio_do input cv (Mode args) = lgpio_mode cv args"
| "gpio_do input cv (Read args) = lgpio_read input cv args"
| "gpio_do input cv (Write args) = lgpio_write cv args"
| "gpio_do input cv (Trig args) = lgpio_trig cv args"
| "gpio_do input cv (PlatformMode pin mode pull) = mbind (do_gpio_mode pin mode pull) (\<lambda>_. mret [])"
| "gpio_do input cv (OtherRef v) = mbind (other_ref cv v) (\<lambda>_. mret [])"
| "gpio_do input cv (OtherUnref k) = mbind (other_unref k) (\<lambda>_. mret [])"

text \<open>What a Lua function does when it is called: a sequence of calls that may depend on the level.\<close>

definition scripted :: "(nat \<Rightarrow> u32) \<Rightarrow> lua_conv \<Rightarrow> (lua_value \<Rightarrow> u32 \<Rightarrow> gpio_call list) \<Rightarrow> gpio_run" where
  "scripted input cv prog f level = mfor (prog f level) (\<lambda>c. mbind (gpio_do input cv c) (\<lambda>_. mret ()))"

datatype gpio_event = Call "nat \<Rightarrow> u32" gpio_call | Interrupt "nat \<Rightarrow> u32" u32

fun gpio_handle :: "lua_conv \<Rightarrow> (lua_value \<Rightarrow> u32 \<Rightarrow> gpio_call list) \<Rightarrow> gpio_event \<Rightarrow> lua_value list gpio_handler" where
  "gpio_handle cv prog (Call input c) = gpio_do input cv c"
| "gpio_handle cv prog (Interrupt input status) =
     mbind (platform_gpio_intr_dispatcher input (scripted input cv prog) status) (\<lambda>_. mret [])"

section \<open>Invariant\<close>

definition gpio_inv :: "gpio_state \<Rightarrow> (int \<rightharpoonup> lua_value) \<Rightarrow> bool" where
  "gpio_inv w m \<longleftrightarrow> length (pin_int_type w) = 13 \<and> length (gpio_cb_ref w) = 13 \<and>
     reg_holds (gpio_reg w) m \<and> cb_table (gpio_cb_ref w) (other_refs w) m"

text \<open>What an interrupt of a pin does: its type, and the function it calls.\<close>

definition pin_of :: "gpio_state \<Rightarrow> nat \<Rightarrow> u32 \<times> lua_value option" where
  "pin_of w i =
     (pin_int_type w ! i,
      if gpio_cb_ref w ! i = LUA_NOREF then None else Some (reg_geti (gpio_reg w) (gpio_cb_ref w ! i)))"

text \<open>
  The invariant, together with what is known of some pins, which must not change, and whether the Lua state is known.
  Each handler keeps it for the pins that it is not about.
\<close>

definition pinned :: "bool \<Rightarrow> nat set \<Rightarrow> (nat \<Rightarrow> u32 \<times> lua_value option) \<Rightarrow> gpio_state \<Rightarrow> bool" where
  "pinned lua S v w \<longleftrightarrow> (\<exists>m. gpio_inv w m) \<and> (lua \<longrightarrow> gL w) \<and> (\<forall>i\<in>S. i < 13 \<longrightarrow> pin_of w i = v i)"

abbreviation gpio_live :: "gpio_state \<Rightarrow> bool" where
  "gpio_live w \<equiv> \<exists>m. gpio_inv w m"

lemma gpio_invD:
  assumes "gpio_inv w m"
  shows "length (pin_int_type w) = 13" "length (gpio_cb_ref w) = 13" "reg_holds (gpio_reg w) m"
    "cb_table (gpio_cb_ref w) (other_refs w) m"
  using assms unfolding gpio_inv_def by blast+

lemma pin_function:
  assumes "gpio_inv w m" "i < 13"
  shows "snd (pin_of w i) = cb_function (gpio_cb_ref w) m i" and "snd (pin_of w i) = Some f \<Longrightarrow> is_function f"
  using reg.read_callback [OF gpio_invD(3,4) [OF assms(1)], of i] assms(2) gpio_invD(2) [OF assms(1)]
  by (auto simp: pin_of_def cb_function_def split: if_splits)

text \<open>A change of the references that leaves the functions of the pins in \<open>S\<close> alone.\<close>

lemma pinned_refs:
  assumes p: "pinned lua S v w" and inv: "gpio_inv w m" and h: "reg_holds r m'" "cb_table refs fs m'" "length refs = 13"
    and f: "\<And>i. i \<in> S \<Longrightarrow> i < 13 \<Longrightarrow> cb_function refs m' i = cb_function (gpio_cb_ref w) m i"
  shows "pinned lua S v (w\<lparr>gpio_reg := r, gpio_cb_ref := refs, other_refs := fs\<rparr>)"
proof -
  let ?w = "w\<lparr>gpio_reg := r, gpio_cb_ref := refs, other_refs := fs\<rparr>"
  have inv': "gpio_inv ?w m'" using h gpio_invD(1) [OF inv] by (simp add: gpio_inv_def)
  have "pin_of ?w i = pin_of w i" if "i \<in> S" "i < 13" for i
    using pin_function(1) [OF inv' that(2)] pin_function(1) [OF inv that(2)] f [OF that]
    by (intro prod_eqI) (simp_all add: pin_of_def)
  with p inv' show ?thesis by (auto simp: pinned_def)
qed

lemma pinned_refs_only:
  assumes "pinned lua S v w" "gpio_inv w m" "reg_holds r m'" "cb_table refs (other_refs w) m'" "length refs = 13"
    and "\<And>i. i \<in> S \<Longrightarrow> i < 13 \<Longrightarrow> cb_function refs m' i = cb_function (gpio_cb_ref w) m i"
  shows "pinned lua S v (w\<lparr>gpio_reg := r, gpio_cb_ref := refs\<rparr>)"
  using pinned_refs [OF assms] by simp

lemma pin_of_update [simp]:
  "pin_of (w\<lparr>gpio_log := l\<rparr>) i = pin_of w i" "gpio_inv (w\<lparr>gpio_log := l\<rparr>) m = gpio_inv w m"
  "pin_of (w\<lparr>gL := b\<rparr>) i = pin_of w i" "gpio_inv (w\<lparr>gL := b\<rparr>) m = gpio_inv w m"
  by (simp_all add: pin_of_def gpio_inv_def)

lemma keeps_gpio_emit [keeps_intro]: "keeps (pinned lua S v) (gpio_emit evs)"
  by (intro keepsI) (simp add: gpio_emit_def pinned_def)

lemma keeps_set_pin_int_type:
  assumes "p < 13" "p \<notin> S"
  shows "keeps (pinned lua S v) (set_pin_int_type p ty)"
proof (rule keepsI)
  fix w assume p: "pinned lua S v w"
  then have len: "length (pin_int_type w) = 13" by (auto simp: pinned_def gpio_inv_def)
  have "pin_of (w\<lparr>pin_int_type := (pin_int_type w)[p := ty]\<rparr>) i = pin_of w i" if "i \<in> S" for i
    using that assms(2) by (cases "i = p") (simp_all add: pin_of_def)
  with p len assms(1) show "clean (fst (set_pin_int_type p ty w)) \<and> pinned lua S v (snd (set_pin_int_type p ty w))"
    by (simp add: set_pin_int_type_def pinned_def gpio_inv_def)
qed

lemma keeps_drop_pin_function:
  assumes "p < 13" "p \<notin> S"
  shows "keeps (pinned lua S v) (drop_pin_function p)"
proof (rule keepsI)
  fix w assume pw: "pinned lua S v w"
  then obtain m where inv: "gpio_inv w m" by (auto simp: pinned_def)
  note d = gpio_invD [OF inv]
  have p: "p < length (gpio_cb_ref w)" using assms(1) d(2) by simp
  show "clean (fst (drop_pin_function p w)) \<and> pinned lua S v (snd (drop_pin_function p w))"
  proof (cases "gpio_cb_ref w ! p = LUA_NOREF")
    case True
    then have "drop_pin_function p w = (Inr (), w\<lparr>gpio_reg := gpio_reg w, gpio_cb_ref := gpio_cb_ref w\<rparr>)"
      using p by (simp add: drop_pin_function_def list_update_same_conv)
    with pw show ?thesis by simp
  next
    case False
    from reg.drop_callback [OF d(3,4) p False] obtain r' m'
      where r': "luaL_unref (gpio_cb_ref w ! p) (gpio_reg w) = Inr r'" "reg_holds r' m'"
        "cb_table ((gpio_cb_ref w)[p := LUA_NOREF]) (other_refs w) m'"
        "\<forall>j<length (gpio_cb_ref w). cb_function ((gpio_cb_ref w)[p := LUA_NOREF]) m' j =
          (if j = p then None else cb_function (gpio_cb_ref w) m j)" by blast
    have "pinned lua S v (w\<lparr>gpio_reg := r', gpio_cb_ref := (gpio_cb_ref w)[p := LUA_NOREF]\<rparr>)"
      by (rule pinned_refs_only [OF pw inv r'(2,3)]) (use r'(4) d(2) assms(2) in auto)
    with r'(1) False p show ?thesis by (simp add: drop_pin_function_def)
  qed
qed

text \<open>Without the Lua state the reference is forgotten but not given up.\<close>

lemma keeps_lua_gpio_unref:
  assumes "p < 13" "p \<notin> S"
  shows "keeps (pinned lua S v) (lua_gpio_unref p)"
proof (rule keepsI)
  fix w assume pw: "pinned lua S v w"
  then obtain m where inv: "gpio_inv w m" by (auto simp: pinned_def)
  note d = gpio_invD [OF inv]
  have p: "p < length (gpio_cb_ref w)" using assms(1) d(2) by simp
  show "clean (fst (lua_gpio_unref p w)) \<and> pinned lua S v (snd (lua_gpio_unref p w))"
  proof (cases "gL w")
    case True
    then have "lua_gpio_unref p w = drop_pin_function p w"
      using p by (simp add: lua_gpio_unref_def drop_pin_function_def)
    with keepsD [OF keeps_drop_pin_function [OF assms] pw] show ?thesis by simp
  next
    case False
    note u = cb_table_update [OF d(4) p, of m LUA_NOREF]
    have "pinned lua S v (w\<lparr>gpio_reg := gpio_reg w, gpio_cb_ref := (gpio_cb_ref w)[p := LUA_NOREF]\<rparr>)"
      by (rule pinned_refs_only [OF pw inv d(3)]) (use u d(2) assms(2) in auto)
    with False p show ?thesis by (simp add: lua_gpio_unref_def)
  qed
qed

lemma keeps_keep_pin_function:
  assumes "p < 13" "p \<notin> S" "is_function f"
  shows "keeps (pinned lua S v) (keep_pin_function cv p f)"
proof (rule keepsI)
  fix w assume pw: "pinned lua S v w"
  then obtain m where inv: "gpio_inv w m" by (auto simp: pinned_def)
  note d = gpio_invD [OF inv]
  let ?refs = "gpio_cb_ref w"
  have p: "p < length ?refs" using assms(1) d(2) by simp
  show "clean (fst (keep_pin_function cv p f w)) \<and> pinned lua S v (snd (keep_pin_function cv p f w))"
  proof (cases "reg_room (gpio_reg w) \<or> ?refs ! p \<noteq> LUA_NOREF")
    case True
    from reg.store_callback [OF d(3) True d(4) p assms(3), of cv] obtain k r' m'
      where k: "rbind (if ?refs ! p \<noteq> LUA_NOREF then luaL_unref (?refs ! p) (gpio_reg w) else Inr (gpio_reg w)) (luaL_ref cv f) = Inr (k, r')"
        "reg_holds r' m'" "cb_table (?refs[p := k]) (other_refs w) m'"
        "\<forall>j<length ?refs. cb_function (?refs[p := k]) m' j = (if j = p then Some f else cb_function ?refs m j)" by blast
    have "keep_pin_function cv p f w = (Inr (), w\<lparr>gpio_reg := r', gpio_cb_ref := ?refs[p := k]\<rparr>)"
      using k(1) p unfolding keep_pin_function_def rbind_eq_Inr by auto
    moreover have "pinned lua S v (w\<lparr>gpio_reg := r', gpio_cb_ref := ?refs[p := k]\<rparr>)"
      by (rule pinned_refs_only [OF pw inv k(2,3)]) (use k(4) d(2) assms(2) in auto)
    ultimately show ?thesis by simp
  next
    case False
    from reg.store_refused [OF d(3) False assms(3), of cv] obtain s
      where "luaL_ref cv f (gpio_reg w) = Inl (LuaError s)" using False by auto
    with False p pw show ?thesis by (simp add: keep_pin_function_def)
  qed
qed

text \<open>Setting a pin's mode is about that pin only.\<close>

lemma gpio_effect_keeps:
  assumes "pin < NUM_GPIO" "unat pin \<notin> S" "ev \<in> set (snd (platform_gpio_mode pin mode pull))"
  shows "keeps (pinned lua S v) (gpio_effect ev)"
proof -
  have "unat pin < 13" using assms(1) unat_less_13 [OF assms(1)] by (simp add: pin_num_def)
  note k = keeps_lua_gpio_unref [OF this assms(2)] keeps_set_pin_int_type [OF this assms(2)]
  have "ev = LuaGpioUnref pin \<or> ev = PinIntDisable pin \<or> gpio_effect ev = gpio_emit [Pins ev]"
    using assms(3) by (auto simp: platform_gpio_mode_def gpio_pull_def gpio_as_plain_def gpio_dis_output_def split: if_splits)
  with k show ?thesis by (auto intro: keeps_gpio_emit)
qed

lemma keeps_do_gpio_mode:
  "unat pin \<notin> S \<Longrightarrow> keeps (pinned lua S v) (do_gpio_mode pin mode pull)"
proof (cases "pin < NUM_GPIO")
  case True
  then show "unat pin \<notin> S \<Longrightarrow> ?thesis"
    unfolding do_gpio_mode_def Let_def split_beta by (intro keeps_intro) (rule gpio_effect_keeps)
next
  case False
  then show ?thesis by (simp add: do_gpio_mode_def platform_gpio_mode_def keeps_def not_less)
qed

section \<open>Calls\<close>

text \<open>The pins that a call is about.\<close>

definition named_pin :: "lua_conv \<Rightarrow> lua_value list \<Rightarrow> nat set" where
  "named_pin cv args = {i. luaL_checkinteger cv (index2adr args 1) = Inr (of_nat i)}"

fun pins_of :: "lua_conv \<Rightarrow> gpio_call \<Rightarrow> nat set" where
  "pins_of cv (Mode args) = named_pin cv args"
| "pins_of cv (Trig args) = named_pin cv args"
| "pins_of cv (PlatformMode pin mode pull) = {unat pin}"
| "pins_of cv _ = {}"

fun call_ok :: "lua_conv \<Rightarrow> gpio_call \<Rightarrow> bool" where
  "call_ok cv (Mode args) = (\<forall>v\<in>set args. clean (lua_tointeger cv v))"
| "call_ok cv (Read args) = (\<forall>v\<in>set args. clean (lua_tointeger cv v))"
| "call_ok cv (Write args) = (\<forall>v\<in>set args. clean (lua_tointeger cv v))"
| "call_ok cv (Trig args) = (\<forall>v\<in>set args. clean (lua_tointeger cv v))"
| "call_ok cv (OtherRef v) = (v \<noteq> LNil)"
| "call_ok cv _ = True"

lemma gpio_exists_13: "platform_gpio_exists pin \<longleftrightarrow> unat pin < 13"
  by (simp add: platform_gpio_exists_def NUM_GPIO_def word_less_nat_alt)

lemma named_pinI: "luaL_checkinteger cv (index2adr args 1) = Inr pin \<Longrightarrow> unat pin \<in> named_pin cv args"
  by (simp add: named_pin_def)

lemma keeps_intr_init: "unat pin \<notin> S \<Longrightarrow> keeps (pinned lua S v) (platform_gpio_intr_init pin ty)"
  unfolding platform_gpio_intr_init_def
  by (intro keeps_intro keeps_set_pin_int_type) (simp_all add: NUM_GPIO_def word_le_nat_alt)

lemma keeps_trig:
  assumes "call_ok cv (Trig args)" "S \<inter> named_pin cv args = {}"
  shows "keeps (pinned lua S v) (lgpio_trig cv args)"
proof -
  have pin: "unat pin \<notin> S" if "luaL_checkinteger cv (index2adr args 1) = Inr pin" for pin
    using assms(2) named_pinI [OF that] by blast
  have c: "clean (luaL_checkinteger cv (index2adr args i))" for i
    using assms(1) by (intro checkinteger_clean index2adr_clean) simp
  show ?thesis
    unfolding lgpio_trig_def
    by (intro keeps_mlift_mbind c keeps_if keeps_mfail keeps_mbind keeps_mret keeps_mlift checklstring_clean
        keeps_keep_pin_function keeps_intr_init) (simp_all add: pin gpio_exists_13)
qed

lemma keeps_mode:
  assumes "call_ok cv (Mode args)" "S \<inter> named_pin cv args = {}"
  shows "keeps (pinned lua S v) (lgpio_mode cv args)"
proof -
  have pin: "unat pin \<notin> S" if "luaL_checkinteger cv (index2adr args 1) = Inr pin" for pin
    using assms(2) named_pinI [OF that] by blast
  have c: "clean (luaL_checkinteger cv (index2adr args i))" "clean (lua_tointeger cv (index2adr args i))" for i
    using assms(1) by (auto intro!: checkinteger_clean index2adr_clean)
  have l: "keeps (pinned lua S v) (mupd (\<lambda>w. w\<lparr>gL := True\<rparr>))"
    by (rule keeps_mupd) (simp add: pinned_def)
  show ?thesis
    unfolding lgpio_mode_def Let_def
    by (intro keeps_mlift_mbind c l keeps_if keeps_mfail keeps_mbind keeps_mret keeps_mlift
        keeps_drop_pin_function keeps_do_gpio_mode) (simp_all add: pin gpio_exists_13)
qed

lemma keeps_other_ref:
  assumes "u \<noteq> LNil"
  shows "keeps (pinned lua S v) (other_ref cv u)"
proof (rule keepsI)
  fix w assume pw: "pinned lua S v w"
  then obtain m where inv: "gpio_inv w m" by (auto simp: pinned_def)
  note d = gpio_invD [OF inv]
  show "clean (fst (other_ref cv u w)) \<and> pinned lua S v (snd (other_ref cv u w))"
  proof (cases "reg_room (gpio_reg w)")
    case True
    from reg.others_ref [OF d(3) True assms d(4), of cv] obtain k r' m'
      where k: "luaL_ref cv u (gpio_reg w) = Inr (k, r')" "reg_holds r' m'" "cb_table (gpio_cb_ref w) (k # other_refs w) m'"
        "\<forall>i<length (gpio_cb_ref w). cb_function (gpio_cb_ref w) m' i = cb_function (gpio_cb_ref w) m i" by blast
    with pinned_refs [OF pw inv k(2,3)] d(2) show ?thesis by (simp add: other_ref_def)
  next
    case False
    from reg.ref_full [OF d(3) False assms, of cv] pw show ?thesis by (auto simp: other_ref_def)
  qed
qed

lemma keeps_other_unref: "keeps (pinned lua S v) (other_unref k)"
proof (rule keepsI)
  fix w assume pw: "pinned lua S v w"
  then obtain m where inv: "gpio_inv w m" by (auto simp: pinned_def)
  note d = gpio_invD [OF inv]
  show "clean (fst (other_unref k w)) \<and> pinned lua S v (snd (other_unref k w))"
  proof (cases "k \<in> set (other_refs w)")
    case True
    from reg.others_unref [OF d(3,4) True] obtain r' m'
      where k: "luaL_unref k (gpio_reg w) = Inr r'" "reg_holds r' m'" "cb_table (gpio_cb_ref w) (removeAll k (other_refs w)) m'"
        "\<forall>i<length (gpio_cb_ref w). cb_function (gpio_cb_ref w) m' i = cb_function (gpio_cb_ref w) m i" by blast
    with pinned_refs [OF pw inv k(2,3)] d(2) True show ?thesis by (simp add: other_unref_def)
  qed (use pw in \<open>simp add: other_unref_def\<close>)
qed

lemma keeps_gpio_do:
  assumes ok: "call_ok cv c" and S: "S \<inter> pins_of cv c = {}"
  shows "keeps (pinned lua S v) (gpio_do input cv c)"
proof -
  have c: "clean (luaL_checkinteger cv (index2adr args i))" if "\<forall>v\<in>set args. clean (lua_tointeger cv v)" for args i
    using that by (intro checkinteger_clean index2adr_clean)
  show ?thesis
  proof (cases c)
    case (Read args)
    with ok show ?thesis
      unfolding lgpio_read_def gpio_do.simps Read by (intro keeps_mlift_mbind c keeps_if keeps_mfail keeps_mret) simp_all
  next
    case (Write args)
    with ok show ?thesis
      unfolding lgpio_write_def gpio_do.simps Write
      by (intro keeps_mlift_mbind c keeps_if keeps_mfail keeps_mret keeps_mbind keeps_gpio_emit) simp_all
  qed (use ok S in \<open>auto intro!: keeps_mode keeps_trig keeps_mbind keeps_mret keeps_do_gpio_mode keeps_other_ref keeps_other_unref\<close>)
qed

lemma keeps_scripted:
  assumes "\<forall>c\<in>set (prog f level). call_ok cv c \<and> S \<inter> pins_of cv c = {}"
  shows "keeps (pinned lua S v) (scripted input cv prog f level)"
  unfolding scripted_def using assms by (intro keeps_mfor keeps_mbind keeps_mret keeps_gpio_do) auto

lemma keeps_callback:
  assumes "\<And>f l. keeps (pinned lua S v) (run f l)" "i < 13"
  shows "keeps (pinned lua S v) (gpio_intr_callback run i level)"
proof (rule keepsI)
  fix w assume pw: "pinned lua S v w"
  then obtain m where inv: "gpio_inv w m" by (auto simp: pinned_def)
  have call: "keeps (pinned lua S v) (mbind (gpio_emit [LuaCallLevel f level]) (\<lambda>_. run f level))" for f
    using assms(1) by (intro keeps_mbind keeps_gpio_emit)
  show "clean (fst (gpio_intr_callback run i level w)) \<and> pinned lua S v (snd (gpio_intr_callback run i level w))"
    using assms(2) gpio_invD(2) [OF inv] pw keepsD [OF call pw] by (simp add: gpio_intr_callback_def Let_def)
qed

lemma keeps_dispatch_pin:
  assumes run: "\<And>f l. keeps (pinned lua S v) (run f l)" and "i < 13"
  shows "keeps (pinned lua S v) (dispatch_pin input run status i)"
proof -
  let ?P = "pinned lua S v"
  have get: "keeps ?P (mbind (mget pin_int_type) (\<lambda>ts. mbind (mlift (arr_get ts i)) g))" if "\<And>ty. keeps ?P (g ty)" for g
    using that assms(2) by (auto simp: keeps_def pinned_def gpio_inv_def)
  have "arr_get pin_num i = Inr (pin_num ! i)" using assms(2) by (simp add: pin_num_def)
  then show ?thesis
    unfolding dispatch_pin_def
    by (intro get) (auto intro!: keeps_mlift_mbind keeps_mlift keeps_if keeps_mret keeps_mbind keeps_gpio_emit keeps_callback run assms(2) get)
qed

lemma keeps_dispatcher:
  assumes "\<And>f l. keeps (pinned lua S v) (run f l)"
  shows "keeps (pinned lua S v) (platform_gpio_intr_dispatcher input run status)"
  unfolding platform_gpio_intr_dispatcher_def
  by (intro keeps_mfor keeps_dispatch_pin assms) (simp add: NUM_GPIO_def)

section \<open>Sequences of events\<close>

text \<open>The calls of a script from its callbacks are in order, and none is about the pins in \<open>S\<close>.\<close>

definition polite :: "lua_conv \<Rightarrow> nat set \<Rightarrow> (lua_value \<Rightarrow> u32 \<Rightarrow> gpio_call list) \<Rightarrow> bool" where
  "polite cv S prog \<longleftrightarrow> (\<forall>f level. \<forall>c\<in>set (prog f level). call_ok cv c \<and> S \<inter> pins_of cv c = {})"

fun event_ok :: "lua_conv \<Rightarrow> nat set \<Rightarrow> gpio_event \<Rightarrow> bool" where
  "event_ok cv S (Call input c) = (call_ok cv c \<and> S \<inter> pins_of cv c = {})"
| "event_ok cv S (Interrupt input status) = True"

lemma keeps_gpio_handle:
  assumes "polite cv S prog" "event_ok cv S e"
  shows "keeps (pinned lua S v) (gpio_handle cv prog e)"
proof (cases e)
  case (Call input c)
  with assms(2) show ?thesis by (simp add: keeps_gpio_do)
next
  case (Interrupt input status)
  have "keeps (pinned lua S v) (scripted input cv prog f l)" for f l
    using assms(1) by (intro keeps_scripted) (simp add: polite_def)
  then show ?thesis unfolding Interrupt gpio_handle.simps by (intro keeps_mbind keeps_mret keeps_dispatcher)
qed

interpretation gpio: handled "gpio_handle cv prog" "pinned lua S v" "\<lambda>_ e. polite cv S prog \<and> event_ok cv S e"
  for cv prog lua S v
  by unfold_locales (use keepsD [OF keeps_gpio_handle] in blast)

lemma luaopen_gpio_eval:
  "luaopen_gpio (gpio_statics r fs) =
     (Inr [], (gpio_statics r fs)\<lparr>gpio_cb_ref := replicate 13 LUA_NOREF, gpio_log := [IntrAttach]\<rparr>)"
proof -
  have "[0..<unat NUM_GPIO] = [0, 1, 2, 3, 4, 5, 6, 7, 8, 9, 10, 11, 12]" by (simp add: NUM_GPIO_def upt_rec)
  moreover have "replicate 13 x = [x, x, x, x, x, x, x, x, x, x, x, x, x]" for x :: int by (simp add: numeral_eq_Suc)
  ultimately show ?thesis
    by (simp add: luaopen_gpio_def gpio_statics_def platform_gpio_init_def gpio_emit_def)
qed

lemma luaopen_gpio_live:
  assumes "reg_holds r m" "\<forall>x\<in>set fs. 0 < x \<and> m x \<noteq> None"
  shows "pinned False {} v (snd (luaopen_gpio (gpio_statics r fs)))"
proof -
  have "cb_table (replicate 13 LUA_NOREF) fs m"
    using assms(2) LUA_NOREF_neg by (auto simp: cb_table_def)
  then show ?thesis
    unfolding pinned_def luaopen_gpio_eval using assms(1) by (auto simp: gpio_inv_def gpio_statics_def)
qed

text \<open>C16: From its opening on, no sequence of calls from scripts, mode changes by other drivers, references of other
  modules and interrupts, with arbitrary calls from the Lua functions that the interrupts run, does anything undefined.\<close>

theorem gpio_module_safe:
  assumes "reg_holds r m" "\<forall>x\<in>set fs. 0 < x \<and> m x \<noteq> None" "w = snd (luaopen_gpio (gpio_statics r fs))"
    and "polite cv {} prog" "\<forall>e\<in>set (es @ [e]). event_ok cv {} e"
  shows "clean (fst (gpio_handle cv prog e (after (gpio_handle cv prog) es w)))"
proof -
  have "admissible (gpio_handle cv prog) (\<lambda>_ e. polite cv {} prog \<and> event_ok cv {} e) u fs"
    if "\<forall>e\<in>set fs. event_ok cv {} e" for u fs
    using that assms(4) by (induction fs arbitrary: u) auto
  from gpio.runs_clean [OF luaopen_gpio_live [OF assms(1,2)] this [OF assms(5)]] assms(3) show ?thesis by simp
qed

section \<open>Triggers\<close>

lemma trig_effect:
  assumes inv: "gpio_inv w m" and t: "lgpio_trig cv [lua_int (int p), LString str, f] w = (Inr [], w')"
    and p: "0 < p" "p < 13" and f: "is_function f"
  shows "pinned (gL w) {p} (\<lambda>_. (trigger_type str, Some f)) w'"
proof -
  note d = gpio_invD [OF inv]
  let ?pin = "word_of_nat p :: u32"
  have pin: "unat ?pin = p" using p by (simp add: unat_of_nat take_bit_nat_eq_self)
  then have ex: "platform_gpio_exists ?pin" "?pin \<noteq> 0" "\<not> NUM_GPIO \<le> ?pin"
    using p by (auto simp: gpio_exists_13 NUM_GPIO_def word_le_nat_alt)
  have args: "index2adr [a, b, c] 2 = b" "index2adr [a, b, c] 3 = c" for a b c by (simp_all add: index2adr_def)
  have e: "lgpio_trig cv [lua_int (int p), LString str, f] w =
      mbind (keep_pin_function cv p f) (\<lambda>_. mbind (platform_gpio_intr_init ?pin (trigger_type str)) (\<lambda>_. mret [])) w"
    using p ex f by (simp add: lgpio_trig_def args pin luaL_checklstring_def lua_tolstring_def)
  have pl: "p < length (gpio_cb_ref w)" using p d(2) by simp
  have room: "reg_room (gpio_reg w) \<or> gpio_cb_ref w ! p \<noteq> LUA_NOREF"
  proof (rule ccontr)
    assume a: "\<not> ?thesis"
    from reg.store_refused [OF d(3) a f, of cv] obtain s where "luaL_ref cv f (gpio_reg w) = Inl (LuaError s)"
      using a by auto
    then have "keep_pin_function cv p f w = (Inl (LuaError s), w)" using a pl by (simp add: keep_pin_function_def)
    with e t show False by simp
  qed
  from reg.store_callback [OF d(3) room d(4) pl f, of cv] obtain k r' m'
    where k: "rbind (if gpio_cb_ref w ! p \<noteq> LUA_NOREF then luaL_unref (gpio_cb_ref w ! p) (gpio_reg w) else Inr (gpio_reg w)) (luaL_ref cv f) = Inr (k, r')"
      "reg_holds r' m'" "cb_table ((gpio_cb_ref w)[p := k]) (other_refs w) m'"
      "\<forall>j<length (gpio_cb_ref w). cb_function ((gpio_cb_ref w)[p := k]) m' j = (if j = p then Some f else cb_function (gpio_cb_ref w) m j)"
    by blast
  let ?w1 = "w\<lparr>gpio_reg := r', gpio_cb_ref := (gpio_cb_ref w)[p := k]\<rparr>"
  let ?l = "gpio_log w @ [Pins (GpioIntrEnable False), Pins (IntrStatusClear (phys ?pin)),
    IntrStateSet (phys ?pin) (trigger_type str), Pins (GpioIntrEnable True)]"
  have "keep_pin_function cv p f w = (Inr (), ?w1)"
    using k(1) pl unfolding keep_pin_function_def rbind_eq_Inr by auto
  with e t p d(1) ex have w': "w' = ?w1\<lparr>pin_int_type := (pin_int_type w)[p := trigger_type str], gpio_log := ?l\<rparr>"
    by (simp add: platform_gpio_intr_init_def set_pin_int_type_def gpio_emit_def pin)
  have inv': "gpio_inv w' m'" using k(2,3) d by (simp add: w' gpio_inv_def)
  have "pin_of w' p = (trigger_type str, Some f)"
    using pin_function(1) [OF inv' p(2)] k(4) pl d(1) p(2) by (intro prod_eqI) (simp_all add: w' pin_of_def)
  with inv' show ?thesis by (auto simp: pinned_def w')
qed

text \<open>An interrupt of one pin: the dispatcher passes over the others.\<close>

lemma dispatch_skips:
  assumes "gpio_inv w m" "i < 13" "p < 13" "i \<noteq> p"
  shows "dispatch_pin input run (push_bit (pin_num ! p) 1) i w = (Inr (), w)"
proof -
  have "pin_num ! i \<noteq> pin_num ! p" "pin_num ! i < 32" "pin_num ! p < 32"
    using assms(2-4) nth_eq_iff_index_eq [of pin_num i p] nth_mem [of i pin_num] nth_mem [of p pin_num]
    by (auto simp: pin_num_def)
  then have "push_bit (pin_num ! p) 1 AND push_bit (pin_num ! i) 1 = (0 :: u32)"
    by (intro bit_eqI) (auto simp: bit_simps)
  then show ?thesis
    using assms(2) gpio_invD(1) [OF assms(1)] by (simp add: dispatch_pin_def pin_num_def)
qed

lemma mfor_skips: "\<forall>i\<in>set xs. f i w = (Inr (), w) \<Longrightarrow> mfor xs f w = (Inr (), w)"
  by (induction xs) simp_all

lemma mfor_append: "mfor (xs @ ys) f = mbind (mfor xs f) (\<lambda>_. mfor ys f)"
proof (induction xs)
  case Nil
  show ?case by (rule ext) simp
qed (simp add: mbind_assoc)

lemma dispatch_serves:
  assumes inv: "gpio_inv u m" and p: "p < 13" "pin_of u p = (ty, Some f)" "ty \<noteq> 0" "gL u"
    and n: "n = pin_num ! p" "n < 32"
  shows "dispatch_pin input run (push_bit n 1) p u =
    mbind (run f (1 AND input n)) (\<lambda>_.
      mbind (mget pin_int_type) (\<lambda>ts. mbind (mlift (arr_get ts p)) (\<lambda>ty. gpio_emit [IntrStateSet n ty])))
    (u\<lparr>gpio_log := gpio_log u @ [IntrStateSet n GPIO_PIN_INTR_DISABLE, StatusClear (push_bit n 1), LuaCallLevel f (1 AND input n)]\<rparr>)"
proof -
  note d = gpio_invD [OF inv]
  have ne: "push_bit n 1 \<noteq> (0 :: u32)" using n(2) by (simp add: push_bit_eq_0_iff bit_simps)
  have f: "is_function f" by (rule pin_function(2) [OF inv p(1)]) (simp add: p(2))
  have r: "gpio_cb_ref u ! p \<noteq> LUA_NOREF" "reg_geti (gpio_reg u) (gpio_cb_ref u ! p) = f" "pin_int_type u ! p = ty"
    using p(2) by (auto simp: pin_of_def split: if_splits)
  have "p < length pin_num" using p(1) by (simp add: pin_num_def)
  with p d f r ne n(1) show ?thesis
    by (simp add: dispatch_pin_def gpio_emit_def gpio_intr_callback_def mbind_assoc Let_def)
qed

text \<open>Before the Lua state was saved, the interrupt is served without the function.\<close>

lemma dispatch_without_lua:
  assumes inv: "gpio_inv u m" and p: "p < 13" "pin_int_type u ! p = ty" "ty \<noteq> 0" "\<not> gL u"
    and n: "n = pin_num ! p" "n < 32"
  shows "dispatch_pin input run (push_bit n 1) p u =
    (Inr (), u\<lparr>gpio_log := gpio_log u @ [IntrStateSet n GPIO_PIN_INTR_DISABLE, StatusClear (push_bit n 1), IntrStateSet n ty]\<rparr>)"
proof -
  note d = gpio_invD [OF inv]
  have ne: "push_bit n 1 \<noteq> (0 :: u32)" using n(2) by (simp add: push_bit_eq_0_iff bit_simps)
  have "p < length pin_num" using p(1) by (simp add: pin_num_def)
  with p d ne n(1) show ?thesis
    by (simp add: dispatch_pin_def gpio_emit_def gpio_intr_callback_def mbind_assoc)
qed

text \<open>C13: After \<open>gpio.trig(p, type, f)\<close>, whatever happens with other pins, in other modules and in callbacks, an interrupt of
  the pin calls \<open>f\<close> with the level of the pin, with the pin's interrupt masked and acknowledged before and restored to
  the type of the trigger after the function has returned, once a call of \<open>gpio.mode\<close>, before or after the trigger,
  has saved the Lua state; until then the interrupt is masked, acknowledged and restored, and \<open>f\<close> is not called. Only
  calls about the pin can change that.\<close>

theorem trigger_calls_function:
  assumes "gpio_inv w m" "gpio_do input\<^sub>0 cv (Trig [lua_int (int p), LString str, f]) w = (Inr [], w')"
    and "0 < p" "p < 13" "is_function f" "trigger_type str \<noteq> GPIO_PIN_INTR_DISABLE"
    and "polite cv {p} prog" "\<forall>e\<in>set es. event_ok cv {p} e"
    and u: "u = after (gpio_handle cv prog) es w'" "n = pin_num ! p"
  shows "gpio_handle cv prog (Interrupt input (push_bit n 1)) u =
    (if gL u
     then mbind (scripted input cv prog f (1 AND input n)) (\<lambda>_. mbind (gpio_emit [IntrStateSet n (trigger_type str)]) (\<lambda>_. mret []))
       (u\<lparr>gpio_log := gpio_log u @ [IntrStateSet n GPIO_PIN_INTR_DISABLE, StatusClear (push_bit n 1), LuaCallLevel f (1 AND input n)]\<rparr>)
     else (Inr [], u\<lparr>gpio_log := gpio_log u @
       [IntrStateSet n GPIO_PIN_INTR_DISABLE, StatusClear (push_bit n 1), IntrStateSet n (trigger_type str)]\<rparr>))"
proof -
  let ?v = "\<lambda>_. (trigger_type str, Some f)" and ?run = "scripted input cv prog"
  let ?P = "pinned False {p} ?v"
  let ?u = "u\<lparr>gpio_log := gpio_log u @ [IntrStateSet n GPIO_PIN_INTR_DISABLE, StatusClear (push_bit n 1), LuaCallLevel f (1 AND input n)]\<rparr>"
  have "?P w'" using trig_effect [OF assms(1) _ assms(3-5)] assms(2) by (simp add: pinned_def)
  moreover have "admissible (gpio_handle cv prog) (\<lambda>_ e. polite cv {p} prog \<and> event_ok cv {p} e) x fs"
    if "\<forall>e\<in>set fs. event_ok cv {p} e" for x fs
    using that assms(7) by (induction fs arbitrary: x) auto
  ultimately have Pu: "?P u" unfolding u(1) using assms(8) by (blast intro: gpio.runs_keep)
  then obtain mu where inv: "gpio_inv u mu" by (auto simp: pinned_def)
  have n: "n < 32" using assms(4) nth_mem [of p pin_num] by (auto simp: u(2) pin_num_def)
  have pin: "pin_of u p = (trigger_type str, Some f)" "pin_int_type u ! p = trigger_type str"
    using Pu assms(4) by (auto simp: pinned_def pin_of_def)
  have skip: "mfor xs (dispatch_pin input ?run (push_bit n 1)) x = (Inr (), x)"
    if "gpio_inv x mx" "\<forall>i\<in>set xs. i < 13 \<and> i \<noteq> p" for x mx xs
    using that dispatch_skips [OF that(1) _ assms(4)] by (intro mfor_skips) (auto simp: u(2))
  have before: "mfor [0..<p] (dispatch_pin input ?run (push_bit n 1)) u = (Inr (), u)"
    using assms(4) by (intro skip [OF inv]) simp
  have behind: "mfor [Suc p..<13] (dispatch_pin input ?run (push_bit n 1)) (x\<lparr>gpio_log := l\<rparr>) = (Inr (), x\<lparr>gpio_log := l\<rparr>)"
    if "gpio_inv x mx" for x mx l
    using that by (intro skip [of _ mx]) simp_all
  have split: "[0..<unat NUM_GPIO] = [0..<p] @ p # [Suc p..<13]"
    using assms(4) upt_add_eq_append [of 0 p "13 - p"] upt_conv_Cons [of p 13] by (simp add: NUM_GPIO_def)
  note dispatch = gpio_handle.simps platform_gpio_intr_dispatcher_def split mfor_append mfor.simps
  show ?thesis
  proof (cases "gL u")
    case False
    have "dispatch_pin input ?run (push_bit n 1) p u =
      (Inr (), u\<lparr>gpio_log := gpio_log u @ [IntrStateSet n GPIO_PIN_INTR_DISABLE, StatusClear (push_bit n 1), IntrStateSet n (trigger_type str)]\<rparr>)"
      using False assms(4,6) pin n by (intro dispatch_without_lua [OF inv]) (auto simp: u(2) GPIO_PIN_INTR_DISABLE_def)
    with False before behind [OF inv] show ?thesis
      unfolding dispatch by (simp add: mbind_split [of "dispatch_pin _ _ _ _"] mbind_split [of "mfor _ _"] mbind_split [of "mbind _ _"])
  next
    case True
    have run: "?P (snd (?run f l ?u))" for l
    proof -
      have "?P ?u" using Pu by (simp add: pinned_def)
      with keepsD [OF keeps_scripted] assms(7) show ?thesis by (simp add: polite_def)
    qed
    have "dispatch_pin input ?run (push_bit n 1) p u =
      mbind (?run f (1 AND input n)) (\<lambda>_.
        mbind (mget pin_int_type) (\<lambda>ts. mbind (mlift (arr_get ts p)) (\<lambda>ty. gpio_emit [IntrStateSet n ty]))) ?u"
      using True assms(4,6) n pin by (intro dispatch_serves [OF inv]) (auto simp: u(2) GPIO_PIN_INTR_DISABLE_def)
    moreover obtain r x where rx: "?run f (1 AND input n) ?u = (r, x)" by fastforce
    moreover from run [of "1 AND input n"] rx obtain mx where x: "gpio_inv x mx" "pin_int_type x ! p = trigger_type str"
      using assms(4) by (auto simp: pinned_def pin_of_def)
    moreover have "arr_get (pin_int_type x) p = Inr (pin_int_type x ! p)" using assms(4) gpio_invD(1) [OF x(1)] by simp
    ultimately show ?thesis
      unfolding dispatch using True before behind [OF x(1)]
      by (cases r) (simp_all add: mbind_split [of "dispatch_pin _ _ _ _"] mbind_split [of "mfor _ _"] mbind_split [of "mbind _ _"] gpio_emit_def)
  qed
qed

section \<open>An example\<close>

text \<open>A button on pin 1 whose function switches pin 2 on, while pin 3 is set up by another driver.\<close>

definition button_prog :: "lua_value \<Rightarrow> u32 \<Rightarrow> gpio_call list" where
  "button_prog f level = [Write [lua_int 2, lua_int 1]]"

definition button_setup :: "gpio_event list" where
  "button_setup = [Call (\<lambda>_. 0) (Mode [lua_int 1, lua_int 2])]"

definition button_trig :: gpio_call where
  "button_trig = Trig [lua_int (int 1), LString [0x75, 0x70], LFunction 9]"

definition button_events :: "gpio_event list" where
  "button_events = [Call (\<lambda>_. 0) (PlatformMode 3 0 1), Call (\<lambda>_. 0) (OtherRef (LString []))]"

definition gpio_opened :: gpio_state where
  "gpio_opened = snd (luaopen_gpio (gpio_statics (new_registry 100) []))"

definition button_ready :: gpio_state where
  "button_ready = after (gpio_handle plain_conv button_prog) button_setup gpio_opened"

lemma button_polite: "polite plain_conv {} button_prog" "polite plain_conv {1} button_prog"
  by (auto simp: polite_def button_prog_def lua_tointeger_def tonumber_def cfloat_to_int_def cf_trunc_def)

lemma button_ok:
  "\<forall>e\<in>set (button_setup @ Call (\<lambda>_. 0) button_trig # button_events @ [Interrupt (\<lambda>_. 1) 32]). event_ok plain_conv {} e"
  "\<forall>e\<in>set button_events. event_ok plain_conv {1} e"
  by (simp_all add: button_setup_def button_trig_def button_events_def lua_tointeger_def tonumber_def plain_conv_def
      cfloat_to_int_def cf_trunc_def)

theorem gpio_module_safe_witness:
  "clean (fst (gpio_handle plain_conv button_prog (Interrupt (\<lambda>_. 1) 32)
     (after (gpio_handle plain_conv button_prog) (button_setup @ Call (\<lambda>_. 0) button_trig # button_events) gpio_opened)))"
  by (rule gpio_module_safe [OF new_registry_holds _ gpio_opened_def button_polite(1)]) (use button_ok(1) in simp_all)

lemma button_ready_inv: "\<exists>m. gpio_inv button_ready m"
proof -
  have "pinned False {} undefined gpio_opened"
    unfolding gpio_opened_def by (rule luaopen_gpio_live [OF new_registry_holds]) simp_all
  moreover have "event_ok plain_conv {} (Call (\<lambda>_. 0) (Mode [lua_int 1, lua_int 2]))"
    using button_ok(1) by (simp add: button_setup_def)
  ultimately have "pinned False {} undefined button_ready"
    using keepsD [OF keeps_gpio_handle [OF button_polite(1)]] unfolding button_ready_def button_setup_def after_def
    by (simp only: fold_simps id_apply)
  then show ?thesis by (simp add: pinned_def)
qed

lemma button_ready_eval:
  "gL (after (gpio_handle plain_conv button_prog) button_events (snd (gpio_do (\<lambda>_. 0) plain_conv button_trig button_ready)))"
  "fst (gpio_do (\<lambda>_. 0) plain_conv button_trig button_ready) = Inr []"
  by code_simp+

theorem trigger_calls_function_witness:
  "let u = after (gpio_handle plain_conv button_prog) button_events (snd (gpio_do (\<lambda>_. 0) plain_conv button_trig button_ready)) in
   gpio_handle plain_conv button_prog (Interrupt (\<lambda>_. 1) (push_bit 5 1)) u =
     (Inr [], u\<lparr>gpio_log := gpio_log u @ [IntrStateSet 5 0, StatusClear 32, LuaCallLevel (LFunction 9) 1,
       Pins (gpio_output_set 4 1), IntrStateSet 5 1]\<rparr>)"
proof -
  obtain m where inv: "gpio_inv button_ready m" using button_ready_inv ..
  let ?w = "snd (gpio_do (\<lambda>_. 0) plain_conv button_trig button_ready)"
  let ?u = "after (gpio_handle plain_conv button_prog) button_events ?w"
  have trig: "gpio_do (\<lambda>_. 0) plain_conv (Trig [lua_int (int 1), LString [0x75, 0x70], LFunction 9]) button_ready = (Inr [], ?w)"
    using button_ready_eval(2) unfolding button_trig_def by (intro prod_eqI) simp_all
  have "gpio_handle plain_conv button_prog (Interrupt (\<lambda>_. 1) (push_bit 5 1)) ?u =
    mbind (scripted (\<lambda>_. 1) plain_conv button_prog (LFunction 9) (1 AND 1))
      (\<lambda>_. mbind (gpio_emit [IntrStateSet 5 (trigger_type [0x75, 0x70])]) (\<lambda>_. mret []))
    (?u\<lparr>gpio_log := gpio_log ?u @ [IntrStateSet 5 GPIO_PIN_INTR_DISABLE, StatusClear (push_bit 5 1), LuaCallLevel (LFunction 9) (1 AND 1)]\<rparr>)"
    by (rule trigger_calls_function [OF inv trig _ _ _ _ button_polite(2) button_ok(2) refl, unfolded if_P [OF button_ready_eval(1)]])
      (simp_all add: is_function_def pin_num_def trigger_type_def GPIO_PIN_INTR_DISABLE_def GPIO_PIN_INTR_POSEDGE_def)
  then show ?thesis
    by (simp add: scripted_def button_prog_def lgpio_write_def gpio_emit_def platform_gpio_write_def platform_gpio_exists_def
        NUM_GPIO_def phys_def pin_num_def index2adr_def trigger_type_def GPIO_PIN_INTR_DISABLE_def GPIO_PIN_INTR_POSEDGE_def Let_def)
qed

end
