(* ===== verification/Bit_Module.thy ===== *)
theory Bit_Module
  imports Lua_Api
begin

text \<open>
  The bit module (\<open>modules/bit.c\<close>): bitwise operations on 32-bit integers for scripts. The functions keep no state. A
  shift by 32 or more, and the conversion of a number that no \<open>int\<close> holds, are undefined in C and errors here.
\<close>

section \<open>Functions\<close>

definition luaL_checknumber :: "lua_conv \<Rightarrow> lua_value \<Rightarrow> cfloat result" where
  "luaL_checknumber cv v =
     (let d = lua_tonumber cv v in
      if d = Fin 0 0 \<and> \<not> lua_isnumber cv v then Inl (LuaError ''number expected'') else Inr d)"

definition TOBIT :: "lua_conv \<Rightarrow> lua_value list \<Rightarrow> nat \<Rightarrow> u32 result" where
  "TOBIT cv args n = luaL_checkinteger cv (index2adr args n)"

text \<open>\<open>lua_pushinteger\<close> of a 32-bit value.\<close>

definition push_int :: "u32 \<Rightarrow> lua_value list" where
  "push_int x = [lua_int (sint x)]"

definition shift_ok :: "u32 \<Rightarrow> nat result" where
  "shift_ok n = (if n < 32 then Inr (unat n) else Inl Overflow)"

text \<open>The second argument of a shift, converted from a floating-point number.\<close>

definition shift_count :: "lua_conv \<Rightarrow> lua_value list \<Rightarrow> nat result" where
  "shift_count cv args =
     rbind (luaL_checknumber cv (index2adr args 2)) (\<lambda>d.
     rbind (cfloat_to_unsigned d) shift_ok)"

text \<open>
  \<open>1 << pos\<close>. For position 31 the value leaves the range of \<open>int\<close>; gcc, the compiler of this firmware, documents that
  it does not treat this as undefined and keeps the bit pattern, which is the purpose of this module. (Where the code
  shifts numbers rather than bits, as in \<open>Mqtt_Msg\<close> and \<open>Ticker\<close>, such a shift is the error \<open>Overflow\<close>.)
\<close>

definition bit_at :: "u32 \<Rightarrow> u32 result" where
  "bit_at pos = rbind (shift_ok pos) (\<lambda>k. Inr (push_bit k 1))"

definition bit_bnot :: "lua_conv \<Rightarrow> lua_value list \<Rightarrow> lua_value list result" where
  "bit_bnot cv args = rbind (TOBIT cv args 1) (\<lambda>x. Inr (push_int (NOT x)))"

text \<open>The macro \<open>VARIADIC\<close>: the arguments from the second on are folded into the first.\<close>

definition VARIADIC :: "(u32 \<Rightarrow> u32 \<Rightarrow> u32) \<Rightarrow> lua_conv \<Rightarrow> lua_value list \<Rightarrow> lua_value list result" where
  "VARIADIC oper cv args =
     rbind (TOBIT cv args 1) (\<lambda>w.
     rbind (rfold (\<lambda>i w. rbind (TOBIT cv args i) (\<lambda>x. Inr (oper w x))) [2..<Suc (length args)] w) (\<lambda>w.
     Inr (push_int w)))"

definition bit_band :: "lua_conv \<Rightarrow> lua_value list \<Rightarrow> lua_value list result" where
  "bit_band = VARIADIC (AND)"

definition bit_bor :: "lua_conv \<Rightarrow> lua_value list \<Rightarrow> lua_value list result" where
  "bit_bor = VARIADIC (OR)"

definition bit_bxor :: "lua_conv \<Rightarrow> lua_value list \<Rightarrow> lua_value list result" where
  "bit_bxor = VARIADIC (XOR)"

definition bit_lshift :: "lua_conv \<Rightarrow> lua_value list \<Rightarrow> lua_value list result" where
  "bit_lshift cv args =
     rbind (TOBIT cv args 1) (\<lambda>x. rbind (shift_count cv args) (\<lambda>k. Inr (push_int (push_bit k x))))"

definition bit_rshift :: "lua_conv \<Rightarrow> lua_value list \<Rightarrow> lua_value list result" where
  "bit_rshift cv args =
     rbind (TOBIT cv args 1) (\<lambda>x. rbind (shift_count cv args) (\<lambda>k. Inr (push_int (drop_bit k x))))"

definition bit_arshift :: "lua_conv \<Rightarrow> lua_value list \<Rightarrow> lua_value list result" where
  "bit_arshift cv args =
     rbind (TOBIT cv args 1) (\<lambda>x. rbind (shift_count cv args) (\<lambda>k. Inr (push_int (signed_drop_bit k x))))"

definition bit_bit :: "lua_conv \<Rightarrow> lua_value list \<Rightarrow> lua_value list result" where
  "bit_bit cv args = rbind (TOBIT cv args 1) (\<lambda>pos. rbind (bit_at pos) (\<lambda>b. Inr (push_int b)))"

definition bit_isset :: "lua_conv \<Rightarrow> lua_value list \<Rightarrow> lua_value list result" where
  "bit_isset cv args =
     rbind (TOBIT cv args 1) (\<lambda>val.
     rbind (TOBIT cv args 2) (\<lambda>pos.
     rbind (bit_at pos) (\<lambda>b. Inr [LBoolean (val AND b \<noteq> 0)])))"

definition bit_isclear :: "lua_conv \<Rightarrow> lua_value list \<Rightarrow> lua_value list result" where
  "bit_isclear cv args =
     rbind (TOBIT cv args 1) (\<lambda>val.
     rbind (TOBIT cv args 2) (\<lambda>pos.
     rbind (bit_at pos) (\<lambda>b. Inr [LBoolean (val AND b = 0)])))"

definition bit_set :: "lua_conv \<Rightarrow> lua_value list \<Rightarrow> lua_value list result" where
  "bit_set cv args =
     rbind (TOBIT cv args 1) (\<lambda>val.
     rbind (rfold (\<lambda>i val. rbind (TOBIT cv args i) (\<lambda>pos. rbind (bit_at pos) (\<lambda>b. Inr (val OR b))))
              [2..<Suc (length args)] val) (\<lambda>val.
     Inr (push_int val)))"

definition bit_clear :: "lua_conv \<Rightarrow> lua_value list \<Rightarrow> lua_value list result" where
  "bit_clear cv args =
     rbind (TOBIT cv args 1) (\<lambda>val.
     rbind (rfold (\<lambda>i val. rbind (TOBIT cv args i) (\<lambda>pos. rbind (bit_at pos) (\<lambda>b. Inr (val AND NOT b))))
              [2..<Suc (length args)] val) (\<lambda>val.
     Inr (push_int val)))"

section \<open>What they compute\<close>

text \<open>A loop over the arguments from the second on is a loop over the rest of the list.\<close>

lemma rfold_args:
  "rfold (\<lambda>i. g (index2adr (v # vs) i)) [2..<Suc (length (v # vs))] w = rfold g vs w"
proof -
  have "map (index2adr (v # vs)) [2..<Suc (length (v # vs))] = vs"
    by (rule nth_equalityI) (auto simp: index2adr_def nth_append simp del: upt_Suc)
  moreover have "rfold (\<lambda>i. g (h i)) xs w = rfold g (map h xs) w" for h :: "nat \<Rightarrow> lua_value" and xs
    by (induction xs arbitrary: w) (simp_all cong: rbind_cong)
  ultimately show ?thesis by simp
qed

text \<open>Integers that an \<open>int\<close> holds, as Lua numbers.\<close>

abbreviation ints :: "u32 list \<Rightarrow> lua_value list" where
  "ints xs \<equiv> map (\<lambda>x. lua_int (sint x)) xs"

lemma checkinteger_sint: "luaL_checkinteger cv (lua_int (sint (x :: u32))) = Inr x"
  using sint_ge [of x] sint_lt [of x] by (subst luaL_checkinteger_int) simp_all

lemma args_loop:
  "rfold (\<lambda>i w. rbind (TOBIT cv (ints (x # xs)) i) (\<lambda>y. f y w)) [2..<Suc (length (ints (x # xs)))] w = rfold f xs w"
proof -
  have "rfold (\<lambda>v w. rbind (luaL_checkinteger cv v) (\<lambda>y. f y w)) (ints xs) w = rfold f xs w"
    by (induction xs arbitrary: w) (simp_all add: checkinteger_sint cong: rbind_cong)
  then show ?thesis
    unfolding TOBIT_def list.map rfold_args [of "\<lambda>v w. rbind (luaL_checkinteger cv v) (\<lambda>y. f y w)"] .
qed

lemma TOBIT_1: "TOBIT cv (ints (x # xs)) 1 = Inr x"
  by (simp add: TOBIT_def checkinteger_sint)

lemma bit_at_eq: "bit_at p = (if unat p < 32 then Inr (push_bit (unat p) 1) else Inl Overflow)"
  by (simp add: bit_at_def shift_ok_def word_less_nat_alt)

lemma bit_set_eval:
  assumes "\<forall>p\<in>set ps. unat p < 32"
  shows "bit_set cv (ints (x # ps)) = Inr (push_int (fold (\<lambda>p w. w OR push_bit (unat p) 1) ps x))"
proof -
  have "rfold (\<lambda>p w. rbind (bit_at p) (\<lambda>b. Inr (w OR b))) ps w = Inr (fold (\<lambda>p w. w OR push_bit (unat p) 1) ps w)" for w
    using assms by (induction ps arbitrary: w) (simp_all add: bit_at_eq)
  then show ?thesis
    unfolding bit_set_def args_loop TOBIT_1 by simp
qed

lemma bit_clear_eval:
  assumes "\<forall>p\<in>set ps. unat p < 32"
  shows "bit_clear cv (ints (x # ps)) = Inr (push_int (fold (\<lambda>p w. w AND NOT (push_bit (unat p) 1)) ps x))"
proof -
  have "rfold (\<lambda>p w. rbind (bit_at p) (\<lambda>b. Inr (w AND NOT b))) ps w = Inr (fold (\<lambda>p w. w AND NOT (push_bit (unat p) 1)) ps w)" for w
    using assms by (induction ps arbitrary: w) (simp_all add: bit_at_eq)
  then show ?thesis
    unfolding bit_clear_def args_loop TOBIT_1 by simp
qed

lemma VARIADIC_eval: "VARIADIC oper cv (ints (x # xs)) = Inr (push_int (fold (\<lambda>y w. oper w y) xs x))"
proof -
  have "rfold (\<lambda>y w. Inr (oper w y)) xs w = Inr (fold (\<lambda>y w. oper w y) xs w)" for w
    by (induction xs arbitrary: w) simp_all
  then show ?thesis
    unfolding VARIADIC_def args_loop TOBIT_1 by simp
qed

lemma bit_fold_set: "bit (fold (\<lambda>p w. w OR push_bit (unat p) 1) ps (x :: u32)) n \<longleftrightarrow> n < 32 \<and> (bit x n \<or> n \<in> unat ` set ps)"
  by (induction ps arbitrary: x) (auto simp: bit_simps dest: bit_imp_le_length)

lemma bit_fold_clear: "bit (fold (\<lambda>p w. w AND NOT (push_bit (unat p) 1)) ps (x :: u32)) n \<longleftrightarrow> bit x n \<and> n \<notin> unat ` set ps"
  by (induction ps arbitrary: x) (auto simp: bit_simps dest: bit_imp_le_length)

lemma bit_isset_eval: "unat p < 32 \<Longrightarrow> bit_isset cv (ints [x, p]) = Inr [LBoolean (bit x (unat p))]"
  by (simp add: bit_isset_def TOBIT_def index2adr_def checkinteger_sint bit_at_eq and_exp_eq_0_iff_not_bit)

lemma bit_isclear_eval: "unat p < 32 \<Longrightarrow> bit_isclear cv (ints [x, p]) = Inr [LBoolean (\<not> bit x (unat p))]"
  by (simp add: bit_isclear_def TOBIT_def index2adr_def checkinteger_sint bit_at_eq and_exp_eq_0_iff_not_bit)

text \<open>Calling a function with the results of another and further arguments.\<close>

definition with_result :: "(lua_value list \<Rightarrow> lua_value list result) \<Rightarrow> lua_value list result \<Rightarrow> lua_value list \<Rightarrow> lua_value list result" where
  "with_result g r ws = rbind r (\<lambda>vs. g (vs @ ws))"

text \<open>C39: Setting and clearing bits in scripts: of any value and any positions from 0 to 31, a bit tests as set after
  \<open>bit.set\<close> exactly if it was set or its position is among the arguments, and after \<open>bit.clear\<close> exactly if it was set and
  its position is not; \<open>bit.isclear\<close> is the opposite.\<close>

theorem bit_set_clear_tests:
  assumes "\<forall>p\<in>set ps. unat p < 32" "unat q < 32"
  shows "with_result (bit_isset cv) (bit_set cv (ints (x # ps))) (ints [q]) = Inr [LBoolean (bit x (unat q) \<or> q \<in> set ps)] \<and>
    with_result (bit_isset cv) (bit_clear cv (ints (x # ps))) (ints [q]) = Inr [LBoolean (bit x (unat q) \<and> q \<notin> set ps)] \<and>
    with_result (bit_isclear cv) (bit_clear cv (ints (x # ps))) (ints [q]) = Inr [LBoolean (\<not> bit x (unat q) \<or> q \<in> set ps)]"
proof -
  have q: "unat q \<in> unat ` set ps \<longleftrightarrow> q \<in> set ps" by (auto dest: unsigned_word_eqI)
  note e = bit_isset_eval [OF assms(2), simplified] bit_isclear_eval [OF assms(2), simplified]
  show ?thesis
    unfolding with_result_def bit_set_eval [OF assms(1)] bit_clear_eval [OF assms(1)]
    using assms(2) by (simp add: push_int_def e bit_fold_set [simplified] bit_fold_clear [simplified] q)
qed

theorem bit_set_clear_tests_witness:
  "with_result (bit_isset plain_conv) (bit_set plain_conv (ints [0, 3, 31])) (ints [31]) = Inr [LBoolean True]"
  using bit_set_clear_tests [of "[3, 31]" 31 plain_conv 0] by simp

section \<open>Shifts\<close>

text \<open>A right shift fills with zeros, the arithmetic one with the sign; a left shift drops the high bits.\<close>

lemma shift_count_int:
  assumes "0 \<le> k" "k < 32"
  shows "shift_count cv [v, lua_int k] = Inr (nat k)"
proof -
  have "unat (word_of_int k :: u32) = nat k" using assms by (simp add: unsigned_of_int take_bit_int_eq_self)
  then show ?thesis
    using assms by (simp add: shift_count_def index2adr_def luaL_checknumber_def lua_tonumber_def tonumber_def lua_isnumber_def
        cfloat_to_unsigned_def cf_trunc_def Let_def shift_ok_def word_less_nat_alt)
qed

lemma shifts_eval:
  fixes x :: u32
  assumes "0 \<le> k" "k < 32"
  shows "bit_lshift cv [lua_int (sint x), lua_int k] = Inr [lua_int (sint (x * 2 ^ nat k))]"
    and "bit_rshift cv [lua_int (sint x), lua_int k] = Inr [lua_int (sint (word_of_nat (unat x div 2 ^ nat k) :: u32))]"
    and "bit_arshift cv [lua_int (sint x), lua_int k] = Inr [lua_int (sint x div 2 ^ nat k)]"
proof -
  have "drop_bit (nat k) x = word_of_nat (unat x div 2 ^ nat k)"
    by (metis drop_bit_eq_div unat_drop_bit_eq of_nat_unat ucast_id)
  then show "bit_rshift cv [lua_int (sint x), lua_int k] = Inr [lua_int (sint (word_of_nat (unat x div 2 ^ nat k) :: u32))]"
    by (simp add: bit_rshift_def TOBIT_def checkinteger_sint shift_count_int [OF assms] push_int_def)
  show "bit_lshift cv [lua_int (sint x), lua_int k] = Inr [lua_int (sint (x * 2 ^ nat k))]"
    by (simp add: bit_lshift_def TOBIT_def checkinteger_sint shift_count_int [OF assms] push_int_def push_bit_eq_mult)
  show "bit_arshift cv [lua_int (sint x), lua_int k] = Inr [lua_int (sint x div 2 ^ nat k)]"
    by (simp add: bit_arshift_def TOBIT_def checkinteger_sint shift_count_int [OF assms] push_int_def
        sint_signed_drop_bit_eq drop_bit_eq_div)
qed

text \<open>A shift by 32 or more is undefined, and so is every function on a number that no \<open>int\<close> holds, such as a mask with
  its highest bit set.\<close>

lemma oversized_shift: "32 \<le> k \<Longrightarrow> k < 2 ^ 32 \<Longrightarrow> bit_lshift cv [lua_int (sint (x :: u32)), lua_int k] = Inl Overflow"
proof -
  assume k: "32 \<le> k" "k < 2 ^ 32"
  then have "unat (word_of_int k :: u32) = nat k" by (simp add: unsigned_of_int take_bit_int_eq_self)
  with k show ?thesis
    by (simp add: bit_lshift_def TOBIT_def checkinteger_sint shift_count_def index2adr_def luaL_checknumber_def lua_tonumber_def
        tonumber_def cfloat_to_unsigned_def cf_trunc_def lua_isnumber_def Let_def shift_ok_def word_less_nat_alt)
qed

lemma high_mask_undefined: "bit_band cv [lua_int 0x80000000, v] = Inl BadCast"
  by (simp add: bit_band_def VARIADIC_def TOBIT_def luaL_checkinteger_def lua_tointeger_def tonumber_def cfloat_to_int_def cf_trunc_def)

end
