(* ===== verification/Spec2Isabelle.thy ===== *)
theory Spec2Isabelle
  imports Ticker_Safety Mqtt_Safety File_Server Dht Flash Ow_Module Pwm_Safety I2c_Device Tmr Gpio_Module Bit_Module
begin

text \<open>
  Verification of the firmware of an ESP8266 LED clock (\<open>src/nodemcu-firmware/app\<close>).

  The program. The firmware is NodeMCU, a Lua interpreter over the Espressif SDK, extended by
  the clock's own modules. Lua scripts call C modules (\<open>modules/\<close>); these keep their state in
  userdata objects and static variables, use the platform layer (\<open>platform/\<close>) and the drivers
  (\<open>driver/\<close>), and are called back by SDK timers, the network stack and interrupts. The parts
  modelled here are those with logic of their own:

  \<^item> the LED strip (\<open>modules/lpd8806.c\<close>) and the scrolling text display built on it
    (\<open>modules/lpd_ticker.c\<close>), which together are the clock's face;
  \<^item> the upload server (\<open>modules/file_server.c\<close>), through which scripts reach the device;
  \<^item> the MQTT packet codec (\<open>mqtt/mqtt_msg.c\<close>) and the client built on it (\<open>modules/mqtt.c\<close>);
  \<^item> the DHT temperature sensor (\<open>modules/dht.c\<close>);
  \<^item> byte access to the flash chip and its configuration (\<open>platform/common.c\<close>, \<open>platform/platform.c\<close>,
    \<open>platform/flash_api.c\<close>);
  \<^item> the 1-Wire driver and its module (\<open>driver/onewire.c\<close>, \<open>modules/ow.c\<close>);
  \<^item> the I2C master (\<open>driver/i2c_master.c\<close>, \<open>platform/platform.c\<close>, \<open>modules/i2c.c\<close>);
  \<^item> pulse width modulation (\<open>driver/pwm.c\<close>, \<open>platform/platform.c\<close>, \<open>modules/pwm.c\<close>);
  \<^item> alarms and the clock (\<open>modules/tmr.c\<close>), pins and their interrupts (\<open>modules/gpio.c\<close>, \<open>platform/platform.c\<close>), bit
    operations (\<open>modules/bit.c\<close>), and the references through which modules keep Lua functions (\<open>lua/lauxlib.c\<close>).

  How the model is built. A C function that can fail is a function into \<open>'a result\<close>: the left side of
  the sum is a Lua error, or an event that C leaves undefined or that corrupts memory (access
  out of bounds, null pointer, use of a freed block, misaligned pointer, division by zero, signed overflow,
  conversion out of range). A result is \<open>clean\<close> when it is
  not of the latter kind. A function with state is a \<open>handler\<close>, from a state record to a result and
  a new state; errors keep the changes made before them. Integers have their width (\<open>u8\<close>, \<open>u16\<close>, \<open>u32\<close>),
  floating point numbers are modelled with correct rounding (\<open>C_Float\<close>). Register writes are lists of
  events, pins that are read are functions of time or a bus that is a parameter. Definitions have
  the names of the C functions; parts of a long function have names of their own.

  Theories:

  \<^item> \<open>Prelude\<close>: results, handlers, arrays, loops, the invariant calculus \<open>keeps\<close>, the locales \<open>handled_up_to\<close>
    and \<open>handled\<close> (an interface whose admissible calls keep an invariant and end cleanly; its clients
    get facts about arbitrary sequences of calls), words and lists.
  \<^item> \<open>C_Float\<close>: double and float arithmetic as far as the modules use it.
  \<^item> \<open>Lua_Api\<close>: Lua values and the argument accessors of \<open>lua/lapi.c\<close> and \<open>lua/lauxlib.c\<close>.
  \<^item> \<open>Gpio\<close>: pins, modes and levels (\<open>platform_gpio_mode\<close>, \<open>platform_gpio_write\<close>), and the level a device
    on a pin sees.
  \<^item> \<open>Lpd8806\<close>: the LED strip. The clock edges of an update carry exactly the frame and its latch
    (refinement against a receiver); effects of colour changes; gamma table; safety of all call sequences.
  \<^item> \<open>Ticker\<close> and \<open>Ticker_Safety\<close>: the text display. The window shown by a tick, the end of the text,
    drawing of letters, the LED mapping, brightness in double arithmetic, safety of all sequences
    of calls, ticks and callbacks. The code of a scroll-finish callback is a value of \<open>lua_code\<close>: it may call the
    module again and go on by what the call returned; that its calls are in the ranges the module leaves
    to scripts is a hypothesis, as it is for the calls from outside.
  \<^item> \<open>Mqtt_Msg\<close>: builders and accessors of MQTT packets: round trip, buffer bounds.
  \<^item> \<open>Mqtt_Session\<close>, \<open>Mqtt_Delivery\<close>, \<open>Mqtt_Safety\<close>: the MQTT client. Delivery and answers of received segments,
    termination of the loop over their packets and the segments on which it does not end, the
    keepalive timer, safety of all sequences of calls, network events and ticks, with scripts that
    call the client from its callbacks. Two uses of freed memory are part of the model and the safety theorem
    leaves them out by its hypotheses: \<open>subscribe\<close> with a table of topics (\<open>subscribe_table_freed\<close>) and
    \<open>connect\<close> from the \<open>offline\<close> callback (\<open>mqtt_offline_reconnect\<close>). Delivery is stated for a
    script that does not call the client from its message callback, and for payloads that are not empty.
  \<^item> \<open>File_Server\<close>: the upload protocol: a packet is executed once however it is cut into segments;
    safety of all event sequences up to the one access that is out of bounds and the null pointer that is
    followed when a client connects while no server is registered.
  \<^item> \<open>Dht\<close>: decoding of the pulse train in all its timings, safety.
  \<^item> \<open>Flash\<close>: unaligned access over a word-granular NOR flash (a refinement), with the RAM addresses of the buffers: a write
    copies a misaligned source to an aligned block, a read is defined exactly when the words it is
    made of have aligned destinations (\<open>read_fits\<close>); chip configuration.
  \<^item> \<open>Onewire\<close>, \<open>Onewire_Search\<close>, \<open>Ow_Module\<close>: the bus, checksums against the bit-serial register, the device
    search enumerates every device of a bus once, safety of the module, with every driver call checked
    against the pin table.
  \<^item> \<open>Pwm\<close>, \<open>Pwm_Wave\<close>, \<open>Pwm_Safety\<close>: schedule compilation, the wave on every pin as the interrupt plays
    it, safety of calls and interrupts from boot on; slots, duties and schedules are arrays with checked accesses.
  \<^item> \<open>I2c\<close>, \<open>I2c_Device\<close>: the I2C master and an independent model of a device on the bus; what the device sees
    of a script that writes, and what a script gets that reads.
  \<^item> \<open>Registry\<close>: \<open>luaL_ref\<close> and \<open>luaL_unref\<close> with their list of free references; the locale \<open>ref_table\<close> is their
    contract, a finite map, with the facts on tables of callbacks that the next two theories rest on.
  \<^item> \<open>Tmr\<close>: an alarm calls the function it was set with; the clock is exact across wrap-arounds of its counter; delays;
    safety of all sequences of calls and expiring timers.
  \<^item> \<open>Gpio_Module\<close>: pin interrupts and the gpio module; an interrupt calls the function attached to the pin; safety of all
    sequences of calls, interrupts and mode changes by other drivers. A function is only called once \<open>gpio.mode\<close> has
    given the module its interpreter; before that the interrupt is served without it.
  \<^item> \<open>Bit_Module\<close>: bit operations, what they compute and where C leaves them undefined.

  Bounds and fuel. Loops are recursive over the data they walk; the one that need not end, over the
  packets of an MQTT segment, takes a number of rounds, and \<open>mqtt_receive_returns\<close> shows that one more than the
  bytes of the segment is enough when it ends at all. Where the C loop has a bound of its own (64 bits of a 1-Wire address, 85 transitions and
  255 samples of a DHT frame, 125 polls of a 1-Wire reset) the recursion is over that bound. Numbers that Lua
  passes are assumed to fit C integers where a theorem says so, as C leaves other conversions
  undefined.

  Parameters. Code outside the repository is an argument of the definitions that use it: number
  and string conversion of Lua (\<open>lua_conv\<close>), the network as a client sees it (\<open>net_env\<close>), the SDK flash calls, the 1-Wire line, the DHT line and
  clock, the file system calls and callbacks of the interpreter. Theorems that need something of
  them state it as a hypothesis and have a witness with a concrete instance.

  Not modelled: the Lua interpreter beyond the accessors (vendored); lwIP, the TLS library,
  SPIFFS, the Contiki JSON code and the libc replacements (vendored); the SDK glue (\<open>user/\<close>, \<open>upgrade/\<close>,
  \<open>smart/\<close>), which is mostly calls into binary libraries; the modules and drivers that only pass
  arguments to registers or the SDK (adc, wifi, node, uart, spi, ws2812); failing allocations except for the
  registry (beyond the head of its free list), the ticker and the flash writes; the network module (\<open>modules/net.c\<close>), which is built like the MQTT session, and the file
  module, a thin layer over SPIFFS.
\<close>

end
